(* ===== verification/Prelude.thy ===== *)
theory Prelude
  imports Complex_Main "HOL-Library.AList"
begin

text \<open>
  Shared vocabulary of the development: the exceptions the modelled Python code
  raises, insertion-ordered dictionaries as association lists (with the library's
  \<open>AList.update\<close> and \<open>AList.delete\<close>), counting lemmas over dictionary values, runs of
  operations and reachable states of a step relation, each with the invariant
  principle every stateful component instantiates.
\<close>

section \<open>Proof collections\<close>

named_theorems dict_simps \<open>look-ups after a dictionary update or deletion\<close>
named_theorems inv_simps \<open>definitions of the component invariants\<close>

section \<open>Values and exceptions of the modelled code\<close>

type_synonym uuid = nat
type_synonym path = string
type_synonym time = real

datatype py_exn =
    KeyError
  | ValueError string
  | TypeError string
  | RuntimeError string
  | External nat \<comment> \<open>an exception of code the caller supplies\<close>

text \<open>A method that may raise after it changed its object: the object it leaves and the outcome.\<close>

type_synonym ('s, 'a) outcome = "'s \<times> (py_exn + 'a)"

section \<open>Insertion-ordered dictionaries\<close>

text \<open>
  A Python dictionary keeps its keys in insertion order: assigning to a present key
  keeps its place, a new key goes last, deletion removes the pair.  An association
  list with distinct keys under \<open>AList.update\<close> and \<open>AList.delete\<close> behaves the same.
\<close>

abbreviation dict_ok :: "('k \<times> 'v) list \<Rightarrow> bool" where
  "dict_ok d \<equiv> distinct (map fst d)"

declare map_of_eq_Some_iff [simp del]

lemma map_of_dict_update [dict_simps]:
  "map_of (AList.update k v d) k' = (if k' = k then Some v else map_of d k')"
  by (simp add: update_conv')

lemma map_of_dict_delete [dict_simps]:
  "map_of (AList.delete k d) k' = (if k' = k then None else map_of d k')"
  by (simp add: delete_conv')

lemma dict_ok_update [simp]: "dict_ok d \<Longrightarrow> dict_ok (AList.update k v d)"
  by (rule distinct_update)

lemma dict_ok_delete [simp]: "dict_ok d \<Longrightarrow> dict_ok (AList.delete k d)"
  by (rule distinct_delete)

definition dict_count :: "('v \<Rightarrow> bool) \<Rightarrow> ('k \<times> 'v) list \<Rightarrow> nat" where
  "dict_count P d = length (filter (\<lambda>(k, v). P v) d)"

lemma dict_count_Nil [simp]: "dict_count P [] = 0"
  by (simp add: dict_count_def)

lemma dict_count_Cons [simp]:
  "dict_count P ((k, v) # d) = (if P v then Suc (dict_count P d) else dict_count P d)"
  by (simp add: dict_count_def)

lemma dict_count_update_new:
  "map_of d k = None \<Longrightarrow>
   dict_count P (AList.update k v d) = dict_count P d + (if P v then 1 else 0)"
  by (induction d) (auto split: if_splits)

lemma delete_absent: "k \<notin> fst ` set d \<Longrightarrow> AList.delete k d = d"
  by (simp add: delete_idem)

lemma dict_count_delete:
  "dict_ok d \<Longrightarrow> map_of d k = Some v \<Longrightarrow>
   dict_count P d = dict_count P (AList.delete k d) + (if P v then 1 else 0)"
proof (induction d)
  case Nil
  then show ?case by simp
next
  case (Cons p d)
  obtain k' v' where p: "p = (k', v')" by (cases p)
  show ?case
  proof (cases "k' = k")
    case True
    with Cons.prems p have "AList.delete k d = d" and "v' = v"
      by (auto intro: delete_absent)
    with True p show ?thesis by simp
  next
    case False
    with Cons p show ?thesis by (auto split: if_splits)
  qed
qed

lemma dict_count_pos:
  "map_of d k = Some v \<Longrightarrow> P v \<Longrightarrow> 0 < dict_count P d"
  by (induction d) (auto split: if_splits)

lemma dict_count_zero:
  "dict_count P d = 0 \<Longrightarrow> map_of d k = Some v \<Longrightarrow> \<not> P v"
  using dict_count_pos by fastforce

lemma dict_update_new: "map_of d k = None \<Longrightarrow> AList.update k v d = d @ [(k, v)]"
  by (induction d) (auto split: if_splits)

lemma dict_delete_update_new:
  "map_of d k = None \<Longrightarrow> AList.delete k (AList.update k v d) = d"
  by (induction d) (auto simp: AList.delete_eq filter_id_conv split: if_splits)

lemma dict_count_card:
  assumes "dict_ok d"
  shows "dict_count P d = card {k. \<exists>v. map_of d k = Some v \<and> P v}"
proof -
  let ?xs = "filter (\<lambda>p. P (snd p)) d"
  have "distinct (map fst ?xs)" using assms by (rule distinct_map_filter)
  then have "card (fst ` set ?xs) = length ?xs" using distinct_card by fastforce
  moreover have "fst ` set ?xs = {k. \<exists>v. map_of d k = Some v \<and> P v}"
    using assms by (force simp: map_of_eq_Some_iff image_iff)
  ultimately show ?thesis by (simp add: dict_count_def case_prod_unfold)
qed

section \<open>Runs and reachable states\<close>

fun run_ops :: "('s \<Rightarrow> 'op \<Rightarrow> 's) \<Rightarrow> 's \<Rightarrow> 'op list \<Rightarrow> 's" where
  "run_ops step s [] = s"
| "run_ops step s (x # xs) = run_ops step (step s x) xs"

fun ops_ok :: "('s \<Rightarrow> 'op \<Rightarrow> 's) \<Rightarrow> ('s \<Rightarrow> 'op \<Rightarrow> bool) \<Rightarrow> 's \<Rightarrow> 'op list \<Rightarrow> bool" where
  "ops_ok step ok s [] \<longleftrightarrow> True"
| "ops_ok step ok s (x # xs) \<longleftrightarrow> ok s x \<and> ops_ok step ok (step s x) xs"

text \<open>
  The contract the operations of one stateful component share: under the
  precondition \<open>ok\<close> of an operation, the component's invariant survives it.
\<close>

locale invariant_ops =
  fixes step :: "'s \<Rightarrow> 'op \<Rightarrow> 's"
    and ok :: "'s \<Rightarrow> 'op \<Rightarrow> bool"
    and inv :: "'s \<Rightarrow> bool"
  assumes step_inv: "inv s \<Longrightarrow> ok s x \<Longrightarrow> inv (step s x)"
begin

lemma run_inv: "inv s \<Longrightarrow> ops_ok step ok s xs \<Longrightarrow> inv (run_ops step s xs)"
  by (induction xs arbitrary: s) (auto intro: step_inv)

end

inductive reachable :: "('s \<Rightarrow> bool) \<Rightarrow> ('s \<Rightarrow> 's \<Rightarrow> bool) \<Rightarrow> 's \<Rightarrow> bool"
  for init :: "'s \<Rightarrow> bool" and step :: "'s \<Rightarrow> 's \<Rightarrow> bool" where
  reachable_init: "init s \<Longrightarrow> reachable init step s"
| reachable_step: "reachable init step s \<Longrightarrow> step s t \<Longrightarrow> reachable init step t"

text \<open>The same contract for a component whose steps are a relation.\<close>

locale step_invariant =
  fixes init :: "'s \<Rightarrow> bool"
    and step :: "'s \<Rightarrow> 's \<Rightarrow> bool"
    and inv :: "'s \<Rightarrow> bool"
  assumes init_inv: "init s \<Longrightarrow> inv s"
    and step_keeps: "step s t \<Longrightarrow> inv s \<Longrightarrow> inv t"
begin

lemma reachable_inv: "reachable init step s \<Longrightarrow> inv s"
  by (induction rule: reachable.induct) (auto intro: init_inv step_keeps)

end

lemma map_sum_Inr: "map_sum id f z = Inr y \<longleftrightarrow> (\<exists>x. z = Inr x \<and> y = f x)"
  by (cases z) auto

end
