(* ===== verification/Registry.thy ===== *)
theory Registry
  imports Prelude
begin

text \<open>
  The shared-runtime registry (\<open>workspace/registry.py\<close>): one warm runtime per
  workspace identity with a reference count, registry leases, and the binding of
  each session.  Every method runs under the registry's lock, so each is one atomic
  function on the registry's state.  The runtime factory and \<open>uuid4\<close> belong to the
  environment: an operation that may call them takes what the factory would return
  (a runtime or an exception) and the next identifier as arguments.
\<close>

section \<open>Data\<close>

record ('i, 'r) workspace_lease =
  wl_id :: uuid
  wl_identity :: 'i
  wl_runtime :: 'r

record ('i, 'r) workspace_binding =
  wb_lease :: "('i, 'r) workspace_lease"
  wb_subdir :: path

record 'i resolved_workspace =
  rw_identity :: 'i
  rw_subdir :: path

record ('i, 'r, 's) prepared_activation =
  pa_session :: 's
  pa_expected :: "('i, 'r) workspace_binding option"
  pa_binding :: "('i, 'r) workspace_binding"
  pa_provisional :: bool
  pa_created :: bool

record 'r runtime_state =
  rs_runtime :: 'r
  rs_reference_count :: int
  rs_idle_eligible :: bool

record 'r runtime_entry =
  re_runtime :: 'r
  re_count :: int

record ('i, 'r, 's) registry =
  reg_runtimes :: "('i \<times> 'r runtime_entry) list"
  reg_leases :: "(uuid \<times> ('i, 'r) workspace_lease) list"
  reg_bindings :: "('s \<times> ('i, 'r) workspace_binding) list"

abbreviation wb_identity :: "('i, 'r) workspace_binding \<Rightarrow> 'i" where
  "wb_identity b \<equiv> wl_identity (wb_lease b)"

abbreviation wb_runtime :: "('i, 'r) workspace_binding \<Rightarrow> 'r" where
  "wb_runtime b \<equiv> wl_runtime (wb_lease b)"

abbreviation wb_lease_id :: "('i, 'r) workspace_binding \<Rightarrow> uuid" where
  "wb_lease_id b \<equiv> wl_id (wb_lease b)"

definition reg_empty :: "('i, 'r, 's) registry" where
  "reg_empty = \<lparr>reg_runtimes = [], reg_leases = [], reg_bindings = []\<rparr>"

section \<open>Locked helpers\<close>

definition acquire_entry ::
    "uuid \<Rightarrow> 'i \<Rightarrow> 'r runtime_entry \<Rightarrow> ('i, 'r, 's) registry \<Rightarrow>
     ('i, 'r, 's) registry \<times> ('i, 'r) workspace_lease" where
  "acquire_entry new_id i entry R =
     (let entry' = entry\<lparr>re_count := re_count entry + 1\<rparr>;
          lease = \<lparr>wl_id = new_id, wl_identity = i, wl_runtime = re_runtime entry'\<rparr>
      in (R\<lparr>reg_runtimes := AList.update i entry' (reg_runtimes R),
            reg_leases := AList.update new_id lease (reg_leases R)\<rparr>, lease))"

definition acquire_locked ::
    "(py_exn + 'r) \<Rightarrow> uuid \<Rightarrow> 'i \<Rightarrow> ('i, 'r, 's) registry \<Rightarrow>
     (('i, 'r, 's) registry, ('i, 'r) workspace_lease) outcome" where
  "acquire_locked made new_id i R =
     (case map_of (reg_runtimes R) i of
        None \<Rightarrow>
          (case made of
             Inl e \<Rightarrow> (R, Inl e)
           | Inr r \<Rightarrow>
               (let entry = \<lparr>re_runtime = r, re_count = 0\<rparr>;
                    R1 = R\<lparr>reg_runtimes := AList.update i entry (reg_runtimes R)\<rparr>;
                    (R2, lease) = acquire_entry new_id i entry R1
                in (R2, Inr lease)))
      | Some entry \<Rightarrow>
          (let (R1, lease) = acquire_entry new_id i entry R in (R1, Inr lease)))"

definition release_locked ::
    "uuid \<Rightarrow> ('i, 'r, 's) registry \<Rightarrow> (('i, 'r, 's) registry, bool) outcome" where
  "release_locked lid R =
     (case map_of (reg_leases R) lid of
        None \<Rightarrow> (R, Inr False)
      | Some lease \<Rightarrow>
          (let R1 = R\<lparr>reg_leases := AList.delete lid (reg_leases R)\<rparr> in
           case map_of (reg_runtimes R1) (wl_identity lease) of
             None \<Rightarrow> (R1, Inl KeyError)
           | Some entry \<Rightarrow>
               (let entry' = entry\<lparr>re_count := re_count entry - 1\<rparr>;
                    R2 = R1\<lparr>reg_runtimes := AList.update (wl_identity lease) entry' (reg_runtimes R1)\<rparr>
                in if re_count entry' < 0
                   then (R2, Inl (RuntimeError ''workspace lease underflow''))
                   else (R2, Inr True))))"

definition abort_prepared_locked ::
    "('i, 'r, 's) prepared_activation \<Rightarrow> ('i, 'r, 's) registry \<Rightarrow>
     (('i, 'r, 's) registry, bool) outcome" where
  "abort_prepared_locked p R =
     (if \<not> pa_provisional p then (R, Inr False)
      else release_locked (wb_lease_id (pa_binding p)) R)"

section \<open>Public operations\<close>

definition activate ::
    "(py_exn + 'r) \<Rightarrow> uuid \<Rightarrow> 's \<Rightarrow> 'i resolved_workspace \<Rightarrow> ('i, 'r, 's) registry \<Rightarrow>
     (('i, 'r, 's) registry, ('i, 'r) workspace_binding) outcome" where
  "activate made new_id s resolved R =
     (let old = map_of (reg_bindings R) s;
          rebind = (case old of
                      Some b \<Rightarrow> wb_identity b = rw_identity resolved
                    | None \<Rightarrow> False)
      in if rebind then
           (let b = \<lparr>wb_lease = wb_lease (the old), wb_subdir = rw_subdir resolved\<rparr>
            in (R\<lparr>reg_bindings := AList.update s b (reg_bindings R)\<rparr>, Inr b))
         else
           (case acquire_locked made new_id (rw_identity resolved) R of
              (R1, Inl e) \<Rightarrow> (R1, Inl e)
            | (R1, Inr lease) \<Rightarrow>
                (let b = \<lparr>wb_lease = lease, wb_subdir = rw_subdir resolved\<rparr>;
                     R2 = R1\<lparr>reg_bindings := AList.update s b (reg_bindings R1)\<rparr>
                 in case old of
                      None \<Rightarrow> (R2, Inr b)
                    | Some ob \<Rightarrow>
                        (case release_locked (wb_lease_id ob) R2 of
                           (R3, Inl e) \<Rightarrow> (R3, Inl e)
                         | (R3, Inr _) \<Rightarrow> (R3, Inr b)))))"

definition activate_path ::
    "(path \<Rightarrow> py_exn + 'i resolved_workspace) \<Rightarrow> (py_exn + 'r) \<Rightarrow> uuid \<Rightarrow> 's \<Rightarrow> path \<Rightarrow>
     ('i, 'r, 's) registry \<Rightarrow> (('i, 'r, 's) registry, ('i, 'r) workspace_binding) outcome" where
  "activate_path resolver made new_id s activation_path R =
     (case resolver activation_path of
        Inl e \<Rightarrow> (R, Inl e)
      | Inr resolved \<Rightarrow> activate made new_id s resolved R)"

definition prepare_activation ::
    "(py_exn + 'r) \<Rightarrow> uuid \<Rightarrow> 's \<Rightarrow> 'i resolved_workspace \<Rightarrow> ('i, 'r, 's) registry \<Rightarrow>
     (('i, 'r, 's) registry, ('i, 'r, 's) prepared_activation) outcome" where
  "prepare_activation made new_id s resolved R =
     (let expected = map_of (reg_bindings R) s;
          same_root = (case expected of
                         Some b \<Rightarrow> wb_identity b = rw_identity resolved
                       | None \<Rightarrow> False)
      in if same_root then
           (R, Inr \<lparr>pa_session = s, pa_expected = expected,
                    pa_binding = \<lparr>wb_lease = wb_lease (the expected), wb_subdir = rw_subdir resolved\<rparr>,
                    pa_provisional = False, pa_created = False\<rparr>)
         else
           (let created = (map_of (reg_runtimes R) (rw_identity resolved) = None) in
            case acquire_locked made new_id (rw_identity resolved) R of
              (R1, Inl e) \<Rightarrow> (R1, Inl e)
            | (R1, Inr lease) \<Rightarrow>
                (R1, Inr \<lparr>pa_session = s, pa_expected = expected,
                          pa_binding = \<lparr>wb_lease = lease, wb_subdir = rw_subdir resolved\<rparr>,
                          pa_provisional = True, pa_created = created\<rparr>)))"

definition commit_activation ::
    "('i, 'r, 's) prepared_activation \<Rightarrow> ('i, 'r, 's) registry \<Rightarrow>
     (('i, 'r, 's) registry, ('i, 'r) workspace_binding) outcome" where
  "commit_activation p R =
     (let current = map_of (reg_bindings R) (pa_session p);
          b = pa_binding p
      in if current \<noteq> pa_expected p then
           (case abort_prepared_locked p R of
              (R1, Inl e) \<Rightarrow> (R1, Inl e)
            | (R1, Inr _) \<Rightarrow> (R1, Inl (RuntimeError ''workspace binding changed before activation commit'')))
         else if pa_provisional p \<and> map_of (reg_leases R) (wb_lease_id b) \<noteq> Some (wb_lease b) then
           (case abort_prepared_locked p R of
              (R1, Inl e) \<Rightarrow> (R1, Inl e)
            | (R1, Inr _) \<Rightarrow> (R1, Inl (RuntimeError ''prepared workspace lease is no longer active'')))
         else
           (let R1 = R\<lparr>reg_bindings := AList.update (pa_session p) b (reg_bindings R)\<rparr> in
            case pa_expected p of
              Some ob \<Rightarrow>
                (if pa_provisional p then
                   (case release_locked (wb_lease_id ob) R1 of
                      (R2, Inl e) \<Rightarrow> (R2, Inl e)
                    | (R2, Inr _) \<Rightarrow> (R2, Inr b))
                 else (R1, Inr b))
            | None \<Rightarrow> (R1, Inr b)))"

definition abort_activation ::
    "('i, 'r, 's) prepared_activation \<Rightarrow> ('i, 'r, 's) registry \<Rightarrow>
     (('i, 'r, 's) registry, bool) outcome" where
  "abort_activation p R = abort_prepared_locked p R"

definition reg_binding_for ::
    "'s \<Rightarrow> ('i, 'r, 's) registry \<Rightarrow> ('i, 'r) workspace_binding option" where
  "reg_binding_for s R = map_of (reg_bindings R) s"

definition reg_release :: "'s \<Rightarrow> ('i, 'r, 's) registry \<Rightarrow> (('i, 'r, 's) registry, bool) outcome" where
  "reg_release s R =
     (case map_of (reg_bindings R) s of
        None \<Rightarrow> (R, Inr False)
      | Some b \<Rightarrow>
          release_locked (wb_lease_id b)
            (R\<lparr>reg_bindings := AList.delete s (reg_bindings R)\<rparr>))"

text \<open>The loop of \<open>release_lease\<close> over a copy of the bindings deletes each that holds the lease.\<close>

fun detach_bindings ::
    "uuid \<Rightarrow> ('s \<times> ('i, 'r) workspace_binding) list \<Rightarrow>
     ('s \<times> ('i, 'r) workspace_binding) list \<Rightarrow> ('s \<times> ('i, 'r) workspace_binding) list" where
  "detach_bindings lid [] d = d"
| "detach_bindings lid ((s, b) # items) d =
     detach_bindings lid items (if wb_lease_id b = lid then AList.delete s d else d)"

definition reg_release_lease ::
    "uuid \<Rightarrow> ('i, 'r, 's) registry \<Rightarrow> (('i, 'r, 's) registry, bool) outcome" where
  "reg_release_lease lid R =
     (case map_of (reg_leases R) lid of
        None \<Rightarrow> (R, Inr False)
      | Some lease \<Rightarrow>
          release_locked (wl_id lease)
            (R\<lparr>reg_bindings := detach_bindings lid (reg_bindings R) (reg_bindings R)\<rparr>))"

definition runtime_state_of :: "'i \<Rightarrow> ('i, 'r, 's) registry \<Rightarrow> 'r runtime_state option" where
  "runtime_state_of i R =
     (case map_of (reg_runtimes R) i of
        None \<Rightarrow> None
      | Some entry \<Rightarrow>
          Some \<lparr>rs_runtime = re_runtime entry, rs_reference_count = re_count entry,
                rs_idle_eligible = (re_count entry = 0)\<rparr>)"

definition retire_idle ::
    "'i \<Rightarrow> 'r \<Rightarrow> ('i, 'r, 's) registry \<Rightarrow> ('i, 'r, 's) registry \<times> 'r option" where
  "retire_idle i expected R =
     (case map_of (reg_runtimes R) i of
        None \<Rightarrow> (R, None)
      | Some entry \<Rightarrow>
          (if re_runtime entry \<noteq> expected \<or> re_count entry \<noteq> 0 then (R, None)
           else (R\<lparr>reg_runtimes := AList.delete i (reg_runtimes R)\<rparr>, Some (re_runtime entry))))"

section \<open>Invariant\<close>

definition lease_refs :: "'i \<Rightarrow> ('i, 'r, 's) registry \<Rightarrow> nat" where
  "lease_refs i R = dict_count (\<lambda>l. wl_identity l = i) (reg_leases R)"

definition runtime_of :: "('i, 'r, 's) registry \<Rightarrow> 'i \<Rightarrow> 'r option" where
  "runtime_of R i = map_option re_runtime (map_of (reg_runtimes R) i)"

definition live_lease :: "('i, 'r, 's) registry \<Rightarrow> uuid \<Rightarrow> ('i, 'r) workspace_lease option" where
  "live_lease R = map_of (reg_leases R)"

text \<open>
  The counting part: every live lease names a retained runtime of its identity and a
  reference count is the number of live leases on that identity.
\<close>

definition reg_core :: "('i, 'r, 's) registry \<Rightarrow> bool" where
  "reg_core R \<longleftrightarrow>
     dict_ok (reg_runtimes R) \<and> dict_ok (reg_leases R) \<and> dict_ok (reg_bindings R) \<and>
     (\<forall>lid l. live_lease R lid = Some l \<longrightarrow>
        wl_id l = lid \<and> runtime_of R (wl_identity l) = Some (wl_runtime l)) \<and>
     (\<forall>i e. map_of (reg_runtimes R) i = Some e \<longrightarrow> re_count e = int (lease_refs i R))"

text \<open>The binding part: a session is bound through a live lease that no other session holds.\<close>

definition bindings_ok :: "('i, 'r, 's) registry \<Rightarrow> bool" where
  "bindings_ok R \<longleftrightarrow>
     (\<forall>s b. map_of (reg_bindings R) s = Some b \<longrightarrow>
        live_lease R (wb_lease_id b) = Some (wb_lease b)) \<and>
     (\<forall>s s' b b'. map_of (reg_bindings R) s = Some b \<longrightarrow> map_of (reg_bindings R) s' = Some b' \<longrightarrow>
        wb_lease_id b = wb_lease_id b' \<longrightarrow> s = s')"

definition reg_inv :: "('i, 'r, 's) registry \<Rightarrow> bool" where
  "reg_inv R \<longleftrightarrow> reg_core R \<and> bindings_ok R"

definition unbound :: "('i, 'r, 's) registry \<Rightarrow> uuid \<Rightarrow> bool" where
  "unbound R lid \<longleftrightarrow> (\<forall>s b. map_of (reg_bindings R) s = Some b \<longrightarrow> wb_lease_id b \<noteq> lid)"

lemmas reg_inv_defs [inv_simps] = reg_inv_def reg_core_def bindings_ok_def

lemma reg_empty_inv [simp]: "reg_inv reg_empty"
  by (simp add: inv_simps reg_empty_def live_lease_def)

lemma reg_core_liveD:
  "reg_core R \<Longrightarrow> live_lease R lid = Some l \<Longrightarrow> wl_id l = lid"
  "reg_core R \<Longrightarrow> live_lease R lid = Some l \<Longrightarrow> runtime_of R (wl_identity l) = Some (wl_runtime l)"
  by (auto simp: reg_core_def)

lemma reg_core_count:
  "reg_core R \<Longrightarrow> map_of (reg_runtimes R) i = Some e \<Longrightarrow> re_count e = int (lease_refs i R)"
  by (auto simp: reg_core_def)

lemma reg_core_entry:
  assumes "reg_core R" and "live_lease R lid = Some l"
  obtains e where "map_of (reg_runtimes R) (wl_identity l) = Some e"
    and "re_runtime e = wl_runtime l" and "re_count e = int (lease_refs (wl_identity l) R)"
    and "0 < re_count e"
proof -
  from reg_core_liveD(2) [OF assms] obtain e where
    e: "map_of (reg_runtimes R) (wl_identity l) = Some e" "re_runtime e = wl_runtime l"
    by (auto simp: runtime_of_def)
  from assms(1) e(1) have c: "re_count e = int (lease_refs (wl_identity l) R)"
    by (rule reg_core_count)
  have "0 < lease_refs (wl_identity l) R"
    using assms(2) by (auto simp: lease_refs_def live_lease_def intro: dict_count_pos)
  with e c that show ?thesis by simp
qed

section \<open>What the locked helpers do to a registry that satisfies the invariant\<close>

lemma acquire_entry_fields:
  assumes "acquire_entry lid i entry R = (R', l)"
  shows "l = \<lparr>wl_id = lid, wl_identity = i, wl_runtime = re_runtime entry\<rparr>"
    and "reg_bindings R' = reg_bindings R"
    and "reg_leases R' = AList.update lid l (reg_leases R)"
    and "reg_runtimes R' =
           AList.update i (entry\<lparr>re_count := re_count entry + 1\<rparr>) (reg_runtimes R)"
  using assms by (auto simp: acquire_entry_def Let_def)

lemma acquire_entry_core:
  assumes core: "reg_core R" and entry: "map_of (reg_runtimes R) i = Some entry"
    and new: "live_lease R lid = None" and acq: "acquire_entry lid i entry R = (R', l)"
  shows "reg_core R'"
proof -
  note f = acquire_entry_fields [OF acq]
  have refs: "lease_refs j R' = lease_refs j R + (if j = i then 1 else 0)" for j
    using new by (auto simp: lease_refs_def f(1,3) live_lease_def dict_count_update_new)
  have rt: "runtime_of R' = runtime_of R"
    using entry by (auto simp: runtime_of_def f(4) dict_simps fun_eq_iff)
  have live: "live_lease R' = (live_lease R)(lid \<mapsto> l)"
    by (auto simp: live_lease_def f(3) dict_simps fun_eq_iff)
  have li: "runtime_of R i = Some (re_runtime entry)"
    using entry by (simp add: runtime_of_def)
  have counts: "re_count e = int (lease_refs j R')" if "map_of (reg_runtimes R') j = Some e" for j e
    using that core entry
    by (auto simp: f(4) dict_simps refs reg_core_count split: if_splits)
  have ok: "dict_ok (reg_runtimes R') \<and> dict_ok (reg_leases R') \<and> dict_ok (reg_bindings R')"
    using core by (simp add: f(2-4) reg_core_def)
  have leases: "wl_id m = k \<and> runtime_of R (wl_identity m) = Some (wl_runtime m)"
    if "live_lease R' k = Some m" for k m
    using that core li by (auto simp: live f(1) reg_core_def split: if_splits)
  from counts ok leases show ?thesis by (auto simp: reg_core_def rt)
qed

lemma fresh_entry_core:
  assumes core: "reg_core R" and none: "map_of (reg_runtimes R) i = None"
  shows "reg_core (R\<lparr>reg_runtimes := AList.update i \<lparr>re_runtime = r, re_count = 0\<rparr> (reg_runtimes R)\<rparr>)"
proof -
  have free: "wl_identity l \<noteq> i" if "live_lease R lid = Some l" for lid l
    using reg_core_liveD(2) [OF core that] none by (auto simp: runtime_of_def)
  have "lease_refs i R = 0"
  proof (rule ccontr)
    assume "lease_refs i R \<noteq> 0"
    then obtain p where "p \<in> set (reg_leases R)" "wl_identity (snd p) = i"
      by (auto simp: lease_refs_def dict_count_def filter_empty_conv)
    with core have "live_lease R (fst p) = Some (snd p)"
      by (auto simp: live_lease_def reg_core_def intro: map_of_is_SomeI)
    with free \<open>wl_identity (snd p) = i\<close> show False by blast
  qed
  with core free show ?thesis
    by (auto simp: reg_core_def live_lease_def lease_refs_def runtime_of_def dict_simps
        split: if_splits)
qed

lemma acquire_locked_ok:
  assumes core: "reg_core R" and new: "live_lease R lid = None"
    and acq: "acquire_locked made lid i R = (R', Inr l)"
  shows "reg_core R'" and "reg_bindings R' = reg_bindings R"
    and "live_lease R' = (live_lease R)(lid \<mapsto> l)"
    and "wl_id l = lid" and "wl_identity l = i"
    and "runtime_of R' = (runtime_of R)(i \<mapsto> wl_runtime l)"
    and "runtime_of R i = None \<Longrightarrow> made = Inr (wl_runtime l)"
    and "runtime_of R i \<noteq> None \<Longrightarrow> runtime_of R i = Some (wl_runtime l)"
proof -
  have "reg_core R' \<and> reg_bindings R' = reg_bindings R \<and>
    live_lease R' = (live_lease R)(lid \<mapsto> l) \<and> wl_id l = lid \<and> wl_identity l = i \<and>
    runtime_of R' = (runtime_of R)(i \<mapsto> wl_runtime l) \<and>
    (runtime_of R i = None \<longrightarrow> made = Inr (wl_runtime l)) \<and>
    (runtime_of R i \<noteq> None \<longrightarrow> runtime_of R i = Some (wl_runtime l))"
  proof (cases "map_of (reg_runtimes R) i")
    case None
    with acq obtain r where made: "made = Inr r"
      by (auto simp: acquire_locked_def Let_def split: sum.splits prod.splits)
    define R1 where "R1 = R\<lparr>reg_runtimes := AList.update i \<lparr>re_runtime = r, re_count = 0\<rparr> (reg_runtimes R)\<rparr>"
    from None made acq have ae: "acquire_entry lid i \<lparr>re_runtime = r, re_count = 0\<rparr> R1 = (R', l)"
      by (auto simp: acquire_locked_def R1_def Let_def split: prod.splits)
    have "reg_core R1"
      unfolding R1_def by (rule fresh_entry_core [OF core None])
    then have "reg_core R'"
      by (rule acquire_entry_core [OF _ _ _ ae])
        (use new in \<open>simp_all add: R1_def live_lease_def dict_simps\<close>)
    with None made acquire_entry_fields [OF ae] show ?thesis
      by (auto simp: R1_def live_lease_def runtime_of_def dict_simps fun_eq_iff)
  next
    case (Some entry)
    with acq have ae: "acquire_entry lid i entry R = (R', l)"
      by (auto simp: acquire_locked_def Let_def split: prod.splits)
    from core Some new ae have "reg_core R'"
      by (rule acquire_entry_core)
    with Some acquire_entry_fields [OF ae] show ?thesis
      by (auto simp: live_lease_def runtime_of_def dict_simps fun_eq_iff)
  qed
  then show "reg_core R'" "reg_bindings R' = reg_bindings R"
    "live_lease R' = (live_lease R)(lid \<mapsto> l)" "wl_id l = lid" "wl_identity l = i"
    "runtime_of R' = (runtime_of R)(i \<mapsto> wl_runtime l)"
    "runtime_of R i = None \<Longrightarrow> made = Inr (wl_runtime l)"
    "runtime_of R i \<noteq> None \<Longrightarrow> runtime_of R i = Some (wl_runtime l)"
    by auto
qed

lemma acquire_locked_error:
  "acquire_locked made lid i R = (R', Inl e) \<Longrightarrow> R' = R \<and> made = Inl e \<and> runtime_of R i = None"
  by (auto simp: acquire_locked_def Let_def runtime_of_def split: option.splits sum.splits prod.splits)

lemma release_locked_ok:
  assumes core: "reg_core R"
  shows "\<exists>R'. release_locked lid R = (R', Inr (live_lease R lid \<noteq> None)) \<and> reg_core R' \<and>
    reg_bindings R' = reg_bindings R \<and> live_lease R' = (live_lease R)(lid := None) \<and>
    runtime_of R' = runtime_of R"
proof (cases "live_lease R lid")
  case None
  with core show ?thesis
    by (auto simp: release_locked_def live_lease_def fun_upd_idem)
next
  case (Some l)
  from reg_core_entry [OF core Some] obtain e where
    e: "map_of (reg_runtimes R) (wl_identity l) = Some e"
      "re_runtime e = wl_runtime l" "re_count e = int (lease_refs (wl_identity l) R)" "0 < re_count e" .
  define R' where "R' = R\<lparr>reg_leases := AList.delete lid (reg_leases R),
    reg_runtimes := AList.update (wl_identity l) (e\<lparr>re_count := re_count e - 1\<rparr>) (reg_runtimes R)\<rparr>"
  have eq: "release_locked lid R = (R', Inr True)"
    using Some e by (simp add: release_locked_def live_lease_def R'_def Let_def)
  have refs: "lease_refs j R = lease_refs j R' + (if wl_identity l = j then 1 else 0)" for j
    using core Some
    by (auto simp: lease_refs_def R'_def live_lease_def reg_core_def dict_count_delete)
  have rt: "runtime_of R' = runtime_of R"
    using e by (auto simp: runtime_of_def R'_def dict_simps fun_eq_iff)
  have live: "live_lease R' = (live_lease R)(lid := None)"
    by (auto simp: live_lease_def R'_def dict_simps fun_eq_iff)
  have counts: "re_count e' = int (lease_refs i R')" if "map_of (reg_runtimes R') i = Some e'" for i e'
  proof (cases "i = wl_identity l")
    case True
    with that have "re_count e' = re_count e - 1" by (auto simp: R'_def dict_simps)
    with True e(3) refs [of i] show ?thesis by simp
  next
    case False
    with that have "map_of (reg_runtimes R) i = Some e'" by (simp add: R'_def dict_simps)
    with core False refs [of i] show ?thesis by (auto dest: reg_core_count)
  qed
  have "reg_core R'"
    unfolding reg_core_def
    using core by (auto simp: live rt counts) (auto simp: R'_def reg_core_def)
  with eq Some rt live show ?thesis by (auto simp: R'_def)
qed

lemmas release_locked_cases = release_locked_ok [THEN exE]

section \<open>Every operation keeps the invariant\<close>

lemma live_lease_bindings [simp]: "live_lease (R\<lparr>reg_bindings := d\<rparr>) = live_lease R"
  by (simp add: live_lease_def)

lemma runtime_of_bindings [simp]: "runtime_of (R\<lparr>reg_bindings := d\<rparr>) = runtime_of R"
  by (simp add: runtime_of_def fun_eq_iff)

lemma lease_refs_bindings [simp]: "lease_refs i (R\<lparr>reg_bindings := d\<rparr>) = lease_refs i R"
  by (simp add: lease_refs_def)

lemma reg_core_bindings: "reg_core R \<Longrightarrow> dict_ok d \<Longrightarrow> reg_core (R\<lparr>reg_bindings := d\<rparr>)"
  unfolding reg_core_def by simp

lemma bindings_okD:
  "bindings_ok R \<Longrightarrow> map_of (reg_bindings R) s = Some b \<Longrightarrow> live_lease R (wb_lease_id b) = Some (wb_lease b)"
  "bindings_ok R \<Longrightarrow> map_of (reg_bindings R) s = Some b \<Longrightarrow> map_of (reg_bindings R) s' = Some b' \<Longrightarrow>
     wb_lease_id b = wb_lease_id b' \<Longrightarrow> s = s'"
  unfolding bindings_ok_def by blast+

lemma bindings_okI_release:
  assumes "bindings_ok R" and "unbound R' lid"
    and "\<And>s b. map_of (reg_bindings R') s = Some b \<Longrightarrow> map_of (reg_bindings R) s = Some b"
    and "live_lease R' = (live_lease R)(lid := None)"
  shows "bindings_ok R'"
  unfolding bindings_ok_def
proof (intro conjI allI impI)
  fix s b assume b: "map_of (reg_bindings R') s = Some b"
  with assms(2) have "wb_lease_id b \<noteq> lid" unfolding unbound_def by blast
  with bindings_okD(1) [OF assms(1) assms(3) [OF b]] assms(4)
  show "live_lease R' (wb_lease_id b) = Some (wb_lease b)" by simp
next
  fix s s' b b'
  assume "map_of (reg_bindings R') s = Some b" "map_of (reg_bindings R') s' = Some b'"
    "wb_lease_id b = wb_lease_id b'"
  then show "s = s'" using assms(3) bindings_okD(2) [OF assms(1)] by blast
qed

lemma release_locked_inv:
  assumes "reg_inv R" and "unbound R lid"
  shows "reg_inv (fst (release_locked lid R))"
    and "snd (release_locked lid R) = Inr (live_lease R lid \<noteq> None)"
proof -
  from assms(1) have "reg_core R" by (simp add: reg_inv_def)
  from release_locked_ok [OF this, of lid] obtain R' where
    R': "release_locked lid R = (R', Inr (live_lease R lid \<noteq> None))" "reg_core R'"
      "reg_bindings R' = reg_bindings R" "live_lease R' = (live_lease R)(lid := None)" by auto
  have "bindings_ok R'"
    by (rule bindings_okI_release [of R _ lid]) (use assms R' in \<open>auto simp: reg_inv_def unbound_def\<close>)
  with R' show "reg_inv (fst (release_locked lid R))"
    "snd (release_locked lid R) = Inr (live_lease R lid \<noteq> None)"
    by (simp_all add: reg_inv_def)
qed

lemma reg_inv_rebind:
  assumes inv: "reg_inv R" and old: "map_of (reg_bindings R) s = Some ob" and same: "wb_lease b = wb_lease ob"
  shows "reg_inv (R\<lparr>reg_bindings := AList.update s b (reg_bindings R)\<rparr>)"
proof -
  let ?R = "R\<lparr>reg_bindings := AList.update s b (reg_bindings R)\<rparr>"
  from inv have core: "reg_core R" and bs: "bindings_ok R" by (simp_all add: reg_inv_def)
  have pre: "\<exists>b'. map_of (reg_bindings R) t = Some b' \<and> wb_lease b' = wb_lease c"
    if "map_of (reg_bindings ?R) t = Some c" for t c
    using that old same by (auto simp: dict_simps split: if_splits)
  have "bindings_ok ?R"
    unfolding bindings_ok_def live_lease_bindings
  proof (intro conjI allI impI)
    fix t c assume "map_of (reg_bindings ?R) t = Some c"
    from pre [OF this] show "live_lease R (wb_lease_id c) = Some (wb_lease c)"
      using bindings_okD(1) [OF bs, of t] by auto
  next
    fix t t' c c'
    assume *: "map_of (reg_bindings ?R) t = Some c" "map_of (reg_bindings ?R) t' = Some c'"
      "wb_lease_id c = wb_lease_id c'"
    from pre [OF *(1)] pre [OF *(2)] obtain d d' where
      "map_of (reg_bindings R) t = Some d" "wb_lease d = wb_lease c"
      "map_of (reg_bindings R) t' = Some d'" "wb_lease d' = wb_lease c'" by blast
    with *(3) bindings_okD(2) [OF bs, of t d t' d'] show "t = t'" by simp
  qed
  moreover have "reg_core ?R"
    using core by (auto intro!: reg_core_bindings simp: reg_core_def)
  ultimately show ?thesis by (simp add: reg_inv_def)
qed

lemma reg_inv_bind_new:
  assumes inv: "reg_inv R" and live: "live_lease R (wb_lease_id b) = Some (wb_lease b)"
    and free: "unbound R (wb_lease_id b)"
  shows "reg_inv (R\<lparr>reg_bindings := AList.update s b (reg_bindings R)\<rparr>)"
proof -
  let ?R = "R\<lparr>reg_bindings := AList.update s b (reg_bindings R)\<rparr>"
  from inv have core: "reg_core R" and bs: "bindings_ok R" by (simp_all add: reg_inv_def)
  have pre: "t = s \<and> c = b \<or> t \<noteq> s \<and> map_of (reg_bindings R) t = Some c \<and> wb_lease_id c \<noteq> wb_lease_id b"
    if "map_of (reg_bindings ?R) t = Some c" for t c
  proof (cases "t = s")
    case True
    with that show ?thesis by (simp add: dict_simps)
  next
    case False
    with that have "map_of (reg_bindings R) t = Some c" by (simp add: dict_simps)
    with False free show ?thesis unfolding unbound_def by blast
  qed
  have "bindings_ok ?R"
    unfolding bindings_ok_def live_lease_bindings
  proof (intro conjI allI impI)
    fix t c assume "map_of (reg_bindings ?R) t = Some c"
    from pre [OF this] live bindings_okD(1) [OF bs, of t c]
    show "live_lease R (wb_lease_id c) = Some (wb_lease c)" by auto
  next
    fix t t' c c'
    assume *: "map_of (reg_bindings ?R) t = Some c" "map_of (reg_bindings ?R) t' = Some c'"
      "wb_lease_id c = wb_lease_id c'"
    from pre [OF *(1)] pre [OF *(2)] *(3) show "t = t'"
      using bindings_okD(2) [OF bs, of t c t' c'] by metis
  qed
  moreover have "reg_core ?R"
    using core by (auto intro!: reg_core_bindings simp: reg_core_def)
  ultimately show ?thesis by (simp add: reg_inv_def)
qed

lemma reg_inv_live_unbound_new:
  assumes "reg_inv R" and "live_lease R lid = None"
  shows "unbound R lid"
  unfolding unbound_def
proof (intro allI impI notI)
  fix s b assume "map_of (reg_bindings R) s = Some b" "wb_lease_id b = lid"
  with assms bindings_okD(1) [of R s b] show False by (simp add: reg_inv_def)
qed

lemma unbound_replaced:
  assumes "reg_inv R" and "map_of (reg_bindings R) s = Some ob" and "wb_lease_id b \<noteq> wb_lease_id ob"
  shows "unbound (R\<lparr>reg_bindings := AList.update s b (reg_bindings R)\<rparr>) (wb_lease_id ob)"
  unfolding unbound_def
proof (intro allI impI notI)
  fix t c
  assume "map_of (reg_bindings (R\<lparr>reg_bindings := AList.update s b (reg_bindings R)\<rparr>)) t = Some c"
    and eq: "wb_lease_id c = wb_lease_id ob"
  with assms(3) have "t \<noteq> s" "map_of (reg_bindings R) t = Some c"
    by (auto simp: dict_simps split: if_splits)
  with assms(1,2) eq bindings_okD(2) [of R t c s ob] show False by (simp add: reg_inv_def)
qed

text \<open>
  \<open>bind_and_release\<close>: publishing a binding on an unshared live lease and then releasing the
  lease of the binding it replaces, the common tail of \<open>activate\<close> and \<open>commit_activation\<close>.
\<close>

lemma bind_and_release:
  assumes inv: "reg_inv R" and live: "live_lease R (wb_lease_id b) = Some (wb_lease b)"
    and free: "unbound R (wb_lease_id b)" and old: "map_of (reg_bindings R) s = Some ob"
  shows "\<exists>R'. release_locked (wb_lease_id ob) (R\<lparr>reg_bindings := AList.update s b (reg_bindings R)\<rparr>) = (R', Inr True) \<and>
    reg_inv R' \<and> map_of (reg_bindings R') = (map_of (reg_bindings R))(s \<mapsto> b) \<and>
    live_lease R' = (live_lease R)(wb_lease_id ob := None) \<and> runtime_of R' = runtime_of R"
proof -
  let ?R1 = "R\<lparr>reg_bindings := AList.update s b (reg_bindings R)\<rparr>"
  from inv live free have inv1: "reg_inv ?R1" by (rule reg_inv_bind_new)
  then have core1: "reg_core ?R1" by (simp add: reg_inv_def)
  have old_live: "live_lease R (wb_lease_id ob) = Some (wb_lease ob)"
    using inv old bindings_okD(1) by (auto simp: reg_inv_def)
  have ne: "wb_lease_id b \<noteq> wb_lease_id ob"
    using free old unfolding unbound_def by metis
  have ub: "unbound ?R1 (wb_lease_id ob)"
    by (rule unbound_replaced [OF inv old ne])
  from release_locked_ok [OF core1, of "wb_lease_id ob"] obtain R' where
    R': "release_locked (wb_lease_id ob) ?R1 = (R', Inr (live_lease ?R1 (wb_lease_id ob) \<noteq> None))"
      "reg_bindings R' = reg_bindings ?R1"
      "live_lease R' = (live_lease ?R1)(wb_lease_id ob := None)" "runtime_of R' = runtime_of ?R1"
    by auto
  moreover from release_locked_inv [OF inv1 ub] R'(1) have "reg_inv R'" by simp
  ultimately show ?thesis
    using old_live by (auto simp: dict_simps fun_eq_iff)
qed

lemma acquire_locked_inv:
  assumes inv: "reg_inv R" and new: "live_lease R lid = None"
    and acq: "acquire_locked made lid i R = (R', Inr l)"
  shows "reg_inv R'" and "unbound R' lid"
proof -
  from inv have core: "reg_core R" and bs: "bindings_ok R" by (simp_all add: reg_inv_def)
  note a = acquire_locked_ok [OF core new acq]
  have ub: "unbound R lid" by (rule reg_inv_live_unbound_new [OF inv new])
  then show "unbound R' lid" by (simp add: unbound_def a(2))
  have "bindings_ok R'"
    unfolding bindings_ok_def a(2,3)
  proof (intro conjI allI impI)
    fix s b assume b: "map_of (reg_bindings R) s = Some b"
    with ub have "wb_lease_id b \<noteq> lid" unfolding unbound_def by blast
    with bindings_okD(1) [OF bs b] show "((live_lease R)(lid \<mapsto> l)) (wb_lease_id b) = Some (wb_lease b)"
      by simp
  qed (rule bindings_okD(2) [OF bs])
  with a(1) show "reg_inv R'" by (simp add: reg_inv_def)
qed

text \<open>\<open>activate\<close>: the binding of the session is the result; no other session is touched.\<close>

lemma activate_ok:
  assumes inv: "reg_inv R" and new: "live_lease R lid = None"
  shows "reg_inv (fst (activate made lid s rw R))"
    and "snd (activate made lid s rw R) = Inr b \<Longrightarrow>
      map_of (reg_bindings (fst (activate made lid s rw R))) = (map_of (reg_bindings R))(s \<mapsto> b) \<and>
      wb_identity b = rw_identity rw \<and> wb_subdir b = rw_subdir rw"
    and "snd (activate made lid s rw R) = Inl e \<Longrightarrow>
      fst (activate made lid s rw R) = R \<and> made = Inl e"
proof -
  let ?out = "activate made lid s rw R"
  have "reg_inv (fst ?out) \<and>
    (\<forall>b. snd ?out = Inr b \<longrightarrow> map_of (reg_bindings (fst ?out)) = (map_of (reg_bindings R))(s \<mapsto> b) \<and>
      wb_identity b = rw_identity rw \<and> wb_subdir b = rw_subdir rw) \<and>
    (\<forall>e. snd ?out = Inl e \<longrightarrow> fst ?out = R \<and> made = Inl e)"
  proof (cases "\<exists>ob. map_of (reg_bindings R) s = Some ob \<and> wb_identity ob = rw_identity rw")
    case True
    then obtain ob where ob: "map_of (reg_bindings R) s = Some ob" "wb_identity ob = rw_identity rw" by auto
    let ?b = "\<lparr>wb_lease = wb_lease ob, wb_subdir = rw_subdir rw\<rparr>"
    have "?out = (R\<lparr>reg_bindings := AList.update s ?b (reg_bindings R)\<rparr>, Inr ?b)"
      using ob by (simp add: activate_def Let_def)
    with reg_inv_rebind [OF inv ob(1), of ?b] ob show ?thesis
      by (auto simp: dict_simps fun_eq_iff)
  next
    case False
    show ?thesis
    proof (cases "acquire_locked made lid (rw_identity rw) R")
      case (Pair R1 res)
      show ?thesis
      proof (cases res)
        case (Inl e)
        with Pair False have "?out = (R1, Inl e)"
          by (auto simp: activate_def Let_def split: option.splits)
        with acquire_locked_error [OF Pair [unfolded Inl]] inv show ?thesis by simp
      next
        case (Inr l)
        from inv have core: "reg_core R" by (simp add: reg_inv_def)
        note acq = acquire_locked_ok [OF core new Pair [unfolded Inr]]
        let ?b = "\<lparr>wb_lease = l, wb_subdir = rw_subdir rw\<rparr>"
        note inv1 = acquire_locked_inv(1) [OF inv new Pair [unfolded Inr]]
        have ub1: "unbound R1 (wb_lease_id ?b)"
          using acquire_locked_inv(2) [OF inv new Pair [unfolded Inr]] acq(4) by simp
        have live1: "live_lease R1 (wb_lease_id ?b) = Some (wb_lease ?b)" using acq by simp
        show ?thesis
        proof (cases "map_of (reg_bindings R) s")
          case None
          with Pair Inr have "?out = (R1\<lparr>reg_bindings := AList.update s ?b (reg_bindings R1)\<rparr>, Inr ?b)"
            by (simp add: activate_def Let_def)
          with reg_inv_bind_new [OF inv1 live1 ub1, of s] acq show ?thesis
            by (auto simp: dict_simps fun_eq_iff)
        next
          case (Some ob)
          with acq(2) have "map_of (reg_bindings R1) s = Some ob" by simp
          from bind_and_release [OF inv1 live1 ub1 this] obtain R' where
            R': "release_locked (wb_lease_id ob) (R1\<lparr>reg_bindings := AList.update s ?b (reg_bindings R1)\<rparr>) = (R', Inr True)"
              "reg_inv R'" "map_of (reg_bindings R') = (map_of (reg_bindings R1))(s \<mapsto> ?b)" by auto
          with Pair Inr Some False have "?out = (R', Inr ?b)"
            by (auto simp: activate_def Let_def)
          with R' acq show ?thesis by simp
        qed
      qed
    qed
  qed
  then show "reg_inv (fst ?out)"
    "snd ?out = Inr b \<Longrightarrow> map_of (reg_bindings (fst ?out)) = (map_of (reg_bindings R))(s \<mapsto> b) \<and>
      wb_identity b = rw_identity rw \<and> wb_subdir b = rw_subdir rw"
    "snd ?out = Inl e \<Longrightarrow> fst ?out = R \<and> made = Inl e" by blast+
qed

text \<open>
  \<open>prepared_ok\<close>: what a prepared activation owns.  A provisional candidate's lease, while
  live, is not yet bound to any session; a same-root candidate reuses the lease of
  the binding it expects to replace.
\<close>

definition prepared_ok :: "('i, 'r, 's) registry \<Rightarrow> ('i, 'r, 's) prepared_activation \<Rightarrow> bool" where
  "prepared_ok R p \<longleftrightarrow>
     (if pa_provisional p then unbound R (wb_lease_id (pa_binding p))
      else \<exists>ob. pa_expected p = Some ob \<and> wb_lease ob = wb_lease (pa_binding p))"

lemma prepare_activation_error:
  "prepare_activation made lid s rw R = (R', Inl e) \<Longrightarrow> R' = R \<and> made = Inl e"
  by (auto simp: prepare_activation_def Let_def split: if_splits prod.splits sum.splits option.splits
      dest: acquire_locked_error)

lemma prepare_same_root:
  assumes "map_of (reg_bindings R) s = Some ob" and "wb_identity ob = rw_identity rw"
  shows "prepare_activation made lid s rw R =
    (R, Inr \<lparr>pa_session = s, pa_expected = Some ob,
             pa_binding = \<lparr>wb_lease = wb_lease ob, wb_subdir = rw_subdir rw\<rparr>,
             pa_provisional = False, pa_created = False\<rparr>)"
  using assms by (simp add: prepare_activation_def Let_def)

lemma prepare_cross_root:
  assumes "\<And>ob. map_of (reg_bindings R) s = Some ob \<Longrightarrow> wb_identity ob \<noteq> rw_identity rw"
    and "prepare_activation made lid s rw R = (R', Inr p)"
  obtains l where "acquire_locked made lid (rw_identity rw) R = (R', Inr l)"
    and "p = \<lparr>pa_session = s, pa_expected = map_of (reg_bindings R) s,
              pa_binding = \<lparr>wb_lease = l, wb_subdir = rw_subdir rw\<rparr>,
              pa_provisional = True, pa_created = (runtime_of R (rw_identity rw) = None)\<rparr>"
  using assms
  by (cases "map_of (reg_bindings R) s")
    (auto simp: prepare_activation_def Let_def runtime_of_def split: prod.splits sum.splits)

lemma prepare_activation_ok:
  assumes inv: "reg_inv R" and new: "live_lease R lid = None"
    and prep: "prepare_activation made lid s rw R = (R', Inr p)"
  shows "reg_inv R'" and "prepared_ok R' p" and "reg_bindings R' = reg_bindings R"
    and "pa_session p = s" and "pa_expected p = map_of (reg_bindings R) s"
    and "wb_identity (pa_binding p) = rw_identity rw"
    and "live_lease R' (wb_lease_id (pa_binding p)) = Some (wb_lease (pa_binding p))"
    and "\<And>k. live_lease R k \<noteq> None \<Longrightarrow> live_lease R' k = live_lease R k"
    and "\<And>i. runtime_of R i \<noteq> None \<Longrightarrow> runtime_of R' i = runtime_of R i"
    and "\<And>i. runtime_of R i = None \<Longrightarrow> runtime_of R' i \<noteq> None \<Longrightarrow>
           i = rw_identity rw \<and> runtime_of R' i = Some (wb_runtime (pa_binding p)) \<and> made = Inr (wb_runtime (pa_binding p))"
    and "pa_created p \<Longrightarrow> pa_provisional p \<and> runtime_of R (rw_identity rw) = None"
    and "\<not> pa_provisional p \<Longrightarrow> R' = R"
    and "pa_provisional p \<Longrightarrow> wb_lease_id (pa_binding p) = lid \<and> live_lease R' = (live_lease R)(lid \<mapsto> wb_lease (pa_binding p))"
proof -
  from inv have core: "reg_core R" and bs: "bindings_ok R" by (simp_all add: reg_inv_def)
  have "reg_inv R' \<and> prepared_ok R' p \<and> reg_bindings R' = reg_bindings R \<and>
    pa_session p = s \<and> pa_expected p = map_of (reg_bindings R) s \<and>
    wb_identity (pa_binding p) = rw_identity rw \<and>
    live_lease R' (wb_lease_id (pa_binding p)) = Some (wb_lease (pa_binding p)) \<and>
    (\<forall>k. live_lease R k \<noteq> None \<longrightarrow> live_lease R' k = live_lease R k) \<and>
    (\<forall>i. runtime_of R i \<noteq> None \<longrightarrow> runtime_of R' i = runtime_of R i) \<and>
    (\<forall>i. runtime_of R i = None \<longrightarrow> runtime_of R' i \<noteq> None \<longrightarrow>
       i = rw_identity rw \<and> runtime_of R' i = Some (wb_runtime (pa_binding p)) \<and> made = Inr (wb_runtime (pa_binding p))) \<and>
    (pa_created p \<longrightarrow> pa_provisional p \<and> runtime_of R (rw_identity rw) = None) \<and>
    (\<not> pa_provisional p \<longrightarrow> R' = R) \<and>
    (pa_provisional p \<longrightarrow> wb_lease_id (pa_binding p) = lid \<and> live_lease R' = (live_lease R)(lid \<mapsto> wb_lease (pa_binding p)))"
  proof (cases "\<exists>ob. map_of (reg_bindings R) s = Some ob \<and> wb_identity ob = rw_identity rw")
    case True
    then obtain ob where ob: "map_of (reg_bindings R) s = Some ob" "wb_identity ob = rw_identity rw" by auto
    from prep prepare_same_root [OF ob, of made lid] inv ob bindings_okD(1) [OF bs ob(1)]
    show ?thesis by (auto simp: prepared_ok_def)
  next
    case False
    with prepare_cross_root [OF _ prep] obtain l where
      acq: "acquire_locked made lid (rw_identity rw) R = (R', Inr l)" and
      p: "p = \<lparr>pa_session = s, pa_expected = map_of (reg_bindings R) s,
              pa_binding = \<lparr>wb_lease = l, wb_subdir = rw_subdir rw\<rparr>,
              pa_provisional = True, pa_created = (runtime_of R (rw_identity rw) = None)\<rparr>" by blast
    note a = acquire_locked_ok [OF core new acq]
    from acquire_locked_inv [OF inv new acq] a show ?thesis
      using new unfolding p prepared_ok_def by (auto split: if_splits)
  qed
  then show "reg_inv R'" "prepared_ok R' p" "reg_bindings R' = reg_bindings R"
    "pa_session p = s" "pa_expected p = map_of (reg_bindings R) s"
    "wb_identity (pa_binding p) = rw_identity rw"
    "live_lease R' (wb_lease_id (pa_binding p)) = Some (wb_lease (pa_binding p))"
    "\<And>k. live_lease R k \<noteq> None \<Longrightarrow> live_lease R' k = live_lease R k"
    "\<And>i. runtime_of R i \<noteq> None \<Longrightarrow> runtime_of R' i = runtime_of R i"
    "\<And>i. runtime_of R i = None \<Longrightarrow> runtime_of R' i \<noteq> None \<Longrightarrow>
       i = rw_identity rw \<and> runtime_of R' i = Some (wb_runtime (pa_binding p)) \<and> made = Inr (wb_runtime (pa_binding p))"
    "pa_created p \<Longrightarrow> pa_provisional p \<and> runtime_of R (rw_identity rw) = None"
    "\<not> pa_provisional p \<Longrightarrow> R' = R"
    "pa_provisional p \<Longrightarrow> wb_lease_id (pa_binding p) = lid \<and> live_lease R' = (live_lease R)(lid \<mapsto> wb_lease (pa_binding p))"
    by blast+
qed

lemma abort_activation_ok:
  assumes inv: "reg_inv R" and ok: "prepared_ok R p"
  shows "\<exists>R' r. abort_activation p R = (R', Inr r) \<and> reg_inv R' \<and> reg_bindings R' = reg_bindings R \<and>
    live_lease R' = (if pa_provisional p then (live_lease R)(wb_lease_id (pa_binding p) := None) else live_lease R) \<and>
    runtime_of R' = runtime_of R"
proof (cases "pa_provisional p")
  case True
  with ok have ub: "unbound R (wb_lease_id (pa_binding p))" by (simp add: prepared_ok_def)
  from inv have "reg_core R" by (simp add: reg_inv_def)
  from release_locked_ok [OF this, of "wb_lease_id (pa_binding p)"] release_locked_inv [OF inv ub] True
  show ?thesis by (auto simp: abort_activation_def abort_prepared_locked_def)
next
  case False
  with inv show ?thesis by (auto simp: abort_activation_def abort_prepared_locked_def)
qed

definition commit_allowed :: "('i, 'r, 's) prepared_activation \<Rightarrow> ('i, 'r, 's) registry \<Rightarrow> bool" where
  "commit_allowed p R \<longleftrightarrow>
     map_of (reg_bindings R) (pa_session p) = pa_expected p \<and>
     (pa_provisional p \<longrightarrow> live_lease R (wb_lease_id (pa_binding p)) = Some (wb_lease (pa_binding p)))"

lemma commit_rejected:
  assumes inv: "reg_inv R" and ok: "prepared_ok R p" and no: "\<not> commit_allowed p R"
  shows "\<exists>R' m. commit_activation p R = (R', Inl (RuntimeError m)) \<and> fst (abort_activation p R) = R'"
proof -
  from abort_activation_ok [OF inv ok] obtain R' r where "abort_activation p R = (R', Inr r)" by auto
  with no show ?thesis
    by (auto simp: commit_activation_def commit_allowed_def abort_activation_def live_lease_def Let_def)
qed

lemma commit_activation_ok:
  assumes inv: "reg_inv R" and ok: "prepared_ok R p" and yes: "commit_allowed p R"
  shows "\<exists>R'. commit_activation p R = (R', Inr (pa_binding p)) \<and> reg_inv R' \<and>
    map_of (reg_bindings R') = (map_of (reg_bindings R))(pa_session p \<mapsto> pa_binding p) \<and>
    live_lease R' = (case pa_expected p of
        Some ob \<Rightarrow> (if pa_provisional p then (live_lease R)(wb_lease_id ob := None) else live_lease R)
      | None \<Rightarrow> live_lease R) \<and>
    runtime_of R' = runtime_of R"
proof (cases "pa_provisional p")
  case False
  with ok obtain ob where ob: "pa_expected p = Some ob" "wb_lease (pa_binding p) = wb_lease ob"
    by (auto simp: prepared_ok_def)
  with yes have "map_of (reg_bindings R) (pa_session p) = Some ob" by (simp add: commit_allowed_def)
  from reg_inv_rebind [OF inv this ob(2)] False ob yes show ?thesis
    by (auto simp: commit_activation_def commit_allowed_def Let_def dict_simps fun_eq_iff)
next
  case True
  with ok have ub: "unbound R (wb_lease_id (pa_binding p))" by (simp add: prepared_ok_def)
  from yes True have live: "live_lease R (wb_lease_id (pa_binding p)) = Some (wb_lease (pa_binding p))"
    and cur: "map_of (reg_bindings R) (pa_session p) = pa_expected p"
    by (simp_all add: commit_allowed_def)
  show ?thesis
  proof (cases "pa_expected p")
    case None
    with reg_inv_bind_new [OF inv live ub, of "pa_session p"] live cur True show ?thesis
      by (auto simp: commit_activation_def live_lease_def Let_def dict_simps fun_eq_iff)
  next
    case (Some ob)
    with cur have "map_of (reg_bindings R) (pa_session p) = Some ob" by simp
    from bind_and_release [OF inv live ub this] live cur True Some show ?thesis
      by (auto simp: commit_activation_def live_lease_def Let_def)
  qed
qed

lemma commit_activation_inv:
  assumes inv: "reg_inv R" and ok: "prepared_ok R p"
  shows "reg_inv (fst (commit_activation p R))"
proof (cases "commit_allowed p R")
  case True
  with commit_activation_ok [OF inv ok] show ?thesis by auto
next
  case False
  from commit_rejected [OF inv ok False] abort_activation_ok [OF inv ok] show ?thesis by auto
qed

lemma reg_release_ok:
  assumes inv: "reg_inv R"
  shows "\<exists>R'. reg_release s R = (R', Inr (map_of (reg_bindings R) s \<noteq> None)) \<and> reg_inv R' \<and>
    map_of (reg_bindings R') = (map_of (reg_bindings R))(s := None) \<and>
    live_lease R' = (case map_of (reg_bindings R) s of
        None \<Rightarrow> live_lease R | Some b \<Rightarrow> (live_lease R)(wb_lease_id b := None)) \<and>
    runtime_of R' = runtime_of R"
proof (cases "map_of (reg_bindings R) s")
  case None
  with inv show ?thesis by (simp add: reg_release_def fun_upd_idem)
next
  case (Some b)
  from inv have core: "reg_core R" and bs: "bindings_ok R" by (simp_all add: reg_inv_def)
  let ?R1 = "R\<lparr>reg_bindings := AList.delete s (reg_bindings R)\<rparr>"
  have sub: "map_of (reg_bindings ?R1) t = Some c \<Longrightarrow> t \<noteq> s \<and> map_of (reg_bindings R) t = Some c" for t c
    by (auto simp: dict_simps split: if_splits)
  have ub: "unbound ?R1 (wb_lease_id b)"
    unfolding unbound_def using sub bindings_okD(2) [OF bs Some] by metis
  have core1: "reg_core ?R1" using core by (auto intro: reg_core_bindings simp: reg_core_def)
  have "bindings_ok ?R1"
    unfolding bindings_ok_def live_lease_bindings
    using sub bindings_okD [OF bs] by blast
  with core1 have inv1: "reg_inv ?R1" by (simp add: reg_inv_def)
  from release_locked_ok [OF core1, of "wb_lease_id b"] obtain R' where
    "release_locked (wb_lease_id b) ?R1 = (R', Inr (live_lease R (wb_lease_id b) \<noteq> None))"
    "reg_bindings R' = reg_bindings ?R1" "live_lease R' = (live_lease R)(wb_lease_id b := None)"
    "runtime_of R' = runtime_of R" by auto
  with release_locked_inv(1) [OF inv1 ub] Some bindings_okD(1) [OF bs Some] show ?thesis
    by (auto simp: reg_release_def dict_simps fun_eq_iff)
qed

lemma detach_bindings_lookup:
  "map_of (detach_bindings lid items d) s =
     (if \<exists>b. (s, b) \<in> set items \<and> wb_lease_id b = lid then None else map_of d s)"
  by (induction lid items d rule: detach_bindings.induct) (auto simp: dict_simps)

lemma detach_bindings_ok: "dict_ok d \<Longrightarrow> dict_ok (detach_bindings lid items d)"
  by (induction lid items d rule: detach_bindings.induct) auto

lemma detach_bindings_self:
  assumes "dict_ok d"
  shows "map_of (detach_bindings lid d d) s =
    (case map_of d s of Some b \<Rightarrow> if wb_lease_id b = lid then None else Some b | None \<Rightarrow> None)"
proof (cases "map_of d s")
  case None
  then have "(s, b) \<notin> set d" for b using weak_map_of_SomeI by fastforce
  with None show ?thesis by (simp add: detach_bindings_lookup)
next
  case (Some b)
  with assms have "(s, c) \<in> set d \<longleftrightarrow> c = b" for c
    by (metis map_of_SomeD map_of_is_SomeI option.inject)
  with Some show ?thesis by (simp add: detach_bindings_lookup)
qed

lemma reg_release_lease_ok:
  assumes inv: "reg_inv R"
  shows "\<exists>R'. reg_release_lease lid R = (R', Inr (live_lease R lid \<noteq> None)) \<and> reg_inv R' \<and>
    (\<forall>s b. map_of (reg_bindings R') s = Some b \<longleftrightarrow>
       map_of (reg_bindings R) s = Some b \<and> wb_lease_id b \<noteq> lid) \<and>
    live_lease R' = (live_lease R)(lid := None) \<and> runtime_of R' = runtime_of R"
proof (cases "live_lease R lid")
  case None
  with reg_inv_live_unbound_new [OF inv None] inv show ?thesis
    by (auto simp: reg_release_lease_def live_lease_def unbound_def fun_upd_idem)
next
  case (Some l)
  from inv have core: "reg_core R" and bs: "bindings_ok R" by (simp_all add: reg_inv_def)
  have lid: "wl_id l = lid" by (rule reg_core_liveD(1) [OF core Some])
  let ?R1 = "R\<lparr>reg_bindings := detach_bindings lid (reg_bindings R) (reg_bindings R)\<rparr>"
  have dok: "dict_ok (reg_bindings R)" using core by (simp add: reg_core_def)
  have sub: "map_of (reg_bindings ?R1) t = Some c \<longleftrightarrow>
      map_of (reg_bindings R) t = Some c \<and> wb_lease_id c \<noteq> lid" for t c
    by (auto simp: detach_bindings_self [OF dok] split: option.splits if_splits)
  have ub: "unbound ?R1 lid" unfolding unbound_def sub by blast
  have core1: "reg_core ?R1" using core dok by (auto intro: reg_core_bindings detach_bindings_ok)
  have "bindings_ok ?R1"
    unfolding bindings_ok_def live_lease_bindings sub using bindings_okD [OF bs] by blast
  with core1 have inv1: "reg_inv ?R1" by (simp add: reg_inv_def)
  from release_locked_ok [OF core1, of lid] obtain R' where
    "release_locked lid ?R1 = (R', Inr (live_lease R lid \<noteq> None))"
    "reg_bindings R' = reg_bindings ?R1" "live_lease R' = (live_lease R)(lid := None)"
    "runtime_of R' = runtime_of R" by auto
  with release_locked_inv(1) [OF inv1 ub] Some lid sub show ?thesis
    by (auto simp: reg_release_lease_def live_lease_def)
qed

lemma retire_idle_cases:
  "retire_idle i r R = (R, None) \<or>
   (\<exists>e. map_of (reg_runtimes R) i = Some e \<and> re_count e = 0 \<and> re_runtime e = r \<and>
     retire_idle i r R = (R\<lparr>reg_runtimes := AList.delete i (reg_runtimes R)\<rparr>, Some r))"
  by (simp add: retire_idle_def split: option.split)

lemma retire_idle_ok:
  assumes inv: "reg_inv R" and ret: "retire_idle i r R = (R', res)"
  shows "reg_inv R'" and "live_lease R' = live_lease R" and "reg_bindings R' = reg_bindings R"
    and "res = None \<Longrightarrow> R' = R"
    and "res = Some x \<Longrightarrow> x = r \<and> runtime_of R i = Some r \<and> runtime_of R' = (runtime_of R)(i := None) \<and>
           (\<forall>lid l. live_lease R lid = Some l \<longrightarrow> wl_identity l \<noteq> i)"
proof -
  from inv have core: "reg_core R" and bs: "bindings_ok R" by (simp_all add: reg_inv_def)
  have "reg_inv R' \<and> live_lease R' = live_lease R \<and> reg_bindings R' = reg_bindings R \<and>
    (res = None \<longrightarrow> R' = R) \<and>
    (res = Some x \<longrightarrow> x = r \<and> runtime_of R i = Some r \<and> runtime_of R' = (runtime_of R)(i := None) \<and>
      (\<forall>lid l. live_lease R lid = Some l \<longrightarrow> wl_identity l \<noteq> i))"
  proof (cases res)
    case None
    with ret inv show ?thesis by (auto simp: retire_idle_def split: option.splits if_splits)
  next
    case (Some y)
    with ret retire_idle_cases [of i r R] obtain e where
      e: "map_of (reg_runtimes R) i = Some e" "re_count e = 0" "re_runtime e = r"
      and y: "y = r" and R': "R' = R\<lparr>reg_runtimes := AList.delete i (reg_runtimes R)\<rparr>"
      by auto
    have free: "wl_identity l \<noteq> i" if "live_lease R lid = Some l" for lid l
    proof -
      from reg_core_entry [OF core that] obtain e' where
        "map_of (reg_runtimes R) (wl_identity l) = Some e'" "0 < re_count e'" .
      with e show ?thesis by auto
    qed
    have live: "live_lease R' = live_lease R" and rt: "runtime_of R' = (runtime_of R)(i := None)"
      and refs: "\<And>j. lease_refs j R' = lease_refs j R" and bd: "reg_bindings R' = reg_bindings R"
      by (auto simp: R' live_lease_def runtime_of_def lease_refs_def dict_simps fun_eq_iff)
    have "reg_core R'"
      unfolding reg_core_def live rt refs
      using core free by (auto simp: R' dict_simps reg_core_def split: if_splits)
    moreover have "bindings_ok R'" using bs unfolding bindings_ok_def live bd .
    ultimately show ?thesis
      using live rt bd y Some e free by (auto simp: reg_inv_def runtime_of_def)
  qed
  then show "reg_inv R'" "live_lease R' = live_lease R" "reg_bindings R' = reg_bindings R"
    "res = None \<Longrightarrow> R' = R"
    "res = Some x \<Longrightarrow> x = r \<and> runtime_of R i = Some r \<and> runtime_of R' = (runtime_of R)(i := None) \<and>
           (\<forall>lid l. live_lease R lid = Some l \<longrightarrow> wl_identity l \<noteq> i)" by blast+
qed

section \<open>Sequences of registry operations\<close>

datatype ('i, 'r, 's) reg_op =
    Op_activate "py_exn + 'r" uuid 's "'i resolved_workspace"
  | Op_prepare "py_exn + 'r" uuid 's "'i resolved_workspace"
  | Op_commit "('i, 'r, 's) prepared_activation"
  | Op_abort "('i, 'r, 's) prepared_activation"
  | Op_release 's
  | Op_release_lease uuid
  | Op_retire 'i 'r

fun reg_step :: "('i, 'r, 's) registry \<Rightarrow> ('i, 'r, 's) reg_op \<Rightarrow> ('i, 'r, 's) registry" where
  "reg_step R (Op_activate made lid s rw) = fst (activate made lid s rw R)"
| "reg_step R (Op_prepare made lid s rw) = fst (prepare_activation made lid s rw R)"
| "reg_step R (Op_commit p) = fst (commit_activation p R)"
| "reg_step R (Op_abort p) = fst (abort_activation p R)"
| "reg_step R (Op_release s) = fst (reg_release s R)"
| "reg_step R (Op_release_lease lid) = fst (reg_release_lease lid R)"
| "reg_step R (Op_retire i r) = fst (retire_idle i r R)"

text \<open>
  The caller's obligations: \<open>uuid4\<close> yields an identifier not in use, and a prepared
  activation is committed or aborted only while its candidate lease is not already
  bound (it is consumed once).
\<close>

fun reg_op_ok :: "('i, 'r, 's) registry \<Rightarrow> ('i, 'r, 's) reg_op \<Rightarrow> bool" where
  "reg_op_ok R (Op_activate made lid s rw) \<longleftrightarrow> live_lease R lid = None"
| "reg_op_ok R (Op_prepare made lid s rw) \<longleftrightarrow> live_lease R lid = None"
| "reg_op_ok R (Op_commit p) \<longleftrightarrow> prepared_ok R p"
| "reg_op_ok R (Op_abort p) \<longleftrightarrow> prepared_ok R p"
| "reg_op_ok R _ \<longleftrightarrow> True"

lemma prepare_activation_inv:
  assumes "reg_inv R" and "live_lease R lid = None"
  shows "reg_inv (fst (prepare_activation made lid s rw R))"
proof (cases "prepare_activation made lid s rw R")
  case (Pair R' res)
  with assms show ?thesis
    by (cases res) (auto dest: prepare_activation_error prepare_activation_ok(1))
qed

interpretation reg_run: invariant_ops reg_step reg_op_ok reg_inv
proof
  fix R :: "('i, 'r, 's) registry" and x :: "('i, 'r, 's) reg_op"
  assume inv: "reg_inv R" and ok: "reg_op_ok R x"
  show "reg_inv (reg_step R x)"
  proof (cases x)
    case (Op_activate made lid s rw)
    with inv ok activate_ok(1) show ?thesis by auto
  next
    case (Op_prepare made lid s rw)
    with inv ok prepare_activation_inv show ?thesis by auto
  next
    case (Op_commit p)
    with inv ok commit_activation_inv show ?thesis by auto
  next
    case (Op_abort p)
    with abort_activation_ok [OF inv, of p] ok show ?thesis by auto
  next
    case (Op_release s)
    with reg_release_ok [OF inv, of s] show ?thesis by auto
  next
    case (Op_release_lease lid)
    with reg_release_lease_ok [OF inv, of lid] show ?thesis by auto
  next
    case (Op_retire i r)
    with retire_idle_ok(1) [OF inv] show ?thesis by (cases "retire_idle i r R") auto
  qed
qed

section \<open>The contract the daemon service relies on\<close>

locale runtime_registry =
  fixes reg_ok :: "'g \<Rightarrow> bool"
    and lease_of :: "'g \<Rightarrow> uuid \<Rightarrow> ('i, 'r) workspace_lease option"
    and retained :: "'g \<Rightarrow> 'i \<Rightarrow> 'r option"
    and drop_lease :: "uuid \<Rightarrow> 'g \<Rightarrow> 'g"
    and retire :: "'i \<Rightarrow> 'r \<Rightarrow> 'g \<Rightarrow> 'g \<times> 'r option"
  assumes lease_retained: "reg_ok g \<Longrightarrow> lease_of g lid = Some l \<Longrightarrow>
      retained g (wl_identity l) = Some (wl_runtime l)"
    and drop_ok: "reg_ok g \<Longrightarrow> reg_ok (drop_lease lid g)"
    and drop_lease_of: "reg_ok g \<Longrightarrow> lease_of (drop_lease lid g) = (lease_of g)(lid := None)"
    and drop_retained: "reg_ok g \<Longrightarrow> retained (drop_lease lid g) = retained g"
    and retire_ok: "reg_ok g \<Longrightarrow> reg_ok (fst (retire i r g))"
    and retire_leases: "reg_ok g \<Longrightarrow> lease_of (fst (retire i r g)) = lease_of g"
    and retire_kept: "reg_ok g \<Longrightarrow> snd (retire i r g) = None \<Longrightarrow> fst (retire i r g) = g"
    and retire_detached: "reg_ok g \<Longrightarrow> snd (retire i r g) = Some x \<Longrightarrow>
      x = r \<and> retained g i = Some r \<and> retained (fst (retire i r g)) = (retained g)(i := None)"
begin

lemma retire_spares_leased:
  assumes "reg_ok g" and "lease_of g lid = Some l"
  shows "retained (fst (retire i r g)) (wl_identity l) = Some (wl_runtime l)"
  by (rule lease_retained [OF retire_ok]) (use assms in \<open>simp_all add: retire_leases\<close>)

lemma retire_not_leased:
  assumes "reg_ok g" and "snd (retire i r g) = Some x" and "lease_of g lid = Some l"
  shows "wl_identity l \<noteq> i"
  using retire_spares_leased [OF assms(1,3), of i r] retire_detached [OF assms(1,2)] by auto

lemma retire_retained_sub:
  assumes "reg_ok g" and "retained (fst (retire i r g)) j = Some x"
  shows "retained g j = Some x"
proof (cases "snd (retire i r g)")
  case None
  with retire_kept [OF assms(1)] assms(2) show ?thesis by metis
next
  case (Some y)
  with retire_detached [OF assms(1)] assms(2) show ?thesis by (auto split: if_splits)
qed

lemma retire_retained_other:
  assumes "reg_ok g" and "j \<noteq> i"
  shows "retained (fst (retire i r g)) j = retained g j"
proof (cases "snd (retire i r g)")
  case None
  with retire_kept [OF assms(1)] show ?thesis by metis
next
  case (Some y)
  with retire_detached [OF assms(1)] assms(2) show ?thesis by auto
qed

end

interpretation registry: runtime_registry reg_inv live_lease runtime_of
  "\<lambda>lid R. fst (reg_release_lease lid R)" retire_idle
proof (unfold_locales, goal_cases)
  case (1 g lid l)
  then show ?case by (auto simp: reg_inv_def dest: reg_core_liveD(2))
next
  case (2 g lid)
  with reg_release_lease_ok [OF this, of lid] show ?case by auto
next
  case (3 g lid)
  with reg_release_lease_ok [OF this, of lid] show ?case by auto
next
  case (4 g lid)
  with reg_release_lease_ok [OF this, of lid] show ?case by auto
next
  case (5 g i r)
  with retire_idle_ok(1) [OF this] show ?case by (cases "retire_idle i r g") auto
next
  case (6 g i r)
  with retire_idle_ok(2) [OF this] show ?case by (cases "retire_idle i r g") auto
next
  case (7 g i r)
  with retire_idle_ok(4) [OF 7(1)] show ?case by (cases "retire_idle i r g") auto
next
  case (8 g i r x)
  with retire_idle_ok(5) [OF 8(1), of i r "fst (retire_idle i r g)" "Some x" x] show ?case
    by (metis prod.collapse)
qed

section \<open>One-phase and two-phase activation\<close>

lemma acquire_locked_visible:
  assumes "acquire_locked made lid i R = (R1, Inr lease)"
  shows "reg_bindings R1 = reg_bindings R" and "wl_id lease = lid"
    and "map_of (reg_leases R1) lid = Some lease"
  using assms
  by (auto simp: acquire_locked_def acquire_entry_def Let_def dict_simps
      split: option.splits sum.splits)

lemma prepare_commit_activate:
  "(case prepare_activation made lid s rw R of
      (R1, Inl e) \<Rightarrow> (R1, Inl e)
    | (R1, Inr p) \<Rightarrow> commit_activation p R1) = activate made lid s rw R"
proof (cases "\<exists>ob. map_of (reg_bindings R) s = Some ob \<and> wb_identity ob = rw_identity rw")
  case True
  then show ?thesis by (auto simp: prepare_activation_def commit_activation_def activate_def)
next
  case False
  then have no: "(case map_of (reg_bindings R) s of
      Some b \<Rightarrow> wb_identity b = rw_identity rw | None \<Rightarrow> False) = False"
    by (auto split: option.split)
  show ?thesis
  proof (cases "acquire_locked made lid (rw_identity rw) R")
    case (Pair R1 res)
    with no acquire_locked_visible [of made lid "rw_identity rw" R R1] show ?thesis
      by (cases res) (auto simp: prepare_activation_def commit_activation_def activate_def Let_def
          split: option.split)
  qed
qed

lemma retire_idle_entries:
  "retire_idle i r R = (R', Some x) \<Longrightarrow> runtime_state_of j R' = (if j = i then None else runtime_state_of j R)"
  by (auto simp: retire_idle_def runtime_state_of_def dict_simps split: option.splits if_splits)

lemma runtime_state_inv:
  assumes "reg_inv R"
  shows "runtime_state_of i R = map_option (\<lambda>r. \<lparr>rs_runtime = r, rs_reference_count = int (lease_refs i R),
     rs_idle_eligible = (lease_refs i R = 0)\<rparr>) (runtime_of R i)"
  using assms
  by (auto simp: runtime_state_of_def runtime_of_def reg_inv_def dest: reg_core_count split: option.split)


lemma prepare_abort_restores:
  assumes inv: "reg_inv R" and new: "live_lease R lid = None"
    and prep: "prepare_activation made lid s rw R = (R1, Inr p)"
  obtains R2 where "abort_activation p R1 = (R2, Inr (pa_provisional p))"
    and "(if pa_created p then fst (retire_idle (wb_identity (pa_binding p)) (wb_runtime (pa_binding p)) R2) else R2) = R"
    and "pa_created p \<Longrightarrow>
      snd (retire_idle (wb_identity (pa_binding p)) (wb_runtime (pa_binding p)) R2) = Some (wb_runtime (pa_binding p))"
proof (cases "\<exists>ob. map_of (reg_bindings R) s = Some ob \<and> wb_identity ob = rw_identity rw")
  case True
  with prep have "R1 = R" "\<not> pa_provisional p" "\<not> pa_created p"
    by (auto simp: prepare_activation_def)
  with that [of R] show ?thesis by (simp add: abort_activation_def abort_prepared_locked_def)
next
  case False
  then have no: "(case map_of (reg_bindings R) s of
      Some b \<Rightarrow> wb_identity b = rw_identity rw | None \<Rightarrow> False) = False"
    by (auto split: option.split)
  have fresh: "map_of (reg_leases R) lid = None" using new by (simp add: live_lease_def)
  let ?i = "rw_identity rw"
  show ?thesis
  proof (cases "map_of (reg_runtimes R) ?i")
    case None
    with prep no obtain r where made: "made = Inr r"
      by (auto simp: prepare_activation_def acquire_locked_def Let_def split: sum.splits)
    define R2 where "R2 = R\<lparr>reg_runtimes := AList.update ?i \<lparr>re_runtime = r, re_count = 0\<rparr> (reg_runtimes R)\<rparr>"
    have "abort_activation p R1 = (R2, Inr (pa_provisional p))" "pa_created p"
        "wb_identity (pa_binding p) = ?i" "wb_runtime (pa_binding p) = r"
      using prep no None made fresh
      by (auto simp: prepare_activation_def acquire_locked_def acquire_entry_def Let_def
          abort_activation_def abort_prepared_locked_def release_locked_def dict_simps
          dict_delete_update_new AList.update_last R2_def)
    moreover have "retire_idle ?i r R2 = (R, Some r)"
      using None by (simp add: retire_idle_def R2_def dict_simps dict_delete_update_new)
    ultimately show ?thesis using that by simp
  next
    case (Some e)
    have "0 \<le> re_count e" using inv Some by (auto simp: reg_inv_def dest: reg_core_count)
    then have "abort_activation p R1 = (R, Inr (pa_provisional p))" "\<not> pa_created p"
      using prep no Some fresh
      by (auto simp: prepare_activation_def acquire_locked_def acquire_entry_def Let_def
          abort_activation_def abort_prepared_locked_def release_locked_def dict_simps
          dict_delete_update_new AList.update_last AList.update_triv)
    then show ?thesis using that by simp
  qed
qed

section \<open>Properties\<close>

definition demo_ops :: "(nat, nat, nat) reg_op list" where
  "demo_ops =
     [Op_activate (Inr 7) 1 0 \<lparr>rw_identity = 10, rw_subdir = ''''\<rparr>,
      Op_activate (Inr 8) 2 1 \<lparr>rw_identity = 10, rw_subdir = ''src''\<rparr>,
      Op_activate (Inr 8) 3 0 \<lparr>rw_identity = 20, rw_subdir = ''''\<rparr>,
      Op_retire 10 7]"

text \<open>
  C5: after any sequence of registry operations from the empty registry, in which new
  identifiers are fresh and a prepared activation is consumed while it is still
  unbound, the runtime of every session's binding is the one the registry retains for
  that identity; its reference count is exactly the number of live leases on the
  identity, positive, so it is not idle; and no other session holds the same lease.
\<close>

theorem registry_binding_retained:
  assumes "ops_ok reg_step reg_op_ok reg_empty ops" and "R = run_ops reg_step reg_empty ops"
    and "reg_binding_for s R = Some b"
  shows "runtime_state_of (wb_identity b) R =
      Some \<lparr>rs_runtime = wb_runtime b, rs_reference_count = int (lease_refs (wb_identity b) R),
            rs_idle_eligible = False\<rparr> \<and>
    0 < lease_refs (wb_identity b) R \<and>
    (\<forall>s' b'. reg_binding_for s' R = Some b' \<and> wb_lease_id b' = wb_lease_id b \<longrightarrow> s' = s)"
proof (intro conjI)
  have inv: "reg_inv R" using reg_run.run_inv [OF reg_empty_inv assms(1)] assms(2) by simp
  then have core: "reg_core R" and bs: "bindings_ok R" by (simp_all add: reg_inv_def)
  have live: "live_lease R (wb_lease_id b) = Some (wb_lease b)"
    using bs assms(3) by (simp add: bindings_ok_def reg_binding_for_def)
  from reg_core_entry [OF core live] obtain e where
    e: "map_of (reg_runtimes R) (wb_identity b) = Some e" "re_runtime e = wb_runtime b"
      "re_count e = int (lease_refs (wb_identity b) R)" "0 < re_count e" .
  then show "runtime_state_of (wb_identity b) R =
      Some \<lparr>rs_runtime = wb_runtime b, rs_reference_count = int (lease_refs (wb_identity b) R),
            rs_idle_eligible = False\<rparr>" and "0 < lease_refs (wb_identity b) R"
    by (simp_all add: runtime_state_of_def)
  show "\<forall>s' b'. reg_binding_for s' R = Some b' \<and> wb_lease_id b' = wb_lease_id b \<longrightarrow> s' = s"
    using bs assms(3) unfolding bindings_ok_def reg_binding_for_def by blast
qed

lemma registry_binding_retained_witness:
  "runtime_state_of 10 (run_ops reg_step reg_empty demo_ops) =
     Some \<lparr>rs_runtime = 7, rs_reference_count = 1, rs_idle_eligible = False\<rparr> \<and>
   lease_refs 10 (run_ops reg_step reg_empty demo_ops) = 1"
proof -
  let ?b = "\<lparr>wb_lease = \<lparr>wl_id = 2, wl_identity = 10, wl_runtime = 7\<rparr>, wb_subdir = ''src''\<rparr>"
  let ?R = "run_ops reg_step reg_empty demo_ops"
  have ok: "ops_ok reg_step reg_op_ok reg_empty demo_ops"
    by (simp add: demo_ops_def reg_empty_def live_lease_def activate_def acquire_locked_def
        acquire_entry_def release_locked_def Let_def)
  have b: "reg_binding_for 1 ?R = Some ?b" by code_simp
  have n: "lease_refs 10 ?R = 1" by code_simp
  from registry_binding_retained [OF ok refl b] n show ?thesis by simp
qed

text \<open>
  Preparing an activation and committing it at once is the one-phase activation:
  the same registry and the same result, on success and on a failing runtime factory.
\<close>

theorem two_phase_is_activate:
  "(case prepare_activation made lid s rw R of
      (R1, Inl e) \<Rightarrow> (R1, Inl e)
    | (R1, Inr p) \<Rightarrow> commit_activation p R1) = activate made lid s rw R"
  by (rule prepare_commit_activate)

text \<open>
  discarding a prepared activation restores the registry exactly: aborting it and,
  when preparing created the runtime, retiring that runtime gives back the registry
  as it was before, entry for entry, and the retired runtime is the created one.
\<close>

theorem discard_restores_registry:
  assumes "reg_inv R" and "live_lease R lid = None"
    and "prepare_activation made lid s rw R = (R1, Inr p)"
  shows "\<exists>R2. abort_activation p R1 = (R2, Inr (pa_provisional p)) \<and>
    (if pa_created p
     then retire_idle (wb_identity (pa_binding p)) (wb_runtime (pa_binding p)) R2 =
            (R, Some (wb_runtime (pa_binding p)))
     else R2 = R)"
  using prepare_abort_restores [OF assms] by (metis prod.collapse)

lemma discard_restores_registry_witness:
  "\<exists>R2. abort_activation \<lparr>pa_session = 0, pa_expected = None,
      pa_binding = \<lparr>wb_lease = \<lparr>wl_id = 1, wl_identity = 10, wl_runtime = 7\<rparr>, wb_subdir = ''''\<rparr>,
      pa_provisional = True, pa_created = True\<rparr>
     (fst (prepare_activation (Inr 7) 1 0 \<lparr>rw_identity = 10, rw_subdir = ''''\<rparr>
        (reg_empty :: (nat, nat, nat) registry))) = (R2, Inr True) \<and>
    retire_idle 10 7 R2 = (reg_empty, Some 7)"
proof -
  let ?R1 = "fst (prepare_activation (Inr 7) 1 0 \<lparr>rw_identity = 10, rw_subdir = ''''\<rparr>
        (reg_empty :: (nat, nat, nat) registry))"
  have fresh: "live_lease (reg_empty :: (nat, nat, nat) registry) 1 = None" by code_simp
  have prep: "prepare_activation (Inr 7) 1 0 \<lparr>rw_identity = 10, rw_subdir = ''''\<rparr>
        (reg_empty :: (nat, nat, nat) registry) = (?R1, Inr \<lparr>pa_session = 0, pa_expected = None,
      pa_binding = \<lparr>wb_lease = \<lparr>wl_id = 1, wl_identity = 10, wl_runtime = 7\<rparr>, wb_subdir = ''''\<rparr>,
      pa_provisional = True, pa_created = True\<rparr>)"
    by (simp add: prepare_activation_def acquire_locked_def acquire_entry_def reg_empty_def Let_def)
  from discard_restores_registry [OF reg_empty_inv fresh prep] show ?thesis by simp
qed

text \<open>
  A failed activation leaves the registry untouched, and it fails only when the
  path does not resolve or the runtime factory fails; no bookkeeping error is raised.
\<close>

theorem activation_failure_is_atomic:
  assumes "reg_inv R" and "live_lease R lid = None"
    and "activate_path resolver made lid s p R = (R', Inl e)"
  shows "R' = R \<and> (resolver p = Inl e \<or> made = Inl e)"
proof (cases "resolver p")
  case (Inr rw)
  with assms(3) have "activate made lid s rw R = (R', Inl e)" by (simp add: activate_path_def)
  with activate_ok(3) [OF assms(1,2), of made s rw e] show ?thesis by simp
qed (use assms(3) in \<open>simp add: activate_path_def\<close>)

lemma activation_failure_is_atomic_witness:
  "fst (activate_path (\<lambda>p. Inr \<lparr>rw_identity = 20, rw_subdir = p\<rparr>) (Inl (External 3)) 9 1 ''w''
      (fst (activate (Inr 7) 1 1 \<lparr>rw_identity = 10, rw_subdir = ''''\<rparr>
         (reg_empty :: (nat, nat, nat) registry)))) =
    fst (activate (Inr 7) 1 1 \<lparr>rw_identity = 10, rw_subdir = ''''\<rparr> reg_empty)"
proof -
  let ?R = "fst (activate (Inr 7) 1 1 \<lparr>rw_identity = 10, rw_subdir = ''''\<rparr>
         (reg_empty :: (nat, nat, nat) registry))"
  let ?out = "activate_path (\<lambda>p. Inr \<lparr>rw_identity = 20, rw_subdir = p\<rparr>) (Inl (External 3)) 9 1 ''w'' ?R"
  have inv: "reg_inv ?R"
    by (rule activate_ok(1) [OF reg_empty_inv]) (simp add: reg_empty_def live_lease_def)
  have fresh: "live_lease ?R 9 = None" by code_simp
  have "?out = (fst ?out, Inl (External 3))"
    by (simp add: activate_path_def activate_def acquire_locked_def acquire_entry_def reg_empty_def Let_def)
  from activation_failure_is_atomic [OF inv fresh this] show ?thesis by simp
qed

end
