(* ===== verification/Leases.thy ===== *)
theory Leases
  imports Registry
begin

text \<open>
  Daemon lease lifetimes (\<open>daemon/leases.py\<close>): leases with an expiry renewed by
  heartbeats, the holders of each workspace, the warm grace a workspace keeps after its
  last holder left, and the decisions the daemon has to apply.  Every method holds the
  object's lock, so each is one atomic function; the clock reading it takes is an
  argument, as is the identifier \<open>uuid4\<close> yields.  Clock values are reals (the
  rounding of float additions is not modelled).
\<close>

section \<open>Data\<close>

definition HEARTBEAT_INTERVAL_SECONDS :: time where "HEARTBEAT_INTERVAL_SECONDS = 15"
definition LEASE_EXPIRY_SECONDS :: time where "LEASE_EXPIRY_SECONDS = 60"
definition WARM_GRACE_SECONDS :: time where "WARM_GRACE_SECONDS = 10 * 60"

record ('i, 'r) daemon_lease =
  dl_id :: uuid
  dl_binding :: "('i, 'r) workspace_binding option"
  dl_issued_at :: time
  dl_last_heartbeat_at :: time
  dl_heartbeat_interval :: time
  dl_expiry :: time

definition dl_identity :: "('i, 'r) daemon_lease \<Rightarrow> 'i option" where
  "dl_identity l = map_option wb_identity (dl_binding l)"

definition heartbeat_due_at :: "('i, 'r) daemon_lease \<Rightarrow> time" where
  "heartbeat_due_at l = dl_last_heartbeat_at l + dl_heartbeat_interval l"

definition expires_at :: "('i, 'r) daemon_lease \<Rightarrow> time" where
  "expires_at l = dl_last_heartbeat_at l + dl_expiry l"

datatype lease_end_reason = RELEASED | EXPIRED | GRACE_EXPIRED

record ('i, 'r) lease_decision =
  ld_reason :: lease_end_reason
  ld_identity :: "'i option"
  ld_active_holders :: nat
  ld_binding_to_release :: "('i, 'r) workspace_binding option"
  ld_lease_id :: "uuid option"
  ld_runtime_to_stop :: "'r option"
  ld_grace_deadline :: "time option"

record ('i, 'r) release_result =
  rr_released :: bool
  rr_decision :: "('i, 'r) lease_decision option"

record 'r workspace_state =
  ws_runtime :: 'r
  ws_holders :: "uuid set"
  ws_grace_deadline :: "time option"

datatype ('i, 'r) lease_exn =
    LeaseExpiredError "('i, 'r) lease_decision option"
  | LeaseValueError string
  | LeaseKeyError

record ('i, 'r) lifecycle =
  lc_heartbeat_interval :: time
  lc_expiry :: time
  lc_grace :: time
  lc_active :: "(uuid \<times> ('i, 'r) daemon_lease) list"
  lc_expired :: "uuid set"
  lc_workspaces :: "('i \<times> 'r workspace_state) list"

type_synonym ('i, 'r, 'a) lease_out = "('i, 'r) lifecycle \<times> (('i, 'r) lease_exn + 'a)"

definition lifecycle_init :: "time \<Rightarrow> time \<Rightarrow> time \<Rightarrow> ('i, 'r) lease_exn + ('i, 'r) lifecycle" where
  "lifecycle_init interval expiry grace =
     (if interval \<le> 0 \<or> expiry \<le> 0 \<or> grace < 0
      then Inl (LeaseValueError ''lease intervals must be positive (grace may be zero)'')
      else if interval > expiry
      then Inl (LeaseValueError ''heartbeat cadence cannot exceed lease expiry'')
      else Inr \<lparr>lc_heartbeat_interval = interval, lc_expiry = expiry, lc_grace = grace,
                lc_active = [], lc_expired = {}, lc_workspaces = []\<rparr>)"

section \<open>Locked helpers\<close>

definition add_holder_locked ::
    "uuid \<Rightarrow> ('i, 'r) workspace_binding \<Rightarrow> ('i, 'r) lifecycle \<Rightarrow> ('i, 'r, unit) lease_out" where
  "add_holder_locked lid b L =
     (let found = map_of (lc_workspaces L) (wb_identity b) in
      case found of
        Some st \<Rightarrow>
          (if ws_runtime st \<noteq> wb_runtime b
           then (L, Inl (LeaseValueError ''one workspace identity cannot have two live runtime instances''))
           else (L\<lparr>lc_workspaces := AList.update (wb_identity b)
                    (st\<lparr>ws_grace_deadline := None, ws_holders := insert lid (ws_holders st)\<rparr>)
                    (lc_workspaces L)\<rparr>, Inr ()))
      | None \<Rightarrow>
          (L\<lparr>lc_workspaces := AList.update (wb_identity b)
               \<lparr>ws_runtime = wb_runtime b, ws_holders = {lid}, ws_grace_deadline = None\<rparr>
               (lc_workspaces L)\<rparr>, Inr ()))"

text \<open>
  Removing one holder: both \<open>_end_locked\<close> and \<open>_remove_holder_locked\<close> run these lines.
  The result is the number of holders left, the runtime to stop and the grace deadline.
\<close>

definition drop_holder ::
    "uuid \<Rightarrow> 'i \<Rightarrow> time \<Rightarrow> bool \<Rightarrow> ('i, 'r) lifecycle \<Rightarrow>
     ('i, 'r, nat \<times> 'r option \<times> time option) lease_out" where
  "drop_holder lid i now immediate L =
     (case map_of (lc_workspaces L) i of
        None \<Rightarrow> (L, Inl LeaseKeyError)
      | Some st \<Rightarrow>
          (if lid \<notin> ws_holders st then (L, Inl LeaseKeyError)
           else
             (let st' = st\<lparr>ws_holders := ws_holders st - {lid}\<rparr>;
                  n = card (ws_holders st')
              in if n = 0 then
                   (if immediate
                    then (L\<lparr>lc_workspaces := AList.delete i (lc_workspaces L)\<rparr>,
                          Inr (n, Some (ws_runtime st'), None))
                    else (let d = now + lc_grace L in
                          (L\<lparr>lc_workspaces := AList.update i (st'\<lparr>ws_grace_deadline := Some d\<rparr>) (lc_workspaces L)\<rparr>,
                           Inr (n, None, Some d))))
                 else (L\<lparr>lc_workspaces := AList.update i st' (lc_workspaces L)\<rparr>, Inr (n, None, None)))))"

definition end_locked ::
    "('i, 'r) daemon_lease \<Rightarrow> lease_end_reason \<Rightarrow> time \<Rightarrow> bool \<Rightarrow> ('i, 'r) lifecycle \<Rightarrow>
     ('i, 'r, ('i, 'r) lease_decision) lease_out" where
  "end_locked lease reason now immediate L =
     (if map_of (lc_active L) (dl_id lease) = None then (L, Inl LeaseKeyError)
      else
        (let L1 = L\<lparr>lc_active := AList.delete (dl_id lease) (lc_active L)\<rparr> in
         case dl_binding lease of
           None \<Rightarrow>
             (L1, Inr \<lparr>ld_reason = reason, ld_identity = None, ld_active_holders = 0,
                       ld_binding_to_release = None, ld_lease_id = Some (dl_id lease),
                       ld_runtime_to_stop = None, ld_grace_deadline = None\<rparr>)
         | Some b \<Rightarrow>
             (case drop_holder (dl_id lease) (wb_identity b) now immediate L1 of
                (L2, Inl e) \<Rightarrow> (L2, Inl e)
              | (L2, Inr (n, stop, grace)) \<Rightarrow>
                  (L2, Inr \<lparr>ld_reason = reason, ld_identity = Some (wb_identity b),
                            ld_active_holders = n, ld_binding_to_release = Some b,
                            ld_lease_id = Some (dl_id lease), ld_runtime_to_stop = stop,
                            ld_grace_deadline = grace\<rparr>))))"

definition remove_holder_locked ::
    "uuid \<Rightarrow> 'i \<Rightarrow> time \<Rightarrow> bool \<Rightarrow> ('i, 'r) lifecycle \<Rightarrow>
     ('i, 'r, ('i, 'r) lease_decision) lease_out" where
  "remove_holder_locked lid i now immediate L =
     (case drop_holder lid i now immediate L of
        (L1, Inl e) \<Rightarrow> (L1, Inl e)
      | (L1, Inr (n, stop, grace)) \<Rightarrow>
          (L1, Inr \<lparr>ld_reason = RELEASED, ld_identity = Some i, ld_active_holders = n,
                    ld_binding_to_release = None, ld_lease_id = None,
                    ld_runtime_to_stop = stop, ld_grace_deadline = grace\<rparr>))"

definition require_active_locked ::
    "uuid \<Rightarrow> time \<Rightarrow> ('i, 'r) lifecycle \<Rightarrow> ('i, 'r, ('i, 'r) daemon_lease) lease_out" where
  "require_active_locked lid now L =
     (case map_of (lc_active L) lid of
        Some lease \<Rightarrow>
          (if now < expires_at lease then (L, Inr lease)
           else (case end_locked lease EXPIRED now False L of
                   (L1, Inl e) \<Rightarrow> (L1, Inl e)
                 | (L1, Inr d) \<Rightarrow>
                     (L1\<lparr>lc_expired := insert lid (lc_expired L1)\<rparr>, Inl (LeaseExpiredError (Some d)))))
      | None \<Rightarrow>
          (if lid \<in> lc_expired L then (L, Inl (LeaseExpiredError None))
           else (L, Inl (LeaseExpiredError None))))"

section \<open>Public operations\<close>

definition issue ::
    "uuid \<Rightarrow> time \<Rightarrow> ('i, 'r) workspace_binding option \<Rightarrow> ('i, 'r) lifecycle \<Rightarrow>
     ('i, 'r, ('i, 'r) daemon_lease) lease_out" where
  "issue new_id now binding L =
     (let lease = \<lparr>dl_id = new_id, dl_binding = binding, dl_issued_at = now,
                   dl_last_heartbeat_at = now, dl_heartbeat_interval = lc_heartbeat_interval L,
                   dl_expiry = lc_expiry L\<rparr>;
          L1 = L\<lparr>lc_active := AList.update new_id lease (lc_active L)\<rparr>
      in case binding of
           None \<Rightarrow> (L1, Inr lease)
         | Some b \<Rightarrow>
             (case add_holder_locked new_id b L1 of
                (L2, Inl e) \<Rightarrow> (L2, Inl e)
              | (L2, Inr _) \<Rightarrow> (L2, Inr lease)))"

definition acquire_lease ::
    "uuid \<Rightarrow> time \<Rightarrow> ('i, 'r) workspace_binding option \<Rightarrow> ('i, 'r) lifecycle \<Rightarrow>
     ('i, 'r, ('i, 'r) daemon_lease) lease_out" where
  "acquire_lease new_id now binding L = issue new_id now binding L"

definition rebind ::
    "uuid \<Rightarrow> time \<Rightarrow> ('i, 'r) workspace_binding \<Rightarrow> ('i, 'r) lifecycle \<Rightarrow>
     ('i, 'r, ('i, 'r) daemon_lease) lease_out" where
  "rebind lid now b L =
     (case require_active_locked lid now L of
        (L1, Inl e) \<Rightarrow> (L1, Inl e)
      | (L1, Inr lease) \<Rightarrow>
          (let old = dl_binding lease;
               moved = (case old of Some ob \<Rightarrow> wb_identity ob \<noteq> wb_identity b | None \<Rightarrow> False);
               removed = (if moved
                          then (case remove_holder_locked (dl_id lease) (wb_identity (the old)) now False L1 of
                                  (L2, Inl e) \<Rightarrow> (L2, Inl e)
                                | (L2, Inr _) \<Rightarrow> (L2, Inr ()))
                          else (L1, Inr ()))
           in case removed of
                (L2, Inl e) \<Rightarrow> (L2, Inl e)
              | (L2, Inr _) \<Rightarrow>
                  (let added = (if old = None \<or> moved then add_holder_locked (dl_id lease) b L2
                                else if wb_runtime (the old) \<noteq> wb_runtime b
                                then (L2, Inl (LeaseValueError ''one workspace identity cannot change runtime while leased''))
                                else (L2, Inr ()))
                   in case added of
                        (L3, Inl e) \<Rightarrow> (L3, Inl e)
                      | (L3, Inr _) \<Rightarrow>
                          (let rebound = lease\<lparr>dl_binding := Some b\<rparr>
                           in (L3\<lparr>lc_active := AList.update lid rebound (lc_active L3)\<rparr>, Inr rebound)))))"

definition heartbeat ::
    "uuid \<Rightarrow> time \<Rightarrow> ('i, 'r) lifecycle \<Rightarrow> ('i, 'r, ('i, 'r) daemon_lease) lease_out" where
  "heartbeat lid now L =
     (case require_active_locked lid now L of
        (L1, Inl e) \<Rightarrow> (L1, Inl e)
      | (L1, Inr lease) \<Rightarrow>
          (let renewed = lease\<lparr>dl_last_heartbeat_at := now\<rparr>
           in (L1\<lparr>lc_active := AList.update lid renewed (lc_active L1)\<rparr>, Inr renewed)))"

definition require_active ::
    "uuid \<Rightarrow> time \<Rightarrow> ('i, 'r) lifecycle \<Rightarrow> ('i, 'r, ('i, 'r) daemon_lease) lease_out" where
  "require_active lid now L = require_active_locked lid now L"

definition lc_binding_for ::
    "uuid \<Rightarrow> time \<Rightarrow> ('i, 'r) lifecycle \<Rightarrow> ('i, 'r, ('i, 'r) workspace_binding) lease_out" where
  "lc_binding_for lid now L =
     (case require_active lid now L of
        (L1, Inl e) \<Rightarrow> (L1, Inl e)
      | (L1, Inr lease) \<Rightarrow>
          (case dl_binding lease of
             None \<Rightarrow> (L1, Inl (LeaseValueError ''lease has no active workspace binding''))
           | Some b \<Rightarrow> (L1, Inr b)))"

definition lc_release ::
    "uuid \<Rightarrow> time \<Rightarrow> bool \<Rightarrow> ('i, 'r) lifecycle \<Rightarrow> ('i, 'r, ('i, 'r) release_result) lease_out" where
  "lc_release lid now immediate L =
     (case map_of (lc_active L) lid of
        None \<Rightarrow> (L, Inr \<lparr>rr_released = False, rr_decision = None\<rparr>)
      | Some lease \<Rightarrow>
          (if expires_at lease \<le> now
           then (case end_locked lease EXPIRED now False L of
                   (L1, Inl e) \<Rightarrow> (L1, Inl e)
                 | (L1, Inr d) \<Rightarrow>
                     (L1\<lparr>lc_expired := insert lid (lc_expired L1)\<rparr>,
                      Inr \<lparr>rr_released = False, rr_decision = Some d\<rparr>))
           else (case end_locked lease RELEASED now immediate L of
                   (L1, Inl e) \<Rightarrow> (L1, Inl e)
                 | (L1, Inr d) \<Rightarrow> (L1, Inr \<lparr>rr_released = True, rr_decision = Some d\<rparr>))))"

definition release_lease ::
    "uuid \<Rightarrow> time \<Rightarrow> bool \<Rightarrow> ('i, 'r) lifecycle \<Rightarrow> ('i, 'r, ('i, 'r) release_result) lease_out" where
  "release_lease lid now immediate L = lc_release lid now immediate L"

definition release_workspace ::
    "uuid \<Rightarrow> time \<Rightarrow> bool \<Rightarrow> ('i, 'r) lifecycle \<Rightarrow> ('i, 'r, ('i, 'r) release_result) lease_out" where
  "release_workspace lid now immediate L =
     (case require_active_locked lid now L of
        (L1, Inl e) \<Rightarrow> (L1, Inl e)
      | (L1, Inr lease) \<Rightarrow>
          (case dl_binding lease of
             None \<Rightarrow> (L1, Inr \<lparr>rr_released = False, rr_decision = None\<rparr>)
           | Some b \<Rightarrow>
               (case remove_holder_locked (dl_id lease) (wb_identity b) now immediate L1 of
                  (L2, Inl e) \<Rightarrow> (L2, Inl e)
                | (L2, Inr d) \<Rightarrow>
                    (L2\<lparr>lc_active := AList.update (dl_id lease) (lease\<lparr>dl_binding := None\<rparr>) (lc_active L2)\<rparr>,
                     Inr \<lparr>rr_released = True,
                          rr_decision = Some \<lparr>ld_reason = RELEASED, ld_identity = Some (wb_identity b),
                            ld_active_holders = ld_active_holders d, ld_binding_to_release = Some b,
                            ld_lease_id = Some (dl_id lease), ld_runtime_to_stop = ld_runtime_to_stop d,
                            ld_grace_deadline = ld_grace_deadline d\<rparr>\<rparr>))))"

fun sweep_leases ::
    "time \<Rightarrow> ('i, 'r) daemon_lease list \<Rightarrow> ('i, 'r) lifecycle \<Rightarrow> ('i, 'r) lease_decision list \<Rightarrow>
     ('i, 'r, ('i, 'r) lease_decision list) lease_out" where
  "sweep_leases now [] L ds = (L, Inr ds)"
| "sweep_leases now (lease # rest) L ds =
     (if expires_at lease \<le> now
      then (case end_locked lease EXPIRED now False L of
              (L1, Inl e) \<Rightarrow> (L1, Inl e)
            | (L1, Inr d) \<Rightarrow>
                sweep_leases now rest (L1\<lparr>lc_expired := insert (dl_id lease) (lc_expired L1)\<rparr>) (ds @ [d]))
      else sweep_leases now rest L ds)"

definition grace_elapsed :: "time \<Rightarrow> 'r workspace_state \<Rightarrow> bool" where
  "grace_elapsed now st \<longleftrightarrow>
     \<not> (ws_holders st \<noteq> {} \<or> (case ws_grace_deadline st of None \<Rightarrow> True | Some d \<Rightarrow> now < d))"

fun sweep_workspaces ::
    "time \<Rightarrow> ('i \<times> 'r workspace_state) list \<Rightarrow> ('i, 'r) lifecycle \<Rightarrow> ('i, 'r) lease_decision list \<Rightarrow>
     ('i, 'r) lifecycle \<times> ('i, 'r) lease_decision list" where
  "sweep_workspaces now [] L ds = (L, ds)"
| "sweep_workspaces now ((i, st) # rest) L ds =
     (if grace_elapsed now st
      then sweep_workspaces now rest (L\<lparr>lc_workspaces := AList.delete i (lc_workspaces L)\<rparr>)
             (ds @ [\<lparr>ld_reason = GRACE_EXPIRED, ld_identity = Some i, ld_active_holders = 0,
                     ld_binding_to_release = None, ld_lease_id = None,
                     ld_runtime_to_stop = Some (ws_runtime st), ld_grace_deadline = None\<rparr>])
      else sweep_workspaces now rest L ds)"

definition sweep ::
    "time \<Rightarrow> ('i, 'r) lifecycle \<Rightarrow> ('i, 'r, ('i, 'r) lease_decision list) lease_out" where
  "sweep now L =
     (case sweep_leases now (map snd (lc_active L)) L [] of
        (L1, Inl e) \<Rightarrow> (L1, Inl e)
      | (L1, Inr ds) \<Rightarrow>
          (let (L2, ds2) = sweep_workspaces now (lc_workspaces L1) L1 ds in (L2, Inr ds2)))"

definition active_holders :: "'i \<Rightarrow> ('i, 'r) lifecycle \<Rightarrow> nat" where
  "active_holders i L = (case map_of (lc_workspaces L) i of None \<Rightarrow> 0 | Some st \<Rightarrow> card (ws_holders st))"

definition grace_deadline :: "'i \<Rightarrow> ('i, 'r) lifecycle \<Rightarrow> time option" where
  "grace_deadline i L =
     (case map_of (lc_workspaces L) i of None \<Rightarrow> None | Some st \<Rightarrow> ws_grace_deadline st)"

definition lc_daemon_idle :: "('i, 'r) lifecycle \<Rightarrow> bool" where
  "lc_daemon_idle L \<longleftrightarrow> lc_active L = [] \<and> lc_workspaces L = []"

definition active_lease_count :: "('i, 'r) lifecycle \<Rightarrow> nat" where
  "active_lease_count L = length (lc_active L)"

section \<open>Invariant\<close>

definition lease_binding :: "('i, 'r) lifecycle \<Rightarrow> uuid \<Rightarrow> ('i, 'r) workspace_binding option" where
  "lease_binding L lid = Option.bind (map_of (lc_active L) lid) dl_binding"

definition ws_of :: "('i, 'r) lifecycle \<Rightarrow> 'i \<Rightarrow> 'r workspace_state option" where
  "ws_of L = map_of (lc_workspaces L)"

definition holders_of :: "(uuid \<Rightarrow> ('i, 'r) workspace_binding option) \<Rightarrow> 'i \<Rightarrow> uuid set" where
  "holders_of f i = {h. \<exists>b. f h = Some b \<and> wb_identity b = i}"

lemma holders_of_bind:
  "f lid = None \<Longrightarrow> holders_of (f(lid \<mapsto> b)) i =
     (if i = wb_identity b then insert lid (holders_of f i) else holders_of f i)"
  by (auto simp: holders_of_def)

lemma holders_of_unbind: "holders_of (f(lid := None)) i = holders_of f i - {lid}"
  by (auto simp: holders_of_def)

lemma holders_of_self: "f lid = Some b \<Longrightarrow> lid \<in> holders_of f i \<longleftrightarrow> i = wb_identity b"
  by (auto simp: holders_of_def)

text \<open>
  \<open>holders_ok f L\<close>: the workspace table agrees with the bindings \<open>f\<close> of the leases: the
  holders of a workspace are the leases bound to it, exactly the holderless workspaces
  carry a grace deadline, and every bound lease's workspace is present with its runtime.
\<close>

definition holders_ok ::
    "(uuid \<Rightarrow> ('i, 'r) workspace_binding option) \<Rightarrow> ('i, 'r) lifecycle \<Rightarrow> bool" where
  "holders_ok f L \<longleftrightarrow>
     dict_ok (lc_workspaces L) \<and>
     (\<forall>i st. ws_of L i = Some st \<longrightarrow>
        finite (ws_holders st) \<and>
        ws_holders st = holders_of f i \<and>
        (ws_holders st = {} \<longleftrightarrow> ws_grace_deadline st \<noteq> None)) \<and>
     (\<forall>h b. f h = Some b \<longrightarrow>
        (\<exists>st. ws_of L (wb_identity b) = Some st \<and> ws_runtime st = wb_runtime b))"

definition lc_inv :: "('i, 'r) lifecycle \<Rightarrow> bool" where
  "lc_inv L \<longleftrightarrow>
     dict_ok (lc_active L) \<and>
     (\<forall>lid l. map_of (lc_active L) lid = Some l \<longrightarrow> dl_id l = lid) \<and>
     holders_ok (lease_binding L) L"

lemma lc_upd_order [simp]:
  "L\<lparr>lc_workspaces := w, lc_active := a\<rparr> = L\<lparr>lc_active := a, lc_workspaces := w\<rparr>"
  "L\<lparr>lc_expired := x, lc_active := a\<rparr> = L\<lparr>lc_active := a, lc_expired := x\<rparr>"
  "L\<lparr>lc_expired := x, lc_workspaces := w\<rparr> = L\<lparr>lc_workspaces := w, lc_expired := x\<rparr>"
  by (cases L; simp)+

lemma ws_of_upd [simp]: "ws_of (L\<lparr>lc_active := a\<rparr>) = ws_of L" "ws_of (L\<lparr>lc_expired := x\<rparr>) = ws_of L"
  by (simp_all add: ws_of_def)

lemma holders_ok_frame [simp]:
  "holders_ok f (L\<lparr>lc_active := a\<rparr>) = holders_ok f L"
  "holders_ok f (L\<lparr>lc_expired := x\<rparr>) = holders_ok f L"
  "holders_ok f (L\<lparr>lc_active := a, lc_workspaces := w\<rparr>) = holders_ok f (L\<lparr>lc_workspaces := w\<rparr>)"
  by (simp_all add: holders_ok_def ws_of_def)

lemma holders_okD:
  assumes "holders_ok f L" and "ws_of L i = Some st"
  shows "finite (ws_holders st)" and "ws_holders st = holders_of f i"
    and "ws_holders st = {} \<longleftrightarrow> ws_grace_deadline st \<noteq> None"
  using assms unfolding holders_ok_def by blast+

lemma holders_ok_bound:
  assumes "holders_ok f L" and "f h = Some b"
  obtains st where "ws_of L (wb_identity b) = Some st" and "ws_runtime st = wb_runtime b"
    and "h \<in> ws_holders st"
proof -
  from assms obtain st where st: "ws_of L (wb_identity b) = Some st" "ws_runtime st = wb_runtime b"
    unfolding holders_ok_def by blast
  with holders_okD(2) [OF assms(1) st(1)] assms(2) have "h \<in> ws_holders st"
    by (simp add: holders_of_self)
  with st that show ?thesis by blast
qed

lemma lease_binding_simps [simp]:
  "map_of (lc_active L) lid = None \<Longrightarrow> lease_binding L lid = None"
  "map_of (lc_active L) lid = Some l \<Longrightarrow> lease_binding L lid = dl_binding l"
  by (simp_all add: lease_binding_def)

lemma lease_binding_workspaces [simp]:
  "lease_binding (L\<lparr>lc_workspaces := w\<rparr>) = lease_binding L"
  "lease_binding (L\<lparr>lc_expired := x\<rparr>) = lease_binding L"
  by (simp_all add: lease_binding_def fun_eq_iff)

lemma lease_binding_update:
  "lease_binding (L\<lparr>lc_active := AList.update lid l (lc_active L)\<rparr>) = (lease_binding L)(lid := dl_binding l)"
  by (auto simp: lease_binding_def dict_simps fun_eq_iff)

lemma lease_binding_delete:
  "lease_binding (L\<lparr>lc_active := AList.delete lid (lc_active L)\<rparr>) = (lease_binding L)(lid := None)"
  by (auto simp: lease_binding_def dict_simps fun_eq_iff)

section \<open>Holders\<close>

lemma holders_okI:
  assumes "dict_ok (lc_workspaces L)"
    and "\<And>i st. ws_of L i = Some st \<Longrightarrow> finite (ws_holders st) \<and> ws_holders st = holders_of f i \<and>
        (ws_holders st = {} \<longleftrightarrow> ws_grace_deadline st \<noteq> None)"
    and "\<And>h b. f h = Some b \<Longrightarrow> \<exists>st. ws_of L (wb_identity b) = Some st \<and> ws_runtime st = wb_runtime b"
  shows "holders_ok f L"
  using assms unfolding holders_ok_def by blast

lemma holders_ok_none:
  assumes "holders_ok f L" and "ws_of L i = None"
  shows "holders_of f i = {}"
  using assms unfolding holders_ok_def holders_of_def by fastforce

lemma holders_of_finite:
  assumes "holders_ok f L"
  shows "finite (holders_of f i)"
  using holders_ok_none [OF assms] holders_okD(1,2) [OF assms] by (cases "ws_of L i") auto

lemma add_holder_ok:
  assumes ok: "holders_ok f L" and new: "f lid = None"
    and rt: "\<And>st. ws_of L (wb_identity b) = Some st \<Longrightarrow> ws_runtime st = wb_runtime b"
  shows "\<exists>w. add_holder_locked lid b L = (L\<lparr>lc_workspaces := w\<rparr>, Inr ()) \<and>
    holders_ok (f(lid \<mapsto> b)) (L\<lparr>lc_workspaces := w\<rparr>) \<and>
    map_of w = (ws_of L)(wb_identity b \<mapsto> \<lparr>ws_runtime = wb_runtime b,
      ws_holders = insert lid (holders_of f (wb_identity b)), ws_grace_deadline = None\<rparr>)"
proof -
  define st0 where "st0 = \<lparr>ws_runtime = wb_runtime b,
      ws_holders = insert lid (holders_of f (wb_identity b)), ws_grace_deadline = None\<rparr>"
  define w where "w = AList.update (wb_identity b) st0 (lc_workspaces L)"
  have eq: "add_holder_locked lid b L = (L\<lparr>lc_workspaces := w\<rparr>, Inr ())"
  proof (cases "ws_of L (wb_identity b)")
    case None
    with holders_ok_none [OF ok None] show ?thesis
      by (simp add: add_holder_locked_def ws_of_def w_def st0_def Let_def)
  next
    case (Some st)
    with holders_okD(2) [OF ok Some] rt [OF Some] show ?thesis
      by (cases st) (simp add: add_holder_locked_def ws_of_def w_def st0_def Let_def)
  qed
  have w: "map_of w = (ws_of L)(wb_identity b \<mapsto> st0)"
    by (auto simp: ws_of_def w_def dict_simps fun_eq_iff)
  then have wsw: "ws_of (L\<lparr>lc_workspaces := w\<rparr>) = (ws_of L)(wb_identity b \<mapsto> st0)"
    by (simp add: ws_of_def)
  have "holders_ok (f(lid \<mapsto> b)) (L\<lparr>lc_workspaces := w\<rparr>)"
  proof (rule holders_okI)
    show "dict_ok (lc_workspaces (L\<lparr>lc_workspaces := w\<rparr>))"
      using ok by (simp add: w_def holders_ok_def)
  next
    fix i st assume st: "ws_of (L\<lparr>lc_workspaces := w\<rparr>) i = Some st"
    show "finite (ws_holders st) \<and> ws_holders st = holders_of (f(lid \<mapsto> b)) i \<and>
        (ws_holders st = {} \<longleftrightarrow> ws_grace_deadline st \<noteq> None)"
    proof (cases "i = wb_identity b")
      case True
      with st new holders_of_finite [OF ok] show ?thesis by (auto simp: wsw st0_def holders_of_bind)
    next
      case False
      with st have "ws_of L i = Some st" by (simp add: wsw)
      from holders_okD [OF ok this] False new show ?thesis by (simp add: holders_of_bind)
    qed
  next
    fix h c assume "(f(lid \<mapsto> b)) h = Some c"
    then show "\<exists>st. ws_of (L\<lparr>lc_workspaces := w\<rparr>) (wb_identity c) = Some st \<and> ws_runtime st = wb_runtime c"
      using holders_ok_bound [OF ok, of h c] rt by (fastforce simp: wsw st0_def split: if_splits)
  qed
  with eq w show ?thesis by (auto simp: st0_def)
qed

text \<open>What dropping holder \<open>lid\<close> leaves: \<open>None\<close> when the workspace goes with its last holder.\<close>

definition after_drop ::
    "(uuid \<Rightarrow> ('i, 'r) workspace_binding option) \<Rightarrow> uuid \<Rightarrow> ('i, 'r) workspace_binding \<Rightarrow> time \<Rightarrow> bool \<Rightarrow>
     ('i, 'r) lifecycle \<Rightarrow> 'r workspace_state option" where
  "after_drop f lid b now immediate L =
     (let hs = holders_of f (wb_identity b) - {lid} in
      if hs = {} \<and> immediate then None
      else Some \<lparr>ws_runtime = wb_runtime b, ws_holders = hs,
                 ws_grace_deadline = (if hs = {} then Some (now + lc_grace L) else None)\<rparr>)"

definition drop_result ::
    "(uuid \<Rightarrow> ('i, 'r) workspace_binding option) \<Rightarrow> uuid \<Rightarrow> ('i, 'r) workspace_binding \<Rightarrow> time \<Rightarrow> bool \<Rightarrow>
     ('i, 'r) lifecycle \<Rightarrow> nat \<times> 'r option \<times> time option" where
  "drop_result f lid b now immediate L =
     (let hs = holders_of f (wb_identity b) - {lid} in
      (card hs, if hs = {} \<and> immediate then Some (wb_runtime b) else None,
       if hs = {} \<and> \<not> immediate then Some (now + lc_grace L) else None))"

lemma drop_holder_ok:
  assumes ok: "holders_ok f L" and b: "f lid = Some b"
  shows "\<exists>w. drop_holder lid (wb_identity b) now immediate L =
      (L\<lparr>lc_workspaces := w\<rparr>, Inr (drop_result f lid b now immediate L)) \<and>
    holders_ok (f(lid := None)) (L\<lparr>lc_workspaces := w\<rparr>) \<and>
    map_of w = (ws_of L)(wb_identity b := after_drop f lid b now immediate L)"
proof -
  from holders_ok_bound [OF ok b] obtain st where
    st: "ws_of L (wb_identity b) = Some st" "ws_runtime st = wb_runtime b" "lid \<in> ws_holders st" .
  define hs where "hs = holders_of f (wb_identity b) - {lid}"
  have hs: "ws_holders st - {lid} = hs" and fin: "finite hs"
    using holders_okD(2) [OF ok st(1)] holders_of_finite [OF ok] by (simp_all add: hs_def)
  then have n0: "card hs = 0 \<longleftrightarrow> hs = {}" by simp
  have grace: "ws_grace_deadline st = None" using holders_okD(3) [OF ok st(1)] st(3) by auto
  define w where "w = (case after_drop f lid b now immediate L of
      None \<Rightarrow> AList.delete (wb_identity b) (lc_workspaces L)
    | Some st' \<Rightarrow> AList.update (wb_identity b) st' (lc_workspaces L))"
  have eq: "drop_holder lid (wb_identity b) now immediate L =
      (L\<lparr>lc_workspaces := w\<rparr>, Inr (drop_result f lid b now immediate L))"
    using st hs n0 grace
    by (cases st) (auto simp: drop_holder_def ws_of_def w_def after_drop_def drop_result_def
        hs_def [symmetric] Let_def)
  have w: "map_of w = (ws_of L)(wb_identity b := after_drop f lid b now immediate L)"
    by (auto simp: ws_of_def w_def dict_simps fun_eq_iff split: option.split)
  then have wsw: "ws_of (L\<lparr>lc_workspaces := w\<rparr>) = (ws_of L)(wb_identity b := after_drop f lid b now immediate L)"
    by (simp add: ws_of_def)
  have "holders_ok (f(lid := None)) (L\<lparr>lc_workspaces := w\<rparr>)"
  proof (rule holders_okI)
    show "dict_ok (lc_workspaces (L\<lparr>lc_workspaces := w\<rparr>))"
      using ok by (simp add: w_def holders_ok_def split: option.split)
  next
    fix i st' assume st': "ws_of (L\<lparr>lc_workspaces := w\<rparr>) i = Some st'"
    show "finite (ws_holders st') \<and> ws_holders st' = holders_of (f(lid := None)) i \<and>
        (ws_holders st' = {} \<longleftrightarrow> ws_grace_deadline st' \<noteq> None)"
    proof (cases "i = wb_identity b")
      case True
      with st' fin show ?thesis
        by (auto simp: wsw after_drop_def holders_of_unbind hs_def Let_def split: if_splits)
    next
      case False
      with st' have "ws_of L i = Some st'" by (simp add: wsw)
      from holders_okD [OF ok this] False b show ?thesis
        by (simp add: holders_of_unbind holders_of_self)
    qed
  next
    fix h c assume "(f(lid := None)) h = Some c"
    then have fh: "h \<noteq> lid" "f h = Some c" by (auto split: if_splits)
    show "\<exists>st. ws_of (L\<lparr>lc_workspaces := w\<rparr>) (wb_identity c) = Some st \<and> ws_runtime st = wb_runtime c"
    proof (cases "wb_identity c = wb_identity b")
      case True
      with fh have "h \<in> holders_of f (wb_identity b) - {lid}" by (simp add: holders_of_self)
      then have "after_drop f lid b now immediate L \<noteq> None"
        by (auto simp: after_drop_def Let_def)
      moreover from holders_ok_bound [OF ok fh(2)] obtain st' where
        "ws_of L (wb_identity c) = Some st'" "ws_runtime st' = wb_runtime c" .
      with st True have "wb_runtime c = wb_runtime b" by simp
      ultimately show ?thesis using True
        by (auto simp: wsw after_drop_def Let_def split: if_splits)
    next
      case False
      from holders_ok_bound [OF ok fh(2)] obtain st' where
        "ws_of L (wb_identity c) = Some st'" "ws_runtime st' = wb_runtime c" .
      with False show ?thesis by (simp add: wsw)
    qed
  qed
  with eq w show ?thesis by auto
qed

section \<open>What each operation does under the invariant\<close>

lemma lc_invD:
  assumes "lc_inv L"
  shows "dict_ok (lc_active L)" and "holders_ok (lease_binding L) L"
    and "map_of (lc_active L) lid = Some l \<Longrightarrow> dl_id l = lid"
  using assms by (auto simp: lc_inv_def)

lemma lc_inv_expired [simp]: "lc_inv (L\<lparr>lc_expired := x\<rparr>) = lc_inv L"
  by (simp add: lc_inv_def)

definition end_decision ::
    "('i, 'r) daemon_lease \<Rightarrow> lease_end_reason \<Rightarrow> time \<Rightarrow> bool \<Rightarrow> ('i, 'r) lifecycle \<Rightarrow>
     ('i, 'r) lease_decision" where
  "end_decision l reason now immediate L =
     (case dl_binding l of
        None \<Rightarrow> \<lparr>ld_reason = reason, ld_identity = None, ld_active_holders = 0,
                 ld_binding_to_release = None, ld_lease_id = Some (dl_id l),
                 ld_runtime_to_stop = None, ld_grace_deadline = None\<rparr>
      | Some b \<Rightarrow>
          (let (n, stop, grace) = drop_result (lease_binding L) (dl_id l) b now immediate L in
           \<lparr>ld_reason = reason, ld_identity = Some (wb_identity b), ld_active_holders = n,
            ld_binding_to_release = Some b, ld_lease_id = Some (dl_id l),
            ld_runtime_to_stop = stop, ld_grace_deadline = grace\<rparr>))"

lemma end_locked_ok:
  assumes inv: "lc_inv L" and l: "map_of (lc_active L) lid = Some l"
  shows "\<exists>w. end_locked l reason now immediate L =
      (L\<lparr>lc_active := AList.delete lid (lc_active L), lc_workspaces := w\<rparr>,
       Inr (end_decision l reason now immediate L)) \<and>
    lc_inv (L\<lparr>lc_active := AList.delete lid (lc_active L), lc_workspaces := w\<rparr>) \<and>
    map_of w = (case dl_binding l of
        None \<Rightarrow> ws_of L
      | Some b \<Rightarrow> (ws_of L)(wb_identity b := after_drop (lease_binding L) lid b now immediate L))"
proof -
  have id: "dl_id l = lid" by (rule lc_invD(3) [OF inv l])
  let ?L1 = "L\<lparr>lc_active := AList.delete lid (lc_active L)\<rparr>"
  have act: "dict_ok (lc_active ?L1)" "map_of (lc_active ?L1) k = Some m \<Longrightarrow> dl_id m = k" for k m
    using inv by (auto simp: lc_inv_def dict_simps split: if_splits)
  show ?thesis
  proof (cases "dl_binding l")
    case None
    then have "lease_binding ?L1 = lease_binding L"
      using l by (simp add: lease_binding_delete fun_upd_idem)
    with act inv have "lc_inv ?L1" by (auto simp: lc_inv_def)
    with None l id show ?thesis
      by (intro exI [of _ "lc_workspaces L"]) (simp add: end_locked_def end_decision_def ws_of_def Let_def)
  next
    case (Some b)
    with l have fb: "lease_binding L lid = Some b" by simp
    have "holders_ok (lease_binding L) ?L1" using lc_invD(2) [OF inv] by simp
    from drop_holder_ok [OF this fb, of now immediate] obtain w where
      w: "drop_holder lid (wb_identity b) now immediate ?L1 =
            (?L1\<lparr>lc_workspaces := w\<rparr>, Inr (drop_result (lease_binding L) lid b now immediate ?L1))"
        "holders_ok ((lease_binding L)(lid := None)) (?L1\<lparr>lc_workspaces := w\<rparr>)"
        "map_of w = (ws_of ?L1)(wb_identity b := after_drop (lease_binding L) lid b now immediate ?L1)"
      by auto
    have "lc_inv (?L1\<lparr>lc_workspaces := w\<rparr>)"
      using act w(2) by (auto simp: lc_inv_def lease_binding_delete)
    with w Some l id show ?thesis
      by (intro exI [of _ w])
        (simp add: end_locked_def end_decision_def after_drop_def drop_result_def Let_def)
  qed
qed

lemma ended_binding [simp]:
  "lease_binding (L\<lparr>lc_active := AList.delete lid (lc_active L), lc_workspaces := w\<rparr>) =
     (lease_binding L)(lid := None)"
  by (auto simp: lease_binding_def dict_simps fun_eq_iff)

text \<open>
  \<open>require_active\<close> accepts exactly the leases before their expiry instant; at the
  instant it ends the lease, and the decision to release its binding is given once.
\<close>

lemma require_active_live:
  assumes "map_of (lc_active L) lid = Some l" and "now < expires_at l"
  shows "require_active_locked lid now L = (L, Inr l)"
  using assms by (simp add: require_active_locked_def)

lemma require_active_missing:
  assumes "map_of (lc_active L) lid = None"
  shows "require_active_locked lid now L = (L, Inl (LeaseExpiredError None))"
  using assms by (simp add: require_active_locked_def)

lemma require_active_expired:
  assumes inv: "lc_inv L" and l: "map_of (lc_active L) lid = Some l" and "expires_at l \<le> now"
  shows "\<exists>w. require_active_locked lid now L =
      (L\<lparr>lc_active := AList.delete lid (lc_active L), lc_workspaces := w,
         lc_expired := insert lid (lc_expired L)\<rparr>,
       Inl (LeaseExpiredError (Some (end_decision l EXPIRED now False L)))) \<and>
    lc_inv (L\<lparr>lc_active := AList.delete lid (lc_active L), lc_workspaces := w,
         lc_expired := insert lid (lc_expired L)\<rparr>) \<and>
    map_of w = (case dl_binding l of
        None \<Rightarrow> ws_of L
      | Some b \<Rightarrow> (ws_of L)(wb_identity b := after_drop (lease_binding L) lid b now False L))"
proof -
  from end_locked_ok [OF inv l, of EXPIRED now False] obtain w where
    "end_locked l EXPIRED now False L =
      (L\<lparr>lc_active := AList.delete lid (lc_active L), lc_workspaces := w\<rparr>,
       Inr (end_decision l EXPIRED now False L))"
    "lc_inv (L\<lparr>lc_active := AList.delete lid (lc_active L), lc_workspaces := w\<rparr>)"
    "map_of w = (case dl_binding l of
        None \<Rightarrow> ws_of L
      | Some b \<Rightarrow> (ws_of L)(wb_identity b := after_drop (lease_binding L) lid b now False L))" by blast
  with assms(2,3) show ?thesis
    by (intro exI [of _ w]) (simp add: require_active_locked_def lc_inv_def)
qed

lemma require_active_cases:
  assumes inv: "lc_inv L"
  obtains (live) l where "map_of (lc_active L) lid = Some l" "now < expires_at l"
      "require_active_locked lid now L = (L, Inr l)"
  | (expired) l w where "map_of (lc_active L) lid = Some l" "expires_at l \<le> now"
      "require_active_locked lid now L =
        (L\<lparr>lc_active := AList.delete lid (lc_active L), lc_workspaces := w,
           lc_expired := insert lid (lc_expired L)\<rparr>,
         Inl (LeaseExpiredError (Some (end_decision l EXPIRED now False L))))"
      "lc_inv (L\<lparr>lc_active := AList.delete lid (lc_active L), lc_workspaces := w,
         lc_expired := insert lid (lc_expired L)\<rparr>)"
      "map_of w = (case dl_binding l of
        None \<Rightarrow> ws_of L
      | Some b \<Rightarrow> (ws_of L)(wb_identity b := after_drop (lease_binding L) lid b now False L))"
  | (missing) "map_of (lc_active L) lid = None"
      "require_active_locked lid now L = (L, Inl (LeaseExpiredError None))"
proof (cases "map_of (lc_active L) lid")
  case None
  with missing require_active_missing show ?thesis by metis
next
  case (Some l)
  show ?thesis
  proof (cases "now < expires_at l")
    case True
    with live Some require_active_live show ?thesis by metis
  next
    case False
    then have "expires_at l \<le> now" by simp
    with expired require_active_expired [OF inv Some this] Some show ?thesis by blast
  qed
qed

definition ws_runtime_of :: "('i, 'r) lifecycle \<Rightarrow> 'i \<Rightarrow> 'r option" where
  "ws_runtime_of L i = map_option ws_runtime (ws_of L i)"

lemma ws_runtime_of_upd [simp]:
  "ws_runtime_of (L\<lparr>lc_active := a\<rparr>) = ws_runtime_of L"
  "ws_runtime_of (L\<lparr>lc_expired := x\<rparr>) = ws_runtime_of L"
  by (simp_all add: ws_runtime_of_def fun_eq_iff)

lemma ws_runtime_of_upd2 [simp]:
  "ws_runtime_of (L\<lparr>lc_active := a, lc_workspaces := w\<rparr>) = ws_runtime_of (L\<lparr>lc_workspaces := w\<rparr>)"
  "ws_runtime_of (L\<lparr>lc_active := a, lc_workspaces := w, lc_expired := x\<rparr>) = ws_runtime_of (L\<lparr>lc_workspaces := w\<rparr>)"
  by (simp_all add: ws_runtime_of_def ws_of_def fun_eq_iff)

lemma after_drop_runtime:
  "after_drop f lid b now immediate L = Some st \<Longrightarrow> ws_runtime st = wb_runtime b"
  by (auto simp: after_drop_def Let_def split: if_splits)

lemma bound_ws_runtime:
  assumes "lc_inv L" and "lease_binding L lid = Some b"
  shows "ws_runtime_of L (wb_identity b) = Some (wb_runtime b)"
proof -
  from holders_ok_bound [OF lc_invD(2) [OF assms(1)] assms(2)] obtain st where
    "ws_of L (wb_identity b) = Some st" "ws_runtime st = wb_runtime b" .
  then show ?thesis by (simp add: ws_runtime_of_def)
qed

lemma drop_ws_runtime_le:
  assumes "lc_inv L" and "lease_binding L lid = Some b"
    and "ws_of L' = (ws_of L)(wb_identity b := after_drop (lease_binding L) lid b now immediate L)"
  shows "ws_runtime_of L' \<subseteq>\<^sub>m ws_runtime_of L"
  using bound_ws_runtime [OF assms(1,2)] assms(3)
  by (auto simp: map_le_def ws_runtime_of_def dom_def dest: after_drop_runtime split: if_splits)

lemma ended_ws_runtime_le:
  assumes inv: "lc_inv L" and l: "map_of (lc_active L) lid = Some l"
    and w: "map_of (lc_workspaces L') = (case dl_binding l of
        None \<Rightarrow> ws_of L
      | Some b \<Rightarrow> (ws_of L)(wb_identity b := after_drop (lease_binding L) lid b now immediate L))"
  shows "ws_runtime_of L' \<subseteq>\<^sub>m ws_runtime_of L"
proof (cases "dl_binding l")
  case None
  with w show ?thesis by (simp add: ws_runtime_of_def ws_of_def fun_eq_iff map_le_def)
next
  case (Some b)
  with l have "lease_binding L lid = Some b" by simp
  from drop_ws_runtime_le [OF inv this] w Some show ?thesis by (simp add: ws_of_def)
qed

lemma ended_ws_runtime_keep:
  assumes inv: "lc_inv L" and l: "map_of (lc_active L) lid = Some l"
    and w: "map_of (lc_workspaces L') = (case dl_binding l of
        None \<Rightarrow> ws_of L
      | Some b \<Rightarrow> (ws_of L)(wb_identity b := after_drop (lease_binding L) lid b now False L))"
  shows "ws_runtime_of L' = ws_runtime_of L"
proof (cases "dl_binding l")
  case None
  with w show ?thesis by (simp add: ws_runtime_of_def ws_of_def fun_eq_iff)
next
  case (Some b)
  with l have "lease_binding L lid = Some b" by simp
  from bound_ws_runtime [OF inv this] w Some show ?thesis
    by (auto simp: ws_runtime_of_def ws_of_def fun_eq_iff after_drop_def Let_def)
qed

subsection \<open>Issue, heartbeat, rebind\<close>

lemma holders_ok_rebind_same:
  assumes ok: "holders_ok f L" and old: "f lid = Some ob"
    and same: "wb_identity b = wb_identity ob" "wb_runtime b = wb_runtime ob"
  shows "holders_ok (f(lid \<mapsto> b)) L"
proof (rule holders_okI)
  have eq: "holders_of (f(lid \<mapsto> b)) i = holders_of f i" for i
    using old same by (auto simp: holders_of_def)
  show "dict_ok (lc_workspaces L)" using ok by (simp add: holders_ok_def)
  show "finite (ws_holders st) \<and> ws_holders st = holders_of (f(lid \<mapsto> b)) i \<and>
        (ws_holders st = {} \<longleftrightarrow> ws_grace_deadline st \<noteq> None)" if "ws_of L i = Some st" for i st
    using holders_okD [OF ok that] eq by simp
  fix h c assume "(f(lid \<mapsto> b)) h = Some c"
  then obtain c' where "f h = Some c'" "wb_identity c' = wb_identity c" "wb_runtime c' = wb_runtime c"
    using old same by (auto split: if_splits)
  with holders_ok_bound [OF ok, of h c'] show "\<exists>st. ws_of L (wb_identity c) = Some st \<and> ws_runtime st = wb_runtime c"
    by metis
qed

lemma lc_inv_set_lease:
  assumes "lc_inv L" and "dl_id l = lid"
    and "holders_ok ((lease_binding L)(lid := dl_binding l)) (L\<lparr>lc_workspaces := w\<rparr>)"
  shows "lc_inv (L\<lparr>lc_workspaces := w, lc_active := AList.update lid l (lc_active L)\<rparr>)"
  using assms lease_binding_update [where L = "L\<lparr>lc_workspaces := w\<rparr>" and lid = lid and l = l]
  by (auto simp: lc_inv_def dict_simps split: if_splits)

lemma issue_ok:
  assumes inv: "lc_inv L" and new: "map_of (lc_active L) lid = None"
    and compat: "\<And>b r. binding = Some b \<Longrightarrow> ws_runtime_of L (wb_identity b) = Some r \<Longrightarrow> r = wb_runtime b"
  shows "\<exists>L' l. issue lid now binding L = (L', Inr l) \<and> lc_inv L' \<and> dl_binding l = binding \<and>
    expires_at l = now + lc_expiry L \<and>
    map_of (lc_active L') = (map_of (lc_active L))(lid \<mapsto> l) \<and> lc_expired L' = lc_expired L \<and>
    (binding = None \<longrightarrow> ws_of L' = ws_of L)"
proof -
  define l where "l = \<lparr>dl_id = lid, dl_binding = binding, dl_issued_at = now,
     dl_last_heartbeat_at = now, dl_heartbeat_interval = lc_heartbeat_interval L, dl_expiry = lc_expiry L\<rparr>"
  let ?L1 = "L\<lparr>lc_active := AList.update lid l (lc_active L)\<rparr>"
  have lb0: "lease_binding L lid = None" using new by simp
  have act: "map_of (lc_active ?L1) = (map_of (lc_active L))(lid \<mapsto> l)"
    by (auto simp: dict_simps fun_eq_iff)
  have ids: "dl_id l = lid" and ex: "expires_at l = now + lc_expiry L" and bd: "dl_binding l = binding"
    by (simp_all add: l_def expires_at_def)
  show ?thesis
  proof (cases binding)
    case None
    have "lc_inv (L\<lparr>lc_workspaces := lc_workspaces L, lc_active := AList.update lid l (lc_active L)\<rparr>)"
      by (rule lc_inv_set_lease [OF inv ids]) (use None bd lb0 lc_invD(2) [OF inv] in \<open>simp add: fun_upd_idem\<close>)
    with None act ex bd show ?thesis
      by (intro exI [of _ ?L1] exI [of _ l]) (simp add: issue_def l_def Let_def)
  next
    case (Some b)
    have "holders_ok (lease_binding L) ?L1" using lc_invD(2) [OF inv] by simp
    from add_holder_ok [OF this lb0, of b] compat [OF Some] obtain w where
      w: "add_holder_locked lid b ?L1 = (?L1\<lparr>lc_workspaces := w\<rparr>, Inr ())"
        "holders_ok ((lease_binding L)(lid \<mapsto> b)) (?L1\<lparr>lc_workspaces := w\<rparr>)"
      by (auto simp: ws_runtime_of_def)
    have "lc_inv (L\<lparr>lc_workspaces := w, lc_active := AList.update lid l (lc_active L)\<rparr>)"
      by (rule lc_inv_set_lease [OF inv ids]) (use w(2) Some bd in simp)
    with w(1) Some act ex bd show ?thesis
      by (intro exI [of _ "?L1\<lparr>lc_workspaces := w\<rparr>"] exI [of _ l]) (simp add: issue_def l_def Let_def)
  qed
qed

lemma heartbeat_ok:
  assumes inv: "lc_inv L" and l: "map_of (lc_active L) lid = Some l" and live: "now < expires_at l"
  shows "heartbeat lid now L = (L\<lparr>lc_active := AList.update lid (l\<lparr>dl_last_heartbeat_at := now\<rparr>) (lc_active L)\<rparr>,
           Inr (l\<lparr>dl_last_heartbeat_at := now\<rparr>))"
    and "lc_inv (fst (heartbeat lid now L))"
proof -
  show eq: "heartbeat lid now L = (L\<lparr>lc_active := AList.update lid (l\<lparr>dl_last_heartbeat_at := now\<rparr>) (lc_active L)\<rparr>,
           Inr (l\<lparr>dl_last_heartbeat_at := now\<rparr>))"
    using require_active_live [OF l live] by (simp add: heartbeat_def Let_def)
  have "lc_inv (L\<lparr>lc_workspaces := lc_workspaces L,
      lc_active := AList.update lid (l\<lparr>dl_last_heartbeat_at := now\<rparr>) (lc_active L)\<rparr>)"
    by (rule lc_inv_set_lease [OF inv])
      (use lc_invD(3) [OF inv l] lc_invD(2) [OF inv] l in \<open>simp_all add: fun_upd_idem\<close>)
  then show "lc_inv (fst (heartbeat lid now L))" by (simp add: eq)
qed

lemma remove_holder_ok:
  assumes ok: "holders_ok f L" and b: "f lid = Some b"
  shows "\<exists>w d. remove_holder_locked lid (wb_identity b) now immediate L = (L\<lparr>lc_workspaces := w\<rparr>, Inr d) \<and>
    holders_ok (f(lid := None)) (L\<lparr>lc_workspaces := w\<rparr>) \<and>
    map_of w = (ws_of L)(wb_identity b := after_drop f lid b now immediate L) \<and>
    (ld_active_holders d, ld_runtime_to_stop d, ld_grace_deadline d) = drop_result f lid b now immediate L"
proof -
  from drop_holder_ok [OF ok b, of now immediate] obtain w where
    "drop_holder lid (wb_identity b) now immediate L =
      (L\<lparr>lc_workspaces := w\<rparr>, Inr (drop_result f lid b now immediate L))"
    "holders_ok (f(lid := None)) (L\<lparr>lc_workspaces := w\<rparr>)"
    "map_of w = (ws_of L)(wb_identity b := after_drop f lid b now immediate L)" by blast
  then show ?thesis
    by (intro exI [of _ w])
      (simp add: remove_holder_locked_def split: prod.split)
qed

text \<open>
  \<open>rebind\<close> of a live lease to a workspace whose runtime is not in conflict moves exactly
  that lease's binding and keeps its expiry.
\<close>

lemma rebind_moved:
  assumes inv: "lc_inv L" and l: "map_of (lc_active L) lid = Some l" and live: "now < expires_at l"
    and compat: "\<And>r. ws_runtime_of L (wb_identity b) = Some r \<Longrightarrow> r = wb_runtime b"
    and old: "dl_binding l = Some ob" and ne: "wb_identity ob \<noteq> wb_identity b"
  shows "\<exists>w. rebind lid now b L =
      (L\<lparr>lc_active := AList.update lid (l\<lparr>dl_binding := Some b\<rparr>) (lc_active L), lc_workspaces := w\<rparr>,
       Inr (l\<lparr>dl_binding := Some b\<rparr>)) \<and>
    holders_ok ((lease_binding L)(lid \<mapsto> b)) (L\<lparr>lc_workspaces := w\<rparr>) \<and>
    ws_runtime_of (L\<lparr>lc_workspaces := w\<rparr>) \<subseteq>\<^sub>m (ws_runtime_of L)(wb_identity b \<mapsto> wb_runtime b)"
proof -
  have id: "dl_id l = lid" by (rule lc_invD(3) [OF inv l])
  from old l have fb: "lease_binding L lid = Some ob" by simp
  from remove_holder_ok [OF lc_invD(2) [OF inv] fb, of now False] obtain w1 d where
    w1: "remove_holder_locked lid (wb_identity ob) now False L = (L\<lparr>lc_workspaces := w1\<rparr>, Inr d)"
      "holders_ok ((lease_binding L)(lid := None)) (L\<lparr>lc_workspaces := w1\<rparr>)"
      "map_of w1 = (ws_of L)(wb_identity ob := after_drop (lease_binding L) lid ob now False L)" by blast
  have c1: "ws_runtime st = wb_runtime b" if "ws_of (L\<lparr>lc_workspaces := w1\<rparr>) (wb_identity b) = Some st" for st
    using that w1(3) ne compat by (simp add: ws_of_def ws_runtime_of_def)
  have free: "((lease_binding L)(lid := None)) lid = None" by simp
  from add_holder_ok [OF w1(2) free c1] obtain w where
    w0: "add_holder_locked lid b (L\<lparr>lc_workspaces := w1\<rparr>) = (L\<lparr>lc_workspaces := w1, lc_workspaces := w\<rparr>, Inr ())"
      "holders_ok ((lease_binding L)(lid := None, lid \<mapsto> b)) (L\<lparr>lc_workspaces := w1, lc_workspaces := w\<rparr>)"
      "map_of w = (ws_of (L\<lparr>lc_workspaces := w1\<rparr>))(wb_identity b \<mapsto> \<lparr>ws_runtime = wb_runtime b,
         ws_holders = insert lid (holders_of ((lease_binding L)(lid := None)) (wb_identity b)),
         ws_grace_deadline = None\<rparr>)" by blast
  then have w: "add_holder_locked lid b (L\<lparr>lc_workspaces := w1\<rparr>) = (L\<lparr>lc_workspaces := w\<rparr>, Inr ())"
      "holders_ok ((lease_binding L)(lid \<mapsto> b)) (L\<lparr>lc_workspaces := w\<rparr>)"
    by simp_all
  from w0(3) have w3: "\<exists>st0. map_of w = (map_of w1)(wb_identity b \<mapsto> st0) \<and> ws_runtime st0 = wb_runtime b"
    by (auto simp: ws_of_def)
  have eq: "rebind lid now b L =
      (L\<lparr>lc_active := AList.update lid (l\<lparr>dl_binding := Some b\<rparr>) (lc_active L), lc_workspaces := w\<rparr>,
       Inr (l\<lparr>dl_binding := Some b\<rparr>))"
    using require_active_live [OF l live] old ne id w1(1) w(1) by (simp add: rebind_def Let_def)
  have "ws_runtime_of (L\<lparr>lc_workspaces := w1\<rparr>) \<subseteq>\<^sub>m ws_runtime_of L"
    by (rule drop_ws_runtime_le [OF inv fb]) (use w1(3) in \<open>simp add: ws_of_def\<close>)
  moreover have "ws_runtime_of (L\<lparr>lc_workspaces := w\<rparr>) =
      (ws_runtime_of (L\<lparr>lc_workspaces := w1\<rparr>))(wb_identity b \<mapsto> wb_runtime b)"
    using w3 by (auto simp: ws_runtime_of_def ws_of_def fun_eq_iff)
  ultimately have "ws_runtime_of (L\<lparr>lc_workspaces := w\<rparr>) \<subseteq>\<^sub>m (ws_runtime_of L)(wb_identity b \<mapsto> wb_runtime b)"
    by (simp add: map_le_upd)
  with eq w(2) show ?thesis by blast
qed

lemma rebind_here:
  assumes inv: "lc_inv L" and l: "map_of (lc_active L) lid = Some l" and live: "now < expires_at l"
    and compat: "\<And>r. ws_runtime_of L (wb_identity b) = Some r \<Longrightarrow> r = wb_runtime b"
    and here: "\<And>ob. dl_binding l = Some ob \<Longrightarrow> wb_identity ob = wb_identity b"
  shows "\<exists>w. rebind lid now b L =
      (L\<lparr>lc_active := AList.update lid (l\<lparr>dl_binding := Some b\<rparr>) (lc_active L), lc_workspaces := w\<rparr>,
       Inr (l\<lparr>dl_binding := Some b\<rparr>)) \<and>
    holders_ok ((lease_binding L)(lid \<mapsto> b)) (L\<lparr>lc_workspaces := w\<rparr>) \<and>
    ws_runtime_of (L\<lparr>lc_workspaces := w\<rparr>) \<subseteq>\<^sub>m (ws_runtime_of L)(wb_identity b \<mapsto> wb_runtime b)"
proof (cases "dl_binding l")
  case None
  with l have fb: "lease_binding L lid = None" by simp
  have c: "ws_runtime st = wb_runtime b" if "ws_of L (wb_identity b) = Some st" for st
    using that compat by (simp add: ws_runtime_of_def)
  from add_holder_ok [OF lc_invD(2) [OF inv] fb c] obtain w st0 where
    w: "add_holder_locked lid b L = (L\<lparr>lc_workspaces := w\<rparr>, Inr ())"
      "holders_ok ((lease_binding L)(lid \<mapsto> b)) (L\<lparr>lc_workspaces := w\<rparr>)"
      "map_of w = (ws_of L)(wb_identity b \<mapsto> st0)" "ws_runtime st0 = wb_runtime b"
    by (metis workspace_state.select_convs(1))
  have "ws_runtime_of (L\<lparr>lc_workspaces := w\<rparr>) \<subseteq>\<^sub>m (ws_runtime_of L)(wb_identity b \<mapsto> wb_runtime b)"
    using w(3,4) by (auto simp: map_le_def ws_runtime_of_def ws_of_def)
  with w None require_active_live [OF l live] lc_invD(3) [OF inv l] show ?thesis
    by (intro exI [of _ w]) (simp add: rebind_def Let_def)
next
  case (Some ob)
  with l have fb: "lease_binding L lid = Some ob" by simp
  from here [OF Some] compat bound_ws_runtime [OF inv fb] have rt: "wb_runtime b = wb_runtime ob" by simp
  have "holders_ok ((lease_binding L)(lid \<mapsto> b)) L"
    by (rule holders_ok_rebind_same [OF lc_invD(2) [OF inv] fb]) (use here [OF Some] rt in simp_all)
  moreover have "ws_runtime_of L \<subseteq>\<^sub>m (ws_runtime_of L)(wb_identity b \<mapsto> wb_runtime b)"
    using bound_ws_runtime [OF inv fb] here [OF Some] rt by (auto simp: map_le_def)
  ultimately show ?thesis
    using Some here [OF Some] rt require_active_live [OF l live] lc_invD(3) [OF inv l]
    by (intro exI [of _ "lc_workspaces L"]) (simp add: rebind_def Let_def)
qed

lemma rebind_ok:
  assumes inv: "lc_inv L" and l: "map_of (lc_active L) lid = Some l" and live: "now < expires_at l"
    and compat: "\<And>r. ws_runtime_of L (wb_identity b) = Some r \<Longrightarrow> r = wb_runtime b"
  shows "\<exists>L'. rebind lid now b L = (L', Inr (l\<lparr>dl_binding := Some b\<rparr>)) \<and> lc_inv L' \<and>
    map_of (lc_active L') = (map_of (lc_active L))(lid \<mapsto> l\<lparr>dl_binding := Some b\<rparr>) \<and>
    ws_runtime_of L' \<subseteq>\<^sub>m (ws_runtime_of L)(wb_identity b \<mapsto> wb_runtime b)"
proof -
  have "\<exists>w. rebind lid now b L =
      (L\<lparr>lc_active := AList.update lid (l\<lparr>dl_binding := Some b\<rparr>) (lc_active L), lc_workspaces := w\<rparr>,
       Inr (l\<lparr>dl_binding := Some b\<rparr>)) \<and>
    holders_ok ((lease_binding L)(lid \<mapsto> b)) (L\<lparr>lc_workspaces := w\<rparr>) \<and>
    ws_runtime_of (L\<lparr>lc_workspaces := w\<rparr>) \<subseteq>\<^sub>m (ws_runtime_of L)(wb_identity b \<mapsto> wb_runtime b)"
  proof (cases "\<exists>ob. dl_binding l = Some ob \<and> wb_identity ob \<noteq> wb_identity b")
    case True
    with rebind_moved [OF inv l live compat] show ?thesis by auto
  next
    case False
    with rebind_here [OF inv l live compat] show ?thesis by auto
  qed
  then obtain w where
    w: "rebind lid now b L =
      (L\<lparr>lc_active := AList.update lid (l\<lparr>dl_binding := Some b\<rparr>) (lc_active L), lc_workspaces := w\<rparr>,
       Inr (l\<lparr>dl_binding := Some b\<rparr>))"
    "holders_ok ((lease_binding L)(lid \<mapsto> b)) (L\<lparr>lc_workspaces := w\<rparr>)"
    "ws_runtime_of (L\<lparr>lc_workspaces := w\<rparr>) \<subseteq>\<^sub>m (ws_runtime_of L)(wb_identity b \<mapsto> wb_runtime b)" by blast
  have "lc_inv (L\<lparr>lc_workspaces := w, lc_active := AList.update lid (l\<lparr>dl_binding := Some b\<rparr>) (lc_active L)\<rparr>)"
    by (rule lc_inv_set_lease [OF inv]) (use w(2) lc_invD(3) [OF inv l] in simp_all)
  with w(1,3) show ?thesis
    by (auto simp: dict_simps fun_eq_iff)
qed

lemma rebind_rejected:
  assumes "require_active_locked lid now L = (L', Inl e)"
  shows "rebind lid now b L = (L', Inl e)"
  using assms by (simp add: rebind_def)

subsection \<open>Release\<close>

lemma lc_release_ok:
  assumes inv: "lc_inv L" and l: "map_of (lc_active L) lid = Some l"
  shows "\<exists>L' d. lc_release lid now immediate L = (L', Inr \<lparr>rr_released = (now < expires_at l), rr_decision = Some d\<rparr>) \<and>
    lc_inv L' \<and> map_of (lc_active L') = (map_of (lc_active L))(lid := None) \<and>
    d = (if now < expires_at l then end_decision l RELEASED now immediate L
         else end_decision l EXPIRED now False L) \<and>
    ws_of L' = (case dl_binding l of
        None \<Rightarrow> ws_of L
      | Some b \<Rightarrow> (ws_of L)(wb_identity b :=
          after_drop (lease_binding L) lid b now (immediate \<and> now < expires_at l) L))"
proof (cases "now < expires_at l")
  case True
  from end_locked_ok [OF inv l, of RELEASED now immediate] l True show ?thesis
    by (auto simp: lc_release_def ws_of_def dict_simps fun_eq_iff split: option.split)
next
  case False
  from end_locked_ok [OF inv l, of EXPIRED now False] l False show ?thesis
    by (auto simp: lc_release_def lc_inv_def ws_of_def dict_simps fun_eq_iff split: option.split)
qed

lemma lc_release_missing:
  "map_of (lc_active L) lid = None \<Longrightarrow>
   lc_release lid now immediate L = (L, Inr \<lparr>rr_released = False, rr_decision = None\<rparr>)"
  by (simp add: lc_release_def)

lemma release_workspace_ok:
  assumes inv: "lc_inv L" and l: "map_of (lc_active L) lid = Some l" and live: "now < expires_at l"
    and b: "dl_binding l = Some b"
  shows "\<exists>L' d. release_workspace lid now immediate L = (L', Inr \<lparr>rr_released = True, rr_decision = Some d\<rparr>) \<and>
    lc_inv L' \<and> map_of (lc_active L') = (map_of (lc_active L))(lid \<mapsto> l\<lparr>dl_binding := None\<rparr>) \<and>
    d = end_decision l RELEASED now immediate L \<and>
    ws_of L' = (ws_of L)(wb_identity b := after_drop (lease_binding L) lid b now immediate L)"
proof -
  have id: "dl_id l = lid" by (rule lc_invD(3) [OF inv l])
  from b l have fb: "lease_binding L lid = Some b" by simp
  from remove_holder_ok [OF lc_invD(2) [OF inv] fb, of now immediate] obtain w d where
    w: "remove_holder_locked lid (wb_identity b) now immediate L = (L\<lparr>lc_workspaces := w\<rparr>, Inr d)"
      "holders_ok ((lease_binding L)(lid := None)) (L\<lparr>lc_workspaces := w\<rparr>)"
      "map_of w = (ws_of L)(wb_identity b := after_drop (lease_binding L) lid b now immediate L)"
      "(ld_active_holders d, ld_runtime_to_stop d, ld_grace_deadline d) =
         drop_result (lease_binding L) lid b now immediate L" by blast
  have "lc_inv (L\<lparr>lc_workspaces := w, lc_active := AList.update lid (l\<lparr>dl_binding := None\<rparr>) (lc_active L)\<rparr>)"
    by (rule lc_inv_set_lease [OF inv]) (use w(2) id in simp_all)
  with w require_active_live [OF l live] b id show ?thesis
    by (auto simp: release_workspace_def end_decision_def ws_of_def dict_simps fun_eq_iff
        split: prod.split)
qed

subsection \<open>Sweep\<close>

lemma sweep_leases_ok:
  assumes "lc_inv L" and "\<And>l. l \<in> set ls \<Longrightarrow> map_of (lc_active L) (dl_id l) = Some l"
    and "distinct (map dl_id ls)"
  shows "\<exists>L' new. sweep_leases now ls L ds = (L', Inr (ds @ new)) \<and> lc_inv L' \<and> lc_grace L' = lc_grace L \<and>
    (\<forall>k. map_of (lc_active L') k =
       (if \<exists>l \<in> set ls. dl_id l = k \<and> expires_at l \<le> now then None else map_of (lc_active L) k)) \<and>
    ws_runtime_of L' = ws_runtime_of L \<and>
    map ld_lease_id new = map (\<lambda>l. Some (dl_id l)) (filter (\<lambda>l. expires_at l \<le> now) ls) \<and>
    map ld_binding_to_release new = map dl_binding (filter (\<lambda>l. expires_at l \<le> now) ls) \<and>
    (\<forall>d \<in> set new. ld_reason d = EXPIRED \<and> ld_runtime_to_stop d = None) \<and>
    (\<forall>i st. ws_of L' i = Some st \<longrightarrow> ws_of L i = Some st \<or> ws_holders st \<noteq> {} \<or>
       ws_grace_deadline st = Some (now + lc_grace L))"
  using assms
proof (induction ls arbitrary: L ds)
  case Nil
  then show ?case by simp
next
  case (Cons l ls)
  show ?case
  proof (cases "expires_at l \<le> now")
    case False
    from Cons.IH [OF Cons.prems(1), of ds] Cons.prems(2,3) False show ?thesis by auto
  next
    case True
    have l: "map_of (lc_active L) (dl_id l) = Some l" using Cons.prems(2) by simp
    from end_locked_ok [OF Cons.prems(1) l, of EXPIRED now False] obtain w where
      w: "end_locked l EXPIRED now False L =
          (L\<lparr>lc_active := AList.delete (dl_id l) (lc_active L), lc_workspaces := w\<rparr>,
           Inr (end_decision l EXPIRED now False L))"
        "lc_inv (L\<lparr>lc_active := AList.delete (dl_id l) (lc_active L), lc_workspaces := w\<rparr>)"
        "map_of w = (case dl_binding l of None \<Rightarrow> ws_of L
          | Some b \<Rightarrow> (ws_of L)(wb_identity b := after_drop (lease_binding L) (dl_id l) b now False L))"
      by blast
    define L1 where "L1 = L\<lparr>lc_active := AList.delete (dl_id l) (lc_active L), lc_workspaces := w,
        lc_expired := insert (dl_id l) (lc_expired L)\<rparr>"
    have inv1: "lc_inv L1" using w(2) by (simp add: L1_def)
    have act1: "map_of (lc_active L1) m = (if m = dl_id l then None else map_of (lc_active L) m)" for m
      by (simp add: L1_def dict_simps)
    have le1: "ws_runtime_of L1 = ws_runtime_of L"
      by (rule ended_ws_runtime_keep [OF Cons.prems(1) l]) (use w(3) in \<open>simp add: L1_def\<close>)
    have ws1: "ws_of L i = Some st \<or> ws_holders st \<noteq> {} \<or> ws_grace_deadline st = Some (now + lc_grace L)"
      if "ws_of L1 i = Some st" for i st
      using that w(3)
      by (auto simp: L1_def ws_of_def after_drop_def Let_def split: option.splits if_splits)
    have pre: "map_of (lc_active L1) (dl_id m) = Some m" if m: "m \<in> set ls" for m
    proof -
      from m have "dl_id m \<in> dl_id ` set ls" by blast
      with Cons.prems(3) have "dl_id m \<noteq> dl_id l" by auto
      with Cons.prems(2) [of m] m show ?thesis by (simp add: act1)
    qed
    from Cons.IH [OF inv1 pre, of "ds @ [end_decision l EXPIRED now False L]"] Cons.prems(3)
    obtain L' new where
      IH: "sweep_leases now ls L1 (ds @ [end_decision l EXPIRED now False L]) =
            (L', Inr (ds @ end_decision l EXPIRED now False L # new))"
        "lc_inv L'" "lc_grace L' = lc_grace L1"
        "\<forall>k. map_of (lc_active L') k =
          (if \<exists>l \<in> set ls. dl_id l = k \<and> expires_at l \<le> now then None else map_of (lc_active L1) k)"
        "ws_runtime_of L' = ws_runtime_of L1"
        "map ld_lease_id new = map (\<lambda>l. Some (dl_id l)) (filter (\<lambda>l. expires_at l \<le> now) ls)"
        "map ld_binding_to_release new = map dl_binding (filter (\<lambda>l. expires_at l \<le> now) ls)"
        "\<forall>d \<in> set new. ld_reason d = EXPIRED \<and> ld_runtime_to_stop d = None"
        "\<forall>i st. ws_of L' i = Some st \<longrightarrow> ws_of L1 i = Some st \<or> ws_holders st \<noteq> {} \<or>
          ws_grace_deadline st = Some (now + lc_grace L1)"
      by auto
    have d: "ld_lease_id (end_decision l EXPIRED now False L) = Some (dl_id l)"
      "ld_binding_to_release (end_decision l EXPIRED now False L) = dl_binding l"
      "ld_reason (end_decision l EXPIRED now False L) = EXPIRED"
      "ld_runtime_to_stop (end_decision l EXPIRED now False L) = None"
      by (auto simp: end_decision_def drop_result_def Let_def split: option.split)
    have g1: "lc_grace L1 = lc_grace L" by (simp add: L1_def)
    have eq: "sweep_leases now (l # ls) L ds = (L', Inr (ds @ end_decision l EXPIRED now False L # new))"
      using w(1) IH(1) True by (simp add: L1_def)
    have act: "map_of (lc_active L') k =
        (if \<exists>m \<in> set (l # ls). dl_id m = k \<and> expires_at m \<le> now then None else map_of (lc_active L) k)" for k
      using IH(4) True by (auto simp: act1)
    have wss: "ws_of L i = Some st \<or> ws_holders st \<noteq> {} \<or> ws_grace_deadline st = Some (now + lc_grace L)"
      if "ws_of L' i = Some st" for i st
      using IH(9) that ws1 g1 by metis
    show ?thesis
      using eq IH(2,3,6-8) act trans [OF IH(5) le1] d True wss g1
      by (intro exI [of _ L'] exI [of _ "end_decision l EXPIRED now False L # new"]) simp
  qed
qed

definition grace_decision :: "'i \<times> 'r workspace_state \<Rightarrow> ('i, 'r) lease_decision" where
  "grace_decision p = \<lparr>ld_reason = GRACE_EXPIRED, ld_identity = Some (fst p), ld_active_holders = 0,
     ld_binding_to_release = None, ld_lease_id = None,
     ld_runtime_to_stop = Some (ws_runtime (snd p)), ld_grace_deadline = None\<rparr>"

lemma sweep_workspaces_ok:
  assumes "dict_ok (lc_workspaces L)"
  shows "\<exists>w. sweep_workspaces now items L ds =
      (L\<lparr>lc_workspaces := w\<rparr>, ds @ map grace_decision (filter (\<lambda>p. grace_elapsed now (snd p)) items)) \<and>
    dict_ok w \<and>
    (\<forall>i. map_of w i = (if \<exists>st. (i, st) \<in> set items \<and> grace_elapsed now st then None
                         else map_of (lc_workspaces L) i))"
  using assms
proof (induction items arbitrary: L ds)
  case Nil
  then show ?case by (intro exI [of _ "lc_workspaces L"]) simp
next
  case (Cons p items)
  obtain i st where p: "p = (i, st)" by (cases p)
  show ?case
  proof (cases "grace_elapsed now st")
    case True
    let ?L1 = "L\<lparr>lc_workspaces := AList.delete i (lc_workspaces L)\<rparr>"
    have "dict_ok (lc_workspaces ?L1)" using Cons.prems by simp
    from Cons.IH [OF this, of "ds @ [grace_decision (i, st)]"] obtain w where
      "sweep_workspaces now items ?L1 (ds @ [grace_decision (i, st)]) =
        (?L1\<lparr>lc_workspaces := w\<rparr>,
         (ds @ [grace_decision (i, st)]) @ map grace_decision (filter (\<lambda>p. grace_elapsed now (snd p)) items))"
      "dict_ok w"
      "\<forall>j. map_of w j = (if \<exists>st. (j, st) \<in> set items \<and> grace_elapsed now st then None
                         else map_of (lc_workspaces ?L1) j)" by blast
    with p True show ?thesis
      by (intro exI [of _ w]) (auto simp: grace_decision_def dict_simps)
  next
    case False
    from Cons.IH [OF Cons.prems, of ds] obtain w where
      "sweep_workspaces now items L ds =
        (L\<lparr>lc_workspaces := w\<rparr>, ds @ map grace_decision (filter (\<lambda>p. grace_elapsed now (snd p)) items))"
      "dict_ok w"
      "\<forall>j. map_of w j = (if \<exists>st. (j, st) \<in> set items \<and> grace_elapsed now st then None
                         else map_of (lc_workspaces L) j)" by blast
    with p False show ?thesis by (intro exI [of _ w]) auto
  qed
qed

lemma sweep_workspaces_all:
  assumes inv: "lc_inv L"
  shows "\<exists>L'. sweep_workspaces now (lc_workspaces L) L ds =
      (L', ds @ map grace_decision (filter (\<lambda>p. grace_elapsed now (snd p)) (lc_workspaces L))) \<and>
    lc_inv L' \<and> lc_active L' = lc_active L \<and> lc_grace L' = lc_grace L \<and>
    (\<forall>i. ws_of L' i = (case ws_of L i of None \<Rightarrow> None
       | Some st \<Rightarrow> if grace_elapsed now st then None else Some st))"
proof -
  have ok: "holders_ok (lease_binding L) L" by (rule lc_invD(2) [OF inv])
  then have dok: "dict_ok (lc_workspaces L)" by (simp add: holders_ok_def)
  from sweep_workspaces_ok [OF dok, of now "lc_workspaces L" ds] obtain w where
    w: "sweep_workspaces now (lc_workspaces L) L ds = (L\<lparr>lc_workspaces := w\<rparr>,
        ds @ map grace_decision (filter (\<lambda>p. grace_elapsed now (snd p)) (lc_workspaces L)))"
      "dict_ok w"
      "\<forall>i. map_of w i = (if \<exists>st. (i, st) \<in> set (lc_workspaces L) \<and> grace_elapsed now st then None
                         else map_of (lc_workspaces L) i)" by blast
  have mem: "(i, st) \<in> set (lc_workspaces L) \<longleftrightarrow> ws_of L i = Some st" for i st
    using dok by (simp add: ws_of_def map_of_eq_Some_iff)
  have ws: "ws_of (L\<lparr>lc_workspaces := w\<rparr>) i = (case ws_of L i of None \<Rightarrow> None
       | Some st \<Rightarrow> if grace_elapsed now st then None else Some st)" for i
    using w(3) by (auto simp: ws_of_def mem split: option.split)
  have "holders_ok (lease_binding L) (L\<lparr>lc_workspaces := w\<rparr>)"
  proof (rule holders_okI)
    show "dict_ok (lc_workspaces (L\<lparr>lc_workspaces := w\<rparr>))" using w(2) by simp
    show "finite (ws_holders st) \<and> ws_holders st = holders_of (lease_binding L) i \<and>
        (ws_holders st = {} \<longleftrightarrow> ws_grace_deadline st \<noteq> None)"
      if "ws_of (L\<lparr>lc_workspaces := w\<rparr>) i = Some st" for i st
      using that holders_okD [OF ok, of i st] by (auto simp: ws split: option.splits if_splits)
    fix h b assume "lease_binding L h = Some b"
    from holders_ok_bound [OF ok this] obtain st where
      "ws_of L (wb_identity b) = Some st" "ws_runtime st = wb_runtime b" "h \<in> ws_holders st" .
    then show "\<exists>st. ws_of (L\<lparr>lc_workspaces := w\<rparr>) (wb_identity b) = Some st \<and> ws_runtime st = wb_runtime b"
      by (auto simp: ws grace_elapsed_def)
  qed
  with inv have "lc_inv (L\<lparr>lc_workspaces := w\<rparr>)" by (simp add: lc_inv_def)
  with w(1) ws show ?thesis by (intro exI [of _ "L\<lparr>lc_workspaces := w\<rparr>"]) simp
qed

lemma active_values:
  assumes inv: "lc_inv L"
  shows "l \<in> snd ` set (lc_active L) \<longleftrightarrow> map_of (lc_active L) (dl_id l) = Some l"
    and "distinct (map dl_id (map snd (lc_active L)))"
proof -
  have ok: "distinct (map fst (lc_active L))" by (rule lc_invD(1) [OF inv])
  have id: "dl_id m = k" if "(k, m) \<in> set (lc_active L)" for k m
    using that ok lc_invD(3) [OF inv] by (simp add: map_of_eq_Some_iff)
  show "l \<in> snd ` set (lc_active L) \<longleftrightarrow> map_of (lc_active L) (dl_id l) = Some l"
  proof
    assume "l \<in> snd ` set (lc_active L)"
    then obtain k where "(k, l) \<in> set (lc_active L)" by auto
    with id [OF this] ok show "map_of (lc_active L) (dl_id l) = Some l" by simp
  next
    assume "map_of (lc_active L) (dl_id l) = Some l"
    then have "(dl_id l, l) \<in> set (lc_active L)" by (rule map_of_SomeD)
    then show "l \<in> snd ` set (lc_active L)" by force
  qed
  have "map dl_id (map snd (lc_active L)) = map fst (lc_active L)"
    using id by auto
  with ok show "distinct (map dl_id (map snd (lc_active L)))" by (simp only:)
qed

lemma sweep_ok:
  assumes inv: "lc_inv L"
  obtains L' es gs where "sweep now L = (L', Inr (es @ gs))" "lc_inv L'" "lc_grace L' = lc_grace L"
    "\<And>k. map_of (lc_active L') k = (case map_of (lc_active L) k of None \<Rightarrow> None
       | Some l \<Rightarrow> if expires_at l \<le> now then None else Some l)"
    "map (\<lambda>d. (ld_lease_id d, ld_binding_to_release d)) es =
       map (\<lambda>l. (Some (dl_id l), dl_binding l)) (filter (\<lambda>l. expires_at l \<le> now) (map snd (lc_active L)))"
    "\<And>d. d \<in> set es \<Longrightarrow> ld_reason d = EXPIRED \<and> ld_runtime_to_stop d = None"
    "\<And>d. d \<in> set gs \<Longrightarrow> ld_reason d = GRACE_EXPIRED \<and> ld_lease_id d = None \<and> ld_binding_to_release d = None"
    "\<And>i r. (\<exists>d \<in> set gs. ld_identity d = Some i \<and> ld_runtime_to_stop d = Some r) \<longleftrightarrow>
       ws_runtime_of L i = Some r \<and> ws_of L' i = None"
    "ws_runtime_of L' \<subseteq>\<^sub>m ws_runtime_of L"
    "\<And>i st. ws_of L' i = Some st \<Longrightarrow>
       \<not> grace_elapsed now st \<and> (ws_of L i = Some st \<or> ws_holders st \<noteq> {} \<or>
       ws_grace_deadline st = Some (now + lc_grace L))"
proof -
  let ?ls = "map snd (lc_active L)"
  have pre: "map_of (lc_active L) (dl_id l) = Some l" if "l \<in> set ?ls" for l
    using that active_values(1) [OF inv] by simp
  from sweep_leases_ok [where ls = ?ls and now = now and ds = "[]", OF inv pre active_values(2) [OF inv]]
  obtain L1 es where
    es: "sweep_leases now ?ls L [] = (L1, Inr es)" "lc_inv L1" "lc_grace L1 = lc_grace L"
      "\<forall>k. map_of (lc_active L1) k =
       (if \<exists>l \<in> set ?ls. dl_id l = k \<and> expires_at l \<le> now then None else map_of (lc_active L) k)"
      "ws_runtime_of L1 = ws_runtime_of L"
      "map ld_lease_id es = map (\<lambda>l. Some (dl_id l)) (filter (\<lambda>l. expires_at l \<le> now) ?ls)"
      "map ld_binding_to_release es = map dl_binding (filter (\<lambda>l. expires_at l \<le> now) ?ls)"
      "\<forall>d \<in> set es. ld_reason d = EXPIRED \<and> ld_runtime_to_stop d = None"
      "\<forall>i st. ws_of L1 i = Some st \<longrightarrow> ws_of L i = Some st \<or> ws_holders st \<noteq> {} \<or>
         ws_grace_deadline st = Some (now + lc_grace L)"
    by auto
  define gs where "gs = map grace_decision (filter (\<lambda>p. grace_elapsed now (snd p)) (lc_workspaces L1))"
  from sweep_workspaces_all [OF es(2), of now es] obtain L' where
    L': "sweep_workspaces now (lc_workspaces L1) L1 es = (L', es @ gs)"
      "lc_inv L'" "lc_active L' = lc_active L1" "lc_grace L' = lc_grace L1"
      "\<forall>i. ws_of L' i = (case ws_of L1 i of None \<Rightarrow> None
         | Some st \<Rightarrow> if grace_elapsed now st then None else Some st)"
    unfolding gs_def by blast
  have dok: "dict_ok (lc_workspaces L1)" using lc_invD(2) [OF es(2)] by (simp add: holders_ok_def)
  have mem: "(i, st) \<in> set (lc_workspaces L1) \<longleftrightarrow> ws_of L1 i = Some st" for i st
    using dok by (simp add: ws_of_def map_of_eq_Some_iff)
  show ?thesis
  proof (rule that [of L' es gs])
    show "sweep now L = (L', Inr (es @ gs))" using es(1) L'(1) by (simp add: sweep_def)
    show "map_of (lc_active L') k = (case map_of (lc_active L) k of None \<Rightarrow> None
       | Some l \<Rightarrow> if expires_at l \<le> now then None else Some l)" for k
    proof (cases "map_of (lc_active L) k")
      case (Some l)
      have "(\<exists>m \<in> set ?ls. dl_id m = k \<and> expires_at m \<le> now) \<longleftrightarrow> expires_at l \<le> now"
        using pre lc_invD(3) [OF inv Some] active_values(1) [OF inv, of l] Some
        by (metis list.set_map option.inject)
      with es(4) L'(3) Some show ?thesis by simp
    qed (use es(4) L'(3) in simp)
    show "map (\<lambda>d. (ld_lease_id d, ld_binding_to_release d)) es =
       map (\<lambda>l. (Some (dl_id l), dl_binding l)) (filter (\<lambda>l. expires_at l \<le> now) ?ls)"
    proof (rule nth_equalityI)
      show "length (map (\<lambda>d. (ld_lease_id d, ld_binding_to_release d)) es) =
          length (map (\<lambda>l. (Some (dl_id l), dl_binding l)) (filter (\<lambda>l. expires_at l \<le> now) ?ls))"
        using arg_cong [OF es(6), of length] by simp
      then show "map (\<lambda>d. (ld_lease_id d, ld_binding_to_release d)) es ! n =
          map (\<lambda>l. (Some (dl_id l), dl_binding l)) (filter (\<lambda>l. expires_at l \<le> now) ?ls) ! n"
        if "n < length (map (\<lambda>d. (ld_lease_id d, ld_binding_to_release d)) es)" for n
        using that arg_cong [OF es(6), of "\<lambda>xs. xs ! n"] arg_cong [OF es(7), of "\<lambda>xs. xs ! n"] by simp
    qed
    show "(\<exists>d \<in> set gs. ld_identity d = Some i \<and> ld_runtime_to_stop d = Some r) \<longleftrightarrow>
       ws_runtime_of L i = Some r \<and> ws_of L' i = None" for i r
    proof -
      have "(\<exists>d \<in> set gs. ld_identity d = Some i \<and> ld_runtime_to_stop d = Some r) \<longleftrightarrow>
          (\<exists>st. ws_of L1 i = Some st \<and> grace_elapsed now st \<and> ws_runtime st = r)"
        unfolding gs_def by (auto simp: grace_decision_def mem [symmetric])
      also have "\<dots> \<longleftrightarrow> ws_runtime_of L i = Some r \<and> ws_of L' i = None"
        unfolding es(5) [symmetric] using L'(5) by (auto simp: ws_runtime_of_def split: option.splits)
      finally show ?thesis .
    qed
    show "ws_runtime_of L' \<subseteq>\<^sub>m ws_runtime_of L"
      unfolding es(5) [symmetric] using L'(5)
      by (auto simp: map_le_def ws_runtime_of_def dom_def split: option.splits if_splits)
    show "\<not> grace_elapsed now st \<and> (ws_of L i = Some st \<or> ws_holders st \<noteq> {} \<or>
       ws_grace_deadline st = Some (now + lc_grace L))" if "ws_of L' i = Some st" for i st
      using that L'(5) es(9) by (auto split: option.splits if_splits)
  qed (use es(3,8) L'(2,4) in \<open>auto simp: gs_def grace_decision_def\<close>)
qed

section \<open>Sequences of operations\<close>

datatype ('i, 'r) lc_op =
    LcIssue uuid time "('i, 'r) workspace_binding option"
  | LcRebind uuid time "('i, 'r) workspace_binding"
  | LcHeartbeat uuid time
  | LcBindingFor uuid time
  | LcRelease uuid time bool
  | LcReleaseWorkspace uuid time bool
  | LcSweep time

fun lc_exec :: "('i, 'r) lifecycle \<Rightarrow> ('i, 'r) lc_op \<Rightarrow> ('i, 'r) lifecycle \<times> ('i, 'r) lease_exn option" where
  "lc_exec L (LcIssue lid now b) = map_prod id (case_sum Some (\<lambda>_. None)) (acquire_lease lid now b L)"
| "lc_exec L (LcRebind lid now b) = map_prod id (case_sum Some (\<lambda>_. None)) (rebind lid now b L)"
| "lc_exec L (LcHeartbeat lid now) = map_prod id (case_sum Some (\<lambda>_. None)) (heartbeat lid now L)"
| "lc_exec L (LcBindingFor lid now) = map_prod id (case_sum Some (\<lambda>_. None)) (lc_binding_for lid now L)"
| "lc_exec L (LcRelease lid now im) = map_prod id (case_sum Some (\<lambda>_. None)) (release_lease lid now im L)"
| "lc_exec L (LcReleaseWorkspace lid now im) =
     map_prod id (case_sum Some (\<lambda>_. None)) (release_workspace lid now im L)"
| "lc_exec L (LcSweep now) = map_prod id (case_sum Some (\<lambda>_. None)) (sweep now L)"

definition lc_step :: "('i, 'r) lifecycle \<Rightarrow> ('i, 'r) lc_op \<Rightarrow> ('i, 'r) lifecycle" where
  "lc_step L x = fst (lc_exec L x)"

definition same_runtime :: "('i, 'r) lifecycle \<Rightarrow> ('i, 'r) workspace_binding \<Rightarrow> bool" where
  "same_runtime L b \<longleftrightarrow>
     (case ws_runtime_of L (wb_identity b) of None \<Rightarrow> True | Some r \<Rightarrow> r = wb_runtime b)"

text \<open>
  What the callers keep to: a new lease has a fresh identifier, and a binding names the
  runtime its workspace already runs, if it runs one.
\<close>

fun lc_op_ok :: "('i, 'r) lifecycle \<Rightarrow> ('i, 'r) lc_op \<Rightarrow> bool" where
  "lc_op_ok L (LcIssue lid now b) \<longleftrightarrow>
     map_of (lc_active L) lid = None \<and> (case b of None \<Rightarrow> True | Some b \<Rightarrow> same_runtime L b)"
| "lc_op_ok L (LcRebind lid now b) \<longleftrightarrow> same_runtime L b"
| "lc_op_ok L _ \<longleftrightarrow> True"

lemma lc_exec_ok:
  assumes inv: "lc_inv L" and ok: "lc_op_ok L x"
  shows "lc_inv (fst (lc_exec L x)) \<and>
    (\<forall>e. snd (lc_exec L x) = Some e \<longrightarrow>
      (\<exists>d. e = LeaseExpiredError d) \<or> e = LeaseValueError ''lease has no active workspace binding'')"
proof (cases x)
  case (LcIssue lid now b)
  have "map_of (lc_active L) lid = None" using ok LcIssue by simp
  moreover have "r = wb_runtime c" if "b = Some c" "ws_runtime_of L (wb_identity c) = Some r" for c r
    using that ok LcIssue by (simp add: same_runtime_def)
  ultimately obtain L' l where "issue lid now b L = (L', Inr l)" "lc_inv L'"
    using issue_ok [OF inv] by metis
  then show ?thesis using LcIssue by (simp add: acquire_lease_def)
next
  case (LcRebind lid now b)
  from inv show ?thesis
  proof (cases rule: require_active_cases [where lid = lid and now = now, case_names live expired missing])
    case (live l)
    have "r = wb_runtime b" if "ws_runtime_of L (wb_identity b) = Some r" for r
      using that ok LcRebind by (simp add: same_runtime_def)
    then obtain L' where "rebind lid now b L = (L', Inr (l\<lparr>dl_binding := Some b\<rparr>))" "lc_inv L'"
      using rebind_ok [OF inv live(1,2)] by metis
    then show ?thesis using LcRebind by simp
  qed (use LcRebind inv in \<open>auto simp: rebind_def\<close>)
next
  case (LcHeartbeat lid now)
  from inv show ?thesis
  proof (cases rule: require_active_cases [where lid = lid and now = now, case_names live expired missing])
    case (live l)
    with heartbeat_ok [OF inv live(1,2)] LcHeartbeat show ?thesis by simp
  qed (use LcHeartbeat inv in \<open>auto simp: heartbeat_def\<close>)
next
  case (LcBindingFor lid now)
  from inv show ?thesis
  proof (cases rule: require_active_cases [where lid = lid and now = now, case_names live expired missing])
    case (live l)
    with LcBindingFor inv show ?thesis
      by (simp add: lc_binding_for_def require_active_def split: option.split)
  qed (use LcBindingFor inv in \<open>auto simp: lc_binding_for_def require_active_def\<close>)
next
  case (LcRelease lid now im)
  show ?thesis
  proof (cases "map_of (lc_active L) lid")
    case (Some l)
    from lc_release_ok [OF inv Some, of now im] LcRelease show ?thesis
      by (auto simp: release_lease_def)
  qed (use LcRelease inv in \<open>simp add: release_lease_def lc_release_missing\<close>)
next
  case (LcReleaseWorkspace lid now im)
  from inv show ?thesis
  proof (cases rule: require_active_cases [where lid = lid and now = now, case_names live expired missing])
    case (live l)
    show ?thesis
    proof (cases "dl_binding l")
      case None
      with live inv LcReleaseWorkspace show ?thesis by (simp add: release_workspace_def)
    next
      case (Some b)
      from release_workspace_ok [OF inv live(1,2) Some, of im] LcReleaseWorkspace show ?thesis by auto
    qed
  qed (use LcReleaseWorkspace inv in \<open>auto simp: release_workspace_def\<close>)
next
  case (LcSweep now)
  from inv obtain L' ds where "sweep now L = (L', Inr ds)" "lc_inv L'"
    by (rule sweep_ok [where now = now])
  then show ?thesis using LcSweep by simp
qed

lemma lc_init_inv: "lifecycle_init hb ex gr = Inr L \<Longrightarrow> lc_inv L"
  by (auto simp: lifecycle_init_def lc_inv_def holders_ok_def ws_of_def lease_binding_def split: if_splits)

interpretation lc_run: invariant_ops lc_step lc_op_ok lc_inv
  by unfold_locales (simp add: lc_step_def lc_exec_ok)

section \<open>Properties\<close>

lemma sweep_no_leases:
  assumes inv: "lc_inv L" and none: "lc_active L = []"
    and due: "\<And>i st. ws_of L i = Some st \<Longrightarrow> grace_elapsed now st"
  shows "lc_daemon_idle (fst (sweep now L))"
proof -
  from sweep_workspaces_all [OF inv, of now "[]"] obtain L' where
    L': "sweep_workspaces now (lc_workspaces L) L [] =
        (L', map grace_decision (filter (\<lambda>p. grace_elapsed now (snd p)) (lc_workspaces L)))"
      "lc_active L' = lc_active L"
      "\<forall>i. ws_of L' i = (case ws_of L i of None \<Rightarrow> None
         | Some st \<Rightarrow> if grace_elapsed now st then None else Some st)" by auto
  have "ws_of L' i = None" for i using L'(3) due by (auto split: option.split)
  then have "map_of (lc_workspaces L') = Map.empty" by (simp add: ws_of_def fun_eq_iff)
  then have "lc_workspaces L' = []" by (rule map_of_eq_empty_iff [THEN iffD1])
  with L'(1,2) none show ?thesis by (simp add: sweep_def lc_daemon_idle_def)
qed

lemma sweep_drains:
  assumes inv: "lc_inv L"
    and t1: "\<And>lid l. map_of (lc_active L) lid = Some l \<Longrightarrow> expires_at l \<le> t1"
    and t2: "t1 + lc_grace L \<le> t2"
    and deadlines: "\<And>i d. grace_deadline i L = Some d \<Longrightarrow> d \<le> t2"
  shows "lc_daemon_idle (fst (sweep t2 (fst (sweep t1 L))))"
proof -
  from inv obtain L' ds where
    L': "sweep t1 L = (L', Inr ds)" "lc_inv L'"
      "\<And>k. map_of (lc_active L') k = (case map_of (lc_active L) k of None \<Rightarrow> None
         | Some l \<Rightarrow> if expires_at l \<le> t1 then None else Some l)"
      "\<And>i st. ws_of L' i = Some st \<Longrightarrow> ws_of L i = Some st \<or> ws_holders st \<noteq> {} \<or>
         ws_grace_deadline st = Some (t1 + lc_grace L)"
    by (rule sweep_ok [where now = t1]) blast
  have "map_of (lc_active L') = Map.empty"
    using L'(3) t1 by (auto simp: fun_eq_iff split: option.split)
  then have none: "lc_active L' = []" by (rule map_of_eq_empty_iff [THEN iffD1])
  have "grace_elapsed t2 st" if st: "ws_of L' i = Some st" for i st
  proof -
    have "ws_holders st = holders_of (lease_binding L') i"
      by (rule holders_okD(2) [OF lc_invD(2) [OF L'(2)] st])
    then have e: "ws_holders st = {}" using none by (simp add: holders_of_def lease_binding_def)
    then obtain d where d: "ws_grace_deadline st = Some d"
      using holders_okD(3) [OF lc_invD(2) [OF L'(2)] st] by auto
    from L'(4) [OF st] e d have "ws_of L i = Some st \<or> d = t1 + lc_grace L" by auto
    then have "d \<le> t2" using deadlines [of i d] d t2 by (auto simp: grace_deadline_def ws_of_def)
    with e d show ?thesis by (simp add: grace_elapsed_def)
  qed
  from sweep_no_leases [OF L'(2) none this] L'(1) show ?thesis by simp
qed

text \<open>
  C7: whatever sequence of lease operations ran from a fresh lifecycle (new identifiers
  fresh, bindings naming the runtime their workspace already runs), every bound lease
  is a holder of its workspace, which runs the binding's runtime and has no stop
  deadline; and a workspace's holders are exactly the leases bound to it, with a warm
  grace deadline exactly when there are none.
\<close>

theorem lease_holders_exact:
  assumes "lifecycle_init hb ex gr = Inr L0" and "ops_ok lc_step lc_op_ok L0 ops"
    and "L = run_ops lc_step L0 ops"
  shows "(\<forall>lid b. lease_binding L lid = Some b \<longrightarrow>
      (\<exists>st. map_of (lc_workspaces L) (wb_identity b) = Some st \<and> ws_runtime st = wb_runtime b \<and>
         lid \<in> ws_holders st \<and> grace_deadline (wb_identity b) L = None)) \<and>
    (\<forall>i st. map_of (lc_workspaces L) i = Some st \<longrightarrow>
      ws_holders st = {lid. \<exists>b. lease_binding L lid = Some b \<and> wb_identity b = i} \<and>
      (active_holders i L = 0 \<longleftrightarrow> grace_deadline i L \<noteq> None))"
proof -
  have inv: "lc_inv L" using lc_run.run_inv [OF lc_init_inv [OF assms(1)] assms(2)] assms(3) by simp
  note ok = lc_invD(2) [OF inv]
  have "\<exists>st. map_of (lc_workspaces L) (wb_identity b) = Some st \<and> ws_runtime st = wb_runtime b \<and>
         lid \<in> ws_holders st \<and> grace_deadline (wb_identity b) L = None" if b: "lease_binding L lid = Some b" for lid b
  proof -
    from holders_ok_bound [OF ok b] obtain st where
      st: "ws_of L (wb_identity b) = Some st" "ws_runtime st = wb_runtime b" "lid \<in> ws_holders st" .
    moreover have "ws_grace_deadline st = None" using holders_okD(3) [OF ok st(1)] st(3) by auto
    ultimately show ?thesis by (simp add: ws_of_def grace_deadline_def)
  qed
  moreover have "ws_holders st = {lid. \<exists>b. lease_binding L lid = Some b \<and> wb_identity b = i} \<and>
      (active_holders i L = 0 \<longleftrightarrow> grace_deadline i L \<noteq> None)"
    if "map_of (lc_workspaces L) i = Some st" for i st
    using holders_okD [OF ok, of i st] that
    by (simp add: ws_of_def holders_of_def active_holders_def grace_deadline_def)
  ultimately show ?thesis by blast
qed

text \<open>
  in such a run the next operation never raises a \<open>KeyError\<close> nor reports two
  runtimes for one workspace: it returns, or the lease is unknown or expired, or a
  binding is asked of a lease that has none.
\<close>

theorem lease_errors_exact:
  assumes "lifecycle_init hb ex gr = Inr L0" and "ops_ok lc_step lc_op_ok L0 (ops @ [x])"
    and "L = run_ops lc_step L0 ops" and "snd (lc_exec L x) = Some e"
  shows "(\<exists>d. e = LeaseExpiredError d) \<or> e = LeaseValueError ''lease has no active workspace binding''"
proof -
  have split: "ops_ok lc_step lc_op_ok s (xs @ [x]) \<longleftrightarrow>
      ops_ok lc_step lc_op_ok s xs \<and> lc_op_ok (run_ops lc_step s xs) x" for s xs
    by (induction xs arbitrary: s) auto
  have inv: "lc_inv L" using lc_run.run_inv [OF lc_init_inv [OF assms(1)]] assms(2,3) split by simp
  have "lc_op_ok L x" using assms(2,3) split by simp
  from lc_exec_ok [OF inv this] assms(4) show ?thesis by blast
qed

text \<open>
  C6: a sweep removes exactly the leases whose expiry instant has passed, reporting each
  once with the binding to release and never a runtime to stop; and a runtime is handed
  over for stopping exactly when its workspace is dropped, which a workspace with an
  active lease never is.
\<close>

theorem sweep_exact:
  assumes "lc_inv L"
  shows "\<exists>L' es gs. sweep now L = (L', Inr (es @ gs)) \<and> lc_inv L' \<and>
    (\<forall>k. map_of (lc_active L') k = (case map_of (lc_active L) k of None \<Rightarrow> None
       | Some l \<Rightarrow> if expires_at l \<le> now then None else Some l)) \<and>
    map (\<lambda>d. (ld_lease_id d, ld_binding_to_release d)) es =
      map (\<lambda>l. (Some (dl_id l), dl_binding l)) (filter (\<lambda>l. expires_at l \<le> now) (map snd (lc_active L))) \<and>
    (\<forall>d \<in> set es. ld_reason d = EXPIRED \<and> ld_runtime_to_stop d = None) \<and>
    (\<forall>d \<in> set gs. ld_reason d = GRACE_EXPIRED \<and> ld_binding_to_release d = None) \<and>
    (\<forall>i r. (\<exists>d \<in> set gs. ld_identity d = Some i \<and> ld_runtime_to_stop d = Some r) \<longleftrightarrow>
       ws_runtime_of L i = Some r \<and> ws_runtime_of L' i = None) \<and>
    (\<forall>lid b. lease_binding L' lid = Some b \<longrightarrow> ws_runtime_of L' (wb_identity b) = Some (wb_runtime b))"
proof -
  from assms obtain L' es gs where
    *: "sweep now L = (L', Inr (es @ gs))" "lc_inv L'" "lc_grace L' = lc_grace L"
      "\<And>k. map_of (lc_active L') k = (case map_of (lc_active L) k of None \<Rightarrow> None
       | Some l \<Rightarrow> if expires_at l \<le> now then None else Some l)"
      "map (\<lambda>d. (ld_lease_id d, ld_binding_to_release d)) es =
       map (\<lambda>l. (Some (dl_id l), dl_binding l)) (filter (\<lambda>l. expires_at l \<le> now) (map snd (lc_active L)))"
      "\<And>d. d \<in> set es \<Longrightarrow> ld_reason d = EXPIRED \<and> ld_runtime_to_stop d = None"
      "\<And>d. d \<in> set gs \<Longrightarrow> ld_reason d = GRACE_EXPIRED \<and> ld_lease_id d = None \<and> ld_binding_to_release d = None"
      "\<And>i r. (\<exists>d \<in> set gs. ld_identity d = Some i \<and> ld_runtime_to_stop d = Some r) \<longleftrightarrow>
       ws_runtime_of L i = Some r \<and> ws_of L' i = None"
      "ws_runtime_of L' \<subseteq>\<^sub>m ws_runtime_of L"
      "\<And>i st. ws_of L' i = Some st \<Longrightarrow>
       \<not> grace_elapsed now st \<and> (ws_of L i = Some st \<or> ws_holders st \<noteq> {} \<or>
       ws_grace_deadline st = Some (now + lc_grace L))"
    by (rule sweep_ok [where now = now]) blast
  have "ws_runtime_of L' i = None \<longleftrightarrow> ws_of L' i = None" for i by (simp add: ws_runtime_of_def)
  with *(1,2,4-8) bound_ws_runtime [OF *(2)] show ?thesis
    by (intro exI [of _ L'] exI [of _ es] exI [of _ gs]) simp
qed

text \<open>
  C19: the daemon drains: if no heartbeat arrives any more, a sweep at a time by which
  every lease has expired and a second one at least a warm grace later, past every grace
  deadline already set, leave no lease and no workspace, so the daemon is idle.
\<close>

theorem two_sweeps_drain:
  assumes "lc_inv L"
    and "\<forall>lid l. map_of (lc_active L) lid = Some l \<longrightarrow> expires_at l \<le> t1"
    and "t1 + lc_grace L \<le> t2"
    and "\<forall>i d. grace_deadline i L = Some d \<longrightarrow> d \<le> t2"
  shows "lc_daemon_idle (fst (sweep t2 (fst (sweep t1 L))))"
  by (rule sweep_drains) (use assms in blast)+

text \<open>
  a lease is accepted exactly before its expiry instant, a heartbeat then moves that
  instant to one expiry period from now, and a lease found expired is ended with the
  decision to release its binding given once: the same request again gets none.
\<close>

theorem lease_expiry_exact:
  assumes "lc_inv L" and "map_of (lc_active L) lid = Some l"
  shows "(if now < expires_at l
     then require_active lid now L = (L, Inr l) \<and>
       (\<exists>L' l'. heartbeat lid now L = (L', Inr l') \<and> map_of (lc_active L') = (map_of (lc_active L))(lid \<mapsto> l') \<and>
          expires_at l' = now + dl_expiry l \<and> dl_binding l' = dl_binding l)
     else (\<exists>L' d. heartbeat lid now L = (L', Inl (LeaseExpiredError (Some d))) \<and>
          ld_binding_to_release d = dl_binding l \<and> ld_lease_id d = Some lid \<and> ld_runtime_to_stop d = None \<and>
          map_of (lc_active L') = (map_of (lc_active L))(lid := None) \<and>
          (\<forall>now'. heartbeat lid now' L' = (L', Inl (LeaseExpiredError None)))))"
proof (cases "now < expires_at l")
  case True
  with heartbeat_ok [OF assms True] require_active_live [OF assms(2) True] show ?thesis
    by (auto simp: require_active_def dict_simps fun_eq_iff expires_at_def)
next
  case False
  then have "expires_at l \<le> now" by simp
  from require_active_expired [OF assms this] obtain w where
    w: "require_active_locked lid now L =
      (L\<lparr>lc_active := AList.delete lid (lc_active L), lc_workspaces := w,
         lc_expired := insert lid (lc_expired L)\<rparr>,
       Inl (LeaseExpiredError (Some (end_decision l EXPIRED now False L))))" by blast
  have d: "ld_binding_to_release (end_decision l EXPIRED now False L) = dl_binding l"
    "ld_lease_id (end_decision l EXPIRED now False L) = Some lid"
    "ld_runtime_to_stop (end_decision l EXPIRED now False L) = None"
    using lc_invD(3) [OF assms]
    by (auto simp: end_decision_def drop_result_def Let_def split: option.split)
  from False w d show ?thesis
    by (auto simp: heartbeat_def require_active_locked_def dict_simps fun_eq_iff)
qed

text \<open>
  ending a lease before its expiry reports the runtime of its workspace for stopping
  exactly when the caller asked for an immediate release and no other active lease is
  bound to that workspace; the remaining holders are counted exactly, and a release of
  an unknown lease changes nothing.
\<close>

theorem release_stops_last_holder:
  assumes "lc_inv L" and "map_of (lc_active L) lid = Some l" and "now < expires_at l"
    and "dl_binding l = Some b"
  shows "\<exists>L' d. release_lease lid now immediate L = (L', Inr \<lparr>rr_released = True, rr_decision = Some d\<rparr>) \<and>
    lc_inv L' \<and> ld_binding_to_release d = Some b \<and>
    (ld_runtime_to_stop d = Some (wb_runtime b) \<longleftrightarrow>
       immediate \<and> (\<forall>k c. k \<noteq> lid \<longrightarrow> lease_binding L k = Some c \<longrightarrow> wb_identity c \<noteq> wb_identity b)) \<and>
    (ld_runtime_to_stop d = None \<longleftrightarrow> ld_runtime_to_stop d \<noteq> Some (wb_runtime b)) \<and>
    ld_active_holders d = card {k. k \<noteq> lid \<and> (\<exists>c. lease_binding L k = Some c \<and> wb_identity c = wb_identity b)} \<and>
    release_lease lid now immediate L' = (L', Inr \<lparr>rr_released = False, rr_decision = None\<rparr>)"
proof -
  from lc_release_ok [OF assms(1,2), of now immediate] assms(3) obtain L' where
    L': "lc_release lid now immediate L =
          (L', Inr \<lparr>rr_released = True, rr_decision = Some (end_decision l RELEASED now immediate L)\<rparr>)"
      "lc_inv L'" "map_of (lc_active L') = (map_of (lc_active L))(lid := None)" by auto
  have hs: "holders_of (lease_binding L) (wb_identity b) - {lid} =
      {k. k \<noteq> lid \<and> (\<exists>c. lease_binding L k = Some c \<and> wb_identity c = wb_identity b)}"
    by (auto simp: holders_of_def)
  have "lc_release lid now immediate L' = (L', Inr \<lparr>rr_released = False, rr_decision = None\<rparr>)"
    using L'(3) by (simp add: lc_release_missing)
  with L' hs assms(4) lc_invD(3) [OF assms(1,2)] show ?thesis
    by (auto simp: release_lease_def end_decision_def drop_result_def Let_def)
qed

text \<open>
  C20: issuing a lease for a binding whose runtime is not the one its workspace runs is
  rejected, but only after the new lease was entered: it stays active without being a
  holder of the workspace, and every later attempt to end it, by a release or by a
  heartbeat at or after its expiry, raises a \<open>KeyError\<close>.
\<close>

theorem rejected_issue_leaves_lease:
  assumes "lc_inv L" and "map_of (lc_active L) lid = None"
    and "ws_runtime_of L (wb_identity b) = Some r" and "r \<noteq> wb_runtime b"
  shows "\<exists>L' m. issue lid now (Some b) L = (L', Inl (LeaseValueError m)) \<and>
    lc_workspaces L' = lc_workspaces L \<and> lease_binding L' lid = Some b \<and>
    (\<forall>t im. snd (release_lease lid t im L') = Inl LeaseKeyError) \<and>
    (\<forall>t. now + lc_expiry L \<le> t \<longrightarrow> snd (heartbeat lid t L') = Inl LeaseKeyError)"
proof -
  define l where "l = \<lparr>dl_id = lid, dl_binding = Some b, dl_issued_at = now,
     dl_last_heartbeat_at = now, dl_heartbeat_interval = lc_heartbeat_interval L, dl_expiry = lc_expiry L\<rparr>"
  have l: "dl_id l = lid" "dl_binding l = Some b" "expires_at l = now + lc_expiry L"
    by (simp_all add: l_def expires_at_def)
  let ?L' = "L\<lparr>lc_active := AList.update lid l (lc_active L)\<rparr>"
  from assms(3) obtain st where st: "map_of (lc_workspaces L) (wb_identity b) = Some st" "ws_runtime st = r"
    by (auto simp: ws_runtime_of_def ws_of_def)
  have iss: "issue lid now (Some b) L = (?L', Inl (LeaseValueError ''one workspace identity cannot have two live runtime instances''))"
    using st assms(4) by (simp add: issue_def add_holder_locked_def l_def)
  have nh: "lid \<notin> ws_holders st"
    using holders_okD(2) [OF lc_invD(2) [OF assms(1)], of "wb_identity b" st] st assms(2)
    by (simp add: ws_of_def holders_of_def)
  have ends: "\<exists>M. end_locked l reason t im ?L' = (M, Inl LeaseKeyError)" for reason t im
    using st nh l by (simp add: end_locked_def drop_holder_def dict_simps)
  have rel: "snd (release_lease lid t im ?L') = Inl LeaseKeyError" for t im
    using ends [of EXPIRED t False] ends [of RELEASED t im]
    by (auto simp: release_lease_def lc_release_def dict_simps)
  have hb: "snd (heartbeat lid t ?L') = Inl LeaseKeyError" if "now + lc_expiry L \<le> t" for t
    using ends [of EXPIRED t False] that l(3)
    by (auto simp: heartbeat_def require_active_locked_def dict_simps)
  show ?thesis
    by (intro exI [of _ ?L'] exI [of _ "''one workspace identity cannot have two live runtime instances''"])
      (use iss rel hb l in \<open>simp add: dict_simps lease_binding_def\<close>)
qed

section \<open>Witnesses\<close>

definition demo_binding :: "(nat, nat) workspace_binding" where
  "demo_binding = \<lparr>wb_lease = \<lparr>wl_id = 1, wl_identity = 10, wl_runtime = 7\<rparr>, wb_subdir = ''''\<rparr>"

definition demo_lc0 :: "(nat, nat) lifecycle" where
  "demo_lc0 = \<lparr>lc_heartbeat_interval = 15, lc_expiry = 60, lc_grace = 600,
     lc_active = [], lc_expired = {}, lc_workspaces = []\<rparr>"

definition demo_lc_ops :: "(nat, nat) lc_op list" where
  "demo_lc_ops = [LcIssue 3 0 None, LcRebind 3 5 demo_binding, LcIssue 4 6 (Some demo_binding)]"

definition demo_lease :: "uuid \<Rightarrow> time \<Rightarrow> (nat, nat) daemon_lease" where
  "demo_lease lid t = \<lparr>dl_id = lid, dl_binding = Some demo_binding, dl_issued_at = t,
     dl_last_heartbeat_at = t, dl_heartbeat_interval = 15, dl_expiry = 60\<rparr>"

definition demo_lc :: "(nat, nat) lifecycle" where
  "demo_lc = demo_lc0\<lparr>lc_active := [(3, demo_lease 3 0), (4, demo_lease 4 6)],
     lc_workspaces := [(10, \<lparr>ws_runtime = 7, ws_holders = {4, 3}, ws_grace_deadline = None\<rparr>)]\<rparr>"

lemmas demo_lc_defs = demo_lc_def demo_lc0_def demo_lc_ops_def demo_lease_def demo_binding_def

lemmas lc_eval = lc_step_def acquire_lease_def issue_def add_holder_locked_def rebind_def
  require_active_locked_def expires_at_def same_runtime_def ws_runtime_of_def ws_of_def Let_def

lemma demo_lc_init: "lifecycle_init 15 60 600 = Inr demo_lc0"
  by (simp add: lifecycle_init_def demo_lc0_def)

lemma demo_lc_ok: "ops_ok lc_step lc_op_ok demo_lc0 demo_lc_ops"
  by (simp add: demo_lc_defs lc_eval)

lemma demo_lc_run: "run_ops lc_step demo_lc0 demo_lc_ops = demo_lc"
  by (simp add: demo_lc_defs lc_eval)

lemma demo_lc_inv: "lc_inv demo_lc"
  using lc_run.run_inv [OF lc_init_inv [OF demo_lc_init] demo_lc_ok] demo_lc_run by simp

lemma lease_holders_exact_witness:
  "grace_deadline 10 demo_lc = None \<and> active_holders 10 demo_lc \<noteq> 0"
  using lease_holders_exact [OF demo_lc_init demo_lc_ok demo_lc_run [symmetric]]
  by (simp add: demo_lc_defs grace_deadline_def lease_binding_def)

lemma lease_errors_exact_witness:
  "snd (lc_exec demo_lc (LcHeartbeat 9 8)) = Some (LeaseExpiredError None)"
proof -
  have ok: "ops_ok lc_step lc_op_ok demo_lc0 (demo_lc_ops @ [LcHeartbeat 9 8])"
    by (simp add: demo_lc_defs lc_eval)
  have e: "snd (lc_exec demo_lc (LcHeartbeat 9 8)) = Some (LeaseExpiredError None)"
    by (simp add: demo_lc_defs heartbeat_def require_active_locked_def)
  from lease_errors_exact [OF demo_lc_init ok demo_lc_run [symmetric] e] e show ?thesis by simp
qed

lemma sweep_exact_witness:
  "\<exists>L' es gs. sweep 60 demo_lc = (L', Inr (es @ gs)) \<and> map_of (lc_active L') 3 = None \<and>
     map_of (lc_active L') 4 = Some (demo_lease 4 6) \<and> map ld_lease_id es = [Some 3]"
proof -
  from sweep_exact [OF demo_lc_inv, of 60] obtain L' es gs where
    *: "sweep 60 demo_lc = (L', Inr (es @ gs))"
      "\<forall>k. map_of (lc_active L') k = (case map_of (lc_active demo_lc) k of None \<Rightarrow> None
         | Some l \<Rightarrow> if expires_at l \<le> 60 then None else Some l)"
      "map (\<lambda>d. (ld_lease_id d, ld_binding_to_release d)) es =
        map (\<lambda>l. (Some (dl_id l), dl_binding l)) (filter (\<lambda>l. expires_at l \<le> 60) (map snd (lc_active demo_lc)))"
    by blast
  have "map ld_lease_id es = [Some 3]"
    using arg_cong [OF *(3), of "map fst"] by (simp add: demo_lc_defs expires_at_def comp_def)
  with * show ?thesis
    by (intro exI [of _ L'] exI [of _ es] exI [of _ gs]) (simp add: demo_lc_defs expires_at_def)
qed

lemma two_sweeps_drain_witness: "lc_daemon_idle (fst (sweep 666 (fst (sweep 66 demo_lc))))"
  by (rule two_sweeps_drain [OF demo_lc_inv])
    (simp_all add: demo_lc_defs expires_at_def grace_deadline_def split: if_splits)

lemma lease_expiry_exact_witness:
  "require_active 3 59 demo_lc = (demo_lc, Inr (demo_lease 3 0)) \<and>
   (\<exists>L' d. heartbeat 3 60 demo_lc = (L', Inl (LeaseExpiredError (Some d))) \<and>
      heartbeat 3 61 L' = (L', Inl (LeaseExpiredError None)))"
proof -
  have l: "map_of (lc_active demo_lc) 3 = Some (demo_lease 3 0)" by (simp add: demo_lc_defs)
  have e: "expires_at (demo_lease 3 0) = 60" by (simp add: demo_lease_def expires_at_def)
  from lease_expiry_exact [OF demo_lc_inv l, of 59] lease_expiry_exact [OF demo_lc_inv l, of 60] e
  show ?thesis by auto
qed

lemma release_stops_last_holder_witness:
  "\<exists>L' d. release_lease 3 8 True demo_lc = (L', Inr \<lparr>rr_released = True, rr_decision = Some d\<rparr>) \<and>
     ld_runtime_to_stop d = None \<and> ld_binding_to_release d = Some demo_binding"
proof -
  have l: "map_of (lc_active demo_lc) 3 = Some (demo_lease 3 0)" by (simp add: demo_lc_defs)
  have e: "8 < expires_at (demo_lease 3 0)" by (simp add: demo_lease_def expires_at_def)
  have b: "dl_binding (demo_lease 3 0) = Some demo_binding" by (simp add: demo_lease_def)
  have other: "lease_binding demo_lc 4 = Some demo_binding" by (simp add: demo_lc_defs lease_binding_def)
  from release_stops_last_holder [OF demo_lc_inv l e b, of True] obtain L' d where
    *: "release_lease 3 8 True demo_lc = (L', Inr \<lparr>rr_released = True, rr_decision = Some d\<rparr>)"
      "ld_binding_to_release d = Some demo_binding"
      "ld_runtime_to_stop d = Some (wb_runtime demo_binding) \<longleftrightarrow>
        True \<and> (\<forall>k c. k \<noteq> 3 \<longrightarrow> lease_binding demo_lc k = Some c \<longrightarrow> wb_identity c \<noteq> wb_identity demo_binding)"
      "ld_runtime_to_stop d = None \<longleftrightarrow> ld_runtime_to_stop d \<noteq> Some (wb_runtime demo_binding)"
    by (elim exE conjE) (rule that)
  have "ld_runtime_to_stop d \<noteq> Some (wb_runtime demo_binding)"
  proof
    assume "ld_runtime_to_stop d = Some (wb_runtime demo_binding)"
    with *(3) other have "(4::nat) \<noteq> 3 \<longrightarrow> wb_identity demo_binding \<noteq> wb_identity demo_binding" by blast
    then show False by simp
  qed
  with *(1,2,4) show ?thesis by blast
qed

lemma rejected_issue_leaves_lease_witness:
  "\<exists>L' m. issue 5 7 (Some (demo_binding\<lparr>wb_lease := \<lparr>wl_id = 1, wl_identity = 10, wl_runtime = 8\<rparr>\<rparr>)) demo_lc =
     (L', Inl (LeaseValueError m)) \<and> snd (release_lease 5 8 False L') = Inl LeaseKeyError"
proof -
  let ?b = "demo_binding\<lparr>wb_lease := \<lparr>wl_id = 1, wl_identity = 10, wl_runtime = 8\<rparr>\<rparr>"
  have f: "map_of (lc_active demo_lc) 5 = None" by (simp add: demo_lc_defs)
  have r: "ws_runtime_of demo_lc (wb_identity ?b) = Some 7"
    by (simp add: demo_lc_defs ws_runtime_of_def ws_of_def)
  have "(7::nat) \<noteq> wb_runtime ?b" by simp
  from rejected_issue_leaves_lease [OF demo_lc_inv f r this, of 7] show ?thesis by blast
qed

end
