(* ===== verification/Service.thy ===== *)
theory Service
  imports Leases
begin

text \<open>
  The daemon service (\<open>daemon/service.py\<close>): the compound transitions of the lease lifecycle
  and the runtime registry.  The methods are coroutines on one event loop: the code between
  two suspension points runs alone, so each such slice is one function on the service's
  state and any slice of another call may run in between.  \<open>_binding_lock\<close> is held across
  the suspensions of an activation only (\<open>sv_act\<close> names the slice it waits in), and
  heartbeats and queries run without it; a lease they find expired waits in \<open>sv_cleanup\<close>
  for the lock.  A call that detached runtimes waits in \<open>sv_waiting\<close> for
  \<open>_runtime_stop_lock\<close>; \<open>sv_stopping\<close> is the batch whose stoppers run.  Two fields record
  history only: \<open>sv_calls\<close>, the runtimes whose stopper was called, and \<open>sv_ids\<close>, the
  identifiers \<open>uuid4\<close> has given.
\<close>

section \<open>State\<close>

datatype ('i, 'r) activation_step =
    Act_prepare uuid "'i resolved_workspace"
  | Act_refresh uuid "('i, 'r, uuid) prepared_activation"
  | Act_commit uuid "('i, 'r, uuid) prepared_activation"
  | Act_rebind uuid "('i, 'r, uuid) prepared_activation"

record ('i, 'r) service =
  sv_lifecycle :: "('i, 'r) lifecycle"
  sv_registry :: "('i, 'r, uuid) registry"
  sv_pending :: "'r list"
  sv_act :: "('i, 'r) activation_step option"
  sv_cleanup :: "('i, 'r) lease_decision option list"
  sv_waiting :: "'r list list"
  sv_stopping :: "'r list option"
  sv_calls :: "'r set"
  sv_ids :: "uuid set"

section \<open>Locked helpers\<close>

definition apply_decision_locked ::
    "('i, 'r) lease_decision option \<Rightarrow> ('i, 'r, uuid) registry \<Rightarrow> ('i, 'r, uuid) registry \<times> 'r list" where
  "apply_decision_locked decision R =
     (case decision of
        None \<Rightarrow> (R, [])
      | Some d \<Rightarrow>
          (let R1 = (case ld_binding_to_release d of
                       None \<Rightarrow> R
                     | Some b \<Rightarrow> fst (reg_release_lease (wb_lease_id b) R))
           in case (ld_identity d, ld_runtime_to_stop d) of
                (Some i, Some r) \<Rightarrow>
                  (case retire_idle i r R1 of
                     (R2, None) \<Rightarrow> (R2, [])
                   | (R2, Some detached) \<Rightarrow> (R2, [detached]))
              | _ \<Rightarrow> (R1, [])))"

fun apply_decisions_locked ::
    "('i, 'r) lease_decision list \<Rightarrow> ('i, 'r, uuid) registry \<Rightarrow> ('i, 'r, uuid) registry \<times> 'r list" where
  "apply_decisions_locked [] R = (R, [])"
| "apply_decisions_locked (d # ds) R =
     (let (R1, rs) = apply_decision_locked (Some d) R;
          (R2, rs') = apply_decisions_locked ds R1
      in (R2, rs @ rs'))"

definition discard_prepared ::
    "uuid \<Rightarrow> ('i, 'r, uuid) prepared_activation \<Rightarrow> bool \<Rightarrow> ('i, 'r, uuid) registry \<Rightarrow>
     ('i, 'r, uuid) registry \<times> 'r list" where
  "discard_prepared lid p committed R =
     (let R1 = (if committed then fst (reg_release lid R) else fst (abort_activation p R)) in
      if \<not> pa_created p then (R1, [])
      else case retire_idle (wb_identity (pa_binding p)) (wb_runtime (pa_binding p)) R1 of
             (R2, None) \<Rightarrow> (R2, [])
           | (R2, Some detached) \<Rightarrow> (R2, [detached]))"

definition expired_decision :: "('i, 'r) lease_exn \<Rightarrow> ('i, 'r) lease_decision option" where
  "expired_decision e = (case e of LeaseExpiredError d \<Rightarrow> d | _ \<Rightarrow> None)"

section \<open>Slices without the binding lock\<close>

definition svc_acquire_lease :: "uuid \<Rightarrow> time \<Rightarrow> ('i, 'r) service \<Rightarrow> ('i, 'r) service" where
  "svc_acquire_lease new_id now s =
     s\<lparr>sv_lifecycle := fst (acquire_lease new_id now None (sv_lifecycle s)),
       sv_ids := insert new_id (sv_ids s)\<rparr>"

text \<open>A lifecycle call outside the lock: on an expired lease the call waits for \<open>_clean_expired\<close>.\<close>

definition after_check ::
    "('i, 'r, 'a) lease_out \<Rightarrow> ('i, 'r) service \<Rightarrow> ('i, 'r) service" where
  "after_check out s =
     (case out of
        (L, Inl (LeaseExpiredError d)) \<Rightarrow> s\<lparr>sv_lifecycle := L, sv_cleanup := sv_cleanup s @ [d]\<rparr>
      | (L, _) \<Rightarrow> s\<lparr>sv_lifecycle := L\<rparr>)"

definition svc_heartbeat :: "uuid \<Rightarrow> time \<Rightarrow> ('i, 'r) service \<Rightarrow> ('i, 'r) service" where
  "svc_heartbeat lid now s = after_check (heartbeat lid now (sv_lifecycle s)) s"

definition svc_binding_for :: "uuid \<Rightarrow> time \<Rightarrow> ('i, 'r) service \<Rightarrow> ('i, 'r) service" where
  "svc_binding_for lid now s = after_check (lc_binding_for lid now (sv_lifecycle s)) s"

definition svc_runtime_status :: "uuid \<Rightarrow> time \<Rightarrow> ('i, 'r) service \<Rightarrow> ('i, 'r) service" where
  "svc_runtime_status lid now s = after_check (require_active lid now (sv_lifecycle s)) s"

section \<open>Slices that take the binding lock\<close>

text \<open>The locked part ends; its call goes on to \<open>_stop_runtimes\<close> with what it detached.\<close>

definition finish_locked ::
    "('i, 'r) lifecycle \<Rightarrow> ('i, 'r, uuid) registry \<times> 'r list \<Rightarrow> ('i, 'r) service \<Rightarrow> ('i, 'r) service" where
  "finish_locked L out s =
     s\<lparr>sv_lifecycle := L, sv_registry := fst out, sv_act := None,
       sv_waiting := sv_waiting s @ [snd out]\<rparr>"

definition svc_clean_expired :: "nat \<Rightarrow> ('i, 'r) service \<Rightarrow> ('i, 'r) service" where
  "svc_clean_expired n s =
     finish_locked (sv_lifecycle s) (apply_decision_locked (sv_cleanup s ! n) (sv_registry s))
       (s\<lparr>sv_cleanup := take n (sv_cleanup s) @ drop (Suc n) (sv_cleanup s)\<rparr>)"

definition svc_release_lease :: "uuid \<Rightarrow> time \<Rightarrow> bool \<Rightarrow> ('i, 'r) service \<Rightarrow> ('i, 'r) service" where
  "svc_release_lease lid now immediate s =
     (case release_lease lid now immediate (sv_lifecycle s) of
        (L, Inr result) \<Rightarrow> finish_locked L (apply_decision_locked (rr_decision result) (sv_registry s)) s
      | (L, Inl e) \<Rightarrow> s\<lparr>sv_lifecycle := L\<rparr>)"

definition svc_release_workspace :: "uuid \<Rightarrow> time \<Rightarrow> bool \<Rightarrow> ('i, 'r) service \<Rightarrow> ('i, 'r) service" where
  "svc_release_workspace lid now immediate s =
     (case release_workspace lid now immediate (sv_lifecycle s) of
        (L, Inr result) \<Rightarrow> finish_locked L (apply_decision_locked (rr_decision result) (sv_registry s)) s
      | (L, Inl (LeaseExpiredError d)) \<Rightarrow> finish_locked L (apply_decision_locked d (sv_registry s)) s
      | (L, Inl e) \<Rightarrow> s\<lparr>sv_lifecycle := L\<rparr>)"

definition svc_sweep :: "time \<Rightarrow> ('i, 'r) service \<Rightarrow> ('i, 'r) service" where
  "svc_sweep now s =
     (case sweep now (sv_lifecycle s) of
        (L, Inr decisions) \<Rightarrow> finish_locked L (apply_decisions_locked decisions (sv_registry s)) s
      | (L, Inl e) \<Rightarrow> s\<lparr>sv_lifecycle := L\<rparr>)"

section \<open>Activation\<close>

text \<open>The lock is taken and the lease checked before anything is acquired.\<close>

definition svc_activate_begin :: "uuid \<Rightarrow> 'i resolved_workspace \<Rightarrow> time \<Rightarrow> ('i, 'r) service \<Rightarrow> ('i, 'r) service" where
  "svc_activate_begin lid resolved now s =
     (case require_active lid now (sv_lifecycle s) of
        (L, Inr _) \<Rightarrow> s\<lparr>sv_lifecycle := L, sv_act := Some (Act_prepare lid resolved)\<rparr>
      | (L, Inl e) \<Rightarrow> finish_locked L (apply_decision_locked (expired_decision e) (sv_registry s)) s)"

definition svc_prepare :: "(py_exn + 'r) \<Rightarrow> uuid \<Rightarrow> ('i, 'r) service \<Rightarrow> ('i, 'r) service" where
  "svc_prepare made new_id s =
     (case sv_act s of
        Some (Act_prepare lid resolved) \<Rightarrow>
          (case prepare_activation made new_id lid resolved (sv_registry s) of
             (R, Inr p) \<Rightarrow> s\<lparr>sv_registry := R, sv_act := Some (Act_refresh lid p), sv_ids := insert new_id (sv_ids s)\<rparr>
           | (R, Inl e) \<Rightarrow> finish_locked (sv_lifecycle s) (R, []) s)
      | _ \<Rightarrow> s)"

text \<open>
  \<open>ensure_fresh\<close> has returned or raised; after it returned, the lease is checked again
  before the candidate is committed.
\<close>

definition svc_refresh :: "bool \<Rightarrow> time \<Rightarrow> ('i, 'r) service \<Rightarrow> ('i, 'r) service" where
  "svc_refresh fresh now s =
     (case sv_act s of
        Some (Act_refresh lid p) \<Rightarrow>
          (if fresh then
             (case require_active lid now (sv_lifecycle s) of
                (L, Inr _) \<Rightarrow> s\<lparr>sv_lifecycle := L, sv_act := Some (Act_commit lid p)\<rparr>
              | (L, Inl e) \<Rightarrow>
                  (let (R1, rs1) = discard_prepared lid p False (sv_registry s);
                       (R2, rs2) = apply_decision_locked (expired_decision e) R1
                   in finish_locked L (R2, rs1 @ rs2) s))
           else finish_locked (sv_lifecycle s) (discard_prepared lid p False (sv_registry s)) s)
      | _ \<Rightarrow> s)"

definition svc_commit :: "('i, 'r) service \<Rightarrow> ('i, 'r) service" where
  "svc_commit s =
     (case sv_act s of
        Some (Act_commit lid p) \<Rightarrow>
          (case commit_activation p (sv_registry s) of
             (R, Inr _) \<Rightarrow> s\<lparr>sv_registry := R, sv_act := Some (Act_rebind lid p)\<rparr>
           | (R, Inl e) \<Rightarrow> finish_locked (sv_lifecycle s) (discard_prepared lid p False R) s)
      | _ \<Rightarrow> s)"

definition svc_rebind :: "time \<Rightarrow> ('i, 'r) service \<Rightarrow> ('i, 'r) service" where
  "svc_rebind now s =
     (case sv_act s of
        Some (Act_rebind lid p) \<Rightarrow>
          (case rebind lid now (pa_binding p) (sv_lifecycle s) of
             (L, Inr _) \<Rightarrow> finish_locked L (sv_registry s, []) s
           | (L, Inl e) \<Rightarrow>
               (let (R1, rs1) = discard_prepared lid p True (sv_registry s);
                    (R2, rs2) = apply_decision_locked (expired_decision e) R1
                in finish_locked L (R2, rs1 @ rs2) s))
      | _ \<Rightarrow> s)"

section \<open>Stopping runtimes\<close>

fun set_default :: "'r \<Rightarrow> 'r list \<Rightarrow> 'r list" where
  "set_default r pending = (if r \<in> set pending then pending else pending @ [r])"

definition svc_stop_begin :: "nat \<Rightarrow> ('i, 'r) service \<Rightarrow> ('i, 'r) service" where
  "svc_stop_begin n s =
     (let pending = fold set_default (sv_waiting s ! n) (sv_pending s);
          s' = s\<lparr>sv_pending := pending, sv_waiting := take n (sv_waiting s) @ drop (Suc n) (sv_waiting s)\<rparr>
      in if pending = [] then s'
         else s'\<lparr>sv_stopping := Some pending, sv_calls := sv_calls s \<union> set pending\<rparr>)"

text \<open>\<open>failed\<close>: the runtimes of the batch whose stopper raised; they stay pending.\<close>

definition svc_stop_end :: "('r \<Rightarrow> bool) \<Rightarrow> ('i, 'r) service \<Rightarrow> ('i, 'r) service" where
  "svc_stop_end failed s =
     (case sv_stopping s of
        None \<Rightarrow> s
      | Some batch \<Rightarrow>
          s\<lparr>sv_pending := filter (\<lambda>r. r \<notin> set batch \<or> failed r) (sv_pending s), sv_stopping := None\<rparr>)"

definition own_targets_stopped :: "'r list \<Rightarrow> ('r \<Rightarrow> bool) \<Rightarrow> 'r list \<Rightarrow> bool" where
  "own_targets_stopped own failed batch = list_all (\<lambda>r. \<not> (failed r \<and> r \<in> set own)) batch"

definition svc_daemon_idle :: "('i, 'r) service \<Rightarrow> bool" where
  "svc_daemon_idle s \<longleftrightarrow> lc_daemon_idle (sv_lifecycle s) \<and> sv_pending s = []"

section \<open>The step relation\<close>

definition handed_over :: "('i, 'r) service \<Rightarrow> 'r set" where
  "handed_over s = set (sv_pending s) \<union> \<Union> (set (map set (sv_waiting s))) \<union> sv_calls s"

text \<open>
  What the environment keeps to: \<open>uuid4\<close> never repeats an identifier, and the runtime
  factory returns a new object.
\<close>

definition fresh_runtime :: "(py_exn + 'r) \<Rightarrow> ('i, 'r) service \<Rightarrow> bool" where
  "fresh_runtime made s \<longleftrightarrow>
     (case made of
        Inl _ \<Rightarrow> True
      | Inr r \<Rightarrow> r \<notin> handed_over s \<and> (\<forall>i. runtime_of (sv_registry s) i \<noteq> Some r))"

inductive svc_step :: "('i, 'r) service \<Rightarrow> ('i, 'r) service \<Rightarrow> bool" where
  step_acquire: "new_id \<notin> sv_ids s \<Longrightarrow> svc_step s (svc_acquire_lease new_id now s)"
| step_heartbeat: "svc_step s (svc_heartbeat lid now s)"
| step_binding_for: "svc_step s (svc_binding_for lid now s)"
| step_status: "svc_step s (svc_runtime_status lid now s)"
| step_clean: "sv_act s = None \<Longrightarrow> n < length (sv_cleanup s) \<Longrightarrow> svc_step s (svc_clean_expired n s)"
| step_release: "sv_act s = None \<Longrightarrow> svc_step s (svc_release_lease lid now immediate s)"
| step_release_workspace: "sv_act s = None \<Longrightarrow> svc_step s (svc_release_workspace lid now immediate s)"
| step_sweep: "sv_act s = None \<Longrightarrow> svc_step s (svc_sweep now s)"
| step_activate: "sv_act s = None \<Longrightarrow> svc_step s (svc_activate_begin lid resolved now s)"
| step_prepare: "sv_act s = Some (Act_prepare lid resolved) \<Longrightarrow> new_id \<notin> sv_ids s \<Longrightarrow>
    fresh_runtime made s \<Longrightarrow> svc_step s (svc_prepare made new_id s)"
| step_refresh: "sv_act s = Some (Act_refresh lid p) \<Longrightarrow> svc_step s (svc_refresh fresh now s)"
| step_commit: "sv_act s = Some (Act_commit lid p) \<Longrightarrow> svc_step s (svc_commit s)"
| step_rebind: "sv_act s = Some (Act_rebind lid p) \<Longrightarrow> svc_step s (svc_rebind now s)"
| step_stop_begin: "sv_stopping s = None \<Longrightarrow> n < length (sv_waiting s) \<Longrightarrow> svc_step s (svc_stop_begin n s)"
| step_stop_end: "sv_stopping s = Some batch \<Longrightarrow> svc_step s (svc_stop_end failed s)"

definition svc_init :: "('i, 'r) service \<Rightarrow> bool" where
  "svc_init s \<longleftrightarrow>
     (\<exists>hb ex gr. lifecycle_init hb ex gr = Inr (sv_lifecycle s)) \<and> sv_registry s = reg_empty \<and>
     sv_pending s = [] \<and> sv_act s = None \<and> sv_cleanup s = [] \<and> sv_waiting s = [] \<and>
     sv_stopping s = None \<and> sv_calls s = {} \<and> sv_ids s = {}"

section \<open>What the lifecycle calls do to leases and workspaces\<close>

text \<open>
  The view of a lifecycle the service depends on: the binding slot of each active lease,
  and (\<open>ws_runtime_of\<close>) the runtime of each workspace.
\<close>

definition slot :: "('i, 'r) lifecycle \<Rightarrow> uuid \<Rightarrow> ('i, 'r) workspace_binding option option" where
  "slot L k = map_option dl_binding (map_of (lc_active L) k)"

lemma lease_binding_slot: "lease_binding L k = Option.bind (slot L k) id"
  by (cases "map_of (lc_active L) k") (simp_all add: lease_binding_def slot_def)

lemma slot_None: "slot L k = None \<longleftrightarrow> map_of (lc_active L) k = None"
  by (simp add: slot_def)

lemma end_decision_fields:
  assumes "lc_inv L" and "map_of (lc_active L) lid = Some l"
  shows "ld_binding_to_release (end_decision l reason now im L) = dl_binding l"
    and "ld_lease_id (end_decision l reason now im L) = Some lid"
    and "ld_identity (end_decision l reason now im L) = map_option wb_identity (dl_binding l)"
    and "ld_runtime_to_stop (end_decision l reason now im L) =
      (case dl_binding l of None \<Rightarrow> None
       | Some b \<Rightarrow> if im \<and> holders_of (lease_binding L) (wb_identity b) - {lid} = {} then Some (wb_runtime b) else None)"
  using lc_invD(3) [OF assms]
  by (auto simp: end_decision_def drop_result_def Let_def split: option.split)

lemma ended_ws_runtime:
  assumes inv: "lc_inv L" and l: "map_of (lc_active L) lid = Some l"
    and w: "ws_of L' = (case dl_binding l of
        None \<Rightarrow> ws_of L
      | Some b \<Rightarrow> (ws_of L)(wb_identity b := after_drop (lease_binding L) lid b now im L))"
  shows "ws_runtime_of L' = (case ld_runtime_to_stop (end_decision l reason now im L) of
      None \<Rightarrow> ws_runtime_of L
    | Some r \<Rightarrow> (ws_runtime_of L)(wb_identity (the (dl_binding l)) := None))"
proof (cases "dl_binding l")
  case None
  with w end_decision_fields(4) [OF inv l] show ?thesis by (simp add: ws_runtime_of_def fun_eq_iff)
next
  case (Some b)
  with l have fb: "lease_binding L lid = Some b" by simp
  from bound_ws_runtime [OF inv fb] w Some end_decision_fields(4) [OF inv l, of reason now im] show ?thesis
    by (auto simp: ws_runtime_of_def fun_eq_iff after_drop_def Let_def)
qed

text \<open>A lease is ended: its slot is gone, and its workspace only when it is to be stopped.\<close>

definition ended :: "uuid \<Rightarrow> ('i, 'r) lifecycle \<Rightarrow> ('i, 'r) lifecycle \<Rightarrow> ('i, 'r) lease_decision \<Rightarrow> bool" where
  "ended lid L L' d \<longleftrightarrow>
     ld_lease_id d = Some lid \<and> ld_binding_to_release d = lease_binding L lid \<and>
     ld_identity d = map_option wb_identity (lease_binding L lid) \<and>
     (\<forall>r. ld_runtime_to_stop d = Some r \<longrightarrow>
        (\<exists>b. lease_binding L lid = Some b \<and> r = wb_runtime b \<and>
           ws_runtime_of L' = (ws_runtime_of L)(wb_identity b := None))) \<and>
     (ld_runtime_to_stop d = None \<longrightarrow> ws_runtime_of L' = ws_runtime_of L)"

lemma endedI:
  assumes inv: "lc_inv L" and l: "map_of (lc_active L) lid = Some l"
    and w: "ws_of L' = (case dl_binding l of
        None \<Rightarrow> ws_of L
      | Some b \<Rightarrow> (ws_of L)(wb_identity b := after_drop (lease_binding L) lid b now im L))"
  shows "ended lid L L' (end_decision l reason now im L)"
  unfolding ended_def
  using end_decision_fields [OF inv l, of reason now im] ended_ws_runtime [OF inv l w, of reason] l
  by (auto split: option.splits if_splits)

lemma check_expired:
  assumes inv: "lc_inv L" and req: "require_active_locked lid now L = (L', Inl e)"
  obtains (missing) "slot L lid = None" "L' = L" "e = LeaseExpiredError None"
  | (expired) d where "slot L lid \<noteq> None" "e = LeaseExpiredError (Some d)" "lc_inv L'"
      "slot L' = (slot L)(lid := None)" "ended lid L L' d" "ld_runtime_to_stop d = None"
  using inv
proof (cases rule: require_active_cases [where lid = lid and now = now, case_names live ex mis])
  case (live l)
  with req show ?thesis by simp
next
  case (mis)
  with req show ?thesis by (intro missing) (simp_all add: slot_None)
next
  case (ex l w)
  let ?L = "L\<lparr>lc_active := AList.delete lid (lc_active L), lc_workspaces := w, lc_expired := insert lid (lc_expired L)\<rparr>"
  have e: "L' = ?L" "e = LeaseExpiredError (Some (end_decision l EXPIRED now False L))"
    using req ex(3) by simp_all
  have "ended lid L ?L (end_decision l EXPIRED now False L)"
    by (rule endedI [OF inv ex(1)]) (use ex(5) in \<open>simp add: ws_of_def\<close>)
  moreover have "ld_runtime_to_stop (end_decision l EXPIRED now False L) = None"
    using end_decision_fields(4) [OF inv ex(1)] by (simp split: option.split)
  moreover have "slot ?L = (slot L)(lid := None)" by (auto simp: slot_def dict_simps fun_eq_iff)
  moreover have "slot L lid \<noteq> None" using ex(1) by (simp add: slot_def)
  ultimately show ?thesis using e ex(4) by (intro expired) simp_all
qed

lemma check_live:
  assumes inv: "lc_inv L" and req: "require_active_locked lid now L = (L', Inr l)"
  shows "L' = L" and "map_of (lc_active L) lid = Some l" and "now < expires_at l"
  using inv
  by (cases rule: require_active_cases [where lid = lid and now = now, case_names live ex mis]; use req in simp)+

lemma heartbeat_effect:
  assumes inv: "lc_inv L" and hb: "heartbeat lid now L = (L', Inr l)"
  shows "lc_inv L'" and "slot L' = slot L" and "ws_runtime_of L' = ws_runtime_of L"
proof -
  from hb obtain l0 where r: "require_active_locked lid now L = (L, Inr l0)"
    using check_live(1) [OF inv, of lid now]
    by (auto simp: heartbeat_def split: prod.splits sum.splits)
  note live = check_live(2,3) [OF inv r]
  from heartbeat_ok [OF inv live] hb have L': "L' = L\<lparr>lc_active := AList.update lid (l0\<lparr>dl_last_heartbeat_at := now\<rparr>) (lc_active L)\<rparr>"
    "lc_inv L'" by auto
  show "lc_inv L'" by (rule L'(2))
  show "slot L' = slot L" "ws_runtime_of L' = ws_runtime_of L"
    using L'(1) live(1) by (auto simp: slot_def dict_simps fun_eq_iff)
qed

lemma release_effect:
  assumes inv: "lc_inv L"
  obtains (missing) "release_lease lid now im L = (L, Inr \<lparr>rr_released = False, rr_decision = None\<rparr>)"
  | (ended) L' r d where "release_lease lid now im L = (L', Inr \<lparr>rr_released = r, rr_decision = Some d\<rparr>)"
      "slot L lid \<noteq> None" "lc_inv L'" "slot L' = (slot L)(lid := None)" "ended lid L L' d"
proof (cases "map_of (lc_active L) lid")
  case None
  then show ?thesis by (intro missing) (simp add: release_lease_def lc_release_missing)
next
  case (Some l)
  let ?im = "im \<and> now < expires_at l" and ?re = "if now < expires_at l then RELEASED else EXPIRED"
  from lc_release_ok [OF inv Some, of now im] obtain L' where
    L': "lc_release lid now im L = (L', Inr \<lparr>rr_released = (now < expires_at l), rr_decision = Some
          (if now < expires_at l then end_decision l RELEASED now im L else end_decision l EXPIRED now False L)\<rparr>)"
      "lc_inv L'" "map_of (lc_active L') = (map_of (lc_active L))(lid := None)"
      "ws_of L' = (case dl_binding l of
        None \<Rightarrow> ws_of L
      | Some b \<Rightarrow> (ws_of L)(wb_identity b := after_drop (lease_binding L) lid b now ?im L))" by auto
  have d: "(if now < expires_at l then end_decision l RELEASED now im L else end_decision l EXPIRED now False L)
      = end_decision l ?re now ?im L" by simp
  have "ended lid L L' (end_decision l ?re now ?im L)" by (rule endedI [OF inv Some L'(4)])
  with L' d Some show ?thesis
    by (intro ended) (auto simp: release_lease_def slot_def fun_eq_iff)
qed

lemma release_workspace_effect:
  assumes inv: "lc_inv L"
  obtains (error) L' e where "release_workspace lid now im L = (L', Inl e)"
      "require_active_locked lid now L = (L', Inl e)"
  | (nothing) "release_workspace lid now im L = (L, Inr \<lparr>rr_released = False, rr_decision = None\<rparr>)"
  | (unbound) L' d where "release_workspace lid now im L = (L', Inr \<lparr>rr_released = True, rr_decision = Some d\<rparr>)"
      "lc_inv L'" "slot L' = (slot L)(lid \<mapsto> None)" "lease_binding L lid \<noteq> None" "ended lid L L' d"
  using inv
proof (cases rule: require_active_cases [where lid = lid and now = now, case_names live ex mis])
  case (live l)
  show ?thesis
  proof (cases "dl_binding l")
    case None
    with live have "release_workspace lid now im L = (L, Inr \<lparr>rr_released = False, rr_decision = None\<rparr>)"
      by (simp add: release_workspace_def)
    then show ?thesis by (rule nothing)
  next
    case (Some b)
    from release_workspace_ok [OF inv live(1,2) Some, of im] obtain L' where
      L': "release_workspace lid now im L =
          (L', Inr \<lparr>rr_released = True, rr_decision = Some (end_decision l RELEASED now im L)\<rparr>)"
        "lc_inv L'" "map_of (lc_active L') = (map_of (lc_active L))(lid \<mapsto> l\<lparr>dl_binding := None\<rparr>)"
        "ws_of L' = (ws_of L)(wb_identity b := after_drop (lease_binding L) lid b now im L)" by blast
    have "ended lid L L' (end_decision l RELEASED now im L)"
      by (rule endedI [OF inv live(1)]) (use L'(4) Some in simp)
    with L' live(1) Some show ?thesis
      by (intro unbound) (auto simp: slot_def fun_eq_iff)
  qed
qed (use error in \<open>auto simp: release_workspace_def\<close>)

lemma rebind_effect:
  assumes inv: "lc_inv L" and compat: "same_runtime L b"
  obtains (error) L' e where "rebind lid now b L = (L', Inl e)"
      "require_active_locked lid now L = (L', Inl e)"
  | (bound) L' l where "rebind lid now b L = (L', Inr l)" "slot L lid \<noteq> None" "lc_inv L'"
      "slot L' = (slot L)(lid \<mapsto> Some b)"
      "ws_runtime_of L' \<subseteq>\<^sub>m (ws_runtime_of L)(wb_identity b \<mapsto> wb_runtime b)"
  using inv
proof (cases rule: require_active_cases [where lid = lid and now = now, case_names live ex mis])
  case (live l)
  have "r = wb_runtime b" if "ws_runtime_of L (wb_identity b) = Some r" for r
    using that compat by (simp add: same_runtime_def)
  from rebind_ok [OF inv live(1,2) this] obtain L' where
    "rebind lid now b L = (L', Inr (l\<lparr>dl_binding := Some b\<rparr>))" "lc_inv L'"
    "map_of (lc_active L') = (map_of (lc_active L))(lid \<mapsto> l\<lparr>dl_binding := Some b\<rparr>)"
    "ws_runtime_of L' \<subseteq>\<^sub>m (ws_runtime_of L)(wb_identity b \<mapsto> wb_runtime b)" by blast
  with live(1) show ?thesis by (intro bound) (auto simp: slot_def fun_eq_iff)
qed (use error in \<open>auto simp: rebind_def\<close>)

lemma acquire_effect:
  assumes inv: "lc_inv L" and new: "slot L lid = None"
  shows "lc_inv (fst (acquire_lease lid now None L))"
    and "slot (fst (acquire_lease lid now None L)) = (slot L)(lid \<mapsto> None)"
    and "ws_runtime_of (fst (acquire_lease lid now None L)) = ws_runtime_of L"
proof -
  from issue_ok [OF inv, of lid None now] new obtain L' l where
    "issue lid now None L = (L', Inr l)" "lc_inv L'" "dl_binding l = None"
    "map_of (lc_active L') = (map_of (lc_active L))(lid \<mapsto> l)" "ws_of L' = ws_of L"
    by (auto simp: slot_None)
  then show "lc_inv (fst (acquire_lease lid now None L))"
    "slot (fst (acquire_lease lid now None L)) = (slot L)(lid \<mapsto> None)"
    "ws_runtime_of (fst (acquire_lease lid now None L)) = ws_runtime_of L"
    by (auto simp: acquire_lease_def slot_def ws_runtime_of_def fun_eq_iff)
qed

end
