(* ===== verification/Coupling.thy ===== *)
theory Coupling
  imports Service
begin

text \<open>
  The invariant that couples the lease lifecycle and the runtime registry under the
  service's interleaved slices, and its preservation by every step of the service.
\<close>

section \<open>The coupling of lifecycle and registry\<close>

definition bindings :: "('i, 'r, uuid) registry \<Rightarrow> uuid \<Rightarrow> ('i, 'r) workspace_binding option" where
  "bindings R = map_of (reg_bindings R)"

text \<open>\<open>owner R b lid\<close>: only session \<open>lid\<close> may be bound through the registry lease of \<open>b\<close>.\<close>

definition owner :: "('i, 'r, uuid) registry \<Rightarrow> ('i, 'r) workspace_binding \<Rightarrow> uuid \<Rightarrow> bool" where
  "owner R b lid \<longleftrightarrow> (\<forall>k c. bindings R k = Some c \<longrightarrow> wb_lease_id c = wb_lease_id b \<longrightarrow> k = lid)"

definition rebinding :: "('i, 'r) activation_step option \<Rightarrow> uuid \<Rightarrow> bool" where
  "rebinding act lid \<longleftrightarrow> (\<exists>p. act = Some (Act_rebind lid p))"

definition candidate :: "('i, 'r) activation_step option \<Rightarrow> ('i, 'r, uuid) prepared_activation option" where
  "candidate act =
     (case act of
        Some (Act_refresh _ p) \<Rightarrow> Some p
      | Some (Act_commit _ p) \<Rightarrow> Some p
      | _ \<Rightarrow> None)"

text \<open>Every bound lease's registry binding is in place (unless an activation is about to replace it).\<close>

definition bound_ok ::
    "('i, 'r) lifecycle \<Rightarrow> ('i, 'r, uuid) registry \<Rightarrow> ('i, 'r) activation_step option \<Rightarrow> bool" where
  "bound_ok L R act \<longleftrightarrow>
     (\<forall>lid b. lease_binding L lid = Some b \<longrightarrow>
        owner R b lid \<and> (bindings R lid = Some b \<or> rebinding act lid))"

text \<open>Every registry binding is a lease's, or about to be one, or waits for its clean-up.\<close>

definition sessions_ok ::
    "('i, 'r) lifecycle \<Rightarrow> ('i, 'r, uuid) registry \<Rightarrow> ('i, 'r) lease_decision set \<Rightarrow> ('i, 'r) activation_step option \<Rightarrow> bool" where
  "sessions_ok L R Q act \<longleftrightarrow>
     (\<forall>lid b. bindings R lid = Some b \<longrightarrow>
        lease_binding L lid = Some b \<or> rebinding act lid \<or>
        (\<exists>d \<in> Q. ld_binding_to_release d = Some b \<and> ld_lease_id d = Some lid))"

text \<open>A binding waiting for its clean-up is no lease's any more, nor the candidate's.\<close>

definition queue_ok ::
    "('i, 'r) lifecycle \<Rightarrow> ('i, 'r, uuid) registry \<Rightarrow> ('i, 'r) lease_decision set \<Rightarrow> uuid set \<Rightarrow> ('i, 'r) activation_step option \<Rightarrow> bool" where
  "queue_ok L R Q ids act \<longleftrightarrow>
     (\<forall>d \<in> Q. \<forall>b. ld_binding_to_release d = Some b \<longrightarrow>
        wb_lease_id b \<in> ids \<and> (\<exists>lid. ld_lease_id d = Some lid \<and> owner R b lid) \<and>
        (\<forall>k c. lease_binding L k = Some c \<longrightarrow> wb_lease_id c \<noteq> wb_lease_id b) \<and>
        (\<forall>p. candidate act = Some p \<longrightarrow> pa_provisional p \<longrightarrow> wb_lease_id b \<noteq> wb_lease_id (pa_binding p)))"

definition leases_ok ::
    "('i, 'r, uuid) registry \<Rightarrow> ('i, 'r) activation_step option \<Rightarrow> bool" where
  "leases_ok R act \<longleftrightarrow>
     (\<forall>k l. live_lease R k = Some l \<longrightarrow>
        (\<exists>s b. bindings R s = Some b \<and> wb_lease b = l) \<or>
        (\<exists>p. candidate act = Some p \<and> pa_provisional p \<and> wb_lease (pa_binding p) = l))"

definition runtimes_ok ::
    "('i, 'r, uuid) registry \<Rightarrow> 'r set \<Rightarrow> bool" where
  "runtimes_ok R H \<longleftrightarrow>
     (\<forall>i r. runtime_of R i = Some r \<longrightarrow> r \<notin> H) \<and>
     (\<forall>i j r. runtime_of R i = Some r \<longrightarrow> runtime_of R j = Some r \<longrightarrow> i = j)"

definition ids_ok ::
    "('i, 'r) lifecycle \<Rightarrow> ('i, 'r, uuid) registry \<Rightarrow> uuid set \<Rightarrow> bool" where
  "ids_ok L R ids \<longleftrightarrow>
     (\<forall>k. slot L k \<noteq> None \<longrightarrow> k \<in> ids) \<and> (\<forall>k. live_lease R k \<noteq> None \<longrightarrow> k \<in> ids) \<and>
     (\<forall>k. bindings R k \<noteq> None \<longrightarrow> k \<in> ids) \<and>
     (\<forall>k b. lease_binding L k = Some b \<longrightarrow> wb_lease_id b \<in> ids)"

definition act_ok ::
    "('i, 'r) lifecycle \<Rightarrow> ('i, 'r, uuid) registry \<Rightarrow> uuid set \<Rightarrow> ('i, 'r) activation_step option \<Rightarrow> bool" where
  "act_ok L R ids act \<longleftrightarrow>
     (\<forall>lid rw. act = Some (Act_prepare lid rw) \<longrightarrow> lid \<in> ids) \<and>
     (\<forall>lid p. act = Some (Act_refresh lid p) \<or> act = Some (Act_commit lid p) \<longrightarrow>
        lid \<in> ids \<and> pa_session p = lid \<and> pa_expected p = bindings R lid \<and> prepared_ok R p \<and>
        live_lease R (wb_lease_id (pa_binding p)) = Some (wb_lease (pa_binding p))) \<and>
     (\<forall>lid p. act = Some (Act_rebind lid p) \<longrightarrow> lid \<in> ids \<and> bindings R lid = Some (pa_binding p)) \<and>
     (\<forall>lid p. act = Some (Act_refresh lid p) \<or> act = Some (Act_commit lid p) \<or> act = Some (Act_rebind lid p) \<longrightarrow>
        pa_created p \<longrightarrow> ws_runtime_of L (wb_identity (pa_binding p)) = None)"

definition core ::
    "('i, 'r) lifecycle \<Rightarrow> ('i, 'r, uuid) registry \<Rightarrow> ('i, 'r) lease_decision set \<Rightarrow> ('i, 'r) activation_step option \<Rightarrow> 'r set \<Rightarrow> uuid set \<Rightarrow> bool" where
  "core L R Q act H ids \<longleftrightarrow>
     lc_inv L \<and> reg_inv R \<and> ws_runtime_of L \<subseteq>\<^sub>m runtime_of R \<and>
     bound_ok L R act \<and> sessions_ok L R Q act \<and> queue_ok L R Q ids act \<and> leases_ok R act \<and>
     runtimes_ok R H \<and> ids_ok L R ids \<and> act_ok L R ids act"

lemmas core_defs = core_def bound_ok_def sessions_ok_def queue_ok_def leases_ok_def runtimes_ok_def
  ids_ok_def act_ok_def

lemma coreD:
  assumes "core L R Q act H ids"
  shows "lc_inv L" "reg_inv R" "ws_runtime_of L \<subseteq>\<^sub>m runtime_of R" "bound_ok L R act"
    "sessions_ok L R Q act" "queue_ok L R Q ids act" "leases_ok R act" "runtimes_ok R H"
    "ids_ok L R ids" "act_ok L R ids act"
  using assms by (simp_all add: core_def)

lemma queue_okE:
  assumes "queue_ok L R Q ids act" and "d \<in> Q" and "ld_binding_to_release d = Some b"
  obtains j where "wb_lease_id b \<in> ids" and "ld_lease_id d = Some j" and "owner R b j"
    and "\<And>k c. lease_binding L k = Some c \<Longrightarrow> wb_lease_id c \<noteq> wb_lease_id b"
    and "\<And>p. candidate act = Some p \<Longrightarrow> pa_provisional p \<Longrightarrow> wb_lease_id b \<noteq> wb_lease_id (pa_binding p)"
  using assms unfolding queue_ok_def by blast

lemma owner_bound:
  assumes "reg_inv R" and "bindings R lid = Some b"
  shows "owner R b lid"
  using assms unfolding owner_def reg_inv_def bindings_ok_def bindings_def by metis

lemma owner_mono:
  assumes "owner R b lid" and "\<And>k c. bindings R' k = Some c \<Longrightarrow> bindings R k = Some c"
  shows "owner R' b lid"
  using assms unfolding owner_def by blast

lemma binding_live:
  assumes "reg_inv R" and "bindings R lid = Some b"
  shows "live_lease R (wb_lease_id b) = Some (wb_lease b)"
    and "runtime_of R (wb_identity b) = Some (wb_runtime b)"
  using assms registry.lease_retained [of R "wb_lease_id b" "wb_lease b"]
  by (auto simp: reg_inv_def bindings_ok_def bindings_def)

subsection \<open>A lease ends\<close>

lemma endedD:
  assumes "ended lid L L' d" and "ld_runtime_to_stop d = Some r"
  shows "\<exists>b. lease_binding L lid = Some b \<and> r = wb_runtime b \<and>
    ws_runtime_of L' = (ws_runtime_of L)(wb_identity b := None)"
proof -
  have "\<forall>r. ld_runtime_to_stop d = Some r \<longrightarrow>
        (\<exists>b. lease_binding L lid = Some b \<and> r = wb_runtime b \<and>
           ws_runtime_of L' = (ws_runtime_of L)(wb_identity b := None))"
    using assms(1) unfolding ended_def by (elim conjE)
  from this [rule_format, OF assms(2)] show ?thesis .
qed

lemma core_ends:
  assumes c: "core L R Q act H ids" and inv': "lc_inv L'"
    and lb: "\<And>k b. lease_binding L' k = Some b \<Longrightarrow> lease_binding L k = Some b"
    and sl: "\<And>k. slot L' k \<noteq> None \<Longrightarrow> slot L k \<noteq> None"
    and ws: "ws_runtime_of L' \<subseteq>\<^sub>m ws_runtime_of L"
    and ended: "\<And>k b. lease_binding L k = Some b \<Longrightarrow> lease_binding L' k = None \<Longrightarrow>
      \<exists>d \<in> D. ld_binding_to_release d = Some b \<and> ld_lease_id d = Some k"
    and D: "\<And>d b. d \<in> D \<Longrightarrow> ld_binding_to_release d = Some b \<Longrightarrow>
      \<exists>k. ld_lease_id d = Some k \<and> lease_binding L k = Some b \<and> lease_binding L' k = None"
  shows "core L' R (D \<union> Q) act H ids"
proof -
  note C = coreD [OF c]
  have dn: "ws_runtime_of L' i = None" if "ws_runtime_of L i = None" for i
    using ws that by (metis domIff map_le_def)
  have bo: "bound_ok L' R act" using C(4) lb unfolding bound_ok_def by blast
  have so: "sessions_ok L' R (D \<union> Q) act"
    unfolding sessions_ok_def
  proof (intro allI impI)
    fix k b assume kb: "bindings R k = Some b"
    with C(5) consider "lease_binding L k = Some b" | "rebinding act k"
      | "\<exists>d \<in> Q. ld_binding_to_release d = Some b \<and> ld_lease_id d = Some k" unfolding sessions_ok_def by blast
    then show "lease_binding L' k = Some b \<or> rebinding act k \<or>
        (\<exists>d \<in> D \<union> Q. ld_binding_to_release d = Some b \<and> ld_lease_id d = Some k)"
    proof cases
      case 1
      with ended [OF 1] lb [of k] show ?thesis by (cases "lease_binding L' k") auto
    qed auto
  qed
  have other: "wb_lease_id c \<noteq> wb_lease_id b"
    if "lease_binding L j = Some b" "lease_binding L' j = None" "lease_binding L' k = Some c" for j b k c
  proof
    assume eq: "wb_lease_id c = wb_lease_id b"
    from that lb [OF that(3)] have kc: "lease_binding L k = Some c" "k \<noteq> j" by auto
    from C(4) that(1) kc(1) have o: "owner R b j" "owner R c k"
      and or1: "bindings R j = Some b \<or> rebinding act j" and or2: "bindings R k = Some c \<or> rebinding act k"
      unfolding bound_ok_def by blast+
    have "\<not> (rebinding act j \<and> rebinding act k)" using kc(2) by (auto simp: rebinding_def)
    with or1 or2 o eq kc(2) show False unfolding owner_def by metis
  qed
  have cand: "wb_lease_id b \<noteq> wb_lease_id (pa_binding p)"
    if "lease_binding L j = Some b" "candidate act = Some p" "pa_provisional p" for j b p
  proof -
    from that(2) obtain k where k: "act = Some (Act_refresh k p) \<or> act = Some (Act_commit k p)"
      by (auto simp: candidate_def split: option.splits activation_step.splits)
    then have "\<not> rebinding act j" by (auto simp: rebinding_def)
    with C(4) that(1) have "bindings R j = Some b" unfolding bound_ok_def by blast
    moreover have "prepared_ok R p" using C(10) k unfolding act_ok_def by blast
    ultimately show ?thesis using that(3) by (auto simp: prepared_ok_def unbound_def bindings_def)
  qed
  have qo: "queue_ok L' R (D \<union> Q) ids act"
    unfolding queue_ok_def
  proof (intro ballI allI impI)
    fix e b assume e: "e \<in> D \<union> Q" "ld_binding_to_release e = Some b"
    show "wb_lease_id b \<in> ids \<and> (\<exists>lid. ld_lease_id e = Some lid \<and> owner R b lid) \<and>
        (\<forall>k c. lease_binding L' k = Some c \<longrightarrow> wb_lease_id c \<noteq> wb_lease_id b) \<and>
        (\<forall>p. candidate act = Some p \<longrightarrow> pa_provisional p \<longrightarrow> wb_lease_id b \<noteq> wb_lease_id (pa_binding p))"
    proof (cases "e \<in> D")
      case True
      from D [OF this e(2)] obtain k where b: "ld_lease_id e = Some k" "lease_binding L k = Some b"
        "lease_binding L' k = None" by blast
      with C(4,9) other [OF b(2,3)] cand [OF b(2)] show ?thesis unfolding bound_ok_def ids_ok_def by blast
    next
      case False
      with e C(6) lb show ?thesis unfolding queue_ok_def by blast
    qed
  qed
  have io: "ids_ok L' R ids" using C(9) lb sl unfolding ids_ok_def by blast
  have ao: "act_ok L' R ids act" using C(10) dn unfolding act_ok_def by blast
  show ?thesis
    unfolding core_def using inv' C(2,7,8) map_le_trans [OF ws C(3)] bo so qo io ao by blast
qed

lemma core_end:
  assumes c: "core L R Q act H ids" and inv': "lc_inv L'"
    and sl: "slot L' = (slot L)(lid := x)" and x: "x = None \<or> x = Some None" "slot L lid \<noteq> None"
    and d: "ended lid L L' d"
  shows "core L' R (insert d Q) act H ids"
proof -
  have lb: "lease_binding L' = (lease_binding L)(lid := None)"
    using sl x(1) by (auto simp: lease_binding_slot fun_eq_iff)
  have ws: "ws_runtime_of L' \<subseteq>\<^sub>m ws_runtime_of L"
  proof (cases "ld_runtime_to_stop d")
    case None
    with d show ?thesis by (simp add: ended_def)
  next
    case (Some r)
    from endedD [OF d this] obtain b where "lease_binding L lid = Some b"
      "ws_runtime_of L' = (ws_runtime_of L)(wb_identity b := None)" by blast
    then show ?thesis by (simp add: map_le_def)
  qed
  have f: "ld_lease_id d = Some lid" "ld_binding_to_release d = lease_binding L lid"
    using d by (simp_all add: ended_def)
  have "core L' R ({d} \<union> Q) act H ids"
    by (rule core_ends [OF c inv' _ _ ws]) (use sl x lb f in \<open>auto split: if_splits\<close>)
  then show ?thesis by simp
qed

lemma core_same_view:
  assumes c: "core L R Q act H ids" and "lc_inv L'" and "slot L' = slot L" and "ws_runtime_of L' = ws_runtime_of L"
  shows "core L' R Q act H ids"
proof -
  have "lease_binding L' = lease_binding L" using assms(3) by (simp add: lease_binding_slot fun_eq_iff)
  with assms show ?thesis by (simp add: core_defs)
qed

lemma core_mono:
  assumes "core L R Q act H ids" and "H' \<subseteq> H"
  shows "core L R Q act H' ids"
  using assms unfolding core_def runtimes_ok_def by blast

subsection \<open>A decision is applied\<close>

text \<open>The registry changes that only take away: leases with the bindings through them, and an idle runtime.\<close>

definition dropped :: "uuid set \<Rightarrow> 'r list \<Rightarrow> ('i, 'r, uuid) registry \<Rightarrow> ('i, 'r, uuid) registry \<Rightarrow> bool" where
  "dropped K rs R R' \<longleftrightarrow>
     reg_inv R' \<and> live_lease R' = (\<lambda>k. if k \<in> K then None else live_lease R k) \<and>
     (\<forall>s b. bindings R' s = Some b \<longleftrightarrow> bindings R s = Some b \<and> wb_lease_id b \<notin> K) \<and>
     (rs = [] \<and> runtime_of R' = runtime_of R \<or>
      (\<exists>i r. rs = [r] \<and> runtime_of R i = Some r \<and> runtime_of R' = (runtime_of R)(i := None)))"

lemma dropped_release:
  assumes "reg_inv R"
  shows "dropped {k} [] R (fst (reg_release_lease k R))"
  using reg_release_lease_ok [OF assms, of k] by (auto simp: dropped_def bindings_def fun_eq_iff)

lemma dropped_retire:
  assumes inv: "reg_inv R0" and dr: "dropped K [] R0 R" and ret: "retire_idle i r R = (R', res)"
  shows "dropped K (case res of None \<Rightarrow> [] | Some x \<Rightarrow> [x]) R0 R'"
proof -
  have invR: "reg_inv R" using dr by (simp add: dropped_def)
  from retire_idle_ok [OF invR ret] dr show ?thesis
    by (cases res) (auto simp: dropped_def bindings_def)
qed

lemma dropped_refl: "reg_inv R \<Longrightarrow> dropped {} [] R R"
  by (simp add: dropped_def)

lemma apply_decision_dropped:
  assumes inv: "reg_inv R" and app: "apply_decision_locked (Some d) R = (R', rs)"
  shows "dropped (set_option (map_option wb_lease_id (ld_binding_to_release d))) rs R R'"
    and "rs \<noteq> [] \<Longrightarrow> \<exists>i r. ld_identity d = Some i \<and> ld_runtime_to_stop d = Some r \<and> rs = [r] \<and>
           runtime_of R' = (runtime_of R)(i := None)"
proof -
  define R1 where "R1 = (case ld_binding_to_release d of None \<Rightarrow> R | Some b \<Rightarrow> fst (reg_release_lease (wb_lease_id b) R))"
  let ?K = "set_option (map_option wb_lease_id (ld_binding_to_release d))"
  have d1: "dropped ?K [] R R1"
    using dropped_release [OF inv] dropped_refl [OF inv] by (simp add: R1_def split: option.split)
  have inv1: "reg_inv R1" and rt1: "runtime_of R1 = runtime_of R" using d1 by (auto simp: dropped_def)
  show "dropped ?K rs R R'"
  proof (cases "ld_identity d = None \<or> ld_runtime_to_stop d = None")
    case True
    with app have "R' = R1" "rs = []"
      by (auto simp: apply_decision_locked_def R1_def Let_def split: option.splits)
    with d1 show ?thesis by simp
  next
    case False
    then obtain i r where ir: "ld_identity d = Some i" "ld_runtime_to_stop d = Some r" by auto
    obtain R2 res where ret: "retire_idle i r R1 = (R2, res)" by (cases "retire_idle i r R1")
    with app ir have "R' = R2" "rs = (case res of None \<Rightarrow> [] | Some x \<Rightarrow> [x])"
      by (auto simp: apply_decision_locked_def R1_def Let_def split: option.splits)
    with dropped_retire [OF inv d1 ret] show ?thesis by simp
  qed
  assume "rs \<noteq> []"
  with app obtain i r x where "ld_identity d = Some i" "ld_runtime_to_stop d = Some r"
    "retire_idle i r R1 = (R', Some x)" "rs = [x]"
    by (auto simp: apply_decision_locked_def R1_def Let_def split: option.splits prod.splits)
  with retire_idle_ok(5) [OF inv1, of i r R' "Some x" x] rt1
  show "\<exists>i r. ld_identity d = Some i \<and> ld_runtime_to_stop d = Some r \<and> rs = [r] \<and>
           runtime_of R' = (runtime_of R)(i := None)" by auto
qed

text \<open>
  Dropping registry leases no lease is bound through, and a runtime of no workspace,
  keeps the coupling; the detached runtime joins the handed-over ones.
\<close>

lemma core_dropped:
  assumes c: "core L R Q act H ids" and d: "dropped K rs R R'"
    and K: "\<And>k b. lease_binding L k = Some b \<Longrightarrow> wb_lease_id b \<notin> K"
    and act: "\<And>lid. rebinding act lid \<Longrightarrow> lease_binding L lid = None"
      "\<And>lid b. rebinding act lid \<Longrightarrow> bindings R lid = Some b \<Longrightarrow> wb_lease_id b \<in> K"
      "\<And>p. candidate act = Some p \<Longrightarrow> pa_provisional p \<Longrightarrow> wb_lease_id (pa_binding p) \<in> K"
    and ws: "ws_runtime_of L \<subseteq>\<^sub>m runtime_of R'"
    and Q': "\<And>e b. e \<in> Q - Q' \<Longrightarrow> ld_binding_to_release e = Some b \<Longrightarrow> wb_lease_id b \<in> K" and sub: "Q' \<subseteq> Q"
  shows "core L R' Q' None (H \<union> set rs) ids"
proof -
  note C = coreD [OF c]
  have bs: "bindings R' s = Some b \<longleftrightarrow> bindings R s = Some b \<and> wb_lease_id b \<notin> K" for s b
    using d by (simp add: dropped_def)
  have lv: "live_lease R' k = (if k \<in> K then None else live_lease R k)" for k
    using d by (simp add: dropped_def)
  have inv': "reg_inv R'" using d by (simp add: dropped_def)
  have own: "owner R b lid \<Longrightarrow> owner R' b lid" for b lid
    using bs by (blast intro: owner_mono)
  have bo: "bound_ok L R' None"
    unfolding bound_ok_def
  proof (intro allI impI)
    fix k b assume kb: "lease_binding L k = Some b"
    with act(1) have "\<not> rebinding act k" by force
    with C(4) kb have "owner R b k" "bindings R k = Some b" unfolding bound_ok_def by blast+
    with own bs K [OF kb] show "owner R' b k \<and> (bindings R' k = Some b \<or> rebinding None k)" by blast
  qed
  have so: "sessions_ok L R' Q' None"
    unfolding sessions_ok_def
  proof (intro allI impI)
    fix k b assume "bindings R' k = Some b"
    then have kb: "bindings R k = Some b" "wb_lease_id b \<notin> K" by (simp_all add: bs)
    moreover from this act(2) have "\<not> rebinding act k" by blast
    ultimately consider "lease_binding L k = Some b"
      | e where "e \<in> Q" "ld_binding_to_release e = Some b" "ld_lease_id e = Some k"
      using C(5) unfolding sessions_ok_def by blast
    then show "lease_binding L k = Some b \<or> rebinding None k \<or>
        (\<exists>d \<in> Q'. ld_binding_to_release d = Some b \<and> ld_lease_id d = Some k)"
    proof cases
      case 2
      with Q' [of e b] kb(2) show ?thesis by blast
    qed simp
  qed
  have qo: "queue_ok L R' Q' ids None"
    unfolding queue_ok_def
  proof (intro ballI allI impI)
    fix e b assume "e \<in> Q'" "ld_binding_to_release e = Some b"
    with C(6) sub obtain j where "wb_lease_id b \<in> ids" "ld_lease_id e = Some j" "owner R b j"
      "\<forall>k c. lease_binding L k = Some c \<longrightarrow> wb_lease_id c \<noteq> wb_lease_id b"
      unfolding queue_ok_def by blast
    with own show "wb_lease_id b \<in> ids \<and> (\<exists>lid. ld_lease_id e = Some lid \<and> owner R' b lid) \<and>
        (\<forall>k c. lease_binding L k = Some c \<longrightarrow> wb_lease_id c \<noteq> wb_lease_id b) \<and>
        (\<forall>p. candidate None = Some p \<longrightarrow> pa_provisional p \<longrightarrow> wb_lease_id b \<noteq> wb_lease_id (pa_binding p))"
      by (simp add: candidate_def)
  qed
  have lo: "leases_ok R' None"
    unfolding leases_ok_def
  proof (intro allI impI)
    fix k l assume "live_lease R' k = Some l"
    then have kl: "live_lease R k = Some l" "k \<notin> K" by (simp_all add: lv split: if_splits)
    have lk: "wl_id l = k" using kl(1) C(2) by (auto simp: reg_inv_def dest: reg_core_liveD(1))
    have "\<not> (\<exists>p. candidate act = Some p \<and> pa_provisional p \<and> wb_lease (pa_binding p) = l)"
      using act(3) kl(2) lk by blast
    with C(7) kl(1) obtain s b where sb: "bindings R s = Some b" "wb_lease b = l"
      unfolding leases_ok_def by blast
    note lk
    with sb kl(2) have "bindings R' s = Some b" by (simp add: bs)
    with sb(2) show "(\<exists>s b. bindings R' s = Some b \<and> wb_lease b = l) \<or>
        (\<exists>p. candidate None = Some p \<and> pa_provisional p \<and> wb_lease (pa_binding p) = l)" by blast
  qed
  have ro: "runtimes_ok R' (H \<union> set rs)"
  proof (cases "rs = []")
    case True
    with d C(8) show ?thesis by (auto simp: dropped_def runtimes_ok_def)
  next
    case False
    with d obtain i r where "rs = [r]" "runtime_of R i = Some r" "runtime_of R' = (runtime_of R)(i := None)"
      by (auto simp: dropped_def)
    with C(8) show ?thesis by (auto simp: runtimes_ok_def split: if_splits)
  qed
  have io: "ids_ok L R' ids"
  proof -
    have "bindings R k \<noteq> None" if "bindings R' k \<noteq> None" for k using that bs by fastforce
    then show ?thesis using C(9) unfolding ids_ok_def by (metis lv)
  qed
  have ao: "act_ok L R' ids None" by (simp add: act_ok_def)
  show ?thesis unfolding core_def using C(1) inv' ws bo so qo lo ro io ao by blast
qed

lemma core_apply:
  assumes c: "core L R (insert d Q) None H ids" and app: "apply_decision_locked (Some d) R = (R', rs)"
    and stop: "\<And>i r. ld_identity d = Some i \<Longrightarrow> ld_runtime_to_stop d = Some r \<Longrightarrow> ws_runtime_of L i = None"
  shows "core L R' Q None (H \<union> set rs) ids"
proof (rule core_dropped [OF c])
  note C = coreD [OF c]
  show dr: "dropped (set_option (map_option wb_lease_id (ld_binding_to_release d))) rs R R'"
    by (rule apply_decision_dropped(1) [OF C(2) app])
  show "wb_lease_id b \<notin> set_option (map_option wb_lease_id (ld_binding_to_release d))"
    if "lease_binding L k = Some b" for k b
    using C(6) that unfolding queue_ok_def by (cases "ld_binding_to_release d") auto
  show "ws_runtime_of L \<subseteq>\<^sub>m runtime_of R'"
  proof (cases "rs = []")
    case True
    with dr C(3) show ?thesis by (auto simp: dropped_def)
  next
    case False
    from apply_decision_dropped(2) [OF C(2) app this] obtain i r where
      "ld_identity d = Some i" "ld_runtime_to_stop d = Some r" "runtime_of R' = (runtime_of R)(i := None)" by blast
    with stop C(3) show ?thesis by (auto simp: map_le_def dom_def)
  qed
qed (auto simp: rebinding_def candidate_def)

lemma core_applies:
  assumes "core L R (set ds \<union> Q) None H ids" and "apply_decisions_locked ds R = (R', rs)"
    and "\<And>d i r. d \<in> set ds \<Longrightarrow> ld_identity d = Some i \<Longrightarrow> ld_runtime_to_stop d = Some r \<Longrightarrow> ws_runtime_of L i = None"
  shows "core L R' Q None (H \<union> set rs) ids"
  using assms
proof (induction ds arbitrary: R H rs)
  case (Cons d ds)
  obtain R1 rs1 where a: "apply_decision_locked (Some d) R = (R1, rs1)" by (cases "apply_decision_locked (Some d) R")
  obtain rs2 where b: "apply_decisions_locked ds R1 = (R', rs2)" "rs = rs1 @ rs2"
    using Cons.prems(2) a by (auto split: prod.splits)
  have "core L R (insert d (set ds \<union> Q)) None H ids" using Cons.prems(1) by simp
  from this a have "core L R1 (set ds \<union> Q) None (H \<union> set rs1) ids"
    by (rule core_apply) (use Cons.prems(3) in auto)
  then have "core L R' Q None ((H \<union> set rs1) \<union> set rs2) ids"
    by (rule Cons.IH [OF _ b(1)]) (use Cons.prems(3) in auto)
  with b(2) show ?case by (simp add: Un_assoc)
qed simp

subsection \<open>Activation\<close>

lemma core_begin:
  assumes "core L R Q None H ids" and "lid \<in> ids"
  shows "core L R Q (Some (Act_prepare lid rw)) H ids"
  using assms by (simp add: core_defs rebinding_def candidate_def)

lemma core_to_commit:
  assumes "core L R Q (Some (Act_refresh lid p)) H ids"
  shows "core L R Q (Some (Act_commit lid p)) H ids"
  using assms by (simp add: core_defs rebinding_def candidate_def)

lemma core_drop_act:
  assumes "core L R Q (Some (Act_prepare lid rw)) H ids"
  shows "core L R Q None H ids"
  using assms by (simp add: core_defs rebinding_def candidate_def)

lemma core_prepare:
  assumes c: "core L R Q (Some (Act_prepare lid rw)) H ids" and new: "k \<notin> ids"
    and prep: "prepare_activation made k lid rw R = (R', Inr p)"
    and fresh: "\<And>r. made = Inr r \<Longrightarrow> r \<notin> H \<and> (\<forall>i. runtime_of R i \<noteq> Some r)"
  shows "core L R' Q (Some (Act_refresh lid p)) H (insert k ids)"
proof -
  note C = coreD [OF c]
  have nl: "live_lease R k = None" using C(9) new unfolding ids_ok_def by blast
  note P = prepare_activation_ok [OF C(2) nl prep]
  have bs: "bindings R' = bindings R" using P(3) by (simp add: bindings_def)
  have own: "owner R' b j = owner R b j" for b j by (simp add: owner_def bs)
  have reb: "\<not> rebinding (Some (Act_refresh lid p)) j" "\<not> rebinding (Some (Act_prepare lid rw)) j" for j
    by (simp_all add: rebinding_def)
  have ws: "ws_runtime_of L \<subseteq>\<^sub>m runtime_of R'"
    using C(3) P(9) unfolding map_le_def dom_def by force
  have rto: "runtimes_ok R' H"
    unfolding runtimes_ok_def
  proof (intro conjI allI impI)
    have new_rt: "runtime_of R i = Some r \<or> (i = rw_identity rw \<and> made = Inr r \<and> runtime_of R i = None)"
      if "runtime_of R' i = Some r" for i r
      using that P(9) [of i] P(10) [of i] by (cases "runtime_of R i") auto
    show "r \<notin> H" if "runtime_of R' i = Some r" for i r
      using new_rt [OF that] C(8) fresh unfolding runtimes_ok_def by blast
    show "i = j" if "runtime_of R' i = Some r" "runtime_of R' j = Some r" for i j r
      using new_rt [OF that(1)] new_rt [OF that(2)] C(8) fresh unfolding runtimes_ok_def by blast
  qed
  have lo: "leases_ok R' (Some (Act_refresh lid p))"
    unfolding leases_ok_def bs
  proof (intro allI impI)
    fix j l assume jl: "live_lease R' j = Some l"
    show "(\<exists>s b. bindings R s = Some b \<and> wb_lease b = l) \<or>
      (\<exists>q. candidate (Some (Act_refresh lid p)) = Some q \<and> pa_provisional q \<and> wb_lease (pa_binding q) = l)"
    proof (cases "live_lease R j = Some l")
      case True
      with C(7) show ?thesis unfolding leases_ok_def by (auto simp: candidate_def)
    next
      case False
      have prov: "pa_provisional p" using False jl P(12) by metis
      with False jl P(13) have "wb_lease (pa_binding p) = l" by (auto split: if_splits)
      with prov show ?thesis by (simp add: candidate_def)
    qed
  qed
  have created: "ws_runtime_of L (wb_identity (pa_binding p)) = None" if "pa_created p"
    using P(6) P(11) [OF that] C(3) by (metis domIff map_le_def)
  have ao: "act_ok L R' (insert k ids) (Some (Act_refresh lid p))"
    using C(10) P(2-5,7) created by (auto simp: act_ok_def bindings_def)
  have io: "ids_ok L R' (insert k ids)"
    using C(9) P(12,13) unfolding ids_ok_def bs by (cases "pa_provisional p") auto
  have bo: "bound_ok L R' (Some (Act_refresh lid p))"
    using C(4) reb unfolding bound_ok_def bs own by blast
  have so: "sessions_ok L R' Q (Some (Act_refresh lid p))"
    using C(5) reb unfolding sessions_ok_def bs by blast
  have qo: "queue_ok L R' Q (insert k ids) (Some (Act_refresh lid p))"
    using C(6) P(13) new unfolding queue_ok_def own by (auto simp: candidate_def)
  show ?thesis unfolding core_def using C(1) P(1) ws rto lo ao io bo so qo by blast
qed

lemma discard_dropped:
  assumes inv: "reg_inv R" and R1: "dropped K [] R R1"
    and disc: "(if \<not> pa_created p then (R1, [])
      else case retire_idle (wb_identity (pa_binding p)) (wb_runtime (pa_binding p)) R1 of
             (R2, None) \<Rightarrow> (R2, [])
           | (R2, Some detached) \<Rightarrow> (R2, [detached])) = (R', rs)"
    and ws: "ws \<subseteq>\<^sub>m runtime_of R" and created: "pa_created p \<Longrightarrow> ws (wb_identity (pa_binding p)) = None"
  shows "dropped K rs R R'" and "ws \<subseteq>\<^sub>m runtime_of R'"
proof -
  have rt1: "runtime_of R1 = runtime_of R" and inv1: "reg_inv R1" using R1 by (auto simp: dropped_def)
  have "dropped K rs R R' \<and> ws \<subseteq>\<^sub>m runtime_of R'"
  proof (cases "pa_created p")
    case False
    with disc R1 rt1 ws show ?thesis by auto
  next
    case True
    obtain R2 res where ret: "retire_idle (wb_identity (pa_binding p)) (wb_runtime (pa_binding p)) R1 = (R2, res)"
      by (cases "retire_idle (wb_identity (pa_binding p)) (wb_runtime (pa_binding p)) R1")
    with disc True have eq: "R' = R2" "rs = (case res of None \<Rightarrow> [] | Some x \<Rightarrow> [x])"
      by (auto split: option.splits)
    have "ws \<subseteq>\<^sub>m runtime_of R2"
      using retire_idle_ok(4,5) [OF inv1 ret] rt1 ws created [OF True]
      by (cases res) (auto simp: map_le_def dom_def)
    with dropped_retire [OF inv R1 ret] eq show ?thesis by simp
  qed
  then show "dropped K rs R R'" "ws \<subseteq>\<^sub>m runtime_of R'" by blast+
qed

lemma core_discard_uncommitted:
  assumes c: "core L R Q (Some act) H ids" and act: "act = Act_refresh lid p \<or> act = Act_commit lid p"
    and disc: "discard_prepared lid p False R = (R', rs)"
  shows "core L R' Q None (H \<union> set rs) ids"
proof -
  note C = coreD [OF c]
  have A: "prepared_ok R p" "pa_created p \<Longrightarrow> ws_runtime_of L (wb_identity (pa_binding p)) = None"
    using C(10) act unfolding act_ok_def by blast+
  have reb: "\<not> rebinding (Some act) j" for j using act by (auto simp: rebinding_def)
  have cand: "candidate (Some act) = Some p" using act by (auto simp: candidate_def)
  let ?K = "if pa_provisional p then {wb_lease_id (pa_binding p)} else {}"
  obtain R1 r where R1: "abort_activation p R = (R1, Inr r)" "reg_inv R1" "reg_bindings R1 = reg_bindings R"
    "live_lease R1 = (if pa_provisional p then (live_lease R)(wb_lease_id (pa_binding p) := None) else live_lease R)"
    "runtime_of R1 = runtime_of R" using abort_activation_ok [OF C(2) A(1)] by auto
  have unb: "wb_lease_id b \<notin> ?K" if "bindings R s = Some b" for s b
    using A(1) that by (auto simp: prepared_ok_def unbound_def bindings_def)
  have dr: "dropped ?K [] R R1"
    using R1 unb by (auto simp: dropped_def bindings_def fun_eq_iff)
  from disc R1(1) have disc': "(if \<not> pa_created p then (R1, [])
      else case retire_idle (wb_identity (pa_binding p)) (wb_runtime (pa_binding p)) R1 of
             (R2, None) \<Rightarrow> (R2, [])
           | (R2, Some detached) \<Rightarrow> (R2, [detached])) = (R', rs)"
    by (simp add: discard_prepared_def)
  note D = discard_dropped [OF C(2) dr disc' C(3) A(2)]
  show ?thesis
  proof (rule core_dropped [OF c D(1)])
    show "wb_lease_id b \<notin> ?K" if "lease_binding L k = Some b" for k b
      using C(4) that reb unb unfolding bound_ok_def by blast
    show "pa_provisional q \<Longrightarrow> wb_lease_id (pa_binding q) \<in> ?K" if "candidate (Some act) = Some q" for q
      using that cand by simp
  qed (use reb D(2) in simp_all)
qed

lemma core_discard_committed:
  assumes c: "core L R Q (Some (Act_rebind lid p)) H ids" and gone: "lease_binding L lid = None"
    and disc: "discard_prepared lid p True R = (R', rs)"
  shows "core L R' Q None (H \<union> set rs) ids"
proof -
  note C = coreD [OF c]
  have A: "bindings R lid = Some (pa_binding p)" "pa_created p \<Longrightarrow> ws_runtime_of L (wb_identity (pa_binding p)) = None"
    using C(10) unfolding act_ok_def by blast+
  have reb: "rebinding (Some (Act_rebind lid p)) j \<longleftrightarrow> j = lid" for j by (auto simp: rebinding_def)
  have cand: "candidate (Some (Act_rebind lid p)) = None" by (simp add: candidate_def)
  let ?K = "{wb_lease_id (pa_binding p)}"
  have own: "owner R (pa_binding p) lid" by (rule owner_bound [OF C(2) A(1)])
  from reg_release_ok [OF C(2), of lid] obtain R1 r where R1: "reg_release lid R = (R1, Inr r)" "reg_inv R1"
    "map_of (reg_bindings R1) = (map_of (reg_bindings R))(lid := None)"
    "live_lease R1 = (case map_of (reg_bindings R) lid of
        None \<Rightarrow> live_lease R | Some b \<Rightarrow> (live_lease R)(wb_lease_id b := None))"
    "runtime_of R1 = runtime_of R" by blast
  have lv1: "live_lease R1 = (live_lease R)(wb_lease_id (pa_binding p) := None)"
    using R1(4) A(1) by (simp add: bindings_def)
  have dr: "dropped ?K [] R R1"
    unfolding dropped_def
  proof (intro conjI allI)
    have b1: "bindings R1 = (bindings R)(lid := None)" using R1(3) by (simp add: bindings_def)
    show "bindings R1 s = Some b \<longleftrightarrow> bindings R s = Some b \<and> wb_lease_id b \<notin> ?K" for s b
    proof (cases "s = lid")
      case True
      with b1 A(1) show ?thesis by simp
    next
      case False
      have "wb_lease_id b \<noteq> wb_lease_id (pa_binding p)" if "bindings R s = Some b"
        using own that False unfolding owner_def by blast
      with False b1 show ?thesis by auto
    qed
  qed (use R1(2,5) lv1 in \<open>simp_all add: fun_eq_iff\<close>)
  from disc R1(1) have disc': "(if \<not> pa_created p then (R1, [])
      else case retire_idle (wb_identity (pa_binding p)) (wb_runtime (pa_binding p)) R1 of
             (R2, None) \<Rightarrow> (R2, [])
           | (R2, Some detached) \<Rightarrow> (R2, [detached])) = (R', rs)"
    by (simp add: discard_prepared_def)
  note D = discard_dropped [OF C(2) dr disc' C(3) A(2)]
  show ?thesis
  proof (rule core_dropped [OF c D(1)])
    show "wb_lease_id b \<notin> ?K" if kb: "lease_binding L k = Some b" for k b
    proof
      assume "wb_lease_id b \<in> ?K"
      moreover have "k \<noteq> lid" using kb gone by auto
      moreover from this C(4) kb reb have "bindings R k = Some b" unfolding bound_ok_def by blast
      ultimately show False using own by (auto simp: owner_def)
    qed
  qed (use reb cand gone A(1) D(2) in auto)
qed

lemma core_commit:
  assumes c: "core L R Q (Some (Act_commit lid p)) H ids"
  shows "\<exists>R'. commit_activation p R = (R', Inr (pa_binding p)) \<and> core L R' Q (Some (Act_rebind lid p)) H ids"
proof -
  note C = coreD [OF c]
  have A: "pa_session p = lid" "pa_expected p = bindings R lid" "prepared_ok R p" "lid \<in> ids"
    "live_lease R (wb_lease_id (pa_binding p)) = Some (wb_lease (pa_binding p))"
    "pa_created p \<Longrightarrow> ws_runtime_of L (wb_identity (pa_binding p)) = None"
    using C(10) unfolding act_ok_def by blast+
  have "commit_allowed p R" using A by (simp add: commit_allowed_def bindings_def)
  from commit_activation_ok [OF C(2) A(3) this] obtain R' where
    R': "commit_activation p R = (R', Inr (pa_binding p))" "reg_inv R'"
      "map_of (reg_bindings R') = (map_of (reg_bindings R))(pa_session p \<mapsto> pa_binding p)"
      "live_lease R' = (case pa_expected p of
        Some ob \<Rightarrow> (if pa_provisional p then (live_lease R)(wb_lease_id ob := None) else live_lease R)
      | None \<Rightarrow> live_lease R)"
      "runtime_of R' = runtime_of R" by blast
  have bs: "bindings R' = (bindings R)(lid \<mapsto> pa_binding p)" using R'(3) A(1) by (simp add: bindings_def)
  have reb: "rebinding (Some (Act_rebind lid p)) j \<longleftrightarrow> j = lid" "\<not> rebinding (Some (Act_commit lid p)) j" for j
    by (auto simp: rebinding_def)
  have lid_new: "k = lid" if "bindings R k = Some b" "wb_lease_id b = wb_lease_id (pa_binding p)" for k b
  proof (cases "pa_provisional p")
    case True
    with A(3) that show ?thesis by (auto simp: prepared_ok_def unbound_def bindings_def)
  next
    case False
    with A(2,3) obtain ob where "bindings R lid = Some ob" "wb_lease ob = wb_lease (pa_binding p)"
      by (auto simp: prepared_ok_def)
    with owner_bound [OF C(2)] that show ?thesis unfolding owner_def by metis
  qed
  have own: "owner R' b j" if o: "owner R b j" and "j = lid \<or> wb_lease_id b \<noteq> wb_lease_id (pa_binding p)" for b j
    using that unfolding owner_def bs by (auto split: if_splits)
  have bo: "bound_ok L R' (Some (Act_rebind lid p))"
    unfolding bound_ok_def reb
  proof (intro allI impI)
    fix k b assume kb: "lease_binding L k = Some b"
    with C(4) reb(2) have o: "owner R b k" "bindings R k = Some b" unfolding bound_ok_def by blast+
    with own [OF o(1)] lid_new [OF o(2)] bs show "owner R' b k \<and> (bindings R' k = Some b \<or> k = lid)" by auto
  qed
  have so: "sessions_ok L R' Q (Some (Act_rebind lid p))"
    using C(5) reb unfolding sessions_ok_def bs by auto
  have qo: "queue_ok L R' Q ids (Some (Act_rebind lid p))"
    unfolding queue_ok_def
  proof (intro ballI allI impI)
    fix d b assume d: "d \<in> Q" "ld_binding_to_release d = Some b"
    from C(6) d obtain j where j: "wb_lease_id b \<in> ids" "ld_lease_id d = Some j" "owner R b j"
      "\<And>k c. lease_binding L k = Some c \<Longrightarrow> wb_lease_id c \<noteq> wb_lease_id b"
      "\<And>q. candidate (Some (Act_commit lid p)) = Some q \<Longrightarrow> pa_provisional q \<Longrightarrow>
         wb_lease_id b \<noteq> wb_lease_id (pa_binding q)"
      by (rule queue_okE) blast
    have "j = lid \<or> wb_lease_id b \<noteq> wb_lease_id (pa_binding p)"
    proof (cases "pa_provisional p")
      case False
      with A(2,3) obtain ob where "bindings R lid = Some ob" "wb_lease ob = wb_lease (pa_binding p)"
        by (auto simp: prepared_ok_def)
      with j(3) show ?thesis by (auto simp: owner_def)
    qed (use j(5) in \<open>simp add: candidate_def\<close>)
    with own [OF j(3)] j show "wb_lease_id b \<in> ids \<and> (\<exists>lid. ld_lease_id d = Some lid \<and> owner R' b lid) \<and>
        (\<forall>k c. lease_binding L k = Some c \<longrightarrow> wb_lease_id c \<noteq> wb_lease_id b) \<and>
        (\<forall>q. candidate (Some (Act_rebind lid p)) = Some q \<longrightarrow> pa_provisional q \<longrightarrow>
           wb_lease_id b \<noteq> wb_lease_id (pa_binding q))" by (auto simp: candidate_def)
  qed
  have lv: "live_lease R' k = Some l \<Longrightarrow> live_lease R k = Some l" for k l
    using R'(4) by (auto split: option.splits if_splits)
  have lo: "leases_ok R' (Some (Act_rebind lid p))"
    unfolding leases_ok_def
  proof (intro allI impI disjI1)
    fix k l assume kl: "live_lease R' k = Some l"
    have "wl_id l = k" using lv [OF kl] C(2) by (auto simp: reg_inv_def dest: reg_core_liveD(1))
    from C(7) lv [OF kl] have "(\<exists>s b. bindings R s = Some b \<and> wb_lease b = l) \<or>
        (\<exists>q. candidate (Some (Act_commit lid p)) = Some q \<and> pa_provisional q \<and> wb_lease (pa_binding q) = l)"
      unfolding leases_ok_def by blast
    then consider s b where "bindings R s = Some b" "wb_lease b = l"
      | "wb_lease (pa_binding p) = l" by (auto simp: candidate_def)
    then show "\<exists>s b. bindings R' s = Some b \<and> wb_lease b = l"
    proof cases
      case 1
      show ?thesis
      proof (cases "s = lid")
        case False
        with 1 bs show ?thesis by (intro exI [of _ s] exI [of _ b]) simp
      next
        case True
        with 1 A(2) have ex: "pa_expected p = Some b" by simp
        have "\<not> pa_provisional p"
          using R'(4) ex kl 1(2) \<open>wl_id l = k\<close> by auto
        with A(3) ex 1(2) have "wb_lease (pa_binding p) = l" by (auto simp: prepared_ok_def)
        with bs show ?thesis by (intro exI [of _ lid] exI [of _ "pa_binding p"]) simp
      qed
    next
      case 2
      with bs show ?thesis by (intro exI [of _ lid] exI [of _ "pa_binding p"]) simp
    qed
  qed
  have rto: "runtimes_ok R' H" using C(8) R'(5) by (simp add: runtimes_ok_def)
  have io: "ids_ok L R' ids" using C(9) lv A(4) bs unfolding ids_ok_def by (auto split: if_splits)
  have ao: "act_ok L R' ids (Some (Act_rebind lid p))" using A(4,6) bs by (simp add: act_ok_def)
  have "core L R' Q (Some (Act_rebind lid p)) H ids"
    unfolding core_def using C(1,3) R'(2,5) bo so qo lo rto io ao by simp
  with R'(1) show ?thesis by blast
qed

lemma core_rebind:
  assumes c: "core L R Q (Some (Act_rebind lid p)) H ids" and inv': "lc_inv L'"
    and sl: "slot L' = (slot L)(lid \<mapsto> Some (pa_binding p))" and active: "slot L lid \<noteq> None"
    and ws: "ws_runtime_of L' \<subseteq>\<^sub>m (ws_runtime_of L)(wb_identity (pa_binding p) \<mapsto> wb_runtime (pa_binding p))"
    and qs: "\<And>d k. d \<in> Q \<Longrightarrow> ld_lease_id d = Some k \<Longrightarrow> slot L k = None"
  shows "core L' R Q None H ids"
proof -
  note C = coreD [OF c]
  have A: "bindings R lid = Some (pa_binding p)" "lid \<in> ids" using C(10) unfolding act_ok_def by blast+
  note live = binding_live [OF C(2) A(1)]
  have lb: "lease_binding L' = (lease_binding L)(lid \<mapsto> pa_binding p)"
    using sl by (auto simp: lease_binding_slot fun_eq_iff)
  have reb: "rebinding (Some (Act_rebind lid p)) j \<longleftrightarrow> j = lid" "\<not> rebinding None j" for j
    by (auto simp: rebinding_def)
  have "ws_runtime_of L' \<subseteq>\<^sub>m runtime_of R"
  proof (rule map_le_trans [OF ws])
    show "(ws_runtime_of L)(wb_identity (pa_binding p) \<mapsto> wb_runtime (pa_binding p)) \<subseteq>\<^sub>m runtime_of R"
      using C(3) live(2) by (auto simp: map_le_def)
  qed
  moreover have "bound_ok L' R None"
    using C(4) owner_bound [OF C(2) A(1)] A(1) reb unfolding bound_ok_def lb by auto
  moreover have "sessions_ok L' R Q None"
    using C(5) A(1) reb unfolding sessions_ok_def lb by auto
  moreover have "queue_ok L' R Q ids None"
    unfolding queue_ok_def
  proof (intro ballI allI impI)
    fix d b assume d: "d \<in> Q" "ld_binding_to_release d = Some b"
    with C(6) obtain j where j: "wb_lease_id b \<in> ids" "ld_lease_id d = Some j" "owner R b j"
      "\<forall>k c. lease_binding L k = Some c \<longrightarrow> wb_lease_id c \<noteq> wb_lease_id b"
      unfolding queue_ok_def by blast
    have "wb_lease_id (pa_binding p) \<noteq> wb_lease_id b"
      using j(3) A(1) qs [OF d(1) j(2)] active by (auto simp: owner_def)
    with j show "wb_lease_id b \<in> ids \<and> (\<exists>lid. ld_lease_id d = Some lid \<and> owner R b lid) \<and>
        (\<forall>k c. lease_binding L' k = Some c \<longrightarrow> wb_lease_id c \<noteq> wb_lease_id b) \<and>
        (\<forall>q. candidate None = Some q \<longrightarrow> pa_provisional q \<longrightarrow> wb_lease_id b \<noteq> wb_lease_id (pa_binding q))"
      unfolding lb by (auto simp: candidate_def)
  qed
  moreover have "leases_ok R None" using C(7) by (simp add: leases_ok_def candidate_def)
  moreover have "ids_ok L' R ids"
    using C(9) A(2) live(1) unfolding ids_ok_def lb sl by auto
  ultimately show ?thesis using inv' C(2,8) by (simp add: core_def act_ok_def)
qed

lemma core_acquire:
  assumes c: "core L R Q act H ids" and inv': "lc_inv L'" and new: "lid \<notin> ids"
    and sl: "slot L' = (slot L)(lid \<mapsto> None)" and ws: "ws_runtime_of L' = ws_runtime_of L"
  shows "core L' R Q act H (insert lid ids)"
proof -
  note C = coreD [OF c]
  have lb: "lease_binding L' = lease_binding L"
  proof -
    have "slot L lid = None" using C(9) new unfolding ids_ok_def by blast
    then show ?thesis using sl by (auto simp: lease_binding_slot fun_eq_iff)
  qed
  have "queue_ok L' R Q (insert lid ids) act" using C(6) unfolding queue_ok_def lb by blast
  moreover have "ids_ok L' R (insert lid ids)" using C(9) unfolding ids_ok_def lb sl by auto
  moreover have "act_ok L' R (insert lid ids) act" using C(10) unfolding act_ok_def ws by blast
  moreover have "bound_ok L' R act" "sessions_ok L' R Q act" using C(4,5) by (simp_all add: bound_ok_def sessions_ok_def lb)
  ultimately show ?thesis using inv' C(2,3,7,8) ws by (simp add: core_def)
qed

section \<open>Invariant of the service\<close>

definition queue :: "('i, 'r) service \<Rightarrow> ('i, 'r) lease_decision set" where
  "queue s = {d. Some d \<in> set (sv_cleanup s)}"

definition cleanup_ok :: "('i, 'r) lifecycle \<Rightarrow> ('i, 'r) lease_decision set \<Rightarrow> uuid set \<Rightarrow> bool" where
  "cleanup_ok L Q ids \<longleftrightarrow>
     (\<forall>d \<in> Q. ld_runtime_to_stop d = None \<and>
        (\<forall>k. ld_lease_id d = Some k \<longrightarrow> slot L k = None \<and> k \<in> ids))"

definition stop_ok :: "('i, 'r) service \<Rightarrow> bool" where
  "stop_ok s \<longleftrightarrow> distinct (sv_pending s) \<and> (\<forall>batch. sv_stopping s = Some batch \<longrightarrow> batch = sv_pending s)"

definition svc_inv :: "('i, 'r) service \<Rightarrow> bool" where
  "svc_inv s \<longleftrightarrow>
     core (sv_lifecycle s) (sv_registry s) (queue s) (sv_act s) (handed_over s) (sv_ids s) \<and>
     cleanup_ok (sv_lifecycle s) (queue s) (sv_ids s) \<and> stop_ok s"

lemma svc_invD:
  assumes "svc_inv s"
  shows "core (sv_lifecycle s) (sv_registry s) (queue s) (sv_act s) (handed_over s) (sv_ids s)"
    and "cleanup_ok (sv_lifecycle s) (queue s) (sv_ids s)" and "stop_ok s"
    and "lc_inv (sv_lifecycle s)" and "reg_inv (sv_registry s)"
  using assms by (simp_all add: svc_inv_def core_def)

lemma field_frames [simp]:
  "queue (s\<lparr>sv_lifecycle := L\<rparr>) = queue s" "queue (s\<lparr>sv_registry := R\<rparr>) = queue s"
  "queue (s\<lparr>sv_act := a\<rparr>) = queue s" "queue (s\<lparr>sv_waiting := w\<rparr>) = queue s"
  "queue (s\<lparr>sv_ids := ids\<rparr>) = queue s" "queue (s\<lparr>sv_pending := p\<rparr>) = queue s"
  "queue (s\<lparr>sv_stopping := st\<rparr>) = queue s" "queue (s\<lparr>sv_calls := c\<rparr>) = queue s"
  "handed_over (s\<lparr>sv_lifecycle := L\<rparr>) = handed_over s" "handed_over (s\<lparr>sv_registry := R\<rparr>) = handed_over s"
  "handed_over (s\<lparr>sv_act := a\<rparr>) = handed_over s" "handed_over (s\<lparr>sv_cleanup := q\<rparr>) = handed_over s"
  "handed_over (s\<lparr>sv_ids := ids\<rparr>) = handed_over s" "handed_over (s\<lparr>sv_stopping := st\<rparr>) = handed_over s"
  "handed_over (s\<lparr>sv_waiting := sv_waiting s @ [rs]\<rparr>) = handed_over s \<union> set rs"
  "stop_ok (s\<lparr>sv_lifecycle := L\<rparr>) = stop_ok s" "stop_ok (s\<lparr>sv_registry := R\<rparr>) = stop_ok s"
  "stop_ok (s\<lparr>sv_act := a\<rparr>) = stop_ok s" "stop_ok (s\<lparr>sv_cleanup := q\<rparr>) = stop_ok s"
  "stop_ok (s\<lparr>sv_ids := ids\<rparr>) = stop_ok s" "stop_ok (s\<lparr>sv_waiting := w\<rparr>) = stop_ok s"
  by (auto simp: queue_def handed_over_def stop_ok_def)

lemma finish_fields [simp]:
  "sv_lifecycle (finish_locked L out s) = L" "sv_registry (finish_locked L out s) = fst out"
  "sv_act (finish_locked L out s) = None" "sv_ids (finish_locked L out s) = sv_ids s"
  "queue (finish_locked L out s) = queue s" "handed_over (finish_locked L out s) = handed_over s \<union> set (snd out)"
  "stop_ok (finish_locked L out s) = stop_ok s"
  by (auto simp: finish_locked_def queue_def handed_over_def stop_ok_def)

lemma svc_inv_finish:
  assumes "core L R (queue s) None (handed_over s \<union> set rs) (sv_ids s)"
    and "cleanup_ok L (queue s) (sv_ids s)" and "stop_ok s"
  shows "svc_inv (finish_locked L (R, rs) s)"
  using assms by (simp add: svc_inv_def)

lemma cleanup_ok_ended:
  assumes "cleanup_ok L Q ids" and "slot L' = (slot L)(lid := x)" and "x = None \<or> slot L lid \<noteq> None"
  shows "cleanup_ok L' Q ids"
  using assms unfolding cleanup_ok_def by auto

subsection \<open>Checks outside the lock\<close>

lemma svc_inv_check:
  assumes inv: "svc_inv s"
    and out: "out = (L', Inr y) \<Longrightarrow> lc_inv L' \<and> slot L' = slot (sv_lifecycle s) \<and> ws_runtime_of L' = ws_runtime_of (sv_lifecycle s)"
    and err: "out = (L', Inl e) \<Longrightarrow>
      require_active_locked lid now (sv_lifecycle s) = (L', Inl e) \<or> L' = sv_lifecycle s \<and> (\<forall>d. e \<noteq> LeaseExpiredError d)"
    and cases: "out = (L', Inr y) \<or> out = (L', Inl e)"
  shows "svc_inv (after_check out s)"
  using cases
proof
  note I = svc_invD [OF inv]
  assume ok: "out = (L', Inr y)"
  from core_same_view [OF I(1)] out [OF ok] I(2,3) ok show ?thesis
    by (simp add: after_check_def svc_inv_def cleanup_ok_def)
next
  note I = svc_invD [OF inv]
  assume bad: "out = (L', Inl e)"
  from err [OF bad] show ?thesis
  proof
    assume "L' = sv_lifecycle s \<and> (\<forall>d. e \<noteq> LeaseExpiredError d)"
    with bad inv show ?thesis by (cases e) (simp_all add: after_check_def svc_inv_def)
  next
    assume req: "require_active_locked lid now (sv_lifecycle s) = (L', Inl e)"
    from I(4) req show ?thesis
    proof (cases rule: check_expired)
      case missing
      have "queue (s\<lparr>sv_cleanup := sv_cleanup s @ [None]\<rparr>) = queue s" by (simp add: queue_def)
      with missing bad inv show ?thesis by (simp add: after_check_def svc_inv_def)
    next
      case (expired d)
      have q: "queue (s\<lparr>sv_lifecycle := L', sv_cleanup := sv_cleanup s @ [Some d]\<rparr>) = insert d (queue s)"
        by (auto simp: queue_def)
      have h: "handed_over (s\<lparr>sv_lifecycle := L', sv_cleanup := sv_cleanup s @ [Some d]\<rparr>) = handed_over s"
        by (simp add: handed_over_def)
      have "core L' (sv_registry s) (insert d (queue s)) (sv_act s) (handed_over s) (sv_ids s)"
        by (rule core_end [OF I(1) expired(3,4)]) (use expired in auto)
      moreover have "cleanup_ok L' (insert d (queue s)) (sv_ids s)"
      proof -
        have "lid \<in> sv_ids s" using coreD(9) [OF I(1)] expired(1) unfolding ids_ok_def by blast
        with cleanup_ok_ended [OF I(2) expired(4)] expired(4-6) show ?thesis
          by (auto simp: cleanup_ok_def ended_def)
      qed
      moreover have "stop_ok (s\<lparr>sv_lifecycle := L', sv_cleanup := sv_cleanup s @ [Some d]\<rparr>)"
        using I(3) by (simp add: stop_ok_def)
      ultimately show ?thesis using bad expired(2) q h by (simp add: after_check_def svc_inv_def)
    qed
  qed
qed

lemma svc_inv_heartbeat:
  assumes inv: "svc_inv s"
  shows "svc_inv (svc_heartbeat lid now s)"
proof -
  obtain L' res where out: "heartbeat lid now (sv_lifecycle s) = (L', res)" by (cases "heartbeat lid now (sv_lifecycle s)")
  note I = svc_invD [OF inv]
  have e: "require_active_locked lid now (sv_lifecycle s) = (L', Inl e)" if "res = Inl e" for e
    using out that by (auto simp: heartbeat_def Let_def split: prod.splits sum.splits)
  show ?thesis unfolding svc_heartbeat_def out
  proof (cases res)
    case (Inl e)
    show "svc_inv (after_check (L', res) s)"
      by (rule svc_inv_check [OF inv, where lid = lid and now = now]) (use Inl e in auto)
  next
    case (Inr l)
    show "svc_inv (after_check (L', res) s)"
      by (rule svc_inv_check [OF inv, where lid = lid and now = now])
        (use Inr out heartbeat_effect [OF I(4)] in auto)
  qed
qed

lemma svc_inv_status:
  assumes inv: "svc_inv s"
  shows "svc_inv (svc_runtime_status lid now s)"
proof -
  obtain L' res where out: "require_active_locked lid now (sv_lifecycle s) = (L', res)"
    by (cases "require_active_locked lid now (sv_lifecycle s)")
  note I = svc_invD [OF inv]
  show ?thesis unfolding svc_runtime_status_def require_active_def out
    by (rule svc_inv_check [OF inv, where lid = lid and now = now, of _ L' "projr res" "projl res"])
      (use out check_live(1) [OF I(4), of lid now L'] I(4) in \<open>cases res; auto\<close>)+
qed

lemma svc_inv_binding_for:
  assumes inv: "svc_inv s"
  shows "svc_inv (svc_binding_for lid now s)"
proof -
  obtain L' res where out: "require_active_locked lid now (sv_lifecycle s) = (L', res)"
    by (cases "require_active_locked lid now (sv_lifecycle s)")
  note I = svc_invD [OF inv]
  show ?thesis
  proof (cases res)
    case (Inl e)
    then have eq: "lc_binding_for lid now (sv_lifecycle s) = (L', Inl e)"
      using out by (simp add: lc_binding_for_def require_active_def)
    show ?thesis unfolding svc_binding_for_def eq
      by (rule svc_inv_check [OF inv, where lid = lid and now = now]) (use out Inl in auto)
  next
    case (Inr l)
    with out check_live(1) [OF I(4)] have L': "L' = sv_lifecycle s" by blast
    show ?thesis
    proof (cases "dl_binding l")
      case None
      then have eq: "lc_binding_for lid now (sv_lifecycle s) =
          (L', Inl (LeaseValueError ''lease has no active workspace binding''))"
        using out Inr by (simp add: lc_binding_for_def require_active_def)
      show ?thesis unfolding svc_binding_for_def eq
        by (rule svc_inv_check [OF inv, where lid = lid and now = now]) (use L' in auto)
    next
      case (Some b)
      then have eq: "lc_binding_for lid now (sv_lifecycle s) = (L', Inr b)"
        using out Inr by (simp add: lc_binding_for_def require_active_def)
      show ?thesis unfolding svc_binding_for_def eq
        by (rule svc_inv_check [OF inv, where lid = lid and now = now]) (use L' I(4) in auto)
    qed
  qed
qed

lemma svc_inv_acquire:
  assumes inv: "svc_inv s" and new: "lid \<notin> sv_ids s"
  shows "svc_inv (svc_acquire_lease lid now s)"
proof -
  note I = svc_invD [OF inv]
  have free: "slot (sv_lifecycle s) lid = None" using coreD(9) [OF I(1)] new unfolding ids_ok_def by blast
  note A = acquire_effect [OF I(4) free, of now]
  from core_acquire [OF I(1) A(1) new A(2,3)] I(2,3) A(2) new show ?thesis
    by (auto simp: svc_acquire_lease_def svc_inv_def cleanup_ok_def)
qed

subsection \<open>Locked slices\<close>

lemma svc_inv_apply:
  assumes c: "core L R (insert d (queue s)) None (handed_over s) (sv_ids s)"
    and cl: "cleanup_ok L (queue s) (sv_ids s)" and st: "stop_ok s"
    and stop: "\<And>i r. ld_identity d = Some i \<Longrightarrow> ld_runtime_to_stop d = Some r \<Longrightarrow> ws_runtime_of L i = None"
  shows "svc_inv (finish_locked L (apply_decision_locked (Some d) R) s)"
proof -
  obtain R' rs where app: "apply_decision_locked (Some d) R = (R', rs)" by (cases "apply_decision_locked (Some d) R")
  show ?thesis unfolding app
    by (rule svc_inv_finish [OF core_apply [OF c app] cl st]) (use stop in blast)
qed

lemma svc_inv_nothing:
  assumes "svc_inv s" and "sv_act s = None"
  shows "svc_inv (finish_locked (sv_lifecycle s) (apply_decision_locked None (sv_registry s)) s)"
  using svc_invD(1-3) [OF assms(1)] assms(2) svc_inv_finish [of "sv_lifecycle s" "sv_registry s" s "[]"]
  by (simp add: apply_decision_locked_def)

lemma ended_stop:
  assumes "ended lid L L' d" and "ld_identity d = Some i" and "ld_runtime_to_stop d = Some r"
  shows "ws_runtime_of L' i = None"
proof -
  from endedD [OF assms(1,3)] obtain b where
    "lease_binding L lid = Some b" "ws_runtime_of L' = (ws_runtime_of L)(wb_identity b := None)" by blast
  moreover have "ld_identity d = map_option wb_identity (lease_binding L lid)" using assms(1) by (simp add: ended_def)
  ultimately show ?thesis using assms(2) by simp
qed

lemma svc_inv_end:
  assumes inv: "svc_inv s" and act: "sv_act s = None" and "lc_inv L'"
    and sl: "slot L' = (slot (sv_lifecycle s))(lid := x)" and x: "x = None \<or> x = Some None" "slot (sv_lifecycle s) lid \<noteq> None"
    and d: "ended lid (sv_lifecycle s) L' d"
  shows "svc_inv (finish_locked L' (apply_decision_locked (Some d) (sv_registry s)) s)"
proof -
  note I = svc_invD [OF inv]
  have "core L' (sv_registry s) (insert d (queue s)) None (handed_over s) (sv_ids s)"
    using core_end [OF I(1) assms(3) sl x d] act by simp
  moreover have "cleanup_ok L' (queue s) (sv_ids s)" by (rule cleanup_ok_ended [OF I(2) sl]) (use x in blast)
  ultimately show ?thesis by (rule svc_inv_apply [OF _ _ I(3) ended_stop [OF d]])
qed

lemma svc_inv_expired:
  assumes inv: "svc_inv s" and act: "sv_act s = None"
    and req: "require_active_locked lid now (sv_lifecycle s) = (L', Inl e)"
  shows "svc_inv (finish_locked L' (apply_decision_locked (expired_decision e) (sv_registry s)) s)"
  using svc_invD(4) [OF inv] req
proof (cases rule: check_expired)
  case missing
  with svc_inv_nothing [OF inv act] show ?thesis by (simp add: expired_decision_def)
next
  case (expired d)
  from svc_inv_end [OF inv act expired(3,4) _ expired(1,5)] expired(2) show ?thesis
    by (simp add: expired_decision_def)
qed

lemma svc_inv_release:
  assumes inv: "svc_inv s" and act: "sv_act s = None"
  shows "svc_inv (svc_release_lease lid now im s)"
  using svc_invD(4) [OF inv]
proof (cases rule: release_effect [where lid = lid and now = now and im = im])
  case missing
  with svc_inv_nothing [OF inv act] show ?thesis by (simp add: svc_release_lease_def)
next
  case (ended L' r d)
  from svc_inv_end [OF inv act ended(3,4) _ ended(2,5)] ended(1) show ?thesis by (simp add: svc_release_lease_def)
qed

lemma svc_inv_release_workspace:
  assumes inv: "svc_inv s" and act: "sv_act s = None"
  shows "svc_inv (svc_release_workspace lid now im s)"
  using svc_invD(4) [OF inv]
proof (cases rule: release_workspace_effect [where lid = lid and now = now and im = im])
  case (error L' e)
  have "\<exists>d. e = LeaseExpiredError d"
    using svc_invD(4) [OF inv] error(2) by (cases rule: check_expired) auto
  with svc_inv_expired [OF inv act error(2)] error(1) show ?thesis
    by (auto simp: svc_release_workspace_def expired_decision_def)
next
  case nothing
  with svc_inv_nothing [OF inv act] show ?thesis by (simp add: svc_release_workspace_def)
next
  case (unbound L' d)
  have "slot (sv_lifecycle s) lid \<noteq> None" using unbound(4) by (auto simp: lease_binding_slot bind_eq_Some_conv)
  from svc_inv_end [OF inv act unbound(2,3) _ this unbound(5)] unbound(1) show ?thesis
    by (simp add: svc_release_workspace_def)
qed

lemma svc_inv_clean:
  assumes inv: "svc_inv s" and act: "sv_act s = None" and n: "n < length (sv_cleanup s)"
  shows "svc_inv (svc_clean_expired n s)"
proof -
  note I = svc_invD [OF inv]
  let ?s = "s\<lparr>sv_cleanup := take n (sv_cleanup s) @ drop (Suc n) (sv_cleanup s)\<rparr>"
  have split: "set (sv_cleanup s) = insert (sv_cleanup s ! n) (set (take n (sv_cleanup s) @ drop (Suc n) (sv_cleanup s)))"
    using n by (subst id_take_nth_drop [OF n]) auto
  show ?thesis
  proof (cases "sv_cleanup s ! n")
    case None
    with split have "queue ?s = queue s" by (auto simp: queue_def)
    with inv have "svc_inv ?s" by (simp add: svc_inv_def)
    from svc_inv_nothing [OF this] act None show ?thesis by (simp add: svc_clean_expired_def)
  next
    case (Some d)
    with split have q: "queue s = insert d (queue ?s)" by (auto simp: queue_def)
    have "svc_inv (finish_locked (sv_lifecycle s) (apply_decision_locked (Some d) (sv_registry s)) ?s)"
    proof (rule svc_inv_apply)
      show "core (sv_lifecycle s) (sv_registry s) (insert d (queue ?s)) None (handed_over ?s) (sv_ids ?s)"
        using I(1) act q by simp
      show "cleanup_ok (sv_lifecycle s) (queue ?s) (sv_ids ?s)" using I(2) q by (simp add: cleanup_ok_def)
      show "stop_ok ?s" using I(3) by simp
      show "ws_runtime_of (sv_lifecycle s) i = None" if "ld_runtime_to_stop d = Some r" for i r
        using I(2) q that by (simp add: cleanup_ok_def)
    qed
    with Some show ?thesis by (simp add: svc_clean_expired_def)
  qed
qed

lemma sweep_effect:
  assumes inv: "lc_inv L"
  obtains L' ds where "sweep now L = (L', Inr ds)" "lc_inv L'"
    "\<And>k. slot L' k = None \<or> slot L' k = slot L k"
    "ws_runtime_of L' \<subseteq>\<^sub>m ws_runtime_of L"
    "\<And>k b. lease_binding L k = Some b \<Longrightarrow> lease_binding L' k = None \<Longrightarrow>
      \<exists>d \<in> set ds. ld_binding_to_release d = Some b \<and> ld_lease_id d = Some k"
    "\<And>d b. d \<in> set ds \<Longrightarrow> ld_binding_to_release d = Some b \<Longrightarrow>
      \<exists>k. ld_lease_id d = Some k \<and> lease_binding L k = Some b \<and> lease_binding L' k = None"
    "\<And>d i r. d \<in> set ds \<Longrightarrow> ld_identity d = Some i \<Longrightarrow> ld_runtime_to_stop d = Some r \<Longrightarrow> ws_runtime_of L' i = None"
proof -
  from inv obtain L' es gs where
    S: "sweep now L = (L', Inr (es @ gs))" "lc_inv L'"
      "\<And>k. map_of (lc_active L') k = (case map_of (lc_active L) k of None \<Rightarrow> None
       | Some l \<Rightarrow> if expires_at l \<le> now then None else Some l)"
      "map (\<lambda>d. (ld_lease_id d, ld_binding_to_release d)) es =
       map (\<lambda>l. (Some (dl_id l), dl_binding l)) (filter (\<lambda>l. expires_at l \<le> now) (map snd (lc_active L)))"
      "\<And>d. d \<in> set es \<Longrightarrow> ld_reason d = EXPIRED \<and> ld_runtime_to_stop d = None"
      "\<And>d. d \<in> set gs \<Longrightarrow> ld_reason d = GRACE_EXPIRED \<and> ld_lease_id d = None \<and> ld_binding_to_release d = None"
      "\<And>i r. (\<exists>d \<in> set gs. ld_identity d = Some i \<and> ld_runtime_to_stop d = Some r) \<longleftrightarrow>
       ws_runtime_of L i = Some r \<and> ws_of L' i = None"
      "ws_runtime_of L' \<subseteq>\<^sub>m ws_runtime_of L"
    by (rule sweep_ok [where now = now]) blast
  have ends: "(\<exists>d \<in> set es. ld_lease_id d = k \<and> ld_binding_to_release d = b) \<longleftrightarrow>
      (\<exists>l. map_of (lc_active L) (dl_id l) = Some l \<and> expires_at l \<le> now \<and> k = Some (dl_id l) \<and> b = dl_binding l)" for k b
  proof -
    have "(\<exists>d \<in> set es. ld_lease_id d = k \<and> ld_binding_to_release d = b) \<longleftrightarrow>
        (k, b) \<in> set (map (\<lambda>d. (ld_lease_id d, ld_binding_to_release d)) es)" by auto
    also have "\<dots> \<longleftrightarrow> (\<exists>l \<in> snd ` set (lc_active L). expires_at l \<le> now \<and> k = Some (dl_id l) \<and> b = dl_binding l)"
      unfolding S(4) by auto
    also have "\<dots> \<longleftrightarrow> (\<exists>l. map_of (lc_active L) (dl_id l) = Some l \<and> expires_at l \<le> now \<and> k = Some (dl_id l) \<and> b = dl_binding l)"
      unfolding Bex_def active_values(1) [OF inv] by blast
    finally show ?thesis .
  qed
  show ?thesis
  proof (rule that [OF S(1,2)])
    show "slot L' k = None \<or> slot L' k = slot L k" for k
      using S(3) [of k] by (auto simp: slot_def split: option.splits if_splits)
    show "ws_runtime_of L' \<subseteq>\<^sub>m ws_runtime_of L" by (rule S(8))
    show "\<exists>d \<in> set (es @ gs). ld_binding_to_release d = Some b \<and> ld_lease_id d = Some k"
      if kb: "lease_binding L k = Some b" "lease_binding L' k = None" for k b
    proof -
      from kb(1) obtain l where l: "map_of (lc_active L) k = Some l" "dl_binding l = Some b"
        by (auto simp: lease_binding_def bind_eq_Some_conv)
      moreover have "dl_id l = k" by (rule lc_invD(3) [OF inv l(1)])
      moreover have "expires_at l \<le> now"
        using kb(2) l S(3) [of k] by (auto simp: lease_binding_def split: if_splits)
      ultimately have "\<exists>d \<in> set es. ld_lease_id d = Some k \<and> ld_binding_to_release d = Some b"
        using ends [of "Some k" "Some b"] by metis
      then show ?thesis by auto
    qed
    show "\<exists>k. ld_lease_id d = Some k \<and> lease_binding L k = Some b \<and> lease_binding L' k = None"
      if d: "d \<in> set (es @ gs)" "ld_binding_to_release d = Some b" for d b
    proof -
      have "d \<in> set es" using d S(6) [of d] by auto
      with d(2) ends [of "ld_lease_id d" "Some b"] obtain l where
        l: "map_of (lc_active L) (dl_id l) = Some l" "expires_at l \<le> now" "ld_lease_id d = Some (dl_id l)" "dl_binding l = Some b"
        by metis
      moreover have "map_of (lc_active L') (dl_id l) = None" using l(1,2) S(3) [of "dl_id l"] by simp
      ultimately show ?thesis by (intro exI [of _ "dl_id l"]) simp
    qed
    show "ws_runtime_of L' i = None"
      if d: "d \<in> set (es @ gs)" "ld_identity d = Some i" "ld_runtime_to_stop d = Some r" for d i r
    proof -
      have "d \<in> set gs" using d S(5) [of d] by auto
      with d S(7) [of i r] have "ws_of L' i = None" by blast
      then show ?thesis by (simp add: ws_runtime_of_def)
    qed
  qed
qed

lemma svc_inv_sweep:
  assumes inv: "svc_inv s" and act: "sv_act s = None"
  shows "svc_inv (svc_sweep now s)"
proof -
  note I = svc_invD [OF inv]
  let ?L = "sv_lifecycle s"
  from I(4) obtain L' ds where
    S: "sweep now ?L = (L', Inr ds)" "lc_inv L'"
      "\<And>k. slot L' k = None \<or> slot L' k = slot ?L k"
      "ws_runtime_of L' \<subseteq>\<^sub>m ws_runtime_of ?L"
      "\<And>k b. lease_binding ?L k = Some b \<Longrightarrow> lease_binding L' k = None \<Longrightarrow>
        \<exists>d \<in> set ds. ld_binding_to_release d = Some b \<and> ld_lease_id d = Some k"
      "\<And>d b. d \<in> set ds \<Longrightarrow> ld_binding_to_release d = Some b \<Longrightarrow>
        \<exists>k. ld_lease_id d = Some k \<and> lease_binding ?L k = Some b \<and> lease_binding L' k = None"
      "\<And>d i r. d \<in> set ds \<Longrightarrow> ld_identity d = Some i \<Longrightarrow> ld_runtime_to_stop d = Some r \<Longrightarrow> ws_runtime_of L' i = None"
    by (rule sweep_effect [where now = now]) blast
  have lb: "lease_binding L' k = Some b \<Longrightarrow> lease_binding ?L k = Some b" for k b
    using S(3) [of k] by (auto simp: lease_binding_slot bind_eq_Some_conv)
  have sl: "slot L' k \<noteq> None \<Longrightarrow> slot ?L k \<noteq> None" for k using S(3) [of k] by auto
  have "core L' (sv_registry s) (set ds \<union> queue s) (sv_act s) (handed_over s) (sv_ids s)"
    using I(1) S(2) lb sl S(4,5,6) by (rule core_ends)
  then have "core L' (sv_registry s) (set ds \<union> queue s) None (handed_over s) (sv_ids s)" using act by simp
  moreover obtain R' rs where app: "apply_decisions_locked ds (sv_registry s) = (R', rs)"
    by (cases "apply_decisions_locked ds (sv_registry s)")
  ultimately have "core L' R' (queue s) None (handed_over s \<union> set rs) (sv_ids s)"
    by (rule core_applies) (use S(7) in blast)
  moreover have "cleanup_ok L' (queue s) (sv_ids s)"
    using I(2) S(3) unfolding cleanup_ok_def by metis
  ultimately show ?thesis using svc_inv_finish I(3) S(1) app by (simp add: svc_sweep_def)
qed

subsection \<open>Activation slices\<close>

lemma svc_inv_activate:
  assumes inv: "svc_inv s" and act: "sv_act s = None"
  shows "svc_inv (svc_activate_begin lid rw now s)"
proof -
  note I = svc_invD [OF inv]
  obtain L' res where out: "require_active_locked lid now (sv_lifecycle s) = (L', res)"
    by (cases "require_active_locked lid now (sv_lifecycle s)")
  show ?thesis
  proof (cases res)
    case (Inl e)
    with svc_inv_expired [OF inv act] out show ?thesis by (simp add: svc_activate_begin_def require_active_def)
  next
    case (Inr l)
    with check_live [OF I(4)] out have L': "L' = sv_lifecycle s" "slot (sv_lifecycle s) lid \<noteq> None"
      by (auto simp: slot_def)
    then have "lid \<in> sv_ids s" using coreD(9) [OF I(1)] unfolding ids_ok_def by blast
    from core_begin [OF _ this, of "sv_lifecycle s" "sv_registry s" "queue s" "handed_over s" rw] I act L'(1) Inr out
    show ?thesis by (simp add: svc_activate_begin_def require_active_def svc_inv_def)
  qed
qed

lemma svc_inv_prepare:
  assumes inv: "svc_inv s" and act: "sv_act s = Some (Act_prepare lid rw)"
    and new: "new_id \<notin> sv_ids s" and fresh: "fresh_runtime made s"
  shows "svc_inv (svc_prepare made new_id s)"
proof -
  note I = svc_invD [OF inv]
  have c: "core (sv_lifecycle s) (sv_registry s) (queue s) (Some (Act_prepare lid rw)) (handed_over s) (sv_ids s)"
    using I(1) act by simp
  obtain R' res where out: "prepare_activation made new_id lid rw (sv_registry s) = (R', res)"
    by (cases "prepare_activation made new_id lid rw (sv_registry s)")
  show ?thesis
  proof (cases res)
    case (Inl e)
    with prepare_activation_error [of made new_id lid rw "sv_registry s" R' e] out have "R' = sv_registry s" by simp
    with core_drop_act [OF c] I(2,3) Inl out act svc_inv_finish [of "sv_lifecycle s" "sv_registry s" s "[]"]
    show ?thesis by (simp add: svc_prepare_def)
  next
    case (Inr p)
    have "core (sv_lifecycle s) R' (queue s) (Some (Act_refresh lid p)) (handed_over s) (insert new_id (sv_ids s))"
      by (rule core_prepare [OF c new]) (use out Inr fresh in \<open>auto simp: fresh_runtime_def\<close>)
    moreover have "cleanup_ok (sv_lifecycle s) (queue s) (insert new_id (sv_ids s))"
      using I(2) by (auto simp: cleanup_ok_def)
    ultimately show ?thesis using I(3) Inr out act by (simp add: svc_prepare_def svc_inv_def)
  qed
qed

lemma svc_inv_discard_expired:
  assumes inv: "svc_inv s" and req: "require_active_locked lid now (sv_lifecycle s) = (L', Inl e)"
    and disc: "\<And>L Q R1 rs1. core L (sv_registry s) Q (sv_act s) (handed_over s) (sv_ids s) \<Longrightarrow>
        slot L lid = None \<Longrightarrow> discard_prepared lid p com (sv_registry s) = (R1, rs1) \<Longrightarrow>
        core L R1 Q None (handed_over s \<union> set rs1) (sv_ids s)"
  shows "svc_inv (let (R1, rs1) = discard_prepared lid p com (sv_registry s);
                      (R2, rs2) = apply_decision_locked (expired_decision e) R1
                  in finish_locked L' (R2, rs1 @ rs2) s)"
proof -
  note I = svc_invD [OF inv]
  obtain R1 rs1 where d1: "discard_prepared lid p com (sv_registry s) = (R1, rs1)"
    by (cases "discard_prepared lid p com (sv_registry s)")
  from I(4) req show ?thesis
  proof (cases rule: check_expired)
    case missing
    from disc [OF I(1) missing(1) d1] svc_inv_finish [of "sv_lifecycle s" R1 s rs1] I(2,3) missing d1
    show ?thesis by (simp add: expired_decision_def apply_decision_locked_def)
  next
    case (expired d)
    have "core L' (sv_registry s) (insert d (queue s)) (sv_act s) (handed_over s) (sv_ids s)"
      by (rule core_end [OF I(1) expired(3,4) _ expired(1,5)]) simp
    from disc [OF this _ d1] expired(4) have
      c: "core L' R1 (insert d (queue s)) None (handed_over s \<union> set rs1) (sv_ids s)" by simp
    obtain R2 rs2 where app: "apply_decision_locked (Some d) R1 = (R2, rs2)"
      by (cases "apply_decision_locked (Some d) R1")
    from core_apply [OF c app] expired(6) have
      "core L' R2 (queue s) None (handed_over s \<union> set (rs1 @ rs2)) (sv_ids s)" by (simp add: Un_assoc)
    from svc_inv_finish [OF this _ I(3)] cleanup_ok_ended [OF I(2) expired(4)] d1 app expired(2)
    show ?thesis by (simp add: expired_decision_def)
  qed
qed

lemma svc_inv_refresh:
  assumes inv: "svc_inv s" and act: "sv_act s = Some (Act_refresh lid p)"
  shows "svc_inv (svc_refresh fresh now s)"
proof -
  note I = svc_invD [OF inv]
  have disc: "core L R1 Q None (handed_over s \<union> set rs1) (sv_ids s)"
    if "core L (sv_registry s) Q (sv_act s) (handed_over s) (sv_ids s)"
      "discard_prepared lid p False (sv_registry s) = (R1, rs1)" for L Q R1 rs1
    using core_discard_uncommitted [of L "sv_registry s" Q "Act_refresh lid p" "handed_over s" "sv_ids s" lid p R1 rs1]
      that act by simp
  obtain L' res where out: "require_active_locked lid now (sv_lifecycle s) = (L', res)"
    by (cases "require_active_locked lid now (sv_lifecycle s)")
  obtain R1 rs1 where d1: "discard_prepared lid p False (sv_registry s) = (R1, rs1)"
    by (cases "discard_prepared lid p False (sv_registry s)")
  show ?thesis
  proof (cases fresh)
    case False
    with svc_inv_finish [OF disc [OF I(1) d1] I(2,3)] d1 act show ?thesis by (simp add: svc_refresh_def)
  next
    case True
    show ?thesis
    proof (cases res)
      case (Inl e)
      with out have "require_active_locked lid now (sv_lifecycle s) = (L', Inl e)" by simp
      then have "svc_inv (let (R1, rs1) = discard_prepared lid p False (sv_registry s);
                      (R2, rs2) = apply_decision_locked (expired_decision e) R1
                  in finish_locked L' (R2, rs1 @ rs2) s)"
        by (rule svc_inv_discard_expired [OF inv]) (use disc in blast)
      with True Inl out act show ?thesis by (simp add: svc_refresh_def require_active_def)
    next
      case (Inr l)
      with check_live(1) [OF I(4)] out have "L' = sv_lifecycle s" by blast
      with core_to_commit [of "sv_lifecycle s"] I act True Inr out show ?thesis
        by (simp add: svc_refresh_def require_active_def svc_inv_def)
    qed
  qed
qed

lemma svc_inv_commit:
  assumes inv: "svc_inv s" and act: "sv_act s = Some (Act_commit lid p)"
  shows "svc_inv (svc_commit s)"
proof -
  note I = svc_invD [OF inv]
  have "core (sv_lifecycle s) (sv_registry s) (queue s) (Some (Act_commit lid p)) (handed_over s) (sv_ids s)"
    using I(1) act by simp
  from core_commit [OF this] obtain R' where "commit_activation p (sv_registry s) = (R', Inr (pa_binding p))"
    "core (sv_lifecycle s) R' (queue s) (Some (Act_rebind lid p)) (handed_over s) (sv_ids s)" by blast
  with I(2,3) act show ?thesis by (simp add: svc_commit_def svc_inv_def)
qed

lemma rebind_same_runtime:
  assumes inv: "svc_inv s" and act: "sv_act s = Some (Act_rebind lid p)"
  shows "same_runtime (sv_lifecycle s) (pa_binding p)"
proof -
  note C = coreD [OF svc_invD(1) [OF inv]]
  have "bindings (sv_registry s) lid = Some (pa_binding p)" using C(10) act unfolding act_ok_def by blast
  from binding_live(2) [OF C(2) this] C(3)
  have "r = wb_runtime (pa_binding p)" if "ws_runtime_of (sv_lifecycle s) (wb_identity (pa_binding p)) = Some r" for r
    using that by (metis domI map_le_def option.inject)
  then show ?thesis by (simp add: same_runtime_def split: option.split)
qed

lemma svc_inv_rebind:
  assumes inv: "svc_inv s" and act: "sv_act s = Some (Act_rebind lid p)"
  shows "svc_inv (svc_rebind now s)"
proof -
  note I = svc_invD [OF inv]
  have c: "core (sv_lifecycle s) (sv_registry s) (queue s) (Some (Act_rebind lid p)) (handed_over s) (sv_ids s)"
    using I(1) act by simp
  from I(4) rebind_same_runtime [OF inv act] show ?thesis
  proof (cases rule: rebind_effect [where lid = lid and now = now])
    case (error L' e)
    have "svc_inv (let (R1, rs1) = discard_prepared lid p True (sv_registry s);
                      (R2, rs2) = apply_decision_locked (expired_decision e) R1
                  in finish_locked L' (R2, rs1 @ rs2) s)"
    proof (rule svc_inv_discard_expired [OF inv error(2)])
      fix L Q R1 rs1
      assume "core L (sv_registry s) Q (sv_act s) (handed_over s) (sv_ids s)" "slot L lid = None"
        "discard_prepared lid p True (sv_registry s) = (R1, rs1)"
      then show "core L R1 Q None (handed_over s \<union> set rs1) (sv_ids s)"
        using core_discard_committed [of L "sv_registry s" Q lid p "handed_over s" "sv_ids s" R1 rs1] act
        by (simp add: lease_binding_slot)
    qed
    with error(1) act show ?thesis by (simp add: svc_rebind_def)
  next
    case (bound L' l)
    have q: "slot (sv_lifecycle s) k = None" if "d \<in> queue s" "ld_lease_id d = Some k" for d k
      using I(2) that by (auto simp: cleanup_ok_def)
    have "core L' (sv_registry s) (queue s) None (handed_over s) (sv_ids s)"
      by (rule core_rebind [OF c bound(3,4,2,5)]) (use q in blast)
    moreover have "cleanup_ok L' (queue s) (sv_ids s)"
      by (rule cleanup_ok_ended [OF I(2) bound(4)]) (use bound(2) in blast)
    ultimately show ?thesis using svc_inv_finish [of L' "sv_registry s" s "[]"] I(3) bound(1) act
      by (simp add: svc_rebind_def)
  qed
qed

subsection \<open>Stop slices\<close>

lemma fold_set_default:
  "set (fold set_default rs ps) = set ps \<union> set rs"
  "distinct ps \<Longrightarrow> distinct (fold set_default rs ps)"
  by (induction rs arbitrary: ps) auto

lemma svc_inv_handed:
  assumes "svc_inv s" and "sv_lifecycle t = sv_lifecycle s" "sv_registry t = sv_registry s"
    "queue t = queue s" "sv_act t = sv_act s" "sv_ids t = sv_ids s"
    and "handed_over t \<subseteq> handed_over s" and "stop_ok t"
  shows "svc_inv t"
  using svc_invD(2) [OF assms(1)] core_mono [OF svc_invD(1) [OF assms(1)] assms(7)] assms(2-6,8)
  by (simp add: svc_inv_def)

lemma svc_inv_stop_begin:
  assumes inv: "svc_inv s" and free: "sv_stopping s = None" and n: "n < length (sv_waiting s)"
  shows "svc_inv (svc_stop_begin n s)"
proof (rule svc_inv_handed [OF inv])
  let ?w = "sv_waiting s"
  have ws: "set ?w = insert (?w ! n) (set (take n ?w @ drop (Suc n) ?w))"
    by (subst id_take_nth_drop [OF n]) auto
  show "handed_over (svc_stop_begin n s) \<subseteq> handed_over s"
    using ws by (auto simp: svc_stop_begin_def handed_over_def Let_def fold_set_default)
  have "distinct (sv_pending s)" using svc_invD(3) [OF inv] by (simp add: stop_ok_def)
  with free show "stop_ok (svc_stop_begin n s)"
    by (simp add: svc_stop_begin_def stop_ok_def Let_def fold_set_default)
qed (simp_all add: svc_stop_begin_def Let_def queue_def)

lemma svc_inv_stop_end:
  assumes inv: "svc_inv s"
  shows "svc_inv (svc_stop_end failed s)"
proof (rule svc_inv_handed [OF inv])
  show "handed_over (svc_stop_end failed s) \<subseteq> handed_over s"
    by (auto simp: svc_stop_end_def handed_over_def split: option.split)
  show "stop_ok (svc_stop_end failed s)"
    using svc_invD(3) [OF inv] by (auto simp: svc_stop_end_def stop_ok_def split: option.split)
qed (simp_all add: svc_stop_end_def queue_def split: option.split)

lemma svc_init_inv: "svc_init s \<Longrightarrow> svc_inv s"
proof -
  assume init: "svc_init s"
  then obtain hb ex gr where L: "lifecycle_init hb ex gr = Inr (sv_lifecycle s)" by (auto simp: svc_init_def)
  have inv: "lc_inv (sv_lifecycle s)" by (rule lc_init_inv [OF L])
  have "lc_active (sv_lifecycle s) = []" "lc_workspaces (sv_lifecycle s) = []"
    using L by (auto simp: lifecycle_init_def split: if_splits dest!: sym [of _ "sv_lifecycle s"])
  then have e: "slot (sv_lifecycle s) = Map.empty" "ws_runtime_of (sv_lifecycle s) = Map.empty"
    by (simp_all add: slot_def ws_runtime_of_def ws_of_def fun_eq_iff)
  then have "lease_binding (sv_lifecycle s) = Map.empty" by (simp add: lease_binding_slot fun_eq_iff)
  with init inv e show ?thesis
    by (simp add: svc_init_def svc_inv_def core_defs cleanup_ok_def stop_ok_def queue_def bindings_def
        reg_empty_def live_lease_def runtime_of_def) (simp add: reg_empty_def [symmetric])
qed

interpretation svc: step_invariant svc_init svc_step svc_inv
proof
  fix s :: "('i, 'r) service"
  assume "svc_init s"
  then show "svc_inv s" by (rule svc_init_inv)
next
  fix s t :: "('i, 'r) service"
  assume "svc_inv s" "svc_step s t"
  from this(2,1) show "svc_inv t"
    by cases (simp_all add: svc_inv_acquire svc_inv_heartbeat svc_inv_binding_for svc_inv_status
        svc_inv_clean svc_inv_release svc_inv_release_workspace svc_inv_sweep svc_inv_activate
        svc_inv_prepare svc_inv_refresh svc_inv_commit svc_inv_rebind svc_inv_stop_begin svc_inv_stop_end)
qed

end
