(* ===== verification/ServiceSafety.thy ===== *)
theory ServiceSafety
  imports Coupling
begin

text \<open>
  What holds in every state the daemon service can reach, and a run of it in explicit
  states, which the witnesses use.
\<close>

section \<open>Properties\<close>

text \<open>
  C1: in every state the service can reach, under any interleaving of its calls, the
  workspace binding of an active lease names the runtime the registry retains for that
  workspace, and that runtime's stopper was never called and is not about to be: it is
  neither pending nor handed over to a call that waits to stop runtimes.
\<close>

theorem bound_runtime_never_stopped:
  assumes "reachable svc_init svc_step s" and "lease_binding (sv_lifecycle s) lid = Some b"
  shows "runtime_of (sv_registry s) (wb_identity b) = Some (wb_runtime b) \<and>
    wb_runtime b \<notin> sv_calls s \<and> wb_runtime b \<notin> set (sv_pending s) \<and>
    (\<forall>rs \<in> set (sv_waiting s). wb_runtime b \<notin> set rs)"
proof -
  note C = coreD [OF svc_invD(1) [OF svc.reachable_inv [OF assms(1)]]]
  have "ws_runtime_of (sv_lifecycle s) (wb_identity b) = Some (wb_runtime b)"
    by (rule bound_ws_runtime [OF C(1) assms(2)])
  with C(3) have rt: "runtime_of (sv_registry s) (wb_identity b) = Some (wb_runtime b)"
    by (metis domI map_le_def)
  with C(8) have "wb_runtime b \<notin> handed_over s" unfolding runtimes_ok_def by blast
  with rt show ?thesis by (auto simp: handed_over_def)
qed

lemma quiescent_bindings:
  assumes inv: "svc_inv s" and act: "sv_act s = None" and cl: "queue s = {}"
  shows "bindings (sv_registry s) = lease_binding (sv_lifecycle s)"
proof
  note C = coreD [OF svc_invD(1) [OF inv]]
  have reb: "\<not> rebinding None k" for k by (simp add: rebinding_def)
  fix k
  show "bindings (sv_registry s) k = lease_binding (sv_lifecycle s) k"
  proof (cases "bindings (sv_registry s) k")
    case None
    with C(4) act reb show ?thesis unfolding bound_ok_def by (metis option.exhaust option.distinct(1))
  next
    case (Some b)
    with C(5) act cl reb have "lease_binding (sv_lifecycle s) k = Some b" unfolding sessions_ok_def by auto
    with Some show ?thesis by simp
  qed
qed

lemma quiescent_refs:
  assumes inv: "svc_inv s" and act: "sv_act s = None" and cl: "queue s = {}"
  shows "lease_refs i (sv_registry s) = card (holders_of (lease_binding (sv_lifecycle s)) i)"
proof -
  note C = coreD [OF svc_invD(1) [OF inv]]
  let ?R = "sv_registry s"
  have core: "reg_core ?R" using C(2) by (simp add: reg_inv_def)
  have b: "holders_of (lease_binding (sv_lifecycle s)) i = {k. \<exists>b. bindings ?R k = Some b \<and> wb_identity b = i}"
    using quiescent_bindings [OF assms] by (simp add: holders_of_def)
  let ?f = "\<lambda>k. wb_lease_id (the (bindings ?R k))"
  have "bij_betw ?f {k. \<exists>b. bindings ?R k = Some b \<and> wb_identity b = i}
      {k. \<exists>l. map_of (reg_leases ?R) k = Some l \<and> wl_identity l = i}"
    unfolding bij_betw_def
  proof
    show "inj_on ?f {k. \<exists>b. bindings ?R k = Some b \<and> wb_identity b = i}"
    proof (rule inj_onI)
      fix k j assume "k \<in> {k. \<exists>b. bindings ?R k = Some b \<and> wb_identity b = i}"
        "j \<in> {k. \<exists>b. bindings ?R k = Some b \<and> wb_identity b = i}" "?f k = ?f j"
      then obtain b c where "bindings ?R k = Some b" "bindings ?R j = Some c" "wb_lease_id b = wb_lease_id c" by auto
      with owner_bound [OF C(2), of k b] show "k = j" unfolding owner_def by metis
    qed
    show "?f ` {k. \<exists>b. bindings ?R k = Some b \<and> wb_identity b = i} =
        {k. \<exists>l. map_of (reg_leases ?R) k = Some l \<and> wl_identity l = i}"
    proof (intro equalityI subsetI)
      fix x assume "x \<in> ?f ` {k. \<exists>b. bindings ?R k = Some b \<and> wb_identity b = i}"
      then obtain k b where "bindings ?R k = Some b" "wb_identity b = i" "x = wb_lease_id b" by auto
      with binding_live(1) [OF C(2)] show "x \<in> {k. \<exists>l. map_of (reg_leases ?R) k = Some l \<and> wl_identity l = i}"
        by (auto simp: live_lease_def)
    next
      fix x assume "x \<in> {k. \<exists>l. map_of (reg_leases ?R) k = Some l \<and> wl_identity l = i}"
      then obtain l where l: "live_lease ?R x = Some l" "wl_identity l = i" by (auto simp: live_lease_def)
      from C(7) l(1) have "\<exists>k b. bindings ?R k = Some b \<and> wb_lease b = l"
        unfolding leases_ok_def act by (simp add: candidate_def)
      then obtain k b where kb: "bindings ?R k = Some b" "wb_lease b = l" by blast
      have "wl_id l = x" by (rule reg_core_liveD(1) [OF core l(1)])
      with kb l(2) show "x \<in> ?f ` {k. \<exists>b. bindings ?R k = Some b \<and> wb_identity b = i}"
        by (intro image_eqI [of _ _ k]) auto
    qed
  qed
  from bij_betw_same_card [OF this] b dict_count_card [of "reg_leases ?R"] core show ?thesis
    by (simp add: lease_refs_def reg_core_def)
qed

text \<open>
  C2: whenever no activation holds the lock and no clean-up waits, the two components agree
  exactly: the registry's session bindings are the bindings of the active leases, and the
  reference count of every retained runtime is the number of active holders the
  lifecycle reports for its workspace.
\<close>

theorem registry_and_leases_agree:
  assumes "reachable svc_init svc_step s" and "sv_act s = None" and "sv_cleanup s = []"
  shows "(\<forall>lid. reg_binding_for lid (sv_registry s) = lease_binding (sv_lifecycle s) lid) \<and>
    (\<forall>i st. runtime_state_of i (sv_registry s) = Some st \<longrightarrow>
       rs_reference_count st = int (active_holders i (sv_lifecycle s)))"
proof (intro conjI allI impI)
  have inv: "svc_inv s" by (rule svc.reachable_inv [OF assms(1)])
  have q: "queue s = {}" using assms(3) by (simp add: queue_def)
  note C = coreD [OF svc_invD(1) [OF inv]]
  show "reg_binding_for lid (sv_registry s) = lease_binding (sv_lifecycle s) lid" for lid
    using quiescent_bindings [OF inv assms(2) q] by (simp add: reg_binding_for_def bindings_def fun_eq_iff)
  show "rs_reference_count st = int (active_holders i (sv_lifecycle s))"
    if st: "runtime_state_of i (sv_registry s) = Some st" for i st
  proof -
    have cnt: "rs_reference_count st = int (card (holders_of (lease_binding (sv_lifecycle s)) i))"
      using st runtime_state_inv [OF C(2), of i] quiescent_refs [OF inv assms(2) q, of i] by auto
    note ok = lc_invD(2) [OF C(1)]
    show ?thesis
    proof (cases "ws_of (sv_lifecycle s) i")
      case None
      then have "holders_of (lease_binding (sv_lifecycle s)) i = {}" by (rule holders_ok_none [OF ok])
      with cnt None show ?thesis by (simp add: active_holders_def ws_of_def)
    next
      case (Some w)
      with holders_okD(2) [OF ok Some] cnt show ?thesis by (simp add: active_holders_def ws_of_def)
    qed
  qed
qed

text \<open>
  C14: an activation that reaches its commit is never rejected by the registry, and the
  lifecycle refuses the new binding only because the lease has expired: a conflict of
  bindings or of runtimes cannot occur.
\<close>

theorem activation_never_conflicts:
  assumes "reachable svc_init svc_step s"
  shows "(\<forall>lid p. sv_act s = Some (Act_commit lid p) \<longrightarrow>
      (\<exists>R. commit_activation p (sv_registry s) = (R, Inr (pa_binding p)))) \<and>
    (\<forall>lid p now L e. sv_act s = Some (Act_rebind lid p) \<and> rebind lid now (pa_binding p) (sv_lifecycle s) = (L, Inl e) \<longrightarrow>
      (\<exists>d. e = LeaseExpiredError d))"
proof (intro conjI allI impI)
  have inv: "svc_inv s" by (rule svc.reachable_inv [OF assms])
  note I = svc_invD [OF inv]
  show "\<exists>R. commit_activation p (sv_registry s) = (R, Inr (pa_binding p))"
    if "sv_act s = Some (Act_commit lid p)" for lid p
    using core_commit [of "sv_lifecycle s" "sv_registry s" "queue s" lid p] I(1) that by auto
  fix lid p now L e
  assume *: "sv_act s = Some (Act_rebind lid p) \<and> rebind lid now (pa_binding p) (sv_lifecycle s) = (L, Inl e)"
  then have "same_runtime (sv_lifecycle s) (pa_binding p)" using rebind_same_runtime [OF inv] by blast
  with I(4) show "\<exists>d. e = LeaseExpiredError d"
  proof (cases rule: rebind_effect [where lid = lid and now = now])
    case (error L' e')
    with * have "require_active_locked lid now (sv_lifecycle s) = (L, Inl e)" by simp
    with I(4) show ?thesis by (cases rule: check_expired) auto
  qed (use * in simp)
qed

text \<open>
  a runtime whose stopper failed is kept and one whose stopper returned is forgotten:
  after a batch, exactly the failed runtimes stay pending, the daemon is not idle while
  there is one, and each is stopped again with the next batch.
\<close>

theorem failed_stops_stay_pending:
  assumes "reachable svc_init svc_step s" and "sv_stopping s = Some batch"
  shows "sv_pending (svc_stop_end failed s) = filter failed batch \<and>
    (svc_daemon_idle (svc_stop_end failed s) \<longrightarrow> (\<forall>r \<in> set batch. \<not> failed r)) \<and>
    (\<forall>n. n < length (sv_waiting s) \<and> filter failed batch \<noteq> [] \<longrightarrow>
       (\<exists>batch'. sv_stopping (svc_stop_begin n (svc_stop_end failed s)) = Some batch' \<and>
          set (filter failed batch) \<subseteq> set batch'))"
proof -
  have "batch = sv_pending s" using svc_invD(3) [OF svc.reachable_inv [OF assms(1)]] assms(2) by (simp add: stop_ok_def)
  then have p: "sv_pending (svc_stop_end failed s) = filter failed batch"
    using assms(2) by (auto simp: svc_stop_end_def intro: filter_cong)
  have "sv_stopping (svc_stop_begin n t) = Some (fold set_default (sv_waiting t ! n) (sv_pending t))"
    if "sv_pending t \<noteq> []" for n and t :: "('a, 'b) service"
  proof -
    have "fold set_default (sv_waiting t ! n) (sv_pending t) \<noteq> []"
      using that fold_set_default(1) [of "sv_waiting t ! n" "sv_pending t"] by (metis Un_empty set_empty)
    then show ?thesis by (simp add: svc_stop_begin_def Let_def)
  qed
  with p show ?thesis by (auto simp: svc_daemon_idle_def filter_empty_conv fold_set_default(1))
qed

section \<open>A run\<close>

text \<open>
  Lease 1 is acquired and activates workspace 10, whose runtime is 7 and whose registry
  lease is 3; then lease 2 is acquired and activates the same workspace with registry
  lease 4.
\<close>

definition run_ws :: "nat resolved_workspace" where
  "run_ws = \<lparr>rw_identity = 10, rw_subdir = ''''\<rparr>"

definition run_binding :: "uuid \<Rightarrow> (nat, nat) workspace_binding" where
  "run_binding k = \<lparr>wb_lease = \<lparr>wl_id = k, wl_identity = 10, wl_runtime = 7\<rparr>, wb_subdir = ''''\<rparr>"

definition run_prepared :: "uuid \<Rightarrow> uuid \<Rightarrow> bool \<Rightarrow> (nat, nat, uuid) prepared_activation" where
  "run_prepared lid k created = \<lparr>pa_session = lid, pa_expected = None, pa_binding = run_binding k,
     pa_provisional = True, pa_created = created\<rparr>"

definition run_lease :: "uuid \<Rightarrow> time \<Rightarrow> (nat, nat) workspace_binding option \<Rightarrow> (nat, nat) daemon_lease" where
  "run_lease lid t b = \<lparr>dl_id = lid, dl_binding = b, dl_issued_at = t,
     dl_last_heartbeat_at = t, dl_heartbeat_interval = 15, dl_expiry = 60\<rparr>"

definition run_lc :: "(uuid \<times> (nat, nat) daemon_lease) list \<Rightarrow> uuid set \<Rightarrow> (nat \<times> nat workspace_state) list \<Rightarrow> (nat, nat) lifecycle" where
  "run_lc active gone ws = \<lparr>lc_heartbeat_interval = 15, lc_expiry = 60, lc_grace = 600,
     lc_active = active, lc_expired = gone, lc_workspaces = ws\<rparr>"

definition run_ws_state :: "uuid set \<Rightarrow> nat workspace_state" where
  "run_ws_state hs = \<lparr>ws_runtime = 7, ws_holders = hs, ws_grace_deadline = None\<rparr>"

definition run_reg :: "int \<Rightarrow> uuid list \<Rightarrow> (uuid \<times> uuid) list \<Rightarrow> (nat, nat, uuid) registry" where
  "run_reg n ks bs = \<lparr>reg_runtimes = [(10, \<lparr>re_runtime = 7, re_count = n\<rparr>)],
     reg_leases = map (\<lambda>k. (k, wb_lease (run_binding k))) ks,
     reg_bindings = map (\<lambda>(s, k). (s, run_binding k)) bs\<rparr>"

definition run_state where
  "run_state L R act cleanup waiting ids = \<lparr>sv_lifecycle = L, sv_registry = R, sv_pending = [],
     sv_act = act, sv_cleanup = cleanup, sv_waiting = waiting, sv_stopping = None, sv_calls = {}, sv_ids = ids\<rparr>"

lemmas run_defs = run_ws_def run_binding_def run_prepared_def run_lease_def run_lc_def run_ws_state_def
  run_reg_def run_state_def

lemmas run_eval = svc_acquire_lease_def svc_activate_begin_def svc_prepare_def svc_refresh_def svc_commit_def
  svc_rebind_def finish_locked_def acquire_lease_def issue_def require_active_def require_active_locked_def
  expires_at_def prepare_activation_def acquire_locked_def acquire_entry_def commit_activation_def
  rebind_def add_holder_locked_def Let_def

definition run0 :: "(nat, nat) service" where
  "run0 = run_state (run_lc [] {} []) reg_empty None [] [] {}"

definition run1 :: "(nat, nat) service" where
  "run1 = run_state (run_lc [(1, run_lease 1 0 None)] {} []) reg_empty None [] [] {1}"

definition run2 :: "(nat, nat) service" where
  "run2 = run_state (run_lc [(1, run_lease 1 0 None)] {} []) reg_empty (Some (Act_prepare 1 run_ws)) [] [] {1}"

definition run3 :: "(nat, nat) service" where
  "run3 = run_state (run_lc [(1, run_lease 1 0 None)] {} []) (run_reg 1 [3] [])
     (Some (Act_refresh 1 (run_prepared 1 3 True))) [] [] {3, 1}"

definition run4 :: "(nat, nat) service" where
  "run4 = run_state (run_lc [(1, run_lease 1 0 None)] {} []) (run_reg 1 [3] [])
     (Some (Act_commit 1 (run_prepared 1 3 True))) [] [] {3, 1}"

definition run5 :: "(nat, nat) service" where
  "run5 = run_state (run_lc [(1, run_lease 1 0 None)] {} []) (run_reg 1 [3] [(1, 3)])
     (Some (Act_rebind 1 (run_prepared 1 3 True))) [] [] {3, 1}"

definition run6 :: "(nat, nat) service" where
  "run6 = run_state (run_lc [(1, run_lease 1 0 (Some (run_binding 3)))] {} [(10, run_ws_state {1})])
     (run_reg 1 [3] [(1, 3)]) None [] [[]] {3, 1}"

lemma run_init: "svc_init run0"
proof -
  have "lifecycle_init 15 60 600 = Inr (sv_lifecycle run0)" by (simp add: run0_def run_defs lifecycle_init_def)
  then show ?thesis by (auto simp: svc_init_def run0_def run_state_def)
qed

lemma run_step1: "svc_acquire_lease 1 0 run0 = run1"
  by (simp add: run0_def run1_def run_defs run_eval)

lemma run_step2: "svc_activate_begin 1 run_ws 1 run1 = run2"
  by (simp add: run1_def run2_def run_defs run_eval)

lemma run_step3: "svc_prepare (Inr 7) 3 run2 = run3"
  by (simp add: run2_def run3_def run_defs run_eval reg_empty_def)

lemma run_step4: "svc_refresh True 1 run3 = run4"
  by (simp add: run3_def run4_def run_defs run_eval)

lemma run_step5: "svc_commit run4 = run5"
  by (simp add: run4_def run5_def run_defs run_eval)

lemma run_step6: "svc_rebind 1 run5 = run6"
  by (simp add: run5_def run6_def run_defs run_eval)

abbreviation run_reachable :: "(nat, nat) service \<Rightarrow> bool" where
  "run_reachable \<equiv> reachable svc_init svc_step"

lemma run_reach4: "run_reachable run4"
proof -
  have a0: "1 \<notin> sv_ids run0" and a1: "sv_act run1 = None" and a2: "sv_act run2 = Some (Act_prepare 1 run_ws)"
    and n2: "3 \<notin> sv_ids run2" and f2: "fresh_runtime (Inr 7) run2"
    and a3: "sv_act run3 = Some (Act_refresh 1 (run_prepared 1 3 True))"
    by (simp_all add: run0_def run1_def run2_def run3_def run_state_def fresh_runtime_def handed_over_def
        runtime_of_def reg_empty_def)
  have "run_reachable run0" by (rule reachable_init [of svc_init, OF run_init])
  from reachable_step [OF this step_acquire [OF a0, of 0]] have "run_reachable run1" unfolding run_step1 .
  from reachable_step [OF this step_activate [OF a1, of 1 run_ws 1]] have "run_reachable run2" unfolding run_step2 .
  from reachable_step [OF this step_prepare [OF a2 n2 f2]] have "run_reachable run3" unfolding run_step3 .
  from reachable_step [OF this step_refresh [OF a3, of True 1]] show ?thesis unfolding run_step4 .
qed

lemma run_reach5: "run_reachable run5"
proof -
  have a4: "sv_act run4 = Some (Act_commit 1 (run_prepared 1 3 True))" by (simp add: run4_def run_state_def)
  from reachable_step [OF run_reach4 step_commit [OF a4]] show ?thesis unfolding run_step5 .
qed

lemma run_reach6: "run_reachable run6"
proof -
  have a5: "sv_act run5 = Some (Act_rebind 1 (run_prepared 1 3 True))" by (simp add: run5_def run_state_def)
  from reachable_step [OF run_reach5 step_rebind [OF a5, of 1]] show ?thesis unfolding run_step6 .
qed

subsection \<open>Witnesses\<close>

lemma bound_runtime_never_stopped_witness:
  "runtime_of (sv_registry run6) 10 = Some 7 \<and> 7 \<notin> sv_calls run6"
proof -
  have b: "lease_binding (sv_lifecycle run6) 1 = Some (run_binding 3)"
    by (simp add: run6_def run_defs lease_binding_def)
  from bound_runtime_never_stopped [OF run_reach6 b] show ?thesis by (simp add: run_binding_def)
qed

lemma registry_and_leases_agree_witness:
  "reg_binding_for 1 (sv_registry run6) = Some (run_binding 3) \<and> active_holders 10 (sv_lifecycle run6) = 1"
proof -
  have a: "sv_act run6 = None" "sv_cleanup run6 = []" by (simp_all add: run6_def run_state_def)
  have st: "runtime_state_of 10 (sv_registry run6) =
      Some \<lparr>rs_runtime = 7, rs_reference_count = 1, rs_idle_eligible = False\<rparr>"
    by (simp add: run6_def run_defs runtime_state_of_def)
  have b: "lease_binding (sv_lifecycle run6) 1 = Some (run_binding 3)"
    by (simp add: run6_def run_defs lease_binding_def)
  from registry_and_leases_agree [OF run_reach6 a] have
    "reg_binding_for 1 (sv_registry run6) = lease_binding (sv_lifecycle run6) 1"
    "rs_reference_count \<lparr>rs_runtime = 7 :: nat, rs_reference_count = 1, rs_idle_eligible = False\<rparr> =
       int (active_holders 10 (sv_lifecycle run6))" using st by blast+
  with b show ?thesis by simp
qed

lemma activation_never_conflicts_witness:
  "\<exists>R. commit_activation (run_prepared 1 3 True) (sv_registry run4) = (R, Inr (run_binding 3))"
proof -
  have a: "sv_act run4 = Some (Act_commit 1 (run_prepared 1 3 True))" by (simp add: run4_def run_state_def)
  have "pa_binding (run_prepared 1 3 True) = run_binding 3" by (simp add: run_prepared_def)
  with activation_never_conflicts [OF run_reach4] a show ?thesis by metis
qed

text \<open>Lease 1 gives its workspace up at once; its runtime is detached and its stopper runs.\<close>

definition run7 :: "(nat, nat) service" where
  "run7 = run_state (run_lc [] {} []) \<lparr>reg_runtimes = [], reg_leases = [], reg_bindings = []\<rparr> None [] [[], [7]] {3, 1}"

definition run8 :: "(nat, nat) service" where
  "run8 = run7\<lparr>sv_pending := [7], sv_waiting := [[]], sv_stopping := Some [7], sv_calls := {7}\<rparr>"

lemma run_step7: "svc_release_lease 1 2 True run6 = run7"
  by (simp add: svc_release_lease_def release_lease_def lc_release_def end_locked_def drop_holder_def expires_at_def
      finish_locked_def apply_decision_locked_def reg_release_lease_def release_locked_def retire_idle_def
      run6_def run7_def run_defs Let_def)

lemma run_step8: "svc_stop_begin 1 run7 = run8"
  by (simp add: svc_stop_begin_def run7_def run8_def run_state_def Let_def)

lemma run_reach8: "run_reachable run8"
proof -
  have a6: "sv_act run6 = None" by (simp add: run6_def run_state_def)
  have a7: "sv_stopping run7 = None" "1 < length (sv_waiting run7)" by (simp_all add: run7_def run_state_def)
  from reachable_step [OF run_reach6 step_release [OF a6, of 1 2 True]] have "run_reachable run7" unfolding run_step7 .
  from reachable_step [OF this step_stop_begin [OF a7]] show ?thesis unfolding run_step8 .
qed

lemma failed_stops_stay_pending_witness:
  "sv_pending (svc_stop_end (\<lambda>r. r = 7) run8) = [7] \<and> sv_pending (svc_stop_end (\<lambda>r. False) run8) = []"
proof -
  have a: "sv_stopping run8 = Some [7]" by (simp add: run8_def)
  from failed_stops_stay_pending [OF run_reach8 a, of "\<lambda>r. r = 7"]
    failed_stops_stay_pending [OF run_reach8 a, of "\<lambda>r. False"] show ?thesis by simp
qed

section \<open>A runtime left behind\<close>

text \<open>
  From \<open>run6\<close>: lease 2 activates workspace 10 too; while a third lease's activation holds
  the lock, the immediate release of lease 2 and then the clean-up of lease 1, found
  expired by a heartbeat, wait for it.
\<close>

definition ws20 :: "nat resolved_workspace" where
  "ws20 = \<lparr>rw_identity = 20, rw_subdir = ''''\<rparr>"

definition leases12 :: "(uuid \<times> (nat, nat) daemon_lease) list" where
  "leases12 = [(1, run_lease 1 0 (Some (run_binding 3))), (2, run_lease 2 50 (Some (run_binding 4)))]"

definition decision1 :: "(nat, nat) lease_decision" where
  "decision1 = \<lparr>ld_reason = EXPIRED, ld_identity = Some 10, ld_active_holders = 1,
     ld_binding_to_release = Some (run_binding 3), ld_lease_id = Some 1,
     ld_runtime_to_stop = None, ld_grace_deadline = None\<rparr>"

definition late1 :: "(nat, nat) service" where
  "late1 = svc_rebind 51 (svc_commit (svc_refresh True 51 (svc_prepare (Inr 8) 4
     (svc_activate_begin 2 run_ws 51 (svc_acquire_lease 2 50 run6)))))"

definition late2 :: "(nat, nat) service" where
  "late2 = svc_activate_begin 5 ws20 53 (svc_acquire_lease 5 52 late1)"

definition late3 :: "(nat, nat) service" where
  "late3 = svc_prepare (Inl (External 0)) 6 (svc_heartbeat 1 60 late2)"

definition late4 :: "(nat, nat) service" where
  "late4 = svc_release_lease 5 62 False (svc_clean_expired 0 (svc_release_lease 2 61 True late3))"

lemma late_a: "svc_acquire_lease 2 50 run6 =
  run_state (run_lc [(1, run_lease 1 0 (Some (run_binding 3))), (2, run_lease 2 50 None)] {} [(10, run_ws_state {1})])
     (run_reg 1 [3] [(1, 3)]) None [] [[]] {2, 3, 1}"
  by (simp add: run6_def run_defs run_eval)

lemma late_b: "svc_activate_begin 2 run_ws 51 (svc_acquire_lease 2 50 run6) =
  run_state (run_lc [(1, run_lease 1 0 (Some (run_binding 3))), (2, run_lease 2 50 None)] {} [(10, run_ws_state {1})])
     (run_reg 1 [3] [(1, 3)]) (Some (Act_prepare 2 run_ws)) [] [[]] {2, 3, 1}"
  unfolding late_a by (simp add: run_defs run_eval)

lemma late_c: "svc_prepare (Inr 8) 4 (svc_activate_begin 2 run_ws 51 (svc_acquire_lease 2 50 run6)) =
  run_state (run_lc [(1, run_lease 1 0 (Some (run_binding 3))), (2, run_lease 2 50 None)] {} [(10, run_ws_state {1})])
     (run_reg 2 [3, 4] [(1, 3)]) (Some (Act_refresh 2 (run_prepared 2 4 False))) [] [[]] {4, 2, 3, 1}"
  unfolding late_b by (simp add: run_defs run_eval)

lemma late_d: "svc_refresh True 51 (svc_prepare (Inr 8) 4 (svc_activate_begin 2 run_ws 51 (svc_acquire_lease 2 50 run6))) =
  run_state (run_lc [(1, run_lease 1 0 (Some (run_binding 3))), (2, run_lease 2 50 None)] {} [(10, run_ws_state {1})])
     (run_reg 2 [3, 4] [(1, 3)]) (Some (Act_commit 2 (run_prepared 2 4 False))) [] [[]] {4, 2, 3, 1}"
  unfolding late_c by (simp add: run_defs run_eval)

lemma late_e: "svc_commit (svc_refresh True 51 (svc_prepare (Inr 8) 4 (svc_activate_begin 2 run_ws 51 (svc_acquire_lease 2 50 run6)))) =
  run_state (run_lc [(1, run_lease 1 0 (Some (run_binding 3))), (2, run_lease 2 50 None)] {} [(10, run_ws_state {1})])
     (run_reg 2 [3, 4] [(1, 3), (2, 4)]) (Some (Act_rebind 2 (run_prepared 2 4 False))) [] [[]] {4, 2, 3, 1}"
  unfolding late_d by (simp add: run_defs run_eval)

lemma late1: "late1 = run_state (run_lc leases12 {} [(10, run_ws_state {2, 1})])
     (run_reg 2 [3, 4] [(1, 3), (2, 4)]) None [] [[], []] {4, 2, 3, 1}"
  unfolding late1_def late_e by (simp add: run_defs run_eval leases12_def)

lemma late_f: "svc_acquire_lease 5 52 late1 =
  run_state (run_lc (leases12 @ [(5, run_lease 5 52 None)]) {} [(10, run_ws_state {2, 1})])
     (run_reg 2 [3, 4] [(1, 3), (2, 4)]) None [] [[], []] {5, 4, 2, 3, 1}"
  unfolding late1 by (simp add: run_defs run_eval leases12_def)

lemma late2: "late2 = run_state (run_lc (leases12 @ [(5, run_lease 5 52 None)]) {} [(10, run_ws_state {2, 1})])
     (run_reg 2 [3, 4] [(1, 3), (2, 4)]) (Some (Act_prepare 5 ws20)) [] [[], []] {5, 4, 2, 3, 1}"
  unfolding late2_def late_f by (simp add: run_defs run_eval leases12_def)

lemma late_g: "svc_heartbeat 1 60 late2 =
  run_state (run_lc [(2, run_lease 2 50 (Some (run_binding 4))), (5, run_lease 5 52 None)] {1} [(10, run_ws_state {2})])
     (run_reg 2 [3, 4] [(1, 3), (2, 4)]) (Some (Act_prepare 5 ws20)) [Some decision1] [[], []] {5, 4, 2, 3, 1}"
  unfolding late2
  by (simp add: svc_heartbeat_def after_check_def heartbeat_def require_active_locked_def end_locked_def
      drop_holder_def expires_at_def run_defs leases12_def decision1_def Let_def insert_Diff_if)

lemma late3: "late3 =
  run_state (run_lc [(2, run_lease 2 50 (Some (run_binding 4))), (5, run_lease 5 52 None)] {1} [(10, run_ws_state {2})])
     (run_reg 2 [3, 4] [(1, 3), (2, 4)]) None [Some decision1] [[], [], []] {5, 4, 2, 3, 1}"
  unfolding late3_def late_g by (simp add: run_defs run_eval ws20_def)

lemma late_h: "svc_release_lease 2 61 True late3 =
  run_state (run_lc [(5, run_lease 5 52 None)] {1} []) (run_reg 1 [3] [(1, 3)]) None [Some decision1]
     [[], [], [], []] {5, 4, 2, 3, 1}"
  unfolding late3
  by (simp add: svc_release_lease_def release_lease_def lc_release_def end_locked_def drop_holder_def expires_at_def
      finish_locked_def apply_decision_locked_def reg_release_lease_def release_locked_def retire_idle_def
      run_defs Let_def)

lemma late_i: "svc_clean_expired 0 (svc_release_lease 2 61 True late3) =
  run_state (run_lc [(5, run_lease 5 52 None)] {1} []) (run_reg 0 [] []) None []
     [[], [], [], [], []] {5, 4, 2, 3, 1}"
  unfolding late_h
  by (simp add: svc_clean_expired_def finish_locked_def apply_decision_locked_def reg_release_lease_def
      release_locked_def decision1_def run_defs Let_def)

lemma late4: "late4 = run_state (run_lc [] {1} []) (run_reg 0 [] []) None []
     [[], [], [], [], [], []] {5, 4, 2, 3, 1}"
  unfolding late4_def late_i
  by (simp add: svc_release_lease_def release_lease_def lc_release_def end_locked_def expires_at_def
      finish_locked_def apply_decision_locked_def run_defs Let_def)

lemma late_reachable: "run_reachable late3" "run_reachable late4"
proof -
  let ?a = "svc_acquire_lease 2 50 run6"
  let ?b = "svc_activate_begin 2 run_ws 51 ?a"
  let ?c = "svc_prepare (Inr 8) 4 ?b"
  let ?d = "svc_refresh True 51 ?c"
  let ?e = "svc_commit ?d"
  note go = reachable_step [of svc_init svc_step]
  have "2 \<notin> sv_ids run6" by (simp add: run6_def run_state_def)
  from go [OF run_reach6 step_acquire [OF this]] have r: "run_reachable ?a" .
  have "sv_act ?a = None" unfolding late_a by (simp add: run_state_def)
  from go [OF r step_activate [OF this]] have r: "run_reachable ?b" .
  have b: "sv_act ?b = Some (Act_prepare 2 run_ws)" "4 \<notin> sv_ids ?b" "fresh_runtime (Inr 8) ?b"
    unfolding late_b by (simp_all add: run_state_def fresh_runtime_def handed_over_def runtime_of_def run_reg_def)
  from go [OF r step_prepare [OF b]] have r: "run_reachable ?c" .
  have "sv_act ?c = Some (Act_refresh 2 (run_prepared 2 4 False))" unfolding late_c by (simp add: run_state_def)
  from go [OF r step_refresh [OF this]] have r: "run_reachable ?d" .
  have "sv_act ?d = Some (Act_commit 2 (run_prepared 2 4 False))" unfolding late_d by (simp add: run_state_def)
  from go [OF r step_commit [OF this]] have r: "run_reachable ?e" .
  have "sv_act ?e = Some (Act_rebind 2 (run_prepared 2 4 False))" unfolding late_e by (simp add: run_state_def)
  from go [OF r step_rebind [OF this]] have r: "run_reachable late1" unfolding late1_def .
  have "5 \<notin> sv_ids late1" by (simp add: late1 run_state_def)
  from go [OF r step_acquire [OF this]] have r: "run_reachable (svc_acquire_lease 5 52 late1)" .
  have "sv_act (svc_acquire_lease 5 52 late1) = None" unfolding late_f by (simp add: run_state_def)
  from go [OF r step_activate [OF this]] have r: "run_reachable late2" unfolding late2_def .
  from go [OF r step_heartbeat] have r: "run_reachable (svc_heartbeat 1 60 late2)" .
  have g: "sv_act (svc_heartbeat 1 60 late2) = Some (Act_prepare 5 ws20)" "6 \<notin> sv_ids (svc_heartbeat 1 60 late2)"
    "fresh_runtime (Inl (External 0)) (svc_heartbeat 1 60 late2)"
    unfolding late_g by (simp_all add: run_state_def fresh_runtime_def)
  from go [OF r step_prepare [OF g]] show r: "run_reachable late3" unfolding late3_def .
  have "sv_act late3 = None" by (simp add: late3 run_state_def)
  from go [OF r step_release [OF this]] have r: "run_reachable (svc_release_lease 2 61 True late3)" .
  have h: "sv_act (svc_release_lease 2 61 True late3) = None" "0 < length (sv_cleanup (svc_release_lease 2 61 True late3))"
    unfolding late_h by (simp_all add: run_state_def)
  from go [OF r step_clean [OF h]] have r: "run_reachable (svc_clean_expired 0 (svc_release_lease 2 61 True late3))" .
  have "sv_act (svc_clean_expired 0 (svc_release_lease 2 61 True late3)) = None" unfolding late_i by (simp add: run_state_def)
  from go [OF r step_release [OF this]] show "run_reachable late4" unfolding late4_def .
qed

lemma late_steps:
  "svc_step late3 (svc_release_lease 2 61 True late3)"
  "svc_step (svc_release_lease 2 61 True late3) (svc_clean_expired 0 (svc_release_lease 2 61 True late3))"
  "svc_step (svc_clean_expired 0 (svc_release_lease 2 61 True late3)) late4"
proof -
  show "svc_step late3 (svc_release_lease 2 61 True late3)" by (rule step_release) (simp add: late3 run_state_def)
  show "svc_step (svc_release_lease 2 61 True late3) (svc_clean_expired 0 (svc_release_lease 2 61 True late3))"
    by (rule step_clean; unfold late_h) (simp_all add: run_state_def)
  show "svc_step (svc_clean_expired 0 (svc_release_lease 2 61 True late3)) late4"
    unfolding late4_def by (rule step_release, unfold late_i) (simp add: run_state_def)
qed

lemma late_decision:
  "release_lease 2 61 True (sv_lifecycle late3) = (run_lc [(5, run_lease 5 52 None)] {1} [],
     Inr \<lparr>rr_released = True, rr_decision = Some \<lparr>ld_reason = RELEASED, ld_identity = Some 10, ld_active_holders = 0,
       ld_binding_to_release = Some (run_binding 4), ld_lease_id = Some 2, ld_runtime_to_stop = Some 7, ld_grace_deadline = None\<rparr>\<rparr>)"
  by (simp add: late3 release_lease_def lc_release_def end_locked_def drop_holder_def expires_at_def run_defs Let_def)

text \<open>The other order: clean up first, then release.\<close>

lemma late_other_order: "sv_waiting (svc_release_lease 2 61 True (svc_clean_expired 0 late3)) = [[], [], [], [], [7]]"
  unfolding late3
  by (simp add: svc_release_lease_def release_lease_def lc_release_def end_locked_def drop_holder_def expires_at_def
      finish_locked_def apply_decision_locked_def reg_release_lease_def release_locked_def retire_idle_def svc_clean_expired_def
      decision1_def run_defs Let_def)

lemma late4_sweep: "sv_registry (svc_sweep now late4) = sv_registry late4 \<and> concat (sv_waiting (svc_sweep now late4)) = []"
  by (simp add: late4 svc_sweep_def sweep_def sweep_leases.simps sweep_workspaces.simps finish_locked_def apply_decisions_locked.simps run_defs Let_def)

text \<open>
  C24: A decided stop can be lost.  There is a reachable state \<open>t\<close> in which lease 1 has expired and
  the clean-up of its registry lease still waits, and lease 2, the last holder in the
  lifecycle, is then released at once.  The release decides to stop runtime 7 of the workspace
  but detaches nothing, since the waiting clean-up still counts as a reference; the clean-up
  runs next and carries no stop; one more step, the release of a lease that was never
  bound, leads to a state that reports itself idle with nothing waiting, stopping or pending,
  while the registry still retains runtime 7 with no reference, and no later sweep detaches
  it.  Had the clean-up run before the release, the runtime would have been handed over to be
  stopped.
\<close>

theorem decided_stop_can_be_lost:
  "\<exists>(t :: (nat, nat) service) c L d. reachable svc_init svc_step t \<and>
     sv_cleanup t = [Some c] \<and> ld_reason c = EXPIRED \<and> ld_lease_id c = Some 1 \<and> ld_identity c = Some 10 \<and> ld_runtime_to_stop c = None \<and>
     release_lease 2 61 True (sv_lifecycle t) = (L, Inr \<lparr>rr_released = True, rr_decision = Some d\<rparr>) \<and>
     ld_identity d = Some 10 \<and> ld_runtime_to_stop d = Some 7 \<and>
     (let u = svc_release_lease 2 61 True t; v = svc_clean_expired 0 u; s = svc_release_lease 5 62 False v in
      svc_step t u \<and> svc_step u v \<and> svc_step v s \<and>
      concat (sv_waiting u) = [] \<and> sv_cleanup u = [Some c] \<and>
      runtime_state_of 10 (sv_registry u) = Some \<lparr>rs_runtime = 7, rs_reference_count = 1, rs_idle_eligible = False\<rparr> \<and>
      svc_daemon_idle s \<and> sv_act s = None \<and> sv_cleanup s = [] \<and> sv_pending s = [] \<and>
      concat (sv_waiting s) = [] \<and> sv_stopping s = None \<and> sv_calls s = {} \<and>
      runtime_state_of 10 (sv_registry s) = Some \<lparr>rs_runtime = 7, rs_reference_count = 0, rs_idle_eligible = True\<rparr> \<and>
      (\<forall>now. sv_registry (svc_sweep now s) = sv_registry s) \<and>
      concat (sv_waiting (svc_release_lease 2 61 True (svc_clean_expired 0 t))) = [7])"
proof -
  have "sv_cleanup late3 = [Some decision1]" by (simp add: late3 run_state_def)
  moreover have "concat (sv_waiting (svc_release_lease 2 61 True late3)) = []" "sv_cleanup (svc_release_lease 2 61 True late3) = [Some decision1]"
    "runtime_state_of 10 (sv_registry (svc_release_lease 2 61 True late3)) = Some \<lparr>rs_runtime = 7, rs_reference_count = 1, rs_idle_eligible = False\<rparr>"
    by (simp_all add: late_h run_defs runtime_state_of_def)
  moreover have "svc_daemon_idle late4 \<and> sv_act late4 = None \<and> sv_cleanup late4 = [] \<and> sv_pending late4 = [] \<and>
      concat (sv_waiting late4) = [] \<and> sv_stopping late4 = None \<and> sv_calls late4 = {} \<and>
      runtime_state_of 10 (sv_registry late4) = Some \<lparr>rs_runtime = 7, rs_reference_count = 0, rs_idle_eligible = True\<rparr>"
    by (simp add: late4 run_defs svc_daemon_idle_def lc_daemon_idle_def runtime_state_of_def)
  ultimately show ?thesis
    using late_reachable(1) late_steps late_decision late_other_order late4_sweep
    by (intro exI [of _ late3] exI [of _ decision1] exI conjI) (auto simp: decision1_def Let_def late4_def [symmetric])
qed

end
