(* ===== verification/Utf8.thy ===== *)
theory Utf8
  imports Main
begin

text \<open>
  The strict UTF-8 codec of the language's \<open>bytes.decode\<close> and \<open>str.encode\<close>, as the source
  snapshots use it: code points and bytes are natural numbers, a decoder step reads one
  well-formed sequence, and the two directions are inverse.
\<close>

section \<open>Codec\<close>

definition valid_cp :: "nat \<Rightarrow> bool" where
  "valid_cp c \<longleftrightarrow> c < 1114112 \<and> \<not> (55296 \<le> c \<and> c \<le> 57343)"

definition encode_cp :: "nat \<Rightarrow> nat list" where
  "encode_cp c =
     (if c < 128 then [c]
      else if c < 2048 then [192 + c div 64, 128 + c mod 64]
      else if c < 65536 then [224 + c div 4096, 128 + c div 64 mod 64, 128 + c mod 64]
      else [240 + c div 262144, 128 + c div 4096 mod 64, 128 + c div 64 mod 64, 128 + c mod 64])"

definition utf8_encode :: "nat list \<Rightarrow> nat list" where
  "utf8_encode cs = concat (map encode_cp cs)"

definition cont :: "nat \<Rightarrow> bool" where
  "cont b \<longleftrightarrow> 128 \<le> b \<and> b < 192"

definition decode_step :: "nat list \<Rightarrow> (nat \<times> nat list) option" where
  "decode_step bs =
     (case bs of
        [] \<Rightarrow> None
      | b # r \<Rightarrow>
          if b < 128 then Some (b, r)
          else if 192 \<le> b \<and> b < 224 then
            (case r of
               b1 # r1 \<Rightarrow>
                 (let c = (b - 192) * 64 + (b1 - 128) in
                  if cont b1 \<and> 128 \<le> c then Some (c, r1) else None)
             | _ \<Rightarrow> None)
          else if 224 \<le> b \<and> b < 240 then
            (case r of
               b1 # b2 # r2 \<Rightarrow>
                 (let c = (b - 224) * 4096 + (b1 - 128) * 64 + (b2 - 128) in
                  if cont b1 \<and> cont b2 \<and> 2048 \<le> c \<and> valid_cp c then Some (c, r2) else None)
             | _ \<Rightarrow> None)
          else if 240 \<le> b \<and> b < 248 then
            (case r of
               b1 # b2 # b3 # r3 \<Rightarrow>
                 (let c = (b - 240) * 262144 + (b1 - 128) * 4096 + (b2 - 128) * 64 + (b3 - 128) in
                  if cont b1 \<and> cont b2 \<and> cont b3 \<and> 65536 \<le> c \<and> valid_cp c then Some (c, r3) else None)
             | _ \<Rightarrow> None)
          else None)"

lemma decode_step_shorter:
  "decode_step bs = Some (c, rest) \<Longrightarrow> length rest < length bs"
  by (auto simp: decode_step_def Let_def split: list.splits if_splits)

function utf8_decode :: "nat list \<Rightarrow> nat list option" where
  "utf8_decode bs =
     (if bs = [] then Some []
      else case decode_step bs of
             None \<Rightarrow> None
           | Some (c, rest) \<Rightarrow> map_option ((#) c) (utf8_decode rest))"
  by pat_completeness auto
termination
  by (relation "measure length") (auto dest: decode_step_shorter)

declare utf8_decode.simps [simp del]

section \<open>Round trips\<close>

lemma utf8_encode_simps [simp]:
  "utf8_encode [] = []" "utf8_encode (c # cs) = encode_cp c @ utf8_encode cs"
  "utf8_encode (xs @ ys) = utf8_encode xs @ utf8_encode ys"
  by (simp_all add: utf8_encode_def)

lemma encode_cp_length: "0 < length (encode_cp c)"
  by (simp add: encode_cp_def)

lemma div_mod_64:
  fixes c :: nat
  shows "c div 64 * 64 + c mod 64 = c"
    and "c div 4096 * 4096 + c div 64 mod 64 * 64 + c mod 64 = c"
    and "c div 262144 * 262144 + c div 4096 mod 64 * 4096 + c div 64 mod 64 * 64 + c mod 64 = c"
proof -
  have a: "x div 64 * 64 + x mod 64 = x" for x :: nat by simp
  have b: "c div 4096 = c div 64 div 64" "c div 262144 = c div 64 div 64 div 64"
    by (simp_all add: div_mult2_eq [symmetric])
  show "c div 64 * 64 + c mod 64 = c" by (rule a)
  show "c div 4096 * 4096 + c div 64 mod 64 * 64 + c mod 64 = c"
    using a [of c] a [of "c div 64"] unfolding b by linarith
  show "c div 262144 * 262144 + c div 4096 mod 64 * 4096 + c div 64 mod 64 * 64 + c mod 64 = c"
    using a [of c] a [of "c div 64"] a [of "c div 64 div 64"] unfolding b by linarith
qed

lemma decode_step_encode:
  assumes "valid_cp c"
  shows "decode_step (encode_cp c @ rest) = Some (c, rest)"
proof -
  have c64: "cont (128 + x mod 64)" for x by (simp add: cont_def)
  have v: "c < 1114112" using assms by (simp add: valid_cp_def)
  consider "c < 128" | "128 \<le> c" "c < 2048" | "2048 \<le> c" "c < 65536" | "65536 \<le> c" by linarith
  then show ?thesis
  proof cases
    case 2
    then have "c div 64 < 32" by (simp add: div_less_iff_less_mult)
    with 2 div_mod_64(1) [of c] c64 show ?thesis by (simp add: encode_cp_def decode_step_def)
  next
    case 3
    then have "c div 4096 < 16" by (simp add: div_less_iff_less_mult)
    with 3 div_mod_64(2) [of c] c64 assms show ?thesis by (simp add: encode_cp_def decode_step_def)
  next
    case 4
    from v have "c div 262144 < 8" by (simp add: div_less_iff_less_mult)
    with 4 div_mod_64(3) [of c] c64 assms show ?thesis by (simp add: encode_cp_def decode_step_def)
  qed (simp add: encode_cp_def decode_step_def)
qed

lemma decode_encode: "list_all valid_cp cs \<Longrightarrow> utf8_decode (utf8_encode cs) = Some cs"
proof (induction cs)
  case (Cons c cs)
  have "encode_cp c @ utf8_encode cs \<noteq> []" using encode_cp_length [of c] by auto
  with Cons decode_step_encode [of c "utf8_encode cs"] show ?case
    by (simp add: utf8_decode.simps [of "encode_cp c @ utf8_encode cs"])
qed (simp add: utf8_decode.simps)

lemma cont_split: "cont b \<Longrightarrow> \<exists>x < 64. b = 128 + x"
  by (intro exI [of _ "b - 128"]) (auto simp: cont_def)

lemma encode_3:
  fixes x y z :: nat
  assumes "y < 64" "z < 64"
  shows "(x * 4096 + y * 64 + z) div 4096 = x" "(x * 4096 + y * 64 + z) div 64 mod 64 = y"
    "(x * 4096 + y * 64 + z) mod 64 = z"
proof -
  have e: "x * 4096 + y * 64 + z = (x * 64 + y) * 64 + z" by simp
  have d: "(n * 64 + z) div 64 = n" "(n * 64 + z) mod 64 = z" for n
    using assms(2) by simp_all
  have g: "n div 4096 = n div 64 div 64" for n :: nat by (simp add: div_mult2_eq [symmetric])
  show "(x * 4096 + y * 64 + z) div 4096 = x" "(x * 4096 + y * 64 + z) div 64 mod 64 = y"
    "(x * 4096 + y * 64 + z) mod 64 = z"
    unfolding e g d using assms(1) by simp_all
qed

lemma encode_4:
  fixes x y z w :: nat
  assumes "y < 64" "z < 64" "w < 64"
  shows "(x * 262144 + y * 4096 + z * 64 + w) div 262144 = x"
    "(x * 262144 + y * 4096 + z * 64 + w) div 4096 mod 64 = y"
    "(x * 262144 + y * 4096 + z * 64 + w) div 64 mod 64 = z"
    "(x * 262144 + y * 4096 + z * 64 + w) mod 64 = w"
proof -
  have e: "x * 262144 + y * 4096 + z * 64 + w = (x * 64 + y) * 4096 + z * 64 + w" by simp
  have f: "(x * 64 + y) div 64 = x" "(x * 64 + y) mod 64 = y" using assms(1) by simp_all
  have g: "n div 262144 = n div 4096 div 64" for n :: nat by (simp add: div_mult2_eq [symmetric])
  show "(x * 262144 + y * 4096 + z * 64 + w) div 262144 = x"
    "(x * 262144 + y * 4096 + z * 64 + w) div 4096 mod 64 = y"
    "(x * 262144 + y * 4096 + z * 64 + w) div 64 mod 64 = z"
    "(x * 262144 + y * 4096 + z * 64 + w) mod 64 = w"
    unfolding e g using encode_3 [OF assms(2,3), of "x * 64 + y"] f by simp_all
qed

lemma encode_decode_step:
  assumes "decode_step bs = Some (c, rest)"
  shows "bs = encode_cp c @ rest \<and> valid_cp c"
proof -
  obtain b r where bs: "bs = b # r" using assms by (cases bs) (auto simp: decode_step_def)
  consider (one) "b < 128" | (two) "192 \<le> b" "b < 224" | (three) "224 \<le> b" "b < 240"
    | (four) "240 \<le> b" "b < 248"
    using assms bs by (auto simp: decode_step_def split: if_splits)
  then show ?thesis
  proof cases
    case one
    with assms bs show ?thesis by (simp add: decode_step_def encode_cp_def valid_cp_def)
  next
    case two
    with assms bs obtain b1 where r: "r = b1 # rest" "cont b1" "128 \<le> c" "c = (b - 192) * 64 + (b1 - 128)"
      by (auto simp: decode_step_def Let_def split: list.splits if_splits)
    obtain x where x: "x < 64" "b1 = 128 + x" using cont_split [OF r(2)] by blast
    obtain y where y: "b = 192 + y" "y < 32" using two by (intro that [of "b - 192"]) auto
    from r(4) x y have "c = y * 64 + x" by simp
    with x y r(1,3) bs show ?thesis by (simp add: encode_cp_def valid_cp_def)
  next
    case three
    with assms bs obtain b1 b2 where r: "r = b1 # b2 # rest" "cont b1" "cont b2" "2048 \<le> c" "valid_cp c"
        "c = (b - 224) * 4096 + (b1 - 128) * 64 + (b2 - 128)"
      by (auto simp: decode_step_def Let_def split: list.splits if_splits)
    obtain x y where xy: "x < 64" "b1 = 128 + x" "y < 64" "b2 = 128 + y"
      using cont_split r(2,3) by metis
    obtain w where w: "b = 224 + w" "w < 16" using three by (intro that [of "b - 224"]) auto
    have c: "c = w * 4096 + x * 64 + y" using r(6) xy w by simp
    then have "c < 65536" using xy w by simp
    with c encode_3 [OF xy(1,3), of w] xy w r bs show ?thesis by (simp add: encode_cp_def)
  next
    case four
    with assms bs obtain b1 b2 b3 where r: "r = b1 # b2 # b3 # rest" "cont b1" "cont b2" "cont b3"
        "65536 \<le> c" "valid_cp c"
        "c = (b - 240) * 262144 + (b1 - 128) * 4096 + (b2 - 128) * 64 + (b3 - 128)"
      by (auto simp: decode_step_def Let_def split: list.splits if_splits)
    obtain x y z where xyz: "x < 64" "b1 = 128 + x" "y < 64" "b2 = 128 + y" "z < 64" "b3 = 128 + z"
      using cont_split r(2-4) by metis
    obtain w where w: "b = 240 + w" using four le_Suc_ex by blast
    have c: "c = w * 262144 + x * 4096 + y * 64 + z" using r(7) xyz w by simp
    from c encode_4 [OF xyz(1,3,5), of w] xyz w r bs show ?thesis by (simp add: encode_cp_def)
  qed
qed

lemma encode_decode:
  "utf8_decode bs = Some cs \<Longrightarrow> utf8_encode cs = bs \<and> list_all valid_cp cs"
proof (induction bs arbitrary: cs rule: utf8_decode.induct)
  case (1 bs)
  show ?case
  proof (cases "bs = []")
    case True
    with 1(2) show ?thesis by (simp add: utf8_decode.simps utf8_encode_def)
  next
    case False
    with 1(2) obtain c rest ds where
      d: "decode_step bs = Some (c, rest)" "utf8_decode rest = Some ds" "cs = c # ds"
      by (auto simp: utf8_decode.simps [of bs] split: option.splits)
    from 1(1) [OF False d(1) refl d(2)] encode_decode_step [OF d(1)] d(3) show ?thesis
      by (simp add: utf8_encode_def)
  qed
qed

end
