(* ===== verification/Positions.thy ===== *)
theory Positions
  imports Utf8 Prelude
begin

text \<open>
  Source snapshots and position conversion (\<open>lsp/positions.py\<close>): decoding a file's bytes
  into text with its line table, and the conversions between LSP positions, offsets of
  the decoded text and offsets of the raw bytes.  Text is a list of code points, bytes
  are numbers; positions given by a caller are integers, as negative ones are rejected
  by the code; \<open>PositionError\<close> is a value with one constructor per message.
\<close>

section \<open>Data\<close>

datatype position_encoding = UTF8 | UTF16 | UTF32

datatype position_error =
    LineOutside int
  | NegativeCharacter
  | PastLineEnd
  | NewlinePosition
  | OffsetOutside
  | ByteOffsetOutside
  | SplitsCodePoint
  | InvalidUtf8

record lsp_position =
  lsp_line :: int
  lsp_character :: int

record file_snapshot =
  fs_raw_bytes :: "nat list"
  fs_text :: "nat list"
  fs_encoding :: string
  fs_bom :: "nat list"
  fs_line_endings :: "nat list list"
  fs_text_to_byte :: "nat list"
  fs_line_starts :: "nat list"
  fs_line_content_ends :: "nat list"
  fs_line_ends :: "nat list"

section \<open>Building a snapshot\<close>

abbreviation CR :: nat where "CR \<equiv> 13"
abbreviation LF :: nat where "LF \<equiv> 10"

definition BOM :: "nat list" where "BOM = [239, 187, 191]"

fun text_offsets :: "nat \<Rightarrow> nat list \<Rightarrow> nat list \<Rightarrow> nat list" where
  "text_offsets byte_offset [] acc = acc"
| "text_offsets byte_offset (c # cs) acc =
     (let b = byte_offset + length (encode_cp c) in text_offsets b cs (acc @ [b]))"

record line_table =
  lt_starts :: "nat list"
  lt_content_ends :: "nat list"
  lt_ends :: "nat list"
  lt_endings :: "nat list list"

definition end_line :: "nat \<Rightarrow> nat \<Rightarrow> nat list \<Rightarrow> line_table \<Rightarrow> line_table" where
  "end_line content_end line_end ending t =
     \<lparr>lt_starts = lt_starts t @ [line_end], lt_content_ends = lt_content_ends t @ [content_end],
      lt_ends = lt_ends t @ [line_end], lt_endings = lt_endings t @ [ending]\<rparr>"

function scan_lines :: "nat list \<Rightarrow> nat \<Rightarrow> line_table \<Rightarrow> line_table" where
  "scan_lines text index t =
     (if index < length text then
        (if text ! index = CR \<and> index + 1 < length text \<and> text ! (index + 1) = LF
         then scan_lines text (index + 2) (end_line index (index + 2) [CR, LF] t)
         else if text ! index = LF \<or> text ! index = CR
         then scan_lines text (index + 1) (end_line index (index + 1) [text ! index] t)
         else scan_lines text (index + 1) t)
      else t)"
  by pat_completeness auto
termination
  by (relation "measure (\<lambda>(text, index, t). length text - index)") auto

declare scan_lines.simps [simp del]

definition from_bytes :: "nat list \<Rightarrow> position_error + file_snapshot" where
  "from_bytes raw =
     (let bom = (if take 3 raw = BOM then BOM else []);
          payload = drop (length bom) raw
      in case utf8_decode payload of
           None \<Rightarrow> Inl InvalidUtf8
         | Some text \<Rightarrow>
             (let t = scan_lines text 0
                \<lparr>lt_starts = [0], lt_content_ends = [], lt_ends = [], lt_endings = []\<rparr>
              in Inr \<lparr>fs_raw_bytes = raw, fs_text = text, fs_encoding = ''utf-8'', fs_bom = bom,
                      fs_line_endings = lt_endings t,
                      fs_text_to_byte = text_offsets (length bom) text [length bom],
                      fs_line_starts = lt_starts t,
                      fs_line_content_ends = lt_content_ends t @ [length text],
                      fs_line_ends = lt_ends t @ [length text]\<rparr>))"

section \<open>Conversions\<close>

record position_mapper =
  pm_snapshot :: file_snapshot
  pm_encoding :: position_encoding

definition units :: "position_encoding \<Rightarrow> nat \<Rightarrow> nat" where
  "units e c =
     (case e of
        UTF8 \<Rightarrow> length (encode_cp c)
      | UTF16 \<Rightarrow> (if c > 65535 then 2 else 1)
      | UTF32 \<Rightarrow> 1)"

definition slice :: "nat \<Rightarrow> nat \<Rightarrow> 'a list \<Rightarrow> 'a list" where
  "slice i j xs = take (j - i) (drop i xs)"

text \<open>The loop of \<open>lsp_to_text_offset\<close> over the characters of one line.\<close>

fun seek_units :: "(nat \<Rightarrow> nat) \<Rightarrow> nat list \<Rightarrow> nat \<Rightarrow> nat \<Rightarrow> int \<Rightarrow> nat option" where
  "seek_units u [] offset n character = (if int n = character then Some offset else None)"
| "seek_units u (c # cs) offset n character =
     (if int n = character then Some offset else seek_units u cs (offset + 1) (n + u c) character)"

definition lsp_to_text_offset :: "position_mapper \<Rightarrow> lsp_position \<Rightarrow> position_error + nat" where
  "lsp_to_text_offset m p =
     (let s = pm_snapshot m in
      if lsp_line p < 0 \<or> lsp_line p \<ge> int (length (fs_line_starts s)) then Inl (LineOutside (lsp_line p))
      else if lsp_character p < 0 then Inl NegativeCharacter
      else
        (let start = fs_line_starts s ! nat (lsp_line p);
             stop = fs_line_content_ends s ! nat (lsp_line p)
         in case seek_units (units (pm_encoding m)) (slice start stop (fs_text s)) start 0 (lsp_character p) of
              Some offset \<Rightarrow> Inr offset
            | None \<Rightarrow> Inl PastLineEnd))"

definition check_text_offset :: "position_mapper \<Rightarrow> int \<Rightarrow> position_error + unit" where
  "check_text_offset m offset =
     (if offset < 0 \<or> offset > int (length (fs_text (pm_snapshot m))) then Inl OffsetOutside else Inr ())"

definition bisect_right :: "nat list \<Rightarrow> nat \<Rightarrow> nat" where
  "bisect_right xs x = length (takeWhile (\<lambda>y. y \<le> x) xs)"

definition text_offset_to_lsp :: "position_mapper \<Rightarrow> int \<Rightarrow> position_error + lsp_position" where
  "text_offset_to_lsp m offset =
     (case check_text_offset m offset of
        Inl e \<Rightarrow> Inl e
      | Inr _ \<Rightarrow>
          (let s = pm_snapshot m;
               line = bisect_right (fs_line_starts s) (nat offset) - 1
           in if nat offset > fs_line_content_ends s ! line then Inl NewlinePosition
              else
                (let start = fs_line_starts s ! line
                 in Inr \<lparr>lsp_line = int line,
                         lsp_character =
                           int (sum_list (map (units (pm_encoding m)) (slice start (nat offset) (fs_text s))))\<rparr>)))"

definition text_offset_to_byte_offset :: "position_mapper \<Rightarrow> int \<Rightarrow> position_error + nat" where
  "text_offset_to_byte_offset m offset =
     (case check_text_offset m offset of
        Inl e \<Rightarrow> Inl e
      | Inr _ \<Rightarrow> Inr (fs_text_to_byte (pm_snapshot m) ! nat offset))"

fun index_of :: "'a \<Rightarrow> 'a list \<Rightarrow> nat option" where
  "index_of x [] = None"
| "index_of x (y # ys) = (if y = x then Some 0 else map_option Suc (index_of x ys))"

definition byte_offset_to_text_offset :: "position_mapper \<Rightarrow> int \<Rightarrow> position_error + nat" where
  "byte_offset_to_text_offset m offset =
     (if offset < 0 \<or> offset > int (length (fs_raw_bytes (pm_snapshot m))) then Inl ByteOffsetOutside
      else case index_of (nat offset) (fs_text_to_byte (pm_snapshot m)) of
             Some i \<Rightarrow> Inr i
           | None \<Rightarrow> Inl SplitsCodePoint)"

definition lsp_to_byte_offset :: "position_mapper \<Rightarrow> lsp_position \<Rightarrow> position_error + nat" where
  "lsp_to_byte_offset m p =
     (case lsp_to_text_offset m p of
        Inl e \<Rightarrow> Inl e
      | Inr offset \<Rightarrow> text_offset_to_byte_offset m (int offset))"

definition byte_offset_to_lsp :: "position_mapper \<Rightarrow> int \<Rightarrow> position_error + lsp_position" where
  "byte_offset_to_lsp m offset =
     (case byte_offset_to_text_offset m offset of
        Inl e \<Rightarrow> Inl e
      | Inr i \<Rightarrow> text_offset_to_lsp m (int i))"

section \<open>Public renderer\<close>

record public_position =
  pp_line :: int
  pp_column :: int
  pp_text_offset :: nat
  pp_byte_offset :: nat

definition render_position :: "position_mapper \<Rightarrow> lsp_position \<Rightarrow> position_error + public_position" where
  "render_position m p =
     (case lsp_to_text_offset m p of
        Inl e \<Rightarrow> Inl e
      | Inr text_offset \<Rightarrow>
          (let line_start = fs_line_starts (pm_snapshot m) ! nat (lsp_line p) in
           case text_offset_to_byte_offset m (int text_offset) of
             Inl e \<Rightarrow> Inl e
           | Inr b \<Rightarrow> Inr \<lparr>pp_line = lsp_line p, pp_column = int text_offset - int line_start,
                           pp_text_offset = text_offset, pp_byte_offset = b\<rparr>))"

definition render_range ::
    "position_mapper \<Rightarrow> lsp_position \<Rightarrow> lsp_position \<Rightarrow> position_error + public_position \<times> public_position" where
  "render_range m p q =
     (case render_position m p of
        Inl e \<Rightarrow> Inl e
      | Inr a \<Rightarrow> (case render_position m q of Inl e \<Rightarrow> Inl e | Inr b \<Rightarrow> Inr (a, b)))"

definition render_text :: "position_mapper \<Rightarrow> lsp_position \<Rightarrow> lsp_position \<Rightarrow> position_error + nat list" where
  "render_text m p q =
     (case lsp_to_text_offset m p of
        Inl e \<Rightarrow> Inl e
      | Inr i \<Rightarrow> (case lsp_to_text_offset m q of
                    Inl e \<Rightarrow> Inl e
                  | Inr j \<Rightarrow> Inr (slice i j (fs_text (pm_snapshot m)))))"

definition raw_lsp_basis :: "position_encoding \<Rightarrow> string" where
  "raw_lsp_basis e =
     ''lsp_zero_based_line_'' @
     (case e of UTF8 \<Rightarrow> ''utf8_byte'' | UTF16 \<Rightarrow> ''utf16_code_unit'' | UTF32 \<Rightarrow> ''unicode_code_point'') @
     ''_character''"

record raw_range =
  rr_basis :: string
  rr_start :: lsp_position
  rr_end :: lsp_position

definition raw_lsp_range :: "lsp_position \<Rightarrow> lsp_position \<Rightarrow> position_encoding \<Rightarrow> raw_range" where
  "raw_lsp_range p q e = \<lparr>rr_basis = raw_lsp_basis e, rr_start = p, rr_end = q\<rparr>"

section \<open>The byte table\<close>

lemma text_offsets_eq:
  "text_offsets b cs acc = acc @ map (\<lambda>k. b + length (utf8_encode (take (Suc k) cs))) [0..<length cs]"
proof (induction cs arbitrary: b acc)
  case (Cons c cs)
  have up: "[0..<length (c # cs)] = 0 # map Suc [0..<length cs]"
    by (simp add: upt_conv_Cons map_Suc_upt del: upt_Suc)
  show ?case unfolding up by (simp add: Cons.IH Let_def add.assoc comp_def del: upt_Suc)
qed simp

lemma text_to_byte_length [simp]: "length (text_offsets b cs [b]) = Suc (length cs)"
  by (simp add: text_offsets_eq)

lemma text_to_byte_nth:
  assumes "k \<le> length cs"
  shows "text_offsets b cs [b] ! k = b + length (utf8_encode (take k cs))"
proof (cases k)
  case (Suc j)
  with assms show ?thesis by (simp add: text_offsets_eq nth_append)
qed (simp add: text_offsets_eq)

section \<open>The line table\<close>

definition newline :: "nat \<Rightarrow> bool" where
  "newline c \<longleftrightarrow> c = CR \<or> c = LF"

text \<open>
  \<open>line_row\<close>: characters \<open>s..<c\<close> are a line's content, without a newline character, and
  \<open>c..<l\<close> its terminator \<open>e\<close>.  \<open>terminator\<close>: what may end a line; a lone carriage return is
  one only if no line feed follows.
\<close>

definition line_row :: "nat list \<Rightarrow> nat \<Rightarrow> nat \<Rightarrow> bool" where
  "line_row tx s c \<longleftrightarrow> s \<le> c \<and> c \<le> length tx \<and> (\<forall>k. s \<le> k \<and> k < c \<longrightarrow> \<not> newline (tx ! k))"

definition terminator :: "nat list \<Rightarrow> nat \<Rightarrow> nat \<Rightarrow> nat list \<Rightarrow> bool" where
  "terminator tx c l e \<longleftrightarrow> l \<le> length tx \<and>
     (l = c + 2 \<and> e = [CR, LF] \<and> tx ! c = CR \<and> tx ! (c + 1) = LF \<or>
      l = c + 1 \<and> e = [tx ! c] \<and> newline (tx ! c) \<and>
        \<not> (tx ! c = CR \<and> c + 1 < length tx \<and> tx ! (c + 1) = LF))"

definition scan_inv :: "nat list \<Rightarrow> nat \<Rightarrow> line_table \<Rightarrow> bool" where
  "scan_inv tx index t \<longleftrightarrow>
     (let n = length (lt_content_ends t) in
      length (lt_starts t) = Suc n \<and> length (lt_ends t) = n \<and> length (lt_endings t) = n \<and>
      lt_starts t ! 0 = 0 \<and>
      (\<forall>i < n. lt_starts t ! Suc i = lt_ends t ! i \<and>
         line_row tx (lt_starts t ! i) (lt_content_ends t ! i) \<and>
         terminator tx (lt_content_ends t ! i) (lt_ends t ! i) (lt_endings t ! i)) \<and>
      line_row tx (lt_starts t ! n) index)"

lemma scan_inv_end_line:
  assumes inv: "scan_inv tx index t" and trm: "terminator tx index l e"
  shows "scan_inv tx l (end_line index l e t)"
proof -
  let ?n = "length (lt_content_ends t)"
  have row: "line_row tx l l" using trm by (auto simp: line_row_def terminator_def)
  have rows: "(lt_starts t @ [l]) ! Suc i = (lt_ends t @ [l]) ! i \<and>
      line_row tx ((lt_starts t @ [l]) ! i) ((lt_content_ends t @ [index]) ! i) \<and>
      terminator tx ((lt_content_ends t @ [index]) ! i) ((lt_ends t @ [l]) ! i) ((lt_endings t @ [e]) ! i)"
    if "i < Suc ?n" for i
  proof (cases "i < ?n")
    case True
    with inv show ?thesis by (simp add: scan_inv_def Let_def nth_append)
  next
    case False
    with that have "i = ?n" by simp
    with inv trm show ?thesis by (simp add: scan_inv_def Let_def nth_append)
  qed
  from inv row rows show ?thesis
    by (simp add: scan_inv_def Let_def end_line_def nth_append)
qed

lemma scan_lines_inv:
  "scan_inv tx index t \<Longrightarrow> index \<le> length tx \<Longrightarrow>
   scan_inv tx (length tx) (scan_lines tx index t)"
proof (induction tx index t rule: scan_lines.induct)
  case (1 tx index t)
  show ?case
  proof (cases "index < length tx")
    case False
    with 1(4,5) have "index = length tx" by simp
    with 1(4) show ?thesis by (simp add: scan_lines.simps)
  next
    case in_text: True
    consider (crlf) "tx ! index = CR \<and> index + 1 < length tx \<and> tx ! (index + 1) = LF"
      | (single) "\<not> (tx ! index = CR \<and> index + 1 < length tx \<and> tx ! (index + 1) = LF)"
          "tx ! index = LF \<or> tx ! index = CR"
      | (other) "\<not> (tx ! index = LF \<or> tx ! index = CR)" by blast
    then show ?thesis
    proof cases
      case crlf
      have "scan_inv tx (index + 2) (end_line index (index + 2) [CR, LF] t)"
        by (rule scan_inv_end_line [OF 1(4)]) (use crlf in \<open>simp add: terminator_def\<close>)
      from 1(1) [OF in_text crlf this] crlf in_text show ?thesis
        by (simp add: scan_lines.simps [of tx index t])
    next
      case single
      have "scan_inv tx (index + 1) (end_line index (index + 1) [tx ! index] t)"
        by (rule scan_inv_end_line [OF 1(4)]) (use single in_text in \<open>auto simp: terminator_def newline_def\<close>)
      from 1(2) [OF in_text single this] single in_text show ?thesis
        by (auto simp: scan_lines.simps [of tx index t])
    next
      case other
      have "scan_inv tx (index + 1) t"
        using 1(4) other in_text
        by (auto simp: scan_inv_def line_row_def Let_def newline_def less_Suc_eq)
      from 1(3) [OF in_text _ other this] other in_text show ?thesis
        by (simp add: scan_lines.simps [of tx index t])
    qed
  qed
qed

text \<open>What a snapshot's tables satisfy.\<close>

definition snapshot_ok :: "file_snapshot \<Rightarrow> bool" where
  "snapshot_ok s \<longleftrightarrow>
     (let n = length (fs_line_endings s); tx = fs_text s in
      length (fs_line_starts s) = Suc n \<and> length (fs_line_content_ends s) = Suc n \<and>
      length (fs_line_ends s) = Suc n \<and> fs_line_starts s ! 0 = 0 \<and>
      (\<forall>i < n. fs_line_starts s ! Suc i = fs_line_ends s ! i \<and>
         terminator tx (fs_line_content_ends s ! i) (fs_line_ends s ! i) (fs_line_endings s ! i)) \<and>
      (\<forall>i \<le> n. line_row tx (fs_line_starts s ! i) (fs_line_content_ends s ! i)) \<and>
      fs_line_content_ends s ! n = length tx \<and> fs_line_ends s ! n = length tx \<and>
      list_all valid_cp tx \<and> fs_raw_bytes s = fs_bom s @ utf8_encode tx \<and>
      (fs_bom s = [] \<or> fs_bom s = BOM) \<and>
      length (fs_text_to_byte s) = Suc (length tx) \<and>
      (\<forall>k \<le> length tx. fs_text_to_byte s ! k = length (fs_bom s) + length (utf8_encode (take k tx))))"

lemma from_bytes_ok:
  assumes "from_bytes raw = Inr s"
  shows "snapshot_ok s" and "fs_raw_bytes s = raw"
proof -
  define bom where "bom = (if take 3 raw = BOM then BOM else [])"
  have raw: "raw = bom @ drop (length bom) raw"
  proof (cases "take 3 raw = BOM")
    case True
    then have "bom = BOM" "length bom = 3" by (simp_all add: bom_def BOM_def)
    with True show ?thesis by (metis append_take_drop_id)
  qed (simp add: bom_def)
  from assms obtain tx where tx: "utf8_decode (drop (length bom) raw) = Some tx"
    by (auto simp: from_bytes_def bom_def Let_def split: option.splits)
  define t where "t = scan_lines tx 0 \<lparr>lt_starts = [0], lt_content_ends = [], lt_ends = [], lt_endings = []\<rparr>"
  have s: "s = \<lparr>fs_raw_bytes = raw, fs_text = tx, fs_encoding = ''utf-8'', fs_bom = bom,
      fs_line_endings = lt_endings t, fs_text_to_byte = text_offsets (length bom) tx [length bom],
      fs_line_starts = lt_starts t, fs_line_content_ends = lt_content_ends t @ [length tx],
      fs_line_ends = lt_ends t @ [length tx]\<rparr>"
    using assms tx by (simp add: from_bytes_def bom_def [symmetric] t_def [symmetric] Let_def)
  have "scan_inv tx 0 \<lparr>lt_starts = [0], lt_content_ends = [], lt_ends = [], lt_endings = []\<rparr>"
    by (simp add: scan_inv_def line_row_def)
  then have inv: "scan_inv tx (length tx) t" unfolding t_def by (rule scan_lines_inv) simp
  from encode_decode [OF tx] have enc: "utf8_encode tx = drop (length bom) raw" "list_all valid_cp tx"
    by simp_all
  show "fs_raw_bytes s = raw" by (simp add: s)
  have rows: "line_row tx (lt_starts t ! i) ((lt_content_ends t @ [length tx]) ! i)"
    if "i \<le> length (lt_endings t)" for i
    using that inv by (cases "i < length (lt_endings t)") (simp_all add: scan_inv_def Let_def nth_append)
  have bom: "bom = [] \<or> bom = BOM" by (simp add: bom_def)
  show "snapshot_ok s"
    unfolding snapshot_ok_def s Let_def
    using inv enc raw rows bom
    by (auto simp: scan_inv_def Let_def nth_append text_to_byte_nth)
qed

section \<open>Widths of characters\<close>

text \<open>All the conversions need of an encoding: no character is zero units wide.\<close>

locale unit_width =
  fixes u :: "nat \<Rightarrow> nat"
  assumes units_pos: "0 < u c"
begin

lemma width_less:
  assumes "i < j" and "j \<le> length cs"
  shows "sum_list (map u (take i cs)) < sum_list (map u (take j cs))"
proof -
  have "take j cs = take i cs @ cs ! i # take (j - Suc i) (drop (Suc i) cs)"
    using assms by (metis Cons_nth_drop_Suc Suc_diff_Suc append_take_drop_id diff_le_self
        le_add_diff_inverse2 less_imp_le_nat less_le_trans take_Suc_Cons take_add add.commute)
  then show ?thesis using units_pos [of "cs ! i"] by simp
qed

lemma width_inj:
  assumes "i \<le> length cs" and "j \<le> length cs"
    and "sum_list (map u (take i cs)) = sum_list (map u (take j cs))"
  shows "i = j"
  using assms width_less by (metis linorder_neqE_nat less_irrefl)

lemma seek_units_iff:
  "seek_units u cs off n ch = Some ofs \<longleftrightarrow>
   (\<exists>k \<le> length cs. ofs = off + k \<and> int (n + sum_list (map u (take k cs))) = ch)"
proof (induction cs arbitrary: off n)
  case (Cons c cs)
  show ?case
  proof (cases "int n = ch")
    case True
    have "k = 0" if "k \<le> length (c # cs)" "int (n + sum_list (map u (take k (c # cs)))) = ch" for k
      using that True width_inj [of k "c # cs" 0] by simp
    with True show ?thesis by auto
  next
    case False
    have "(\<exists>k \<le> length (c # cs). ofs = off + k \<and> int (n + sum_list (map u (take k (c # cs)))) = ch) \<longleftrightarrow>
        (\<exists>k \<le> length cs. ofs = off + Suc k \<and> int (n + u c + sum_list (map u (take k cs))) = ch)"
      (is "?l \<longleftrightarrow> ?r")
    proof
      assume ?l
      then obtain k where k: "k \<le> length (c # cs)" "ofs = off + k"
        "int (n + sum_list (map u (take k (c # cs)))) = ch" by blast
      with False obtain k' where "k = Suc k'" by (cases k) auto
      with k show ?r by (intro exI [of _ k']) (simp add: add.assoc)
    next
      assume ?r
      then obtain k where "k \<le> length cs" "ofs = off + Suc k"
        "int (n + u c + sum_list (map u (take k cs))) = ch" by blast
      then show ?l by (intro exI [of _ "Suc k"]) (simp add: add.assoc)
    qed
    with False Cons.IH [of "off + 1" "n + u c"] show ?thesis by simp
  qed
qed auto

end

interpretation enc: unit_width "units e" for e
  by unfold_locales (simp add: units_def encode_cp_def split: position_encoding.split)

section \<open>Finding the line of an offset\<close>

lemma increasing_mono:
  fixes xs :: "nat list"
  assumes "\<And>i. i < n \<Longrightarrow> xs ! i < xs ! Suc i" and "i < j" and "j \<le> n"
  shows "xs ! i < xs ! j"
  using assms(2,3)
proof (induction j)
  case (Suc j)
  show ?case
  proof (cases "i = j")
    case False
    with Suc have "xs ! i < xs ! j" by simp
    with assms(1) [of j] Suc.prems(2) show ?thesis by simp
  qed (use assms(1) Suc.prems in simp)
qed simp

lemma bisect_right_eq:
  fixes xs :: "nat list"
  assumes inc: "\<And>i. i < n \<Longrightarrow> xs ! i < xs ! Suc i" and len: "length xs = Suc n"
    and i: "i \<le> n" and lo: "xs ! i \<le> x" and hi: "i < n \<Longrightarrow> x < xs ! Suc i"
  shows "bisect_right xs x = Suc i"
proof -
  have "takeWhile (\<lambda>y. y \<le> x) xs = take (Suc i) xs"
  proof (rule takeWhile_eq_take_P_nth)
    fix k assume "k < Suc i" "k < length xs"
    then show "xs ! k \<le> x"
      using increasing_mono [of n xs k i, OF inc] i lo by (cases "k = i") auto
  next
    assume "Suc i < length xs"
    with hi len show "\<not> xs ! Suc i \<le> x" by simp
  qed
  with i len show ?thesis by (simp add: bisect_right_def)
qed

lemma bisect_right_ex:
  fixes xs :: "nat list"
  assumes inc: "\<And>i. i < n \<Longrightarrow> xs ! i < xs ! Suc i" and len: "length xs = Suc n" and "xs ! 0 \<le> x"
  obtains i where "i \<le> n" and "xs ! i \<le> x" and "i < n \<Longrightarrow> x < xs ! Suc i" and "bisect_right xs x = Suc i"
proof -
  define i where "i = Max {k. k \<le> n \<and> xs ! k \<le> x}"
  have fin: "finite {k. k \<le> n \<and> xs ! k \<le> x}" by simp
  have "i \<in> {k. k \<le> n \<and> xs ! k \<le> x}"
    unfolding i_def by (rule Max_in [OF fin]) (use assms(3) in auto)
  then have i: "i \<le> n" "xs ! i \<le> x" by simp_all
  have hi: "x < xs ! Suc i" if "i < n"
  proof (rule ccontr)
    assume "\<not> x < xs ! Suc i"
    with that have "Suc i \<in> {k. k \<le> n \<and> xs ! k \<le> x}" by simp
    from Max_ge [OF fin this] show False by (simp add: i_def)
  qed
  show ?thesis by (rule that [OF i hi bisect_right_eq [OF inc len i hi]])
qed

lemma slice_take:
  "i \<le> j \<Longrightarrow> j \<le> k \<Longrightarrow> slice i j xs = take (j - i) (slice i k xs)"
  by (simp add: slice_def min_def)

lemma slice_length: "j \<le> length xs \<Longrightarrow> length (slice i j xs) = j - i"
  by (simp add: slice_def)

lemma snapshot_lines:
  assumes "snapshot_ok s"
  defines "n \<equiv> length (fs_line_endings s)"
  shows "length (fs_line_starts s) = Suc n" and "length (fs_line_content_ends s) = Suc n"
    and "fs_line_starts s ! 0 = 0"
    and "i < n \<Longrightarrow> fs_line_starts s ! Suc i = fs_line_ends s ! i"
    and "i < n \<Longrightarrow> terminator (fs_text s) (fs_line_content_ends s ! i) (fs_line_ends s ! i) (fs_line_endings s ! i)"
    and "i \<le> n \<Longrightarrow> line_row (fs_text s) (fs_line_starts s ! i) (fs_line_content_ends s ! i)"
    and "fs_line_content_ends s ! n = length (fs_text s)"
    and "i < n \<Longrightarrow> fs_line_starts s ! i < fs_line_starts s ! Suc i"
    and "i < n \<Longrightarrow> fs_line_content_ends s ! i < fs_line_starts s ! Suc i"
proof -
  note ok = assms(1) [unfolded snapshot_ok_def Let_def, folded n_def]
  show "length (fs_line_starts s) = Suc n" "length (fs_line_content_ends s) = Suc n"
    "fs_line_starts s ! 0 = 0" "fs_line_content_ends s ! n = length (fs_text s)"
    using ok by blast+
  show row: "i \<le> n \<Longrightarrow> line_row (fs_text s) (fs_line_starts s ! i) (fs_line_content_ends s ! i)"
    and st: "i < n \<Longrightarrow> fs_line_starts s ! Suc i = fs_line_ends s ! i"
    and trm: "i < n \<Longrightarrow> terminator (fs_text s) (fs_line_content_ends s ! i) (fs_line_ends s ! i) (fs_line_endings s ! i)"
    using ok by blast+
  show less: "i < n \<Longrightarrow> fs_line_content_ends s ! i < fs_line_starts s ! Suc i"
    using st trm by (auto simp: terminator_def)
  show "i < n \<Longrightarrow> fs_line_starts s ! i < fs_line_starts s ! Suc i"
    using less row by (fastforce simp: line_row_def)
qed

section \<open>What each conversion returns\<close>

lemma lsp_to_text_offset_iff:
  assumes ok: "snapshot_ok (pm_snapshot m)"
  defines "s \<equiv> pm_snapshot m"
  shows "lsp_to_text_offset m p = Inr ofs \<longleftrightarrow>
    0 \<le> lsp_line p \<and> nat (lsp_line p) \<le> length (fs_line_endings s) \<and>
    fs_line_starts s ! nat (lsp_line p) \<le> ofs \<and> ofs \<le> fs_line_content_ends s ! nat (lsp_line p) \<and>
    lsp_character p = int (sum_list (map (units (pm_encoding m))
      (slice (fs_line_starts s ! nat (lsp_line p)) ofs (fs_text s))))"
proof (cases "0 \<le> lsp_line p \<and> nat (lsp_line p) \<le> length (fs_line_endings s)")
  case False
  with snapshot_lines(1) [OF ok] show ?thesis
    by (auto simp: lsp_to_text_offset_def s_def Let_def)
next
  case True
  define a where "a = fs_line_starts s ! nat (lsp_line p)"
  define b where "b = fs_line_content_ends s ! nat (lsp_line p)"
  have row: "line_row (fs_text s) a b"
    using snapshot_lines(6) [OF ok] True by (simp add: a_def b_def s_def)
  then have ab: "a \<le> b" "b \<le> length (fs_text s)" by (simp_all add: line_row_def)
  have len: "length (slice a b (fs_text s)) = b - a" using ab by (simp add: slice_length)
  have line: "\<not> (lsp_line p < 0 \<or> lsp_line p \<ge> int (length (fs_line_starts s)))"
    using True snapshot_lines(1) [OF ok] unfolding s_def by linarith
  have seek: "seek_units (units (pm_encoding m)) (slice a b (fs_text s)) a 0 (lsp_character p) = Some ofs \<longleftrightarrow>
      a \<le> ofs \<and> ofs \<le> b \<and> lsp_character p =
        int (sum_list (map (units (pm_encoding m)) (slice a ofs (fs_text s))))"
  proof -
    have tk: "take k (slice a b (fs_text s)) = slice a (a + k) (fs_text s)" if "k \<le> b - a" for k
      using that ab slice_take [of a "a + k" b "fs_text s"] by simp
    show ?thesis unfolding enc.seek_units_iff len
    proof
      assume "\<exists>k\<le>b - a. ofs = a + k \<and>
        int (0 + sum_list (map (units (pm_encoding m)) (take k (slice a b (fs_text s))))) = lsp_character p"
      then show "a \<le> ofs \<and> ofs \<le> b \<and> lsp_character p =
        int (sum_list (map (units (pm_encoding m)) (slice a ofs (fs_text s))))"
        using ab tk by auto
    next
      assume "a \<le> ofs \<and> ofs \<le> b \<and> lsp_character p =
        int (sum_list (map (units (pm_encoding m)) (slice a ofs (fs_text s))))"
      with ab tk [of "ofs - a"] show "\<exists>k\<le>b - a. ofs = a + k \<and>
        int (0 + sum_list (map (units (pm_encoding m)) (take k (slice a b (fs_text s))))) = lsp_character p"
        by (intro exI [of _ "ofs - a"]) auto
    qed
  qed
  have eq: "lsp_to_text_offset m p = Inr ofs \<longleftrightarrow> \<not> lsp_character p < 0 \<and>
      seek_units (units (pm_encoding m)) (slice a b (fs_text s)) a 0 (lsp_character p) = Some ofs"
    using line by (auto simp: lsp_to_text_offset_def s_def a_def b_def Let_def split: option.splits)
  show ?thesis unfolding eq seek using True by (auto simp: a_def b_def)
qed

lemma line_of_offset:
  assumes ok: "snapshot_ok s" and "i \<le> length (fs_line_endings s)"
    and "fs_line_starts s ! i \<le> ofs" and "ofs \<le> fs_line_content_ends s ! i"
  shows "bisect_right (fs_line_starts s) ofs = Suc i"
proof (rule bisect_right_eq [OF snapshot_lines(8) [OF ok] snapshot_lines(1) [OF ok] assms(2,3)])
  assume "i < length (fs_line_endings s)"
  from snapshot_lines(9) [OF ok this] assms(4) show "ofs < fs_line_starts s ! Suc i" by simp
qed

lemma text_offset_to_lsp_cases:
  assumes ok: "snapshot_ok (pm_snapshot m)" and "ofs \<le> length (fs_text (pm_snapshot m))"
  defines "s \<equiv> pm_snapshot m"
  obtains (position) i where "i \<le> length (fs_line_endings s)" "fs_line_starts s ! i \<le> ofs"
      "ofs \<le> fs_line_content_ends s ! i"
      "text_offset_to_lsp m (int ofs) = Inr \<lparr>lsp_line = int i, lsp_character =
         int (sum_list (map (units (pm_encoding m)) (slice (fs_line_starts s ! i) ofs (fs_text s))))\<rparr>"
  | (newline) i where "i < length (fs_line_endings s)" "fs_line_content_ends s ! i < ofs"
      "ofs < fs_line_starts s ! Suc i"
      "text_offset_to_lsp m (int ofs) = Inl NewlinePosition"
proof -
  have ok': "snapshot_ok s" using ok by (simp add: s_def)
  have z: "fs_line_starts s ! 0 \<le> ofs" using snapshot_lines(3) [OF ok'] by simp
  from bisect_right_ex [OF snapshot_lines(8) [OF ok'] snapshot_lines(1) [OF ok'] z] obtain i where
    i: "i \<le> length (fs_line_endings s)" "fs_line_starts s ! i \<le> ofs"
      "i < length (fs_line_endings s) \<longrightarrow> ofs < fs_line_starts s ! Suc i"
      "bisect_right (fs_line_starts s) ofs = Suc i" by blast
  have chk: "check_text_offset m (int ofs) = Inr ()"
    using assms(2) by (simp add: check_text_offset_def)
  show ?thesis
  proof (cases "ofs \<le> fs_line_content_ends s ! i")
    case True
    with i chk show ?thesis
      by (intro position [of i]) (simp_all add: text_offset_to_lsp_def s_def Let_def)
  next
    case False
    have "i \<noteq> length (fs_line_endings s)"
      using False snapshot_lines(7) [OF ok'] assms(2) by (auto simp: s_def)
    with i have "i < length (fs_line_endings s)" by simp
    with i chk False show ?thesis
      by (intro newline [of i]) (simp_all add: text_offset_to_lsp_def s_def Let_def)
  qed
qed

lemma index_of_distinct:
  "k < length xs \<Longrightarrow> distinct xs \<Longrightarrow> index_of (xs ! k) xs = Some k"
  by (induction xs arbitrary: k) (auto simp: nth_Cons' split: if_splits)

lemma index_of_SomeD: "index_of x xs = Some k \<Longrightarrow> k < length xs \<and> xs ! k = x"
  by (induction xs arbitrary: k) (auto split: if_splits)

lemma encode_take_less:
  "i < j \<Longrightarrow> j \<le> length cs \<Longrightarrow> length (utf8_encode (take i cs)) < length (utf8_encode (take j cs))"
proof -
  have "length (utf8_encode xs) = sum_list (map (units UTF8) xs)" for xs
    by (induction xs) (simp_all add: units_def)
  then show "i < j \<Longrightarrow> j \<le> length cs \<Longrightarrow> length (utf8_encode (take i cs)) < length (utf8_encode (take j cs))"
    using enc.width_less [of i j cs UTF8] by simp
qed

lemma text_to_byte_distinct:
  assumes "snapshot_ok s"
  shows "distinct (fs_text_to_byte s)"
proof -
  have len: "length (fs_text_to_byte s) = Suc (length (fs_text s))"
    and nth: "k \<le> length (fs_text s) \<Longrightarrow>
      fs_text_to_byte s ! k = length (fs_bom s) + length (utf8_encode (take k (fs_text s)))" for k
    using assms by (simp_all add: snapshot_ok_def Let_def)
  show ?thesis
  proof (subst distinct_conv_nth, intro allI impI)
    fix i j assume "i < length (fs_text_to_byte s)" "j < length (fs_text_to_byte s)" "i \<noteq> j"
    then show "fs_text_to_byte s ! i \<noteq> fs_text_to_byte s ! j"
      using nth len encode_take_less [of i j "fs_text s"] encode_take_less [of j i "fs_text s"]
      by (cases "i < j") auto
  qed
qed

section \<open>Properties\<close>

lemma utf8_bom_first:
  assumes "list_all valid_cp cs" and "take 3 (utf8_encode cs) = BOM"
  shows "cs \<noteq> [] \<and> hd cs = 65279"
proof (cases cs)
  case (Cons c ds)
  have "decode_step (utf8_encode cs) = Some (c, utf8_encode ds)"
    using assms(1) Cons decode_step_encode [of c "utf8_encode ds"] by simp
  moreover obtain r where "utf8_encode cs = BOM @ r"
    using assms(2) by (metis append_take_drop_id)
  moreover have "decode_step (BOM @ r) = Some (65279, r)"
    by (simp add: BOM_def decode_step_def cont_def valid_cp_def)
  ultimately show ?thesis using Cons by simp
qed (use assms(2) in \<open>simp add: BOM_def\<close>)


lemma snapshot_byte:
  assumes "snapshot_ok s" and "k \<le> length (fs_text s)"
  shows "fs_text_to_byte s ! k = length (fs_bom s) + length (utf8_encode (take k (fs_text s)))"
    and "length (fs_text_to_byte s) = Suc (length (fs_text s))"
    and "fs_text_to_byte s ! k \<le> length (fs_raw_bytes s)"
proof -
  show nth: "fs_text_to_byte s ! k = length (fs_bom s) + length (utf8_encode (take k (fs_text s)))"
    and "length (fs_text_to_byte s) = Suc (length (fs_text s))"
    using assms by (simp_all add: snapshot_ok_def Let_def)
  have "utf8_encode (fs_text s) = utf8_encode (take k (fs_text s)) @ utf8_encode (drop k (fs_text s))"
    by (metis append_take_drop_id utf8_encode_simps(3))
  with assms(1) nth show "fs_text_to_byte s ! k \<le> length (fs_raw_bytes s)"
    by (simp add: snapshot_ok_def Let_def)
qed

lemma slice_middle: "slice (length a) (length a + length b) (a @ b @ c) = b"
  by (simp add: slice_def)

lemma bytes_of_slice:
  assumes ok: "snapshot_ok s" and i: "i \<le> length (fs_text s)" and j: "j \<le> length (fs_text s)"
  shows "utf8_encode (slice i j (fs_text s)) =
    slice (fs_text_to_byte s ! i) (fs_text_to_byte s ! j) (fs_raw_bytes s)"
proof (cases "i \<le> j")
  case True
  let ?t = "fs_text s"
  let ?a = "utf8_encode (take i ?t)" and ?b = "utf8_encode (slice i j ?t)" and ?c = "utf8_encode (drop j ?t)"
  have tj: "take j ?t = take i ?t @ slice i j ?t"
    using True by (simp add: slice_def take_add [symmetric])
  have "?t = take i ?t @ slice i j ?t @ drop j ?t"
    using tj by (metis append.assoc append_take_drop_id)
  then have "utf8_encode ?t = ?a @ ?b @ ?c" by (metis utf8_encode_simps(3))
  moreover have "fs_raw_bytes s = fs_bom s @ utf8_encode ?t"
    using ok by (simp add: snapshot_ok_def Let_def)
  ultimately have raw: "fs_raw_bytes s = (fs_bom s @ ?a) @ ?b @ ?c" by simp
  have bi: "fs_text_to_byte s ! i = length (fs_bom s @ ?a)" using snapshot_byte(1) [OF ok i] by simp
  have bj: "fs_text_to_byte s ! j = length (fs_bom s @ ?a) + length ?b"
    using snapshot_byte(1) [OF ok j] by (simp add: tj)
  show ?thesis unfolding bi bj raw by (rule slice_middle [symmetric])
next
  case False
  then have "fs_text_to_byte s ! j \<le> fs_text_to_byte s ! i"
    using snapshot_byte(1) [OF ok i] snapshot_byte(1) [OF ok j] encode_take_less [of j i "fs_text s"] i by simp
  with False show ?thesis by (simp add: slice_def)
qed

text \<open>
  C23: a snapshot keeps a file's bytes exactly: the raw bytes are the byte order mark, if
  there is one, followed by the UTF-8 encoding of the text; every file whose bytes are the
  encoding of some text is accepted, with that text, and a leading mark is not part of it.
\<close>

theorem snapshot_lossless:
  "(\<forall>raw s. from_bytes raw = Inr s \<longrightarrow>
      fs_raw_bytes s = raw \<and> raw = fs_bom s @ utf8_encode (fs_text s) \<and> list_all valid_cp (fs_text s)) \<and>
   (\<forall>cs. list_all valid_cp cs \<longrightarrow>
      (\<exists>s. from_bytes (BOM @ utf8_encode cs) = Inr s \<and> fs_text s = cs \<and> fs_bom s = BOM) \<and>
      ((cs = [] \<or> hd cs \<noteq> 65279) \<longrightarrow>
        (\<exists>s. from_bytes (utf8_encode cs) = Inr s \<and> fs_text s = cs \<and> fs_bom s = [])))"
proof (intro conjI allI impI)
  fix raw s assume "from_bytes raw = Inr s"
  from from_bytes_ok [OF this] show "fs_raw_bytes s = raw" "raw = fs_bom s @ utf8_encode (fs_text s)"
    "list_all valid_cp (fs_text s)" by (simp_all add: snapshot_ok_def Let_def)
next
  fix cs assume cs: "list_all valid_cp cs"
  from decode_encode [OF cs] show "\<exists>s. from_bytes (BOM @ utf8_encode cs) = Inr s \<and> fs_text s = cs \<and> fs_bom s = BOM"
    by (simp add: from_bytes_def BOM_def Let_def)
  assume "cs = [] \<or> hd cs \<noteq> 65279"
  with utf8_bom_first [OF cs] have "take 3 (utf8_encode cs) \<noteq> BOM" by auto
  with decode_encode [OF cs] show "\<exists>s. from_bytes (utf8_encode cs) = Inr s \<and> fs_text s = cs \<and> fs_bom s = []"
    by (simp add: from_bytes_def Let_def)
qed

text \<open>
  the line table cuts the text into its lines: the first starts at 0, each line but
  the last ends where the next starts and its terminator is a CRLF, LF or lone CR in the
  text, the content of a line has no newline character, and the last ends with the text.
\<close>

theorem line_table_partitions:
  assumes "from_bytes raw = Inr s" and "n = length (fs_line_endings s)"
  shows "length (fs_line_starts s) = Suc n \<and> length (fs_line_content_ends s) = Suc n \<and>
    length (fs_line_ends s) = Suc n \<and> fs_line_starts s ! 0 = 0 \<and>
    fs_line_content_ends s ! n = length (fs_text s) \<and> fs_line_ends s ! n = length (fs_text s) \<and>
    (\<forall>i < n. fs_line_starts s ! Suc i = fs_line_ends s ! i \<and>
       slice (fs_line_content_ends s ! i) (fs_line_ends s ! i) (fs_text s) = fs_line_endings s ! i \<and>
       fs_line_endings s ! i \<in> {[CR, LF], [LF], [CR]}) \<and>
    (\<forall>i \<le> n. fs_line_starts s ! i \<le> fs_line_content_ends s ! i \<and>
       CR \<notin> set (slice (fs_line_starts s ! i) (fs_line_content_ends s ! i) (fs_text s)) \<and>
       LF \<notin> set (slice (fs_line_starts s ! i) (fs_line_content_ends s ! i) (fs_text s)))"
proof -
  note ok = from_bytes_ok(1) [OF assms(1)]
  have mem: "\<exists>k. a \<le> k \<and> k < b \<and> xs ! k = c" if "c \<in> set (slice a b xs)" "b \<le> length xs" for a b c and xs :: "nat list"
  proof -
    from that(1) obtain k where k: "k < length (slice a b xs)" "slice a b xs ! k = c" by (auto simp: in_set_conv_nth)
    with that(2) have "k < b - a" by (simp add: slice_length)
    moreover from this k(2) have "xs ! (a + k) = c" using that(2) by (simp add: slice_def)
    ultimately show ?thesis by (intro exI [of _ "a + k"]) simp
  qed
  have two: "slice c (c + 2) xs = [xs ! c, xs ! (c + 1)]" if "c + 2 \<le> length xs" for c and xs :: "nat list"
    using that by (simp add: slice_def take_Suc_conv_app_nth numeral_2_eq_2)
  have one: "slice c (c + 1) xs = [xs ! c]" if "c + 1 \<le> length xs" for c and xs :: "nat list"
    using that by (simp add: slice_def take_Suc_conv_app_nth)
  have trm: "slice c l xs = e \<and> e \<in> {[CR, LF], [LF], [CR]}" if "terminator xs c l e" for c l e xs
    using that two [of c xs] one [of c xs] by (auto simp: terminator_def newline_def)
  have row: "a \<le> b \<and> CR \<notin> set (slice a b xs) \<and> LF \<notin> set (slice a b xs)" if "line_row xs a b" for a b xs
    using that mem [of CR a b xs] mem [of LF a b xs] by (auto simp: line_row_def newline_def)
  show ?thesis
    using ok trm row unfolding snapshot_ok_def Let_def assms(2) by blast
qed

text \<open>
  C21: for every snapshot and every position encoding, converting an LSP position to a
  text offset and back gives the position itself, and converting an offset to an LSP
  position and back gives the offset.
\<close>

theorem lsp_offset_roundtrip:
  assumes "from_bytes raw = Inr s" and "m = \<lparr>pm_snapshot = s, pm_encoding = e\<rparr>"
  shows "(lsp_to_text_offset m p = Inr ofs \<longrightarrow> text_offset_to_lsp m (int ofs) = Inr p) \<and>
    (text_offset_to_lsp m k = Inr p \<longrightarrow> lsp_to_text_offset m p = Inr (nat k))"
proof (intro conjI impI)
  have ok: "snapshot_ok (pm_snapshot m)" using from_bytes_ok(1) [OF assms(1)] assms(2) by simp
  show "text_offset_to_lsp m (int ofs) = Inr p" if "lsp_to_text_offset m p = Inr ofs"
  proof -
    let ?i = "nat (lsp_line p)"
    from that ok have *: "0 \<le> lsp_line p" "?i \<le> length (fs_line_endings s)"
      "fs_line_starts s ! ?i \<le> ofs" "ofs \<le> fs_line_content_ends s ! ?i"
      "lsp_character p = int (sum_list (map (units e) (slice (fs_line_starts s ! ?i) ofs (fs_text s))))"
      using lsp_to_text_offset_iff [OF ok] assms(2) by auto
    have oks: "snapshot_ok s" using ok assms(2) by simp
    have "ofs \<le> length (fs_text s)"
      using snapshot_lines(6) [OF oks *(2)] *(4) by (simp add: line_row_def)
    with line_of_offset [OF oks *(2-4)] *(1,4,5) assms(2) show ?thesis
      by (simp add: text_offset_to_lsp_def check_text_offset_def Let_def)
  qed
  show "lsp_to_text_offset m p = Inr (nat k)" if conv: "text_offset_to_lsp m k = Inr p"
  proof -
    have k: "0 \<le> k" "nat k \<le> length (fs_text (pm_snapshot m))"
      using conv by (auto simp: text_offset_to_lsp_def check_text_offset_def split: if_splits)
    from ok k(2) show ?thesis
    proof (cases rule: text_offset_to_lsp_cases)
      case (position i)
      with conv k(1) have p: "lsp_line p = int i"
        "lsp_character p = int (sum_list (map (units (pm_encoding m))
           (slice (fs_line_starts (pm_snapshot m) ! i) (nat k) (fs_text (pm_snapshot m)))))"
        by auto
      with position show ?thesis by (simp add: lsp_to_text_offset_iff [OF ok])
    next
      case (newline i)
      with conv k(1) show ?thesis by simp
    qed
  qed
qed

text \<open>
  The only offsets of a text without an LSP position are the ones between the two
  characters of a CRLF.
\<close>

theorem offset_without_position:
  assumes "from_bytes raw = Inr s" and "ofs \<le> length (fs_text s)"
  shows "text_offset_to_lsp \<lparr>pm_snapshot = s, pm_encoding = e\<rparr> (int ofs) = Inl NewlinePosition \<longleftrightarrow>
    0 < ofs \<and> ofs < length (fs_text s) \<and> fs_text s ! (ofs - 1) = CR \<and> fs_text s ! ofs = LF"
proof -
  define m where "m = \<lparr>pm_snapshot = s, pm_encoding = e\<rparr>"
  have ok: "snapshot_ok s" "snapshot_ok (pm_snapshot m)" using from_bytes_ok(1) [OF assms(1)] by (simp_all add: m_def)
  from ok(2) have "text_offset_to_lsp m (int ofs) = Inl NewlinePosition \<longleftrightarrow>
    0 < ofs \<and> ofs < length (fs_text s) \<and> fs_text s ! (ofs - 1) = CR \<and> fs_text s ! ofs = LF"
  proof (cases rule: text_offset_to_lsp_cases [where ofs = ofs and m = m, case_names len position newline])
    case len
    then show ?case using assms(2) by (simp add: m_def)
  next
    case (position i)
    have "\<not> (0 < ofs \<and> ofs < length (fs_text s) \<and> fs_text s ! (ofs - 1) = CR \<and> fs_text s ! ofs = LF)"
    proof
      assume crlf: "0 < ofs \<and> ofs < length (fs_text s) \<and> fs_text s ! (ofs - 1) = CR \<and> fs_text s ! ofs = LF"
      have i: "i \<le> length (fs_line_endings s)" "fs_line_starts s ! i \<le> ofs" "ofs \<le> fs_line_content_ends s ! i"
        using position by (simp_all add: m_def)
      have row: "line_row (fs_text s) (fs_line_starts s ! i) (fs_line_content_ends s ! i)"
        by (rule snapshot_lines(6) [OF ok(1) i(1)])
      have st: "ofs = fs_line_starts s ! i"
      proof (rule ccontr)
        assume "ofs \<noteq> fs_line_starts s ! i"
        then have "fs_line_starts s ! i \<le> ofs - 1" "ofs - 1 < fs_line_content_ends s ! i" using i crlf by auto
        with row crlf show False by (auto simp: line_row_def newline_def)
      qed
      with crlf snapshot_lines(3) [OF ok(1)] obtain j where j: "i = Suc j" by (cases i) auto
      have t: "terminator (fs_text s) (fs_line_content_ends s ! j) (fs_line_ends s ! j) (fs_line_endings s ! j)"
        and e: "fs_line_ends s ! j = ofs"
        using snapshot_lines(5,4) [OF ok(1), of j] i(1) j st by simp_all
      from t e crlf show False by (auto simp: terminator_def)
    qed
    with position show ?thesis by simp
  next
    case (newline i)
    have i: "i < length (fs_line_endings s)" "fs_line_content_ends s ! i < ofs" "ofs < fs_line_ends s ! i"
      using newline snapshot_lines(4) [OF ok(1), of i] by (simp_all add: m_def)
    from snapshot_lines(5) [OF ok(1) i(1)] i newline(4) show ?thesis
      by (auto simp: terminator_def less_Suc_eq)
  qed
  then show ?thesis by (simp add: m_def)
qed

text \<open>
  Text offsets and byte offsets convert one to one: a byte offset has a text offset
  exactly when that text offset's byte offset is it, so offsets inside the byte order
  mark or inside a multi-byte character have none.
\<close>

theorem byte_offset_roundtrip:
  assumes "from_bytes raw = Inr s" and "m = \<lparr>pm_snapshot = s, pm_encoding = e\<rparr>"
  shows "byte_offset_to_text_offset m (int b) = Inr k \<longleftrightarrow> text_offset_to_byte_offset m (int k) = Inr b"
proof -
  have ok: "snapshot_ok s" using from_bytes_ok(1) [OF assms(1)] .
  have len: "length (fs_text_to_byte s) = Suc (length (fs_text s))" using snapshot_byte(2) [OF ok, of 0] by simp
  show ?thesis
  proof
    assume "byte_offset_to_text_offset m (int b) = Inr k"
    then have "index_of b (fs_text_to_byte s) = Some k"
      using assms(2) by (auto simp: byte_offset_to_text_offset_def split: if_splits option.splits)
    from index_of_SomeD [OF this] len assms(2) show "text_offset_to_byte_offset m (int k) = Inr b"
      by (simp add: text_offset_to_byte_offset_def check_text_offset_def)
  next
    assume "text_offset_to_byte_offset m (int k) = Inr b"
    then have k: "k \<le> length (fs_text s)" "fs_text_to_byte s ! k = b"
      using assms(2) by (auto simp: text_offset_to_byte_offset_def check_text_offset_def split: if_splits)
    then have "index_of b (fs_text_to_byte s) = Some k"
      using index_of_distinct [of k "fs_text_to_byte s"] text_to_byte_distinct [OF ok] len by simp
    with snapshot_byte(3) [OF ok k(1)] k(2) assms(2) show "byte_offset_to_text_offset m (int b) = Inr k"
      by (simp add: byte_offset_to_text_offset_def)
  qed
qed

text \<open>
  C22: the public coordinates of a range and its text agree: the text of the range encodes
  to exactly the file's bytes between the two rendered byte offsets, and the columns count
  code points from the start of their line.
\<close>

theorem rendered_range_is_byte_range:
  assumes "from_bytes raw = Inr s" and "m = \<lparr>pm_snapshot = s, pm_encoding = e\<rparr>"
    and "render_text m p q = Inr t" and "render_range m p q = Inr (a, b)"
  shows "utf8_encode t = slice (pp_byte_offset a) (pp_byte_offset b) raw \<and>
    t = slice (pp_text_offset a) (pp_text_offset b) (fs_text s) \<and>
    pp_column a = int (pp_text_offset a) - int (fs_line_starts s ! nat (lsp_line p)) \<and> 0 \<le> pp_column a"
proof -
  have ok: "snapshot_ok s" "snapshot_ok (pm_snapshot m)"
    using from_bytes_ok(1) [OF assms(1)] assms(2) by simp_all
  from assms(3,4) obtain i j where ij: "lsp_to_text_offset m p = Inr i" "lsp_to_text_offset m q = Inr j"
    and t: "t = slice i j (fs_text s)"
    using assms(2) by (auto simp: render_text_def split: sum.splits)
  from ij(1) have pi: "nat (lsp_line p) \<le> length (fs_line_endings s)"
    "fs_line_starts s ! nat (lsp_line p) \<le> i" "i \<le> fs_line_content_ends s ! nat (lsp_line p)"
    using lsp_to_text_offset_iff [OF ok(2)] assms(2) by auto
  from ij(2) have qj: "nat (lsp_line q) \<le> length (fs_line_endings s)" "j \<le> fs_line_content_ends s ! nat (lsp_line q)"
    using lsp_to_text_offset_iff [OF ok(2)] assms(2) by auto
  have le: "i \<le> length (fs_text s)" "j \<le> length (fs_text s)"
    using snapshot_lines(6) [OF ok(1) pi(1)] snapshot_lines(6) [OF ok(1) qj(1)] pi(3) qj(2)
    by (auto simp: line_row_def)
  have ab: "pp_text_offset a = i" "pp_byte_offset a = fs_text_to_byte s ! i"
    "pp_column a = int i - int (fs_line_starts s ! nat (lsp_line p))"
    "pp_text_offset b = j" "pp_byte_offset b = fs_text_to_byte s ! j"
    using assms(2,4) ij
    by (auto simp: render_range_def render_position_def text_offset_to_byte_offset_def
        check_text_offset_def split: sum.splits if_splits)
  show ?thesis
    using bytes_of_slice [OF ok(1) le] from_bytes_ok(2) [OF assms(1)] ab t pi(2) by simp
qed

section \<open>Witnesses\<close>

text \<open>A byte order mark, \<open>a\<close>, U+1F600, CRLF, \<open>b\<close>.\<close>

definition demo_raw :: "nat list" where
  "demo_raw = [239, 187, 191, 97, 240, 159, 152, 128, 13, 10, 98]"

definition demo_snapshot :: file_snapshot where
  "demo_snapshot = \<lparr>fs_raw_bytes = demo_raw, fs_text = [97, 128512, 13, 10, 98],
     fs_encoding = ''utf-8'', fs_bom = BOM, fs_line_endings = [[13, 10]],
     fs_text_to_byte = [3, 4, 8, 9, 10, 11], fs_line_starts = [0, 4],
     fs_line_content_ends = [2, 5], fs_line_ends = [4, 5]\<rparr>"

lemma demo_decode: "utf8_decode [97, 240, 159, 152, 128, 13, 10, 98] = Some [97, 128512, 13, 10, 98]"
  by (simp add: utf8_decode.simps decode_step_def cont_def valid_cp_def)

lemma demo_from_bytes: "from_bytes demo_raw = Inr demo_snapshot"
  by (simp add: from_bytes_def demo_raw_def BOM_def demo_decode scan_lines.simps end_line_def
      encode_cp_def demo_snapshot_def)

definition demo_mapper :: position_mapper where
  "demo_mapper = \<lparr>pm_snapshot = demo_snapshot, pm_encoding = UTF16\<rparr>"

lemma snapshot_lossless_witness:
  "demo_raw = BOM @ utf8_encode [97, 128512, 13, 10, 98]"
proof -
  have "demo_raw = fs_bom demo_snapshot @ utf8_encode (fs_text demo_snapshot)"
    using snapshot_lossless demo_from_bytes by blast
  then show ?thesis by (simp only: demo_snapshot_def file_snapshot.simps)
qed

lemma line_table_partitions_witness:
  "slice 2 4 (fs_text demo_snapshot) = [CR, LF]"
proof -
  have n: "1 = length (fs_line_endings demo_snapshot)" by (simp add: demo_snapshot_def)
  from line_table_partitions [OF demo_from_bytes n] have
    "slice (fs_line_content_ends demo_snapshot ! 0) (fs_line_ends demo_snapshot ! 0) (fs_text demo_snapshot) =
       fs_line_endings demo_snapshot ! 0" by (metis zero_less_one)
  then show ?thesis by (simp add: demo_snapshot_def)
qed

lemmas position_eval = lsp_to_text_offset_def text_offset_to_byte_offset_def check_text_offset_def
  slice_def units_def demo_mapper_def demo_snapshot_def

lemma lsp_offset_roundtrip_witness:
  "text_offset_to_lsp demo_mapper 2 = Inr \<lparr>lsp_line = 0, lsp_character = 3\<rparr>"
proof -
  have "lsp_to_text_offset demo_mapper \<lparr>lsp_line = 0, lsp_character = 3\<rparr> = Inr 2"
    by (simp add: position_eval)
  with lsp_offset_roundtrip [OF demo_from_bytes demo_mapper_def, of "\<lparr>lsp_line = 0, lsp_character = 3\<rparr>" 2]
  show ?thesis by simp
qed

lemma offset_without_position_witness:
  "text_offset_to_lsp demo_mapper (int 3) = Inl NewlinePosition"
proof -
  have "3 \<le> length (fs_text demo_snapshot)" by (simp add: demo_snapshot_def)
  from offset_without_position [OF demo_from_bytes this, of UTF16] show ?thesis
    by (simp add: demo_mapper_def demo_snapshot_def)
qed

lemma byte_offset_roundtrip_witness: "byte_offset_to_text_offset demo_mapper (int 8) = Inr 2"
proof -
  have "text_offset_to_byte_offset demo_mapper (int 2) = Inr 8" by (simp add: position_eval)
  with byte_offset_roundtrip [OF demo_from_bytes demo_mapper_def] show ?thesis by blast
qed

lemma rendered_range_is_byte_range_witness:
  "utf8_encode [128512] = slice 4 8 demo_raw"
proof -
  let ?p = "\<lparr>lsp_line = 0, lsp_character = 1\<rparr>" and ?q = "\<lparr>lsp_line = 0, lsp_character = 3\<rparr>"
  have t: "render_text demo_mapper ?p ?q = Inr [128512]" by (simp add: render_text_def position_eval)
  have r: "render_range demo_mapper ?p ?q =
      Inr (\<lparr>pp_line = 0, pp_column = 1, pp_text_offset = 1, pp_byte_offset = 4\<rparr>,
           \<lparr>pp_line = 0, pp_column = 2, pp_text_offset = 2, pp_byte_offset = 8\<rparr>)"
    by (simp add: render_range_def render_position_def position_eval)
  from rendered_range_is_byte_range [OF demo_from_bytes demo_mapper_def t r, THEN conjunct1] show ?thesis
    by (simp only: public_position.simps)
qed

end
