(* ===== verification/Executor.thy ===== *)
theory Executor
  imports PyText
begin

text \<open>
  The bounded single-worker executor of a workspace (\<open>lsp/executor.py\<close>).  Client threads
  submit, cancel or close; one worker thread takes entries off the queue; the thread whose
  \<open>close\<close> found the executor running is the closer.  A slice of a thread between two
  accesses to shared state is one function on the executor's state, and \<open>exec_step\<close>
  interleaves them.  A submitted call is represented by what it will return or raise when
  it runs, or by \<open>None\<close> when it never comes back.
\<close>

section \<open>Commit progress of one edit\<close>

datatype EditCommitState = QUEUED | RUNNING | INSTALLED | DONE

definition COMMIT_ORDER :: "EditCommitState list" where
  "COMMIT_ORDER = [QUEUED, RUNNING, INSTALLED, DONE]"

fun commit_value :: "EditCommitState \<Rightarrow> string" where
  "commit_value QUEUED = ''queued''"
| "commit_value RUNNING = ''running''"
| "commit_value INSTALLED = ''installed''"
| "commit_value DONE = ''done''"

fun index_of :: "'a \<Rightarrow> 'a list \<Rightarrow> nat" where
  "index_of x [] = 0"
| "index_of x (y # ys) = (if x = y then 0 else Suc (index_of x ys))"

definition commit_init :: EditCommitState where
  "commit_init = QUEUED"

definition commit_advance :: "EditCommitState \<Rightarrow> EditCommitState \<Rightarrow> (EditCommitState, unit) outcome" where
  "commit_advance cur state =
     (if index_of state COMMIT_ORDER \<le> index_of cur COMMIT_ORDER
      then (cur, Inl (ValueError (''edit commit cannot move from '' @ commit_value cur @ '' to '' @ commit_value state)))
      else (state, Inr ()))"

definition commit_installed :: "EditCommitState \<Rightarrow> bool" where
  "commit_installed cur \<longleftrightarrow> cur \<in> {INSTALLED, DONE}"

definition mark_running :: "EditCommitState \<Rightarrow> (EditCommitState, unit) outcome" where
  "mark_running cur = commit_advance cur RUNNING"

definition mark_installed :: "EditCommitState \<Rightarrow> (EditCommitState, unit) outcome" where
  "mark_installed cur = commit_advance cur INSTALLED"

definition mark_done :: "EditCommitState \<Rightarrow> (EditCommitState, unit) outcome" where
  "mark_done cur = commit_advance cur DONE"

section \<open>Data\<close>

text \<open>The states of \<open>concurrent.futures.Future\<close>; a finished one holds its outcome.\<close>

datatype 'v future_state =
    F_PENDING
  | F_RUNNING
  | F_CANCELLED
  | F_CANCELLED_AND_NOTIFIED
  | F_FINISHED "py_exn + 'v"

record 'v work_item =
  wi_future :: nat
  wi_call :: "(py_exn + 'v) option"
  wi_cleanup :: bool

datatype 'v entry = Work "'v work_item" | STOP

text \<open>Where the worker stands in \<open>_run\<close>.\<close>

datatype 'v worker_pc =
    W_get
  | W_got "'v entry"
  | W_claim "'v work_item"
  | W_enter "'v work_item"
  | W_call "'v work_item"
  | W_leave
  | W_task_done
  | W_last
  | W_exit
  | W_crashed

text \<open>Where the closing thread stands in \<open>close\<close> and \<open>_cancel_queued\<close>.\<close>

datatype 'v closer_pc =
    C_none
  | C_cancel
  | C_held "'v entry"
  | C_drop "'v work_item"
  | C_task_done
  | C_put
  | C_full
  | C_join

record 'v executor =
  ex_queue :: "'v entry list"
  ex_unfinished :: int
  ex_capacity :: nat
  ex_ordinary :: int
  ex_cleanup :: int
  ex_active :: bool
  ex_stopping :: bool
  ex_futures :: "nat \<rightharpoonup> 'v future_state"
  ex_worker :: "'v worker_pc"
  ex_closer :: "'v closer_pc"

datatype exec_exn =
    ExecutorBusyError string
  | ExecRuntimeError string
  | ExecValueError string
  | ExecTimeoutError string

definition CLEANUP_RESERVE :: nat where
  "CLEANUP_RESERVE = 2"

definition maxsize :: "'v executor \<Rightarrow> nat" where
  "maxsize s = ex_capacity s + CLEANUP_RESERVE"

definition executor_init :: "int \<Rightarrow> exec_exn + 'v executor" where
  "executor_init queue_capacity =
     (if queue_capacity < 1 then Inl (ExecValueError ''queue_capacity must be positive'')
      else Inr \<lparr>ex_queue = [], ex_unfinished = 0, ex_capacity = nat queue_capacity,
             ex_ordinary = 0, ex_cleanup = 0, ex_active = False, ex_stopping = False,
             ex_futures = Map.empty, ex_worker = W_get, ex_closer = C_none\<rparr>)"

section \<open>The queue and the futures\<close>

text \<open>\<open>put_nowait\<close>: \<open>None\<close> is \<open>queue.Full\<close>.\<close>

definition put_nowait :: "'v entry \<Rightarrow> 'v executor \<Rightarrow> 'v executor option" where
  "put_nowait e s =
     (if length (ex_queue s) < maxsize s
      then Some (s\<lparr>ex_queue := ex_queue s @ [e], ex_unfinished := ex_unfinished s + 1\<rparr>)
      else None)"

definition task_done :: "'v executor \<Rightarrow> 'v executor" where
  "task_done s = s\<lparr>ex_unfinished := ex_unfinished s - 1\<rparr>"

text \<open>\<open>Future.cancel\<close>: only a pending future becomes cancelled.\<close>

definition cancel_state :: "'v future_state \<Rightarrow> 'v future_state \<times> bool" where
  "cancel_state st = (case st of
       F_PENDING \<Rightarrow> (F_CANCELLED, True)
     | F_RUNNING \<Rightarrow> (F_RUNNING, False)
     | F_CANCELLED \<Rightarrow> (F_CANCELLED, True)
     | F_CANCELLED_AND_NOTIFIED \<Rightarrow> (F_CANCELLED_AND_NOTIFIED, True)
     | F_FINISHED r \<Rightarrow> (F_FINISHED r, False))"

definition future_cancel :: "nat \<Rightarrow> 'v executor \<Rightarrow> 'v executor \<times> bool" where
  "future_cancel f s = (case ex_futures s f of
       None \<Rightarrow> (s, False)
     | Some st \<Rightarrow> (s\<lparr>ex_futures := (ex_futures s)(f \<mapsto> fst (cancel_state st))\<rparr>, snd (cancel_state st)))"

section \<open>Submission\<close>

definition submit :: "nat \<Rightarrow> (py_exn + 'v) option \<Rightarrow> 'v executor \<Rightarrow> 'v executor \<times> (exec_exn + nat)" where
  "submit future call s =
     (if ex_stopping s then (s, Inl (ExecRuntimeError ''LSP executor is stopping''))
      else if ex_ordinary s \<ge> int (ex_capacity s)
      then (s, Inl (ExecutorBusyError (''LSP executor queue is full ('' @ show_nat (ex_capacity s) @ '')'')))
      else case put_nowait (Work \<lparr>wi_future = future, wi_call = call, wi_cleanup = False\<rparr>) s of
        None \<Rightarrow> (s, Inl (ExecutorBusyError (''LSP executor queue is full ('' @ show_nat (ex_capacity s) @ '')'')))
      | Some t \<Rightarrow> (t\<lparr>ex_ordinary := ex_ordinary t + 1, ex_futures := (ex_futures t)(future \<mapsto> F_PENDING)\<rparr>,
                   Inr future))"

definition submit_cleanup :: "nat \<Rightarrow> (py_exn + 'v) option \<Rightarrow> 'v executor \<Rightarrow> 'v executor \<times> (exec_exn + nat)" where
  "submit_cleanup future call s =
     (if ex_stopping s then (s, Inl (ExecRuntimeError ''LSP executor is stopping''))
      else if ex_cleanup s \<ge> int CLEANUP_RESERVE
      then (s, Inl (ExecutorBusyError ''LSP executor cleanup reserve is full''))
      else case put_nowait (Work \<lparr>wi_future = future, wi_call = call, wi_cleanup = True\<rparr>) s of
        None \<Rightarrow> (s, Inl (ExecutorBusyError ''LSP executor cleanup reserve is full''))
      | Some t \<Rightarrow> (t\<lparr>ex_cleanup := ex_cleanup t + 1, ex_futures := (ex_futures t)(future \<mapsto> F_PENDING)\<rparr>,
                   Inr future))"

record executor_snapshot =
  es_queue_size :: int
  es_queue_capacity :: nat
  es_active :: bool
  es_stopping :: bool

definition exec_snapshot :: "'v executor \<Rightarrow> executor_snapshot" where
  "exec_snapshot s = \<lparr>es_queue_size = ex_ordinary s, es_queue_capacity = ex_capacity s,
     es_active = ex_active s, es_stopping = ex_stopping s\<rparr>"

section \<open>Closing\<close>

text \<open>
  \<open>close\<close> up to its first wait: the thread that sets \<open>_stopping\<close> becomes the closer, any
  later one only joins the worker.
\<close>

definition close_begin :: "bool \<Rightarrow> real \<Rightarrow> 'v executor \<Rightarrow> 'v executor \<times> (exec_exn + unit)" where
  "close_begin cancel_queued timeout s =
     (if timeout \<le> 0 then (s, Inl (ExecValueError ''timeout must be positive''))
      else if ex_stopping s then (s, Inr ())
      else (s\<lparr>ex_stopping := True, ex_closer := (if cancel_queued then C_cancel else C_put)\<rparr>, Inr ()))"

definition account :: "'v work_item \<Rightarrow> 'v executor \<Rightarrow> 'v executor" where
  "account i s = (if wi_cleanup i then s\<lparr>ex_cleanup := ex_cleanup s - 1\<rparr>
                  else s\<lparr>ex_ordinary := ex_ordinary s - 1\<rparr>)"

definition cancel_get :: "'v executor \<Rightarrow> 'v executor" where
  "cancel_get s = (case ex_queue s of
       [] \<Rightarrow> s\<lparr>ex_closer := C_put\<rparr>
     | e # q \<Rightarrow> s\<lparr>ex_queue := q, ex_closer := C_held e\<rparr>)"

definition cancel_account :: "'v entry \<Rightarrow> 'v executor \<Rightarrow> 'v executor" where
  "cancel_account e s = (case e of
       STOP \<Rightarrow> s\<lparr>ex_closer := C_task_done\<rparr>
     | Work i \<Rightarrow> (account i s)\<lparr>ex_closer := C_drop i\<rparr>)"

definition cancel_item :: "'v work_item \<Rightarrow> 'v executor \<Rightarrow> 'v executor" where
  "cancel_item i s = (fst (future_cancel (wi_future i) s))\<lparr>ex_closer := C_task_done\<rparr>"

text \<open>\<open>put(_STOP, timeout)\<close> returns once there is room; \<open>put_stop_timeout\<close> is its \<open>queue.Full\<close>.\<close>

definition put_stop :: "'v executor \<Rightarrow> 'v executor option" where
  "put_stop s = map_option (\<lambda>t. t\<lparr>ex_closer := C_join\<rparr>) (put_nowait STOP s)"

definition put_stop_timeout :: "'v executor \<Rightarrow> 'v executor option" where
  "put_stop_timeout s =
     (if ex_closer s = C_put \<and> \<not> length (ex_queue s) < maxsize s then Some (s\<lparr>ex_closer := C_full\<rparr>) else None)"

definition closer_step :: "'v executor \<Rightarrow> 'v executor option" where
  "closer_step s = (case ex_closer s of
       C_cancel \<Rightarrow> Some (cancel_get s)
     | C_held e \<Rightarrow> Some (cancel_account e s)
     | C_drop i \<Rightarrow> Some (cancel_item i s)
     | C_task_done \<Rightarrow> Some ((task_done s)\<lparr>ex_closer := C_cancel\<rparr>)
     | C_put \<Rightarrow> put_stop s
     | _ \<Rightarrow> None)"

text \<open>The end of \<open>close\<close>, after the join has waited for the worker.\<close>

definition close_join :: "'v executor \<Rightarrow> exec_exn + unit" where
  "close_join s = (if ex_worker s \<in> {W_exit, W_crashed} then Inr ()
     else Inl (ExecTimeoutError ''LSP executor did not reach its bounded terminal state''))"

section \<open>The worker\<close>

definition work_get :: "'v executor \<Rightarrow> 'v executor option" where
  "work_get s = (case ex_queue s of
       [] \<Rightarrow> None
     | e # q \<Rightarrow> Some (s\<lparr>ex_queue := q, ex_worker := W_got e\<rparr>))"

definition work_account :: "'v entry \<Rightarrow> 'v executor \<Rightarrow> 'v executor" where
  "work_account e s = (case e of
       STOP \<Rightarrow> s\<lparr>ex_worker := W_last\<rparr>
     | Work i \<Rightarrow> (account i s)\<lparr>ex_worker := W_claim i\<rparr>)"

text \<open>
  \<open>set_running_or_notify_cancel\<close>: a future that is neither pending nor cancelled makes it
  raise, which ends the thread after its \<open>finally\<close>.
\<close>

definition work_claim :: "'v work_item \<Rightarrow> 'v executor \<Rightarrow> 'v executor" where
  "work_claim i s = (case ex_futures s (wi_future i) of
       Some F_CANCELLED \<Rightarrow>
         s\<lparr>ex_futures := (ex_futures s)(wi_future i \<mapsto> F_CANCELLED_AND_NOTIFIED), ex_worker := W_task_done\<rparr>
     | Some F_PENDING \<Rightarrow>
         s\<lparr>ex_futures := (ex_futures s)(wi_future i \<mapsto> F_RUNNING), ex_worker := W_enter i\<rparr>
     | _ \<Rightarrow> (task_done s)\<lparr>ex_worker := W_crashed\<rparr>)"

text \<open>
  The call and \<open>set_result\<close> or \<open>set_exception\<close>, which raise \<open>InvalidStateError\<close> on a future
  that is already cancelled or finished.  \<open>None\<close>: the call does not come back.
\<close>

definition work_call :: "'v work_item \<Rightarrow> 'v executor \<Rightarrow> 'v executor option" where
  "work_call i s = (case wi_call i of
       None \<Rightarrow> None
     | Some r \<Rightarrow> Some (case ex_futures s (wi_future i) of
           Some F_RUNNING \<Rightarrow>
             s\<lparr>ex_futures := (ex_futures s)(wi_future i \<mapsto> F_FINISHED r), ex_worker := W_leave\<rparr>
         | Some F_PENDING \<Rightarrow>
             s\<lparr>ex_futures := (ex_futures s)(wi_future i \<mapsto> F_FINISHED r), ex_worker := W_leave\<rparr>
         | _ \<Rightarrow> (task_done s)\<lparr>ex_active := False, ex_worker := W_crashed\<rparr>))"

definition worker_step :: "'v executor \<Rightarrow> 'v executor option" where
  "worker_step s = (case ex_worker s of
       W_get \<Rightarrow> work_get s
     | W_got e \<Rightarrow> Some (work_account e s)
     | W_claim i \<Rightarrow> Some (work_claim i s)
     | W_enter i \<Rightarrow> Some (s\<lparr>ex_active := True, ex_worker := W_call i\<rparr>)
     | W_call i \<Rightarrow> work_call i s
     | W_leave \<Rightarrow> Some (s\<lparr>ex_active := False, ex_worker := W_task_done\<rparr>)
     | W_task_done \<Rightarrow> Some ((task_done s)\<lparr>ex_worker := W_get\<rparr>)
     | W_last \<Rightarrow> Some ((task_done s)\<lparr>ex_worker := W_exit\<rparr>)
     | W_exit \<Rightarrow> None
     | W_crashed \<Rightarrow> None)"

section \<open>Interleavings\<close>

definition exec_init :: "'v executor \<Rightarrow> bool" where
  "exec_init s \<longleftrightarrow> (\<exists>c. executor_init c = Inr s)"

inductive exec_step :: "'v executor \<Rightarrow> 'v executor \<Rightarrow> bool" where
  step_submit: "ex_futures s f = None \<Longrightarrow> exec_step s (fst (submit f call s))"
| step_submit_cleanup: "ex_futures s f = None \<Longrightarrow> exec_step s (fst (submit_cleanup f call s))"
| step_cancel: "exec_step s (fst (future_cancel f s))"
| step_close: "exec_step s (fst (close_begin cancel_queued timeout s))"
| step_closer: "closer_step s = Some t \<Longrightarrow> exec_step s t"
| step_put_timeout: "put_stop_timeout s = Some t \<Longrightarrow> exec_step s t"
| step_worker: "worker_step s = Some t \<Longrightarrow> exec_step s t"

section \<open>Invariant\<close>

definition works :: "'v entry list \<Rightarrow> 'v work_item list" where
  "works q = concat (map (\<lambda>e. case e of Work i \<Rightarrow> [i] | STOP \<Rightarrow> []) q)"

lemma works_simps [simp]:
  "works [] = []" "works (Work i # q) = i # works q" "works (STOP # q) = works q"
  "works (q @ q') = works q @ works q'"
  by (simp_all add: works_def)

lemma works_no_stop: "STOP \<notin> set q \<Longrightarrow> length (works q) = length q"
proof (induction q)
  case (Cons e q)
  then show ?case by (cases e) auto
qed simp

text \<open>Items taken off the queue: not yet accounted, and not yet claimed or dropped.\<close>

fun worker_got :: "'v worker_pc \<Rightarrow> 'v work_item list" where
  "worker_got (W_got (Work i)) = [i]"
| "worker_got _ = []"

fun closer_got :: "'v closer_pc \<Rightarrow> 'v work_item list" where
  "closer_got (C_held (Work i)) = [i]"
| "closer_got _ = []"

fun worker_waiting :: "'v worker_pc \<Rightarrow> 'v work_item list" where
  "worker_waiting (W_got (Work i)) = [i]"
| "worker_waiting (W_claim i) = [i]"
| "worker_waiting _ = []"

fun closer_waiting :: "'v closer_pc \<Rightarrow> 'v work_item list" where
  "closer_waiting (C_held (Work i)) = [i]"
| "closer_waiting (C_drop i) = [i]"
| "closer_waiting _ = []"

fun worker_running :: "'v worker_pc \<Rightarrow> 'v work_item list" where
  "worker_running (W_enter i) = [i]"
| "worker_running (W_call i) = [i]"
| "worker_running _ = []"

fun worker_busy :: "'v worker_pc \<Rightarrow> int" where
  "worker_busy W_get = 0"
| "worker_busy W_exit = 0"
| "worker_busy W_crashed = 0"
| "worker_busy _ = 1"

fun closer_busy :: "'v closer_pc \<Rightarrow> int" where
  "closer_busy (C_held e) = 1"
| "closer_busy (C_drop i) = 1"
| "closer_busy C_task_done = 1"
| "closer_busy _ = 0"

fun worker_stops :: "'v worker_pc \<Rightarrow> bool" where
  "worker_stops (W_got STOP) = True"
| "worker_stops W_last = True"
| "worker_stops W_exit = True"
| "worker_stops _ = False"

definition counted :: "'v executor \<Rightarrow> 'v work_item list" where
  "counted s = worker_got (ex_worker s) @ closer_got (ex_closer s) @ works (ex_queue s)"

definition unclaimed :: "'v executor \<Rightarrow> 'v work_item list" where
  "unclaimed s = worker_waiting (ex_worker s) @ closer_waiting (ex_closer s) @ works (ex_queue s)"

definition kind_count :: "bool \<Rightarrow> 'v work_item list \<Rightarrow> int" where
  "kind_count b is = int (length (filter (\<lambda>i. wi_cleanup i = b) is))"

fun settled :: "'v future_state \<Rightarrow> bool" where
  "settled F_PENDING = False"
| "settled F_RUNNING = False"
| "settled _ = True"

definition counters_ok :: "'v executor \<Rightarrow> bool" where
  "counters_ok s \<longleftrightarrow> ex_ordinary s = kind_count False (counted s) \<and>
     ex_cleanup s = kind_count True (counted s) \<and>
     ex_ordinary s \<le> int (ex_capacity s) \<and> ex_cleanup s \<le> int CLEANUP_RESERVE \<and>
     ex_unfinished s = int (length (ex_queue s)) + worker_busy (ex_worker s) + closer_busy (ex_closer s)"

definition stop_ok :: "'v executor \<Rightarrow> bool" where
  "stop_ok s \<longleftrightarrow> (ex_stopping s \<longleftrightarrow> ex_closer s \<noteq> C_none) \<and> ex_closer s \<noteq> C_held STOP \<and>
     (if ex_closer s = C_join
      then (\<exists>is. ex_queue s = map Work is @ [STOP]) \<and> \<not> worker_stops (ex_worker s)
        \<or> ex_queue s = [] \<and> worker_stops (ex_worker s)
      else STOP \<notin> set (ex_queue s) \<and> \<not> worker_stops (ex_worker s)) \<and>
     length (ex_queue s) \<le> maxsize s"

text \<open>The futures against the running item \<open>R\<close> and the unclaimed items \<open>U\<close>.\<close>

definition fut_inv :: "'v work_item list \<Rightarrow> 'v work_item list \<Rightarrow> (nat \<rightharpoonup> 'v future_state) \<Rightarrow> bool" where
  "fut_inv R U M \<longleftrightarrow> distinct (map wi_future (R @ U)) \<and>
     (\<forall>i\<in>set U. M (wi_future i) \<in> {Some F_PENDING, Some F_CANCELLED}) \<and>
     (\<forall>i\<in>set R. M (wi_future i) = Some F_RUNNING) \<and>
     (\<forall>f st. M f = Some st \<longrightarrow> \<not> settled st \<longrightarrow> f \<in> wi_future ` set (R @ U))"

definition futures_ok :: "'v executor \<Rightarrow> bool" where
  "futures_ok s \<longleftrightarrow> fut_inv (worker_running (ex_worker s)) (unclaimed s) (ex_futures s)"

definition worker_ok :: "'v executor \<Rightarrow> bool" where
  "worker_ok s \<longleftrightarrow> ex_worker s \<noteq> W_crashed \<and> 1 \<le> ex_capacity s \<and>
     (ex_active s \<longleftrightarrow> (\<exists>i. ex_worker s = W_call i) \<or> ex_worker s = W_leave)"

definition exec_inv :: "'v executor \<Rightarrow> bool" where
  "exec_inv s \<longleftrightarrow> counters_ok s \<and> stop_ok s \<and> futures_ok s \<and> worker_ok s"

lemmas exec_inv_simps =
  exec_inv_def counters_ok_def stop_ok_def futures_ok_def worker_ok_def counted_def unclaimed_def

lemmas slice_simps = cancel_get_def cancel_account_def cancel_item_def put_stop_def put_stop_timeout_def
  work_get_def work_account_def work_claim_def work_call_def account_def task_done_def put_nowait_def
  maxsize_def

lemma kind_count_simps [simp]:
  "kind_count b [] = 0"
  "kind_count b (i # is) = (if wi_cleanup i = b then 1 else 0) + kind_count b is"
  "kind_count b (is @ js) = kind_count b is + kind_count b js"
  by (simp_all add: kind_count_def)

lemma kind_count_nonneg [simp]: "0 \<le> kind_count b is"
  by (simp add: kind_count_def)

lemma kind_count_total: "kind_count False is + kind_count True is = int (length is)"
  by (induction "is") auto

lemma exec_init_inv: "exec_init s \<Longrightarrow> exec_inv s"
  by (auto simp: exec_init_def executor_init_def exec_inv_simps fut_inv_def maxsize_def split: if_splits)

lemma room_for_work:
  assumes "counters_ok s" and "stop_ok s" and "\<not> ex_stopping s"
    and "ex_ordinary s < int (ex_capacity s) \<or> ex_cleanup s < int CLEANUP_RESERVE"
  shows "length (ex_queue s) < maxsize s"
proof -
  from assms(2,3) have "STOP \<notin> set (ex_queue s)" by (auto simp: stop_ok_def)
  then have "int (length (ex_queue s)) = kind_count False (works (ex_queue s)) + kind_count True (works (ex_queue s))"
    by (simp add: kind_count_total works_no_stop)
  also have "\<dots> \<le> ex_ordinary s + ex_cleanup s"
    using assms(1) by (simp add: counters_ok_def counted_def)
  also have "\<dots> < int (maxsize s)"
    using assms(1,4) by (auto simp: counters_ok_def maxsize_def)
  finally show ?thesis by simp
qed

lemma fut_inv_perm:
  assumes "fut_inv R U M" and "set U' = set U" and "length U' = length U" shows "fut_inv R U' M"
proof -
  have "distinct (map wi_future (R @ U')) \<longleftrightarrow> distinct (map wi_future (R @ U))"
  proof -
    have "card (set (map wi_future (R @ U'))) = card (set (map wi_future (R @ U)))"
      using assms(2) by simp
    moreover have "length (map wi_future (R @ U')) = length (map wi_future (R @ U))"
      using assms(3) by simp
    ultimately show ?thesis by (metis card_distinct distinct_card)
  qed
  with assms show ?thesis unfolding fut_inv_def by (simp only: set_append simp_thms) blast
qed

lemma fut_inv_add:
  assumes "fut_inv R U M" and "M (wi_future i) = None"
  shows "fut_inv R (U @ [i]) (M(wi_future i \<mapsto> F_PENDING))"
proof -
  have "\<forall>j\<in>set (R @ U). M (wi_future j) \<noteq> None"
    using assms(1) by (auto simp: fut_inv_def)
  then have "\<forall>j\<in>set (R @ U). wi_future j \<noteq> wi_future i" using assms(2) by metis
  then show ?thesis using assms(1) by (auto simp: fut_inv_def)
qed

lemma fut_inv_cancel:
  assumes "fut_inv R U M" and "M f = Some st" shows "fut_inv R U (M(f \<mapsto> fst (cancel_state st)))"
  using assms by (cases st) (auto simp: fut_inv_def cancel_state_def)

lemma fut_inv_distinct_head:
  "fut_inv R (i # U) M \<Longrightarrow> j \<in> set (R @ U) \<Longrightarrow> wi_future j \<noteq> wi_future i"
  by (auto simp: fut_inv_def rev_image_eqI)

lemma fut_inv_settle:
  assumes "fut_inv R (i # U) M" and "settled st" shows "fut_inv R U (M(wi_future i \<mapsto> st))"
proof -
  have "\<forall>j\<in>set (R @ U). wi_future j \<noteq> wi_future i" using fut_inv_distinct_head [OF assms(1)] by blast
  then show ?thesis using assms unfolding fut_inv_def by auto
qed

lemma fut_inv_claim:
  assumes "fut_inv [] (i # U) M" shows "fut_inv [i] U (M(wi_future i \<mapsto> F_RUNNING))"
proof -
  have "\<forall>j\<in>set U. wi_future j \<noteq> wi_future i" using fut_inv_distinct_head [OF assms(1)] by simp
  then show ?thesis using assms unfolding fut_inv_def by auto
qed

lemma fut_inv_finish:
  assumes "fut_inv [i] U M" shows "fut_inv [] U (M(wi_future i \<mapsto> F_FINISHED r))"
proof -
  have "\<forall>j\<in>set U. wi_future j \<noteq> wi_future i" using assms by (auto simp: fut_inv_def)
  then show ?thesis using assms unfolding fut_inv_def by auto
qed

lemma futures_ok_submit:
  assumes "futures_ok s" and "ex_futures s (wi_future i) = None"
    and "ex_queue t = ex_queue s @ [Work i]" and "ex_futures t = (ex_futures s)(wi_future i \<mapsto> F_PENDING)"
    and "ex_worker t = ex_worker s" and "ex_closer t = ex_closer s"
  shows "futures_ok t"
  using fut_inv_add [of "worker_running (ex_worker s)" "unclaimed s" "ex_futures s" i] assms
  by (simp add: futures_ok_def unclaimed_def)

lemma enqueue_inv:
  assumes "exec_inv s" and "ex_futures s (wi_future i) = None" and "\<not> ex_stopping s"
    and "length (ex_queue s) < maxsize s"
    and "wi_cleanup i \<Longrightarrow> ex_cleanup s < int CLEANUP_RESERVE"
    and "\<not> wi_cleanup i \<Longrightarrow> ex_ordinary s < int (ex_capacity s)"
  shows "exec_inv (s\<lparr>ex_queue := ex_queue s @ [Work i], ex_unfinished := ex_unfinished s + 1,
     ex_ordinary := ex_ordinary s + (if wi_cleanup i then 0 else 1),
     ex_cleanup := ex_cleanup s + (if wi_cleanup i then 1 else 0),
     ex_futures := (ex_futures s)(wi_future i \<mapsto> F_PENDING)\<rparr>)" (is "exec_inv ?t")
proof -
  have "futures_ok ?t"
    using futures_ok_submit [of s i ?t] assms(1,2) by (simp add: exec_inv_def)
  moreover have "counters_ok ?t"
    using assms(1,3-) by (cases "wi_cleanup i") (auto simp: exec_inv_def counters_ok_def counted_def)
  moreover have "stop_ok ?t"
    using assms by (simp add: exec_inv_def stop_ok_def maxsize_def)
  moreover have "worker_ok ?t"
    using assms by (simp add: exec_inv_def worker_ok_def)
  ultimately show ?thesis by (simp add: exec_inv_def)
qed

lemma submit_inv:
  assumes "exec_inv s" and "ex_futures s f = None"
  shows "exec_inv (fst (submit f call s))"
proof (cases "ex_stopping s \<or> ex_ordinary s \<ge> int (ex_capacity s)")
  case True
  with assms show ?thesis by (auto simp: submit_def)
next
  case False
  with assms have room: "length (ex_queue s) < maxsize s"
    by (intro room_for_work) (auto simp: exec_inv_def)
  with False assms enqueue_inv [of s "\<lparr>wi_future = f, wi_call = call, wi_cleanup = False\<rparr>"]
  show ?thesis by (simp add: submit_def put_nowait_def)
qed

lemma submit_cleanup_inv:
  assumes "exec_inv s" and "ex_futures s f = None"
  shows "exec_inv (fst (submit_cleanup f call s))"
proof (cases "ex_stopping s \<or> ex_cleanup s \<ge> int CLEANUP_RESERVE")
  case True
  with assms show ?thesis by (auto simp: submit_cleanup_def)
next
  case False
  with assms have room: "length (ex_queue s) < maxsize s"
    by (intro room_for_work) (auto simp: exec_inv_def)
  with False assms enqueue_inv [of s "\<lparr>wi_future = f, wi_call = call, wi_cleanup = True\<rparr>"]
  show ?thesis by (simp add: submit_cleanup_def put_nowait_def)
qed

lemma future_cancel_inv:
  assumes "exec_inv s" shows "exec_inv (fst (future_cancel f s))"
  using assms fut_inv_cancel
  by (cases "ex_futures s f") (auto simp: future_cancel_def exec_inv_simps maxsize_def)

lemma close_begin_inv:
  "exec_inv s \<Longrightarrow> exec_inv (fst (close_begin c timeout s))"
  by (auto simp: close_begin_def exec_inv_simps maxsize_def)

lemma front_moves:
  "fut_inv R (xs @ ys @ i # zs) M \<Longrightarrow> fut_inv R (i # xs @ ys @ zs) M"
  "fut_inv R (xs @ i # zs) M \<Longrightarrow> fut_inv R (i # xs @ zs) M"
  "fut_inv R (i # xs @ zs) M \<Longrightarrow> fut_inv R (xs @ i # zs) M"
  by (erule fut_inv_perm; auto)+

lemma cancel_get_inv:
  assumes "exec_inv s" and "ex_closer s = C_cancel" shows "exec_inv (cancel_get s)"
proof (cases "ex_queue s")
  case (Cons e q)
  with assms show ?thesis
    by (cases e) (auto simp: exec_inv_simps cancel_get_def maxsize_def)
qed (use assms in \<open>auto simp: exec_inv_simps cancel_get_def maxsize_def\<close>)

lemma cancel_account_inv:
  assumes "exec_inv s" and "ex_closer s = C_held e" shows "exec_inv (cancel_account e s)"
proof (cases e)
  case (Work i)
  with assms show ?thesis
    by (cases "wi_cleanup i") (auto simp: exec_inv_simps cancel_account_def account_def maxsize_def)
qed (use assms in \<open>auto simp: exec_inv_simps\<close>)

lemma cancel_item_inv:
  assumes "exec_inv s" and "ex_closer s = C_drop i" shows "exec_inv (cancel_item i s)"
proof -
  from assms have f: "fut_inv (worker_running (ex_worker s)) (i # worker_waiting (ex_worker s) @ works (ex_queue s)) (ex_futures s)"
    by (auto simp: exec_inv_simps intro: front_moves)
  then have "ex_futures s (wi_future i) = Some F_PENDING \<or> ex_futures s (wi_future i) = Some F_CANCELLED"
    by (auto simp: fut_inv_def)
  with assms fut_inv_settle [OF f, of F_CANCELLED] show ?thesis
    by (auto simp: exec_inv_simps cancel_item_def future_cancel_def cancel_state_def maxsize_def)
qed

lemma closer_task_done_inv:
  "exec_inv s \<Longrightarrow> ex_closer s = C_task_done \<Longrightarrow> exec_inv ((task_done s)\<lparr>ex_closer := C_cancel\<rparr>)"
  by (auto simp: exec_inv_simps task_done_def maxsize_def)

lemma stop_free_queue: "STOP \<notin> set q \<Longrightarrow> \<exists>is. q = map Work is"
proof (induction q)
  case (Cons e q)
  then obtain "is" where "q = map Work is" by auto
  with Cons show ?case by (cases e) (auto intro: exI [of _ "_ # is"])
qed simp

lemma put_stop_inv:
  assumes "exec_inv s" and "ex_closer s = C_put" and "put_stop s = Some t" shows "exec_inv t"
proof -
  from assms have "STOP \<notin> set (ex_queue s)" by (auto simp: exec_inv_simps)
  then have "\<exists>is. ex_queue s = map Work is" by (rule stop_free_queue)
  with assms show ?thesis
    by (auto simp: exec_inv_simps put_stop_def put_nowait_def maxsize_def split: if_splits)
qed

lemma put_stop_timeout_inv:
  "exec_inv s \<Longrightarrow> put_stop_timeout s = Some t \<Longrightarrow> exec_inv t"
  by (auto simp: exec_inv_simps put_stop_timeout_def maxsize_def split: if_splits)

lemma closer_step_inv:
  assumes "exec_inv s" and "closer_step s = Some t" shows "exec_inv t"
proof (cases "ex_closer s")
  case (C_held e)
  with assms cancel_account_inv show ?thesis by (auto simp: closer_step_def)
next
  case (C_drop i)
  with assms cancel_item_inv show ?thesis by (auto simp: closer_step_def)
qed (use assms cancel_get_inv closer_task_done_inv put_stop_inv in \<open>auto simp: closer_step_def\<close>)

lemma stop_queue_iffs:
  "Work x # q = map Work is @ [STOP] \<longleftrightarrow> (\<exists>is'. is = x # is' \<and> q = map Work is' @ [STOP])"
  "STOP # q = map Work is @ [STOP] \<longleftrightarrow> is = [] \<and> q = []"
  by (cases "is"; auto)+

lemma work_get_inv:
  assumes "exec_inv s" and "ex_worker s = W_get" and "work_get s = Some t" shows "exec_inv t"
proof -
  from assms(3) obtain e q where q: "ex_queue s = e # q" and t: "t = s\<lparr>ex_queue := q, ex_worker := W_got e\<rparr>"
    by (auto simp: work_get_def split: list.splits)
  have "futures_ok t"
    using assms(1,2) q t by (cases e) (auto simp: exec_inv_simps intro: front_moves)
  moreover have "counters_ok t"
    using assms(1,2) q t by (cases e) (auto simp: exec_inv_simps)
  moreover have "stop_ok t"
    using assms(1,2) q t
    by (cases e; cases "ex_closer s = C_join") (auto simp: exec_inv_def stop_ok_def maxsize_def stop_queue_iffs)
  moreover have "worker_ok t"
    using assms(1,2) q t by (auto simp: exec_inv_simps)
  ultimately show ?thesis by (simp add: exec_inv_def)
qed

lemma work_account_inv:
  assumes "exec_inv s" and "ex_worker s = W_got e" shows "exec_inv (work_account e s)"
proof (cases e)
  case (Work i)
  with assms show ?thesis
    by (cases "wi_cleanup i") (auto simp: exec_inv_simps work_account_def account_def maxsize_def)
next
  case STOP
  with assms have "ex_closer s = C_join" by (auto simp: exec_inv_simps split: if_splits)
  with STOP assms show ?thesis by (auto simp: exec_inv_simps work_account_def maxsize_def)
qed

lemma work_claim_inv:
  assumes "exec_inv s" and "ex_worker s = W_claim i" shows "exec_inv (work_claim i s)"
proof -
  from assms have f: "fut_inv [] (i # closer_waiting (ex_closer s) @ works (ex_queue s)) (ex_futures s)"
    by (auto simp: exec_inv_simps)
  then consider "ex_futures s (wi_future i) = Some F_PENDING" | "ex_futures s (wi_future i) = Some F_CANCELLED"
    by (auto simp: fut_inv_def)
  then show ?thesis
  proof cases
    case 1
    with assms fut_inv_claim [OF f] show ?thesis
      by (auto simp: exec_inv_simps work_claim_def maxsize_def)
  next
    case 2
    with assms fut_inv_settle [OF f, of F_CANCELLED_AND_NOTIFIED] show ?thesis
      by (auto simp: exec_inv_simps work_claim_def maxsize_def)
  qed
qed

lemma work_call_inv:
  assumes "exec_inv s" and "ex_worker s = W_call i" and "work_call i s = Some t" shows "exec_inv t"
proof -
  from assms have f: "fut_inv [i] (closer_waiting (ex_closer s) @ works (ex_queue s)) (ex_futures s)"
    by (auto simp: exec_inv_simps)
  then have "ex_futures s (wi_future i) = Some F_RUNNING" by (auto simp: fut_inv_def)
  with assms fut_inv_finish [OF f] show ?thesis
    by (auto simp: exec_inv_simps work_call_def maxsize_def split: option.splits)
qed

lemma worker_step_inv:
  assumes "exec_inv s" and "worker_step s = Some t" shows "exec_inv t"
proof (cases "ex_worker s")
  case W_get
  with assms work_get_inv show ?thesis by (auto simp: worker_step_def)
next
  case (W_got e)
  with assms work_account_inv show ?thesis by (auto simp: worker_step_def)
next
  case (W_claim i)
  with assms work_claim_inv show ?thesis by (auto simp: worker_step_def)
next
  case (W_call i)
  with assms work_call_inv show ?thesis by (auto simp: worker_step_def)
qed (use assms in \<open>auto simp: worker_step_def exec_inv_simps maxsize_def task_done_def\<close>)

lemma exec_step_inv: "exec_step s t \<Longrightarrow> exec_inv s \<Longrightarrow> exec_inv t"
  by (induction rule: exec_step.induct)
    (simp_all add: submit_inv submit_cleanup_inv future_cancel_inv close_begin_inv,
     auto intro: closer_step_inv worker_step_inv put_stop_timeout_inv)

interpretation exec: step_invariant exec_init exec_step exec_inv
  by unfold_locales (auto intro: exec_init_inv exec_step_inv)

section \<open>Refinement of a first-in first-out executor\<close>

text \<open>
  The contract of the executor: accepted jobs wait in order, any waiting job may be
  withdrawn, only the oldest waiting job starts and only when nothing runs, and a started
  job ends, if at all, with the outcome of its own call.
\<close>

record 'v fifo =
  fi_waiting :: "(nat \<times> (py_exn + 'v) option) list"
  fi_running :: "(nat \<times> (py_exn + 'v) option) option"
  fi_results :: "nat \<rightharpoonup> py_exn + 'v"

inductive fifo_step :: "'v fifo \<Rightarrow> 'v fifo \<Rightarrow> bool" where
  fifo_stutter: "fifo_step a a"
| fifo_accept: "fifo_step a (a\<lparr>fi_waiting := fi_waiting a @ [j]\<rparr>)"
| fifo_withdraw: "fi_waiting a = xs @ j # ys \<Longrightarrow> fifo_step a (a\<lparr>fi_waiting := xs @ ys\<rparr>)"
| fifo_start: "fi_waiting a = j # ws \<Longrightarrow> fi_running a = None \<Longrightarrow>
    fifo_step a (a\<lparr>fi_waiting := ws, fi_running := Some j\<rparr>)"
| fifo_finish: "fi_running a = Some (f, Some r) \<Longrightarrow>
    fifo_step a (a\<lparr>fi_running := None, fi_results := (fi_results a)(f \<mapsto> r)\<rparr>)"

definition job :: "'v work_item \<Rightarrow> nat \<times> (py_exn + 'v) option" where
  "job i = (wi_future i, wi_call i)"

definition pending_in :: "(nat \<rightharpoonup> 'v future_state) \<Rightarrow> 'v work_item \<Rightarrow> bool" where
  "pending_in M i \<longleftrightarrow> M (wi_future i) = Some F_PENDING"

definition waiting_jobs :: "(nat \<rightharpoonup> 'v future_state) \<Rightarrow> 'v work_item list \<Rightarrow> (nat \<times> (py_exn + 'v) option) list" where
  "waiting_jobs M is = map job (filter (pending_in M) is)"

definition results_of :: "(nat \<rightharpoonup> 'v future_state) \<Rightarrow> nat \<rightharpoonup> py_exn + 'v" where
  "results_of M = (\<lambda>f. case M f of Some (F_FINISHED r) \<Rightarrow> Some r | _ \<Rightarrow> None)"

definition fifo_abs :: "'v executor \<Rightarrow> 'v fifo" where
  "fifo_abs s = \<lparr>fi_waiting = waiting_jobs (ex_futures s) (worker_waiting (ex_worker s) @ works (ex_queue s)),
     fi_running = (case worker_running (ex_worker s) of [] \<Rightarrow> None | i # _ \<Rightarrow> Some (job i)),
     fi_results = results_of (ex_futures s)\<rparr>"

lemma waiting_jobs_simps [simp]:
  "waiting_jobs M [] = []"
  "waiting_jobs M (i # is) = (if M (wi_future i) = Some F_PENDING then [job i] else []) @ waiting_jobs M is"
  "waiting_jobs M (is @ js) = waiting_jobs M is @ waiting_jobs M js"
  by (simp_all add: waiting_jobs_def pending_in_def)

lemma waiting_jobs_other:
  "f \<notin> wi_future ` set is \<Longrightarrow> waiting_jobs (M(f := x)) is = waiting_jobs M is"
  by (induction "is") auto

lemma waiting_jobs_withdraw:
  assumes "distinct (map wi_future is)" and "st \<noteq> F_PENDING"
  shows "waiting_jobs (M(f \<mapsto> st)) is = waiting_jobs M is \<or>
    (\<exists>xs j ys. waiting_jobs M is = xs @ j # ys \<and> waiting_jobs (M(f \<mapsto> st)) is = xs @ ys)"
  using assms(1)
proof (induction "is")
  case (Cons i "is")
  show ?case
  proof (cases "wi_future i = f")
    case True
    with Cons.prems have "waiting_jobs (M(f \<mapsto> st)) is = waiting_jobs M is"
      by (intro waiting_jobs_other) auto
    moreover have "waiting_jobs (M(f \<mapsto> st)) (i # is) = waiting_jobs (M(f \<mapsto> st)) is"
      using True assms(2) by simp
    moreover have "waiting_jobs M (i # is) = waiting_jobs M is \<or> waiting_jobs M (i # is) = [] @ job i # waiting_jobs M is"
      by simp
    ultimately show ?thesis by (metis append_Nil)
  next
    case False
    with Cons show ?thesis
      by (auto simp del: fun_upd_apply split_paired_Ex simp: fun_upd_other) (metis append_Cons)+
  qed
qed simp

lemma results_of_upd [simp]:
  "results_of (M(f \<mapsto> F_FINISHED r)) = (results_of M)(f \<mapsto> r)"
  by (auto simp: results_of_def)

lemma results_of_keep:
  "(\<And>r. M f \<noteq> Some (F_FINISHED r)) \<Longrightarrow> (\<And>r. st \<noteq> F_FINISHED r) \<Longrightarrow>
   results_of (M(f \<mapsto> st)) = results_of M"
  by (auto simp: results_of_def split: option.splits future_state.splits)

lemma fifo_withdraw_or_stutter:
  assumes "fi_running b = fi_running a" and "fi_results b = fi_results a"
    and "fi_waiting b = fi_waiting a \<or>
      (\<exists>xs j ys. fi_waiting a = xs @ j # ys \<and> fi_waiting b = xs @ ys)"
  shows "fifo_step a (b :: 'v fifo)"
proof -
  from assms(3) consider "fi_waiting b = fi_waiting a"
    | xs j ys where "fi_waiting a = xs @ j # ys" "fi_waiting b = xs @ ys" by blast
  then show ?thesis
  proof cases
    case 1
    with assms have "b = a" by simp
    then show ?thesis by (simp add: fifo_stutter)
  next
    case 2
    with assms have "b = a\<lparr>fi_waiting := xs @ ys\<rparr>" by simp
    with 2 show ?thesis by (metis fifo_withdraw)
  qed
qed

lemma unclaimed_distinct:
  assumes "exec_inv s"
  shows "distinct (map wi_future (worker_waiting (ex_worker s) @ works (ex_queue s)))"
    and "ex_closer s = C_drop i \<Longrightarrow> wi_future i \<notin> wi_future ` set (worker_waiting (ex_worker s) @ works (ex_queue s))"
  using assms by (auto simp: exec_inv_simps fut_inv_def distinct_map)

lemma unclaimed_states:
  "exec_inv s \<Longrightarrow> i \<in> set (unclaimed s) \<Longrightarrow>
   ex_futures s (wi_future i) = Some F_PENDING \<or> ex_futures s (wi_future i) = Some F_CANCELLED"
  by (auto simp: exec_inv_def futures_ok_def fut_inv_def)

lemma submit_refines:
  assumes "exec_inv s" and "ex_futures s f = None"
  shows "fifo_step (fifo_abs s) (fifo_abs (fst (submit f call s)))"
    and "fifo_step (fifo_abs s) (fifo_abs (fst (submit_cleanup f call s)))"
proof -
  have fresh: "f \<notin> wi_future ` set (worker_waiting (ex_worker s))" "f \<notin> wi_future ` set (works (ex_queue s))"
    using assms unclaimed_states [OF assms(1)] by (force simp: unclaimed_def)+
  have res: "results_of ((ex_futures s)(f \<mapsto> F_PENDING)) = results_of (ex_futures s)"
    using assms(2) by (intro results_of_keep) auto
  show "fifo_step (fifo_abs s) (fifo_abs (fst (submit f call s)))"
    using fifo_accept [of "fifo_abs s" "(f, call)"]
    by (auto simp: submit_def put_nowait_def fifo_abs_def fifo_stutter res waiting_jobs_other fresh job_def)
  show "fifo_step (fifo_abs s) (fifo_abs (fst (submit_cleanup f call s)))"
    using fifo_accept [of "fifo_abs s" "(f, call)"]
    by (auto simp: submit_cleanup_def put_nowait_def fifo_abs_def fifo_stutter res waiting_jobs_other fresh job_def)
qed

lemma cancel_refines:
  assumes "exec_inv s" shows "fifo_step (fifo_abs s) (fifo_abs (fst (future_cancel f s)))"
proof (cases "ex_futures s f = Some F_PENDING")
  case True
  then have "results_of ((ex_futures s)(f \<mapsto> F_CANCELLED)) = results_of (ex_futures s)"
    by (intro results_of_keep) auto
  with True waiting_jobs_withdraw [OF unclaimed_distinct(1) [OF assms], of F_CANCELLED "ex_futures s" f] show ?thesis
    by (intro fifo_withdraw_or_stutter) (auto simp: future_cancel_def cancel_state_def fifo_abs_def)
next
  case False
  then have "fst (future_cancel f s) = s"
    by (auto simp: future_cancel_def cancel_state_def fun_upd_idem split: option.splits future_state.splits)
  then show ?thesis by (simp add: fifo_stutter)
qed

lemma closer_refines:
  assumes "exec_inv s" and "closer_step s = Some t" shows "fifo_step (fifo_abs s) (fifo_abs t)"
proof (cases "ex_closer s")
  case C_cancel
  show ?thesis
  proof (cases "ex_queue s")
    case Nil
    with C_cancel assms(2) show ?thesis by (auto simp: closer_step_def cancel_get_def fifo_abs_def fifo_stutter)
  next
    case (Cons e q)
    with C_cancel assms(2) show ?thesis
      by (intro fifo_withdraw_or_stutter; cases e) (auto simp: closer_step_def cancel_get_def fifo_abs_def simp del: split_paired_Ex split_paired_All, blast)
  qed
next
  case (C_held e)
  with assms(2) show ?thesis
    by (cases e) (auto simp: closer_step_def cancel_account_def account_def fifo_abs_def fifo_stutter)
next
  case (C_drop i)
  with cancel_refines [OF assms(1), of "wi_future i"] assms(2) show ?thesis
    by (auto simp: closer_step_def cancel_item_def fifo_abs_def)
qed (use assms(2) in \<open>auto simp: closer_step_def task_done_def put_stop_def put_nowait_def fifo_abs_def fifo_stutter
  split: if_splits\<close>)

lemma claim_refines:
  assumes "exec_inv s" and "ex_worker s = W_claim i"
  shows "fifo_step (fifo_abs s) (fifo_abs (work_claim i s))"
proof -
  have i: "i \<in> set (unclaimed s)" using assms(2) by (simp add: unclaimed_def)
  have other: "wi_future i \<notin> wi_future ` set (works (ex_queue s))"
    using assms by (auto simp: exec_inv_simps fut_inv_def)
  from unclaimed_states [OF assms(1) i] show ?thesis
  proof
    assume p: "ex_futures s (wi_future i) = Some F_PENDING"
    then have "results_of ((ex_futures s)(wi_future i \<mapsto> F_RUNNING)) = results_of (ex_futures s)"
      by (intro results_of_keep) auto
    with p assms(2) other fifo_start [of "fifo_abs s" "job i" "waiting_jobs (ex_futures s) (works (ex_queue s))"]
    show ?thesis by (simp add: work_claim_def fifo_abs_def waiting_jobs_other)
  next
    assume c: "ex_futures s (wi_future i) = Some F_CANCELLED"
    then have "results_of ((ex_futures s)(wi_future i \<mapsto> F_CANCELLED_AND_NOTIFIED)) = results_of (ex_futures s)"
      by (intro results_of_keep) auto
    with c assms(2) other show ?thesis
      by (simp add: work_claim_def fifo_abs_def waiting_jobs_other fifo_stutter)
  qed
qed

lemma call_refines:
  assumes "exec_inv s" and "ex_worker s = W_call i" and "work_call i s = Some t"
  shows "fifo_step (fifo_abs s) (fifo_abs t)"
proof -
  have other: "wi_future i \<notin> wi_future ` set (works (ex_queue s))" and r: "ex_futures s (wi_future i) = Some F_RUNNING"
    using assms by (auto simp: exec_inv_simps fut_inv_def)
  with assms(2,3) fifo_finish [of "fifo_abs s" "wi_future i"] show ?thesis
    by (auto simp: work_call_def fifo_abs_def waiting_jobs_other job_def split: option.splits)
qed

lemma worker_refines:
  assumes "exec_inv s" and "worker_step s = Some t" shows "fifo_step (fifo_abs s) (fifo_abs t)"
proof (cases "ex_worker s")
  case W_get
  with assms(2) obtain e q where "ex_queue s = e # q" "t = s\<lparr>ex_queue := q, ex_worker := W_got e\<rparr>"
    by (auto simp: worker_step_def work_get_def split: list.splits)
  with W_get show ?thesis by (cases e) (auto simp: fifo_abs_def fifo_stutter)
next
  case (W_got e)
  with assms(2) show ?thesis
    by (cases e) (auto simp: worker_step_def work_account_def account_def fifo_abs_def fifo_stutter)
next
  case (W_claim i)
  with assms claim_refines show ?thesis by (auto simp: worker_step_def)
next
  case (W_call i)
  with assms call_refines show ?thesis by (auto simp: worker_step_def)
qed (use assms(2) in \<open>auto simp: worker_step_def task_done_def fifo_abs_def fifo_stutter\<close>)

lemma exec_refines_fifo:
  assumes "exec_step s t" and "exec_inv s" shows "fifo_step (fifo_abs s) (fifo_abs t)"
  using assms
proof (induction rule: exec_step.induct)
  case (step_close s c timeout)
  then show ?case by (simp add: close_begin_def fifo_abs_def fifo_stutter)
next
  case (step_put_timeout s t)
  then show ?case by (auto simp: put_stop_timeout_def fifo_abs_def fifo_stutter split: if_splits)
qed (auto intro: submit_refines cancel_refines closer_refines worker_refines)

section \<open>Closing comes to an end\<close>

text \<open>What is left of the two threads' work: every queued entry costs at most eight slices.\<close>

fun worker_todo :: "'v worker_pc \<Rightarrow> nat" where
  "worker_todo W_get = 0"
| "worker_todo (W_got e) = 7"
| "worker_todo (W_claim i) = 6"
| "worker_todo (W_enter i) = 5"
| "worker_todo (W_call i) = 4"
| "worker_todo W_leave = 3"
| "worker_todo W_task_done = 2"
| "worker_todo W_last = 1"
| "worker_todo W_exit = 0"
| "worker_todo W_crashed = 0"

fun closer_todo :: "'v closer_pc \<Rightarrow> nat" where
  "closer_todo C_cancel = 12"
| "closer_todo (C_held e) = 15"
| "closer_todo (C_drop i) = 14"
| "closer_todo C_task_done = 13"
| "closer_todo C_put = 10"
| "closer_todo _ = 0"

definition exec_todo :: "'v executor \<Rightarrow> nat" where
  "exec_todo s = 8 * length (ex_queue s) + worker_todo (ex_worker s) + closer_todo (ex_closer s)"

text \<open>The worker and the closing thread, including the time-out of its \<open>put\<close>.\<close>

definition thread_step :: "'v executor \<Rightarrow> 'v executor \<Rightarrow> bool" where
  "thread_step s t \<longleftrightarrow> worker_step s = Some t \<or> closer_step s = Some t \<or> put_stop_timeout s = Some t"

lemma worker_todo_less: "worker_step s = Some t \<Longrightarrow> exec_todo t < exec_todo s"
  by (auto simp: worker_step_def work_get_def work_account_def account_def work_claim_def work_call_def task_done_def
      exec_todo_def split: worker_pc.splits entry.splits list.splits option.splits future_state.splits)

lemma closer_todo_less: "closer_step s = Some t \<Longrightarrow> exec_todo t < exec_todo s"
  by (auto simp: closer_step_def cancel_get_def cancel_account_def account_def cancel_item_def future_cancel_def
      put_stop_def put_nowait_def task_done_def exec_todo_def
      split: closer_pc.splits entry.splits list.splits option.splits if_splits)

lemma put_timeout_less: "put_stop_timeout s = Some t \<Longrightarrow> exec_todo t < exec_todo s"
  by (auto simp: put_stop_timeout_def exec_todo_def split: if_splits)

lemma thread_step_less: "thread_step s t \<Longrightarrow> exec_todo t < exec_todo s"
  by (auto simp: thread_step_def intro: worker_todo_less closer_todo_less put_timeout_less)

lemma thread_steps_bounded: "(thread_step ^^ n) s t \<Longrightarrow> n + exec_todo t \<le> exec_todo s"
proof (induction n arbitrary: t)
  case (Suc n)
  then obtain u where "(thread_step ^^ n) s u" "thread_step u t" by auto
  with Suc.IH [of u] thread_step_less [of u t] show ?case by simp
qed simp

lemma thread_step_exec: "thread_step s t \<Longrightarrow> exec_step s t"
  by (auto simp: thread_step_def intro: exec_step.intros)

lemma thread_steps_inv: "(thread_step ^^ n) s t \<Longrightarrow> exec_inv s \<Longrightarrow> exec_inv t"
  by (induction n arbitrary: t) (auto intro: exec_step_inv thread_step_exec)

text \<open>Threads never give the executor back: once it stops, it stays stopping.\<close>

lemma worker_step_closer: "worker_step s = Some t \<Longrightarrow> ex_closer t = ex_closer s"
  by (auto simp: worker_step_def work_get_def work_account_def account_def work_claim_def work_call_def task_done_def
      split: worker_pc.splits entry.splits list.splits option.splits future_state.splits)

lemma thread_step_stopping: "thread_step s t \<Longrightarrow> ex_closer s \<noteq> C_none \<Longrightarrow> ex_closer t \<noteq> C_none"
  using worker_step_closer [of s t]
  by (auto simp: thread_step_def put_stop_timeout_def closer_step_def cancel_get_def cancel_account_def cancel_item_def put_stop_def
      split: closer_pc.splits entry.splits list.splits if_splits)

text \<open>A closing thread that cancels queued work leaves no work behind it.\<close>

definition drains :: "'v executor \<Rightarrow> bool" where
  "drains s \<longleftrightarrow> (case ex_closer s of
       C_none \<Rightarrow> False | C_full \<Rightarrow> False | C_put \<Rightarrow> ex_queue s = [] | C_join \<Rightarrow> works (ex_queue s) = [] | _ \<Rightarrow> True)"

lemma works_suffix: "works (e # q) = [] \<Longrightarrow> works q = []"
  by (cases e) auto

lemma worker_step_queue: "worker_step s = Some t \<Longrightarrow> ex_queue t = ex_queue s \<or> ex_queue t = tl (ex_queue s)"
  by (auto simp: worker_step_def work_get_def work_account_def account_def work_claim_def work_call_def task_done_def
      split: worker_pc.splits entry.splits list.splits option.splits future_state.splits)

lemma thread_step_drains:
  assumes "thread_step s t" and "drains s" shows "drains t"
proof -
  from assms(1) consider (w) "worker_step s = Some t" | (c) "closer_step s = Some t" | (p) "put_stop_timeout s = Some t"
    by (auto simp: thread_step_def)
  then show ?thesis
  proof cases
    case w
    have "works (tl (ex_queue s)) = []" if "works (ex_queue s) = []" using that works_suffix by (cases "ex_queue s") auto
    with worker_step_closer [OF w] worker_step_queue [OF w] assms(2) show ?thesis
      by (auto simp: drains_def split: closer_pc.splits)
  next
    case c
    with assms(2) show ?thesis
      by (auto simp: drains_def closer_step_def cancel_get_def cancel_account_def cancel_item_def put_stop_def put_nowait_def
          split: closer_pc.splits entry.splits list.splits if_splits)
  next
    case p
    with assms(2) show ?thesis by (auto simp: drains_def put_stop_timeout_def maxsize_def CLEANUP_RESERVE_def split: if_splits)
  qed
qed

lemma thread_steps_keep:
  "(thread_step ^^ n) s t \<Longrightarrow> (ex_closer s \<noteq> C_none \<longrightarrow> ex_closer t \<noteq> C_none) \<and> (drains s \<longrightarrow> drains t)"
proof (induction n arbitrary: t)
  case (Suc n)
  then obtain u where "(thread_step ^^ n) s u" "thread_step u t" by auto
  with Suc.IH [of u] thread_step_stopping [of u t] thread_step_drains [of u t] show ?case by blast
qed simp

text \<open>Where the threads can stand when neither moves.\<close>

lemma worker_blocked: "exec_inv s \<Longrightarrow> worker_step s = None \<Longrightarrow>
   ex_worker s = W_get \<and> ex_queue s = [] \<or> ex_worker s = W_exit \<or> (\<exists>i. ex_worker s = W_call i \<and> wi_call i = None)"
  by (auto simp: worker_step_def work_get_def work_call_def exec_inv_def worker_ok_def
      split: worker_pc.splits list.splits option.splits)

lemma closer_blocked:
  "closer_step s = None \<Longrightarrow> put_stop_timeout s = None \<Longrightarrow> ex_closer s \<noteq> C_none \<Longrightarrow> ex_closer s = C_join \<or> ex_closer s = C_full"
  by (auto simp: closer_step_def put_stop_def put_nowait_def put_stop_timeout_def split: closer_pc.splits if_splits)

lemma unsettled_held:
  assumes "exec_inv s" and "ex_futures s f = Some st" and "\<not> settled st"
  shows "f \<in> wi_future ` set (worker_running (ex_worker s) @ unclaimed s)"
  using assms by (auto simp: exec_inv_def futures_ok_def fut_inv_def)

lemma blocked_outcome:
  assumes "exec_inv s" and "\<And>t. \<not> thread_step s t" and "ex_closer s \<noteq> C_none"
  shows "ex_worker s = W_exit \<and> ex_closer s = C_join \<and> ex_queue s = [] \<or>
    ex_worker s = W_get \<and> ex_closer s = C_full \<and> ex_queue s = [] \<or>
    (\<exists>i. ex_worker s = W_call i \<and> wi_call i = None \<and> ex_closer s \<in> {C_join, C_full})"
proof -
  have none: "worker_step s = None" "closer_step s = None" "put_stop_timeout s = None"
    using assms(2) by (metis thread_step_def option.exhaust)+
  from closer_blocked [OF none(2,3) assms(3)] worker_blocked [OF assms(1) none(1)] assms(1) show ?thesis
    by (auto simp: exec_inv_def stop_ok_def split: if_splits)
qed

section \<open>Properties\<close>

text \<open>
  C11: The executor's queue stays within its bound under every interleaving, its counters are
  never negative nor above their limits, and admission depends on nothing else: while the
  executor runs, \<open>submit\<close> accepts exactly when fewer than \<open>queue_capacity\<close> ordinary items are
  queued, and \<open>submit_cleanup\<close> exactly when its own reserve has room, however full the
  ordinary queue is (the \<open>queue.Full\<close> handlers are never reached).
\<close>

theorem executor_bounded:
  assumes "reachable exec_init exec_step s"
  shows "length (ex_queue s) \<le> ex_capacity s + 2 \<and>
    0 \<le> ex_ordinary s \<and> ex_ordinary s \<le> int (ex_capacity s) \<and> 0 \<le> ex_cleanup s \<and> ex_cleanup s \<le> 2 \<and>
    (ex_stopping s \<or>
      ((\<exists>e. snd (submit f call s) = Inl e) = (int (ex_capacity s) \<le> ex_ordinary s) \<and>
       (\<exists>e. snd (submit_cleanup f call s) = Inl e) = (2 \<le> ex_cleanup s)))"
proof -
  have inv: "exec_inv s" using assms by (rule exec.reachable_inv)
  then have bounds: "length (ex_queue s) \<le> ex_capacity s + 2" "0 \<le> ex_ordinary s"
    "ex_ordinary s \<le> int (ex_capacity s)" "0 \<le> ex_cleanup s" "ex_cleanup s \<le> 2"
    by (auto simp: exec_inv_def stop_ok_def counters_ok_def maxsize_def CLEANUP_RESERVE_def)
  moreover have "ex_stopping s \<or>
      ((\<exists>e. snd (submit f call s) = Inl e) = (int (ex_capacity s) \<le> ex_ordinary s) \<and>
       (\<exists>e. snd (submit_cleanup f call s) = Inl e) = (2 \<le> ex_cleanup s))"
    using inv room_for_work [of s]
    by (auto simp: exec_inv_def submit_def submit_cleanup_def put_nowait_def CLEANUP_RESERVE_def)
  ultimately show ?thesis by blast
qed

definition run_a :: "nat executor" where
  "run_a = \<lparr>ex_queue = [], ex_unfinished = 0, ex_capacity = 1, ex_ordinary = 0, ex_cleanup = 0, ex_active = False,
     ex_stopping = False, ex_futures = Map.empty, ex_worker = W_get, ex_closer = C_none\<rparr>"

definition run_b :: "nat executor" where
  "run_b = fst (submit 7 (Some (Inr 42)) run_a)"

definition run_c :: "nat executor" where
  "run_c = fst (close_begin True 5 run_b)"

lemma run_a_reachable: "reachable exec_init exec_step run_a"
  by (rule reachable_init) (auto simp: exec_init_def executor_init_def run_a_def intro!: exI [of _ 1])

lemma run_b_reachable: "reachable exec_init exec_step run_b"
  unfolding run_b_def by (rule reachable_step [OF run_a_reachable]) (auto intro: step_submit simp: run_a_def)

lemma run_c_reachable: "reachable exec_init exec_step run_c"
  unfolding run_c_def by (rule reachable_step [OF run_b_reachable step_close])

lemma run_b_simps: "run_b = \<lparr>ex_queue = [Work \<lparr>wi_future = 7, wi_call = Some (Inr 42), wi_cleanup = False\<rparr>],
   ex_unfinished = 1, ex_capacity = 1, ex_ordinary = 1, ex_cleanup = 0, ex_active = False,
   ex_stopping = False, ex_futures = [7 \<mapsto> F_PENDING], ex_worker = W_get, ex_closer = C_none\<rparr>"
  by (simp add: run_b_def run_a_def submit_def put_nowait_def maxsize_def CLEANUP_RESERVE_def)

theorem executor_bounded_witness:
  "\<exists>e. snd (submit 8 (Some (Inr 1)) run_b) = Inl e"
  using executor_bounded [OF run_b_reachable, of 8 "Some (Inr 1)"] by (simp add: run_b_simps)

text \<open>
  C8: Every interleaving of the executor refines a first-in first-out executor with one
  running job: each step of client, worker or closing thread appears through \<open>fifo_abs\<close> as
  the acceptance of a job at the end of the queue, the withdrawal of a waiting job, the start
  of the oldest waiting job while none runs, the end of the running job with the outcome of
  its own call, or no change.
\<close>

theorem executor_refines_fifo:
  assumes "reachable exec_init exec_step s" and "exec_step s t"
  shows "fifo_step (fifo_abs s) (fifo_abs t)"
  using assms(2) exec.reachable_inv [OF assms(1)] by (rule exec_refines_fifo)

theorem executor_refines_fifo_witness:
  "fi_waiting (fifo_abs run_b) = [(7, Some (Inr 42))] \<and> fifo_step (fifo_abs run_a) (fifo_abs run_b)"
proof
  show "fi_waiting (fifo_abs run_b) = [(7, Some (Inr 42))]" by (simp add: run_b_simps fifo_abs_def job_def)
  have "exec_step run_a run_b" unfolding run_b_def by (rule step_submit) (simp add: run_a_def)
  then show "fifo_step (fifo_abs run_a) (fifo_abs run_b)" by (rule executor_refines_fifo [OF run_a_reachable])
qed

text \<open>
  C9: Closing comes to rest, and how.  From the moment \<open>close\<close> has set \<open>_stopping\<close>, the worker and
  the closing thread, whose \<open>put\<close> of the stop entry may time out, take together at most
  \<open>exec_todo s\<close> further slices in any order.  When neither can move there are three cases.  The
  worker has returned, nothing is queued, joining it succeeds and every future ever handed
  out is cancelled or finished.  Or the \<open>put\<close> had timed out: every future is settled too, but the
  worker waits on the empty queue for good and every join times out.  Or the worker is inside a
  call that never comes back: the join times out, and only the future of that call and
  those still queued are open.  A \<open>close\<close> that cancels queued work never ends in a timed-out \<open>put\<close> and
  leaves nothing queued but the stop entry, so then at most the one hanging call keeps its
  future open.
\<close>

theorem closing_settles_every_future:
  assumes "reachable exec_init exec_step s" and "ex_stopping s" and "(thread_step ^^ n) s t"
  shows "n \<le> exec_todo s \<and>
    ((\<exists>u. thread_step t u) \<or>
     (ex_worker t = W_exit \<and> ex_queue t = [] \<and> close_join t = Inr () \<and> ran (ex_futures t) \<subseteq> {st. settled st} \<or>
      ex_worker t = W_get \<and> ex_queue t = [] \<and> ex_closer t = C_full \<and> ran (ex_futures t) \<subseteq> {st. settled st} \<and>
        close_join t = Inl (ExecTimeoutError ''LSP executor did not reach its bounded terminal state'') \<or>
      (\<exists>i. ex_worker t = W_call i \<and> wi_call i = None \<and>
        close_join t = Inl (ExecTimeoutError ''LSP executor did not reach its bounded terminal state'') \<and>
        {f. \<exists>st. ex_futures t f = Some st \<and> \<not> settled st} \<subseteq> insert (wi_future i) (wi_future ` set (works (ex_queue t))))) \<and>
     (ex_closer s = C_cancel \<longrightarrow> ex_closer t = C_join \<and> works (ex_queue t) = []))"
proof -
  have inv: "exec_inv s" "exec_inv t" using assms(3) exec.reachable_inv [OF assms(1)] by (auto intro: thread_steps_inv)
  have "ex_closer s \<noteq> C_none" using inv(1) assms(2) by (simp add: exec_inv_def stop_ok_def)
  with thread_steps_keep [OF assms(3)] have closing: "ex_closer t \<noteq> C_none" and dr: "ex_closer s = C_cancel \<longrightarrow> drains t"
    by (auto simp: drains_def)
  have open_in: "f \<in> wi_future ` set (worker_running (ex_worker t) @ unclaimed t)" if "ex_futures t f = Some st" "\<not> settled st" for f st
    using unsettled_held [OF inv(2)] that by blast
  show ?thesis
  proof (cases "\<exists>u. thread_step t u")
    case False
    with blocked_outcome [OF inv(2) _ closing] consider
        (exit) "ex_worker t = W_exit" "ex_closer t = C_join" "ex_queue t = []"
      | (full) "ex_worker t = W_get" "ex_closer t = C_full" "ex_queue t = []"
      | (hang) i where "ex_worker t = W_call i" "wi_call i = None" "ex_closer t \<in> {C_join, C_full}" by blast
    then show ?thesis
    proof cases
      case exit
      with thread_steps_bounded [OF assms(3)] open_in show ?thesis by (auto simp: unclaimed_def close_join_def ran_def)
    next
      case full
      with thread_steps_bounded [OF assms(3)] open_in dr show ?thesis by (auto simp: unclaimed_def close_join_def ran_def drains_def)
    next
      case hang
      then have "close_join t = Inl (ExecTimeoutError ''LSP executor did not reach its bounded terminal state'')"
        by (simp add: close_join_def)
      moreover have "{f. \<exists>st. ex_futures t f = Some st \<and> \<not> settled st} \<subseteq> insert (wi_future i) (wi_future ` set (works (ex_queue t)))"
      proof
        fix f assume "f \<in> {f. \<exists>st. ex_futures t f = Some st \<and> \<not> settled st}"
        then have "f \<in> wi_future ` set (worker_running (ex_worker t) @ unclaimed t)" using open_in by blast
        with hang show "f \<in> insert (wi_future i) (wi_future ` set (works (ex_queue t)))" by (auto simp: unclaimed_def)
      qed
      moreover have "ex_closer s = C_cancel \<longrightarrow> ex_closer t = C_join \<and> works (ex_queue t) = []"
        using hang(3) dr by (auto simp: drains_def)
      ultimately show ?thesis using thread_steps_bounded [OF assms(3)] hang(1,2) by auto
    qed
  qed (use thread_steps_bounded [OF assms(3)] in auto)
qed

text \<open>A schedule: \<open>True\<close> moves the worker, \<open>False\<close> the closing thread.\<close>

fun run_schedule :: "bool list \<Rightarrow> 'v executor \<Rightarrow> 'v executor option" where
  "run_schedule [] s = Some s"
| "run_schedule (b # bs) s = (case (if b then worker_step s else closer_step s) of None \<Rightarrow> None | Some t \<Rightarrow> run_schedule bs t)"

lemma run_schedule_steps: "run_schedule bs s = Some t \<Longrightarrow> (thread_step ^^ length bs) s t"
proof (induction bs arbitrary: s)
  case (Cons b bs)
  then obtain u where "thread_step s u" "run_schedule bs u = Some t"
    by (auto simp: thread_step_def split: option.splits if_splits)
  then have "thread_step s u" "(thread_step ^^ length bs) u t" using Cons.IH by auto
  then show ?case using relpowp_Suc_I2 [of thread_step s u "length bs" t] by simp
qed simp

definition run_d :: "nat executor" where
  "run_d = run_c\<lparr>ex_queue := [], ex_unfinished := 0, ex_ordinary := 0, ex_futures := [7 \<mapsto> F_CANCELLED], ex_worker := W_exit, ex_closer := C_join\<rparr>"

lemma run_d_reached: "run_schedule [False, False, False, False, False, False, True, True, True] run_c = Some run_d"
  by (simp add: run_d_def run_c_def run_b_simps close_begin_def closer_step_def worker_step_def cancel_get_def cancel_account_def account_def
      cancel_item_def future_cancel_def cancel_state_def put_stop_def put_nowait_def task_done_def maxsize_def CLEANUP_RESERVE_def
      work_get_def work_account_def)

theorem closing_settles_every_future_witness:
  "(thread_step ^^ 9) run_c run_d \<and> (\<nexists>u. thread_step run_d u) \<and> close_join run_d = Inr () \<and> ran (ex_futures run_d) \<subseteq> {st. settled st}"
proof -
  have steps: "(thread_step ^^ 9) run_c run_d" using run_schedule_steps [OF run_d_reached] by (simp add: numeral_eq_Suc)
  have stop: "ex_stopping run_c" by (simp add: run_c_def run_b_simps close_begin_def)
  have d: "ex_worker run_d = W_exit" "ex_closer run_d = C_join" by (simp_all add: run_d_def)
  then have rest: "\<nexists>u. thread_step run_d u" by (simp add: thread_step_def worker_step_def closer_step_def put_stop_timeout_def)
  from closing_settles_every_future [OF run_c_reachable stop steps] rest d steps show ?thesis by auto
qed

text \<open>
  An edit's commit state only moves forward: \<open>_advance\<close> succeeds exactly towards a later
  state and otherwise raises leaving the state alone, so a caller that saw the replacement
  installed sees it installed after any further marks.
\<close>

lemma commit_moves_forward:
  "(snd (commit_advance cur st) = Inr () \<longleftrightarrow> index_of cur COMMIT_ORDER < index_of st COMMIT_ORDER) \<and>
   index_of cur COMMIT_ORDER \<le> index_of (fst (commit_advance cur st)) COMMIT_ORDER \<and>
   fst (commit_advance cur st) \<in> {cur, st} \<and>
   commit_installed cur \<le> commit_installed (fst (commit_advance cur st))"
  by (cases cur; cases st) (simp_all add: commit_advance_def COMMIT_ORDER_def commit_installed_def)

end
