(* ===== verification/LspState.thy ===== *)
theory LspState
  imports Prelude
begin

text \<open>
  Document versions and pushed diagnostics of one language server (\<open>lsp/state.py\<close>).  Every
  method holds the state's lock, so each is one function on the state.
\<close>

section \<open>Freezing a diagnostic\<close>

text \<open>
  A Python value by the first test of \<open>_freeze\<close> it passes; records of any kind carry their
  named attributes.
\<close>

datatype 'a pyval =
    PyDataclass "(string \<times> 'a pyval) list"
  | PyMapping "(string \<times> 'a pyval) list"
  | PyScalar 'a
  | PySequence "'a pyval list"
  | PySet "'a pyval list"
  | PyAttrs "(string \<times> 'a pyval) list"
  | PySlots "(string \<times> 'a pyval) list"
  | PyObject "(string \<times> 'a pyval) list"
  | PyOpaque

datatype 'a frozen =
    FProxy "(string \<times> 'a frozen) list"
  | FScalar 'a
  | FTuple "'a frozen list"
  | FFrozenset "'a frozen list"

text \<open>A frozen set needs hashable members; a mapping proxy over a dictionary is not.\<close>

fun hashable :: "'a frozen \<Rightarrow> bool" where
  "hashable (FProxy _) = False"
| "hashable (FScalar _) = True"
| "hashable (FTuple xs) = list_all hashable xs"
| "hashable (FFrozenset _) = True"

fun sequence_option :: "'a option list \<Rightarrow> 'a list option" where
  "sequence_option [] = Some []"
| "sequence_option (x # xs) = (case x of None \<Rightarrow> None | Some v \<Rightarrow> map_option ((#) v) (sequence_option xs))"

text \<open>\<open>None\<close> is the \<open>TypeError\<close>.\<close>

fun freeze :: "'a pyval \<Rightarrow> 'a frozen option" where
  "freeze (PyDataclass fs) = map_option FProxy (sequence_option (map (\<lambda>(n, v). map_option (Pair n) (freeze v)) fs))"
| "freeze (PyMapping fs) = map_option FProxy (sequence_option (map (\<lambda>(n, v). map_option (Pair n) (freeze v)) fs))"
| "freeze (PyScalar x) = Some (FScalar x)"
| "freeze (PySequence vs) = map_option FTuple (sequence_option (map freeze vs))"
| "freeze (PySet vs) = (case sequence_option (map freeze vs) of
       None \<Rightarrow> None | Some xs \<Rightarrow> if list_all hashable xs then Some (FFrozenset xs) else None)"
| "freeze (PyAttrs fs) = map_option FProxy (sequence_option (map (\<lambda>(n, v). map_option (Pair n) (freeze v)) fs))"
| "freeze (PySlots fs) = map_option FProxy (sequence_option (map (\<lambda>(n, v). map_option (Pair n) (freeze v)) fs))"
| "freeze (PyObject fs) = map_option FProxy (sequence_option (map (\<lambda>(n, v). map_option (Pair n) (freeze v)) fs))"
| "freeze PyOpaque = None"

section \<open>Data\<close>

datatype diagnostics_state = MISSING | CLEAN | FINDINGS | STALE

record generations =
  g_source :: int
  g_index :: int
  g_diagnostics :: int

record document_snapshot =
  ds_uri :: string
  ds_path :: path
  ds_version :: "int option"
  ds_generation :: int

record 'a publication =
  pu_document :: document_snapshot
  pu_diagnostics_generation :: int
  pu_diagnostics :: "'a frozen list"

record 'a diagnostics_snapshot_rec =
  dg_state :: diagnostics_state
  dg_uri :: string
  dg_path :: "path option"
  dg_version :: "int option"
  dg_generation :: int
  dg_diagnostics_generation :: "int option"
  dg_diagnostics :: "'a frozen list"

record 'a lsp_state =
  ls_generations :: generations
  ls_documents :: "(string \<times> document_snapshot) list"
  ls_publications :: "(string \<times> 'a publication) list"

definition lsp_state_init :: "'a lsp_state" where
  "lsp_state_init = \<lparr>ls_generations = \<lparr>g_source = 0, g_index = 0, g_diagnostics = 0\<rparr>,
     ls_documents = [], ls_publications = []\<rparr>"

section \<open>Operations\<close>

definition advance_source_generation :: "'a lsp_state \<Rightarrow> 'a lsp_state \<times> generations" where
  "advance_source_generation s =
     (let g = (ls_generations s)\<lparr>g_source := g_source (ls_generations s) + 1\<rparr> in (s\<lparr>ls_generations := g\<rparr>, g))"

definition advance_index_generation :: "'a lsp_state \<Rightarrow> 'a lsp_state \<times> generations" where
  "advance_index_generation s =
     (let g = (ls_generations s)\<lparr>g_index := g_index (ls_generations s) + 1\<rparr> in (s\<lparr>ls_generations := g\<rparr>, g))"

definition observe_index_generation :: "int \<Rightarrow> 'a lsp_state \<Rightarrow> ('a lsp_state, generations) outcome" where
  "observe_index_generation generation s =
     (if generation < 0 then (s, Inl (ValueError ''index generation must be non-negative''))
      else let t = (if generation > g_index (ls_generations s)
                    then s\<lparr>ls_generations := (ls_generations s)\<lparr>g_index := generation\<rparr>\<rparr> else s)
           in (t, Inr (ls_generations t)))"

definition is_newer_version :: "int option \<Rightarrow> int option \<Rightarrow> bool" where
  "is_newer_version candidate current = (case current of
       None \<Rightarrow> candidate \<noteq> None \<or> candidate = None
     | Some cur \<Rightarrow> (case candidate of None \<Rightarrow> False | Some c \<Rightarrow> c > cur))"

definition update_document ::
    "string \<Rightarrow> path \<Rightarrow> int option \<Rightarrow> 'a lsp_state \<Rightarrow> 'a lsp_state \<times> document_snapshot option" where
  "update_document uri p version s =
     (let previous = map_of (ls_documents s) uri in
      if (case previous of None \<Rightarrow> False | Some d \<Rightarrow> \<not> is_newer_version version (ds_version d)) then (s, None)
      else let generation = (case previous of None \<Rightarrow> 1 | Some d \<Rightarrow> ds_generation d + 1);
               document = \<lparr>ds_uri = uri, ds_path = p, ds_version = version, ds_generation = generation\<rparr>
           in (s\<lparr>ls_documents := AList.update uri document (ls_documents s)\<rparr>, Some document))"

definition lsp_document :: "string \<Rightarrow> 'a lsp_state \<Rightarrow> document_snapshot option" where
  "lsp_document uri s = map_of (ls_documents s) uri"

definition reset_documents :: "'a lsp_state \<Rightarrow> 'a lsp_state" where
  "reset_documents s = s\<lparr>ls_documents := [], ls_publications := []\<rparr>"

definition publish_diagnostics ::
    "string \<Rightarrow> path \<Rightarrow> int option \<Rightarrow> int \<Rightarrow> 'a pyval list \<Rightarrow> 'a lsp_state \<Rightarrow> ('a lsp_state, bool) outcome" where
  "publish_diagnostics uri p version generation diagnostics s =
     (case map_of (ls_documents s) uri of
        None \<Rightarrow> (s, Inr False)
      | Some document \<Rightarrow>
          if ds_path document \<noteq> p \<or> generation \<noteq> ds_generation document then (s, Inr False)
          else if version \<noteq> None \<and> ds_version document \<noteq> None \<and> version \<noteq> ds_version document then (s, Inr False)
          else case sequence_option (map freeze diagnostics) of
            None \<Rightarrow> (s, Inl (TypeError ''diagnostic cannot be frozen''))
          | Some frozen \<Rightarrow>
              let dgen = g_diagnostics (ls_generations s) + 1 in
              (s\<lparr>ls_generations := (ls_generations s)\<lparr>g_diagnostics := dgen\<rparr>,
                 ls_publications := AList.update uri
                   \<lparr>pu_document = document, pu_diagnostics_generation = dgen, pu_diagnostics = frozen\<rparr>
                   (ls_publications s)\<rparr>, Inr True))"

definition diagnostics_snapshot :: "string \<Rightarrow> int option \<Rightarrow> 'a lsp_state \<Rightarrow> 'a diagnostics_snapshot_rec" where
  "diagnostics_snapshot uri generation s =
     (let document = map_of (ls_documents s) uri;
          expected = (case generation of Some g \<Rightarrow> g
                      | None \<Rightarrow> (case document of Some d \<Rightarrow> ds_generation d | None \<Rightarrow> 0))
      in case map_of (ls_publications s) uri of
        None \<Rightarrow> \<lparr>dg_state = MISSING, dg_uri = uri, dg_path = map_option ds_path document,
                 dg_version = Option.bind document ds_version, dg_generation = expected,
                 dg_diagnostics_generation = None, dg_diagnostics = []\<rparr>
      | Some pub \<Rightarrow>
          \<lparr>dg_state = (if ds_generation (pu_document pub) \<noteq> expected then STALE
                       else if pu_diagnostics pub \<noteq> [] then FINDINGS else CLEAN),
           dg_uri = uri, dg_path = Some (ds_path (pu_document pub)), dg_version = ds_version (pu_document pub),
           dg_generation = ds_generation (pu_document pub),
           dg_diagnostics_generation = Some (pu_diagnostics_generation pub),
           dg_diagnostics = pu_diagnostics pub\<rparr>)"

section \<open>Histories\<close>

datatype 'a lsp_op =
    AdvanceSource
  | AdvanceIndex
  | ObserveIndex int
  | UpdateDocument string path "int option"
  | ResetDocuments
  | PublishDiagnostics string path "int option" int "'a pyval list"

fun lsp_op_step :: "'a lsp_state \<Rightarrow> 'a lsp_op \<Rightarrow> 'a lsp_state" where
  "lsp_op_step s AdvanceSource = fst (advance_source_generation s)"
| "lsp_op_step s AdvanceIndex = fst (advance_index_generation s)"
| "lsp_op_step s (ObserveIndex g) = fst (observe_index_generation g s)"
| "lsp_op_step s (UpdateDocument uri p v) = fst (update_document uri p v s)"
| "lsp_op_step s ResetDocuments = reset_documents s"
| "lsp_op_step s (PublishDiagnostics uri p v g ds) = fst (publish_diagnostics uri p v g ds s)"

section \<open>Invariant\<close>

definition lsp_inv :: "'a lsp_state \<Rightarrow> bool" where
  "lsp_inv s \<longleftrightarrow> dict_ok (ls_documents s) \<and> dict_ok (ls_publications s) \<and>
     (\<forall>uri d. map_of (ls_documents s) uri = Some d \<longrightarrow> ds_uri d = uri \<and> 1 \<le> ds_generation d) \<and>
     (\<forall>uri pub. map_of (ls_publications s) uri = Some pub \<longrightarrow>
        (\<exists>d. map_of (ls_documents s) uri = Some d \<and>
             (pu_document pub = d \<or> ds_generation (pu_document pub) < ds_generation d)) \<and>
        pu_diagnostics_generation pub \<le> g_diagnostics (ls_generations s))"

lemma lsp_init_inv: "lsp_inv lsp_state_init"
  by (simp add: lsp_inv_def lsp_state_init_def)

lemma update_document_inv:
  assumes "lsp_inv s" shows "lsp_inv (fst (update_document uri p v s))"
  using assms by (fastforce simp: update_document_def lsp_inv_def Let_def dict_simps split: option.splits if_splits)

lemma publish_inv:
  assumes "lsp_inv s" shows "lsp_inv (fst (publish_diagnostics uri p v g ds s))"
  using assms by (fastforce simp: publish_diagnostics_def lsp_inv_def Let_def dict_simps split: option.splits if_splits)

lemma lsp_op_step_inv: "lsp_inv s \<Longrightarrow> lsp_inv (lsp_op_step s x)"
  by (cases x) (auto intro: update_document_inv publish_inv simp: advance_source_generation_def
      advance_index_generation_def observe_index_generation_def reset_documents_def Let_def,
      auto simp: lsp_inv_def)

interpretation lsp_run: invariant_ops lsp_op_step "\<lambda>s x. True" lsp_inv
  by unfold_locales (rule lsp_op_step_inv)

lemma ops_ok_True: "ops_ok step (\<lambda>s x. True) s xs"
  by (induction xs arbitrary: s) auto

lemma lsp_history_inv: "lsp_inv (run_ops lsp_op_step lsp_state_init xs)"
  by (rule lsp_run.run_inv [OF lsp_init_inv ops_ok_True])

section \<open>What a reader may conclude\<close>

text \<open>
  The life of one document, told from the history of operations alone: unknown to the
  server, or open at a path with a version and a generation, together with the last
  publication it accepted and the path, version and generation that publication was for.
\<close>

datatype 'a life =
    Unknown
  | Open path "int option" int "(path \<times> int option \<times> int \<times> 'a frozen list) option"

text \<open>A version follows an unversioned one, or a smaller one.\<close>

fun follows :: "int option \<Rightarrow> int option \<Rightarrow> bool" where
  "follows None v = True"
| "follows (Some a) None = False"
| "follows (Some a) (Some b) = (a < b)"

text \<open>A publication concerns a document when nothing it names contradicts the document.\<close>

definition concerns :: "path \<Rightarrow> int option \<Rightarrow> int \<Rightarrow> path \<Rightarrow> int option \<Rightarrow> int \<Rightarrow> bool" where
  "concerns p v g p0 v0 g0 \<longleftrightarrow> p = p0 \<and> g = g0 \<and> (v = None \<or> v0 = None \<or> v = v0)"

definition life_update :: "path \<Rightarrow> int option \<Rightarrow> 'a life \<Rightarrow> 'a life option" where
  "life_update p v l = (case l of
       Unknown \<Rightarrow> Some (Open p v 1 None)
     | Open p0 v0 g0 pub \<Rightarrow> if follows v0 v then Some (Open p v (g0 + 1) pub) else None)"

text \<open>\<open>Inr None\<close> refuses, \<open>Inl ()\<close> is the diagnostic that cannot be frozen.\<close>

definition life_publish :: "path \<Rightarrow> int option \<Rightarrow> int \<Rightarrow> 'a pyval list \<Rightarrow> 'a life \<Rightarrow> unit + 'a life option" where
  "life_publish p v g ds l = (case l of
       Unknown \<Rightarrow> Inr None
     | Open p0 v0 g0 pub \<Rightarrow>
         if \<not> concerns p v g p0 v0 g0 then Inr None
         else (case sequence_option (map freeze ds) of
                 None \<Rightarrow> Inl () | Some fr \<Rightarrow> Inr (Some (Open p0 v0 g0 (Some (p0, v0, g0, fr))))))"

fun life_step :: "string \<Rightarrow> 'a life \<Rightarrow> 'a lsp_op \<Rightarrow> 'a life" where
  "life_step uri l (UpdateDocument u p v) =
     (if u = uri then (case life_update p v l of None \<Rightarrow> l | Some k \<Rightarrow> k) else l)"
| "life_step uri l (PublishDiagnostics u p v g ds) =
     (if u = uri then (case life_publish p v g ds l of Inr (Some k) \<Rightarrow> k | _ \<Rightarrow> l) else l)"
| "life_step uri l ResetDocuments = Unknown"
| "life_step uri l _ = l"

definition life :: "string \<Rightarrow> 'a lsp_op list \<Rightarrow> 'a life" where
  "life uri xs = foldl (life_step uri) Unknown xs"

text \<open>What a reader is told, asking for a generation or for the present one.\<close>

definition life_report ::
    "int option \<Rightarrow> 'a life \<Rightarrow> diagnostics_state \<times> path option \<times> int option \<times> int \<times> 'a frozen list" where
  "life_report asked l = (case l of
       Unknown \<Rightarrow> (MISSING, None, None, case asked of None \<Rightarrow> 0 | Some a \<Rightarrow> a, [])
     | Open p v g None \<Rightarrow> (MISSING, Some p, v, case asked of None \<Rightarrow> g | Some a \<Rightarrow> a, [])
     | Open p v g (Some (pp, pv, pg, fr)) \<Rightarrow>
         (if pg \<noteq> (case asked of None \<Rightarrow> g | Some a \<Rightarrow> a) then STALE else if fr = [] then CLEAN else FINDINGS, Some pp, pv, pg, fr))"

definition life_of :: "'a lsp_state \<Rightarrow> string \<Rightarrow> 'a life" where
  "life_of s uri = (case map_of (ls_documents s) uri of
       None \<Rightarrow> Unknown
     | Some d \<Rightarrow> Open (ds_path d) (ds_version d) (ds_generation d)
         (map_option (\<lambda>pub. (ds_path (pu_document pub), ds_version (pu_document pub), ds_generation (pu_document pub), pu_diagnostics pub))
            (map_of (ls_publications s) uri)))"

lemma is_newer_follows: "is_newer_version v v0 = follows v0 v"
  by (cases v0; cases v) (auto simp: is_newer_version_def)

lemma unopened_unpublished:
  "lsp_inv s \<Longrightarrow> map_of (ls_documents s) uri = None \<Longrightarrow> map_of (ls_publications s) uri = None"
  unfolding lsp_inv_def by (metis not_None_eq)

lemma life_of_cong:
  "map_of (ls_documents t) uri = map_of (ls_documents s) uri \<Longrightarrow>
   map_of (ls_publications t) uri = map_of (ls_publications s) uri \<Longrightarrow> life_of t uri = life_of s uri"
  unfolding life_of_def by (simp only:)

lemma update_life:
  assumes "lsp_inv s"
  shows "life_of (fst (update_document uri p v s)) uri = (case life_update p v (life_of s uri) of None \<Rightarrow> life_of s uri | Some k \<Rightarrow> k)"
    and "(snd (update_document uri p v s) \<noteq> None) = (life_update p v (life_of s uri) \<noteq> None)"
  using unopened_unpublished [OF assms, of uri]
  by (cases "map_of (ls_documents s) uri"; cases "map_of (ls_publications s) uri";
      simp add: update_document_def life_update_def life_of_def is_newer_follows Let_def dict_simps)+

lemma publish_life:
  "life_of (fst (publish_diagnostics uri p v g ds s)) uri = (case life_publish p v g ds (life_of s uri) of Inr (Some k) \<Rightarrow> k | _ \<Rightarrow> life_of s uri)"
  "snd (publish_diagnostics uri p v g ds s) = (case life_publish p v g ds (life_of s uri) of
     Inl _ \<Rightarrow> Inl (TypeError ''diagnostic cannot be frozen'') | Inr k \<Rightarrow> Inr (k \<noteq> None))"
  by (cases "map_of (ls_documents s) uri"; cases "sequence_option (map freeze ds)";
      auto simp: publish_diagnostics_def life_publish_def concerns_def life_of_def Let_def dict_simps)+

lemma life_commutes:
  assumes "lsp_inv s" shows "life_of (lsp_op_step s x) uri = life_step uri (life_of s uri) x"
proof (cases x)
  case (UpdateDocument u p v)
  show ?thesis
  proof (cases "u = uri")
    case False
    then have "life_of (fst (update_document u p v s)) uri = life_of s uri"
      by (intro life_of_cong) (auto simp: update_document_def Let_def dict_simps split: option.splits)
    with False UpdateDocument show ?thesis by simp
  qed (use UpdateDocument update_life(1) [OF assms] in simp)
next
  case (PublishDiagnostics u p v g ds)
  show ?thesis
  proof (cases "u = uri")
    case False
    then have "life_of (fst (publish_diagnostics u p v g ds s)) uri = life_of s uri"
      by (intro life_of_cong) (auto simp: publish_diagnostics_def Let_def dict_simps split: option.splits)
    with False PublishDiagnostics show ?thesis by simp
  qed (use PublishDiagnostics publish_life(1) in simp)
next
  case ResetDocuments
  then show ?thesis by (simp add: life_of_def reset_documents_def)
qed (simp_all, (rule life_of_cong; simp add: advance_source_generation_def advance_index_generation_def
      observe_index_generation_def Let_def)+)

lemma run_ops_snoc: "run_ops step s (xs @ [x]) = step (run_ops step s xs) x"
  by (induction xs arbitrary: s) auto

lemma life_of_history: "life_of (run_ops lsp_op_step lsp_state_init xs) uri = life uri xs"
proof (induction xs rule: rev_induct)
  case Nil
  then show ?case by (simp add: life_def life_of_def lsp_state_init_def)
next
  case (snoc x xs)
  then show ?case using life_commutes [OF lsp_history_inv [of xs], of x uri] by (simp add: life_def run_ops_snoc)
qed

lemma report_snapshot:
  assumes "lsp_inv s"
  shows "(dg_state (diagnostics_snapshot uri asked s), dg_path (diagnostics_snapshot uri asked s), dg_version (diagnostics_snapshot uri asked s),
    dg_generation (diagnostics_snapshot uri asked s), dg_diagnostics (diagnostics_snapshot uri asked s)) = life_report asked (life_of s uri)"
  using unopened_unpublished [OF assms, of uri]
  by (cases "map_of (ls_documents s) uri"; cases "map_of (ls_publications s) uri"; cases asked)
    (auto simp: diagnostics_snapshot_def life_of_def life_report_def Let_def)

lemma refused_unchanged:
  "snd (update_document uri p v s) = None \<Longrightarrow> fst (update_document uri p v s) = s"
  "snd (publish_diagnostics uri p v g ds s) \<noteq> Inr True \<Longrightarrow> fst (publish_diagnostics uri p v g ds s) = s"
  by (auto simp: update_document_def publish_diagnostics_def Let_def split: option.splits if_splits)

text \<open>
  C27: Diagnostics are never reported for content they were not computed for.  After any history
  of operations the snapshot of a document is the one its own life prescribes, and the life is
  computed from the history alone: an update opens the document or moves it to the next
  generation if its version follows the present one; a publication counts only if the
  document is open, path and generation are the document's own and the versions do not contradict
  each other; a restart forgets everything.  So the answer is missing until the first such
  publication, clean or findings with exactly the frozen list while the generation asked for is
  the one it was made for, stale otherwise.  An operation is refused exactly when the life says
  so, and a refused one (also one with a diagnostic that cannot be frozen) changes nothing.
\<close>

theorem diagnostics_follow_document:
  "let s = run_ops lsp_op_step lsp_state_init xs; D = diagnostics_snapshot uri asked s in
    (dg_state D, dg_path D, dg_version D, dg_generation D, dg_diagnostics D) = life_report asked (life uri xs) \<and>
    (snd (update_document uri p v s) = None \<longleftrightarrow> life_update p v (life uri xs) = None) \<and>
    snd (publish_diagnostics uri p v g ds s) = (case life_publish p v g ds (life uri xs) of
      Inl _ \<Rightarrow> Inl (TypeError ''diagnostic cannot be frozen'') | Inr k \<Rightarrow> Inr (k \<noteq> None)) \<and>
    (if life_update p v (life uri xs) = None then fst (update_document uri p v s) = s else True) \<and>
    (snd (publish_diagnostics uri p v g ds s) = Inr True \<or> fst (publish_diagnostics uri p v g ds s) = s)"
proof -
  define s where "s = run_ops lsp_op_step lsp_state_init xs"
  have inv: "lsp_inv s" and l: "life_of s uri = life uri xs" by (simp_all only: s_def lsp_history_inv life_of_history)
  have 1: "snd (update_document uri p v s) = None \<longleftrightarrow> life_update p v (life uri xs) = None"
    using update_life(2) [OF inv, of uri p v] unfolding l by blast
  have 2: "if life_update p v (life uri xs) = None then fst (update_document uri p v s) = s else True"
    using 1 refused_unchanged(1) [of uri p v s] by simp
  have 3: "snd (publish_diagnostics uri p v g ds s) = Inr True \<or> fst (publish_diagnostics uri p v g ds s) = s"
    using refused_unchanged(2) by blast
  show ?thesis
    using report_snapshot [OF inv, of uri asked] publish_life(2) [of uri p v g ds s] 1 2 3
    unfolding l Let_def s_def [symmetric] by (intro conjI)
qed

lemma lsp_op_step_generations:
  "g_source (ls_generations s) \<le> g_source (ls_generations (lsp_op_step s x)) \<and>
   g_index (ls_generations s) \<le> g_index (ls_generations (lsp_op_step s x)) \<and>
   g_diagnostics (ls_generations s) \<le> g_diagnostics (ls_generations (lsp_op_step s x))"
  by (cases x) (simp_all add: advance_source_generation_def advance_index_generation_def observe_index_generation_def
    update_document_def publish_diagnostics_def reset_documents_def Let_def split: option.split)

end
