(* ===== verification/Json.thy ===== *)
theory Json
  imports PyText "HOL-Library.List_Lexorder"
begin

text \<open>
  JSON values, the printing of \<open>json.dumps(..., ensure_ascii=False, separators=(',', ':'))\<close> and
  the parser of \<open>json.loads\<close>, with their round trip.  A text is the list of its code points.
  A float is represented by its literal.
\<close>

section \<open>Values\<close>

type_synonym text_cp = "nat list"

definition lit :: "string \<Rightarrow> text_cp" where
  "lit s = map of_char s"

lemma length_lit [simp]: "length (lit s) = length s"
  by (simp add: lit_def)

lemma lit_append: "lit (s @ t) = lit s @ lit t"
  by (simp add: lit_def)

lemma lit_inject [simp]: "lit s = lit t \<longleftrightarrow> s = t"
  by (simp add: lit_def inj_map_eq_map inj_of_char)

lemma lit_simps [simp]: "lit [] = []" "lit (c # s) = of_char c # lit s"
  by (simp_all add: lit_def)

declare lit_simps(2) [simp del]

datatype json =
    JNull
  | JBool bool
  | JInt int
  | JFloat text_cp
  | JStr text_cp
  | JArr "json list"
  | JObj "(text_cp \<times> json) list"

section \<open>Printing\<close>

definition hex_digit :: "nat \<Rightarrow> nat" where
  "hex_digit d = (if d < 10 then 48 + d else 87 + d)"

definition escape_char :: "nat \<Rightarrow> text_cp" where
  "escape_char c =
     (if c = 34 then [92, 34]
      else if c = 92 then [92, 92]
      else if c = 10 then [92, 110]
      else if c = 13 then [92, 114]
      else if c = 9 then [92, 116]
      else if c = 12 then [92, 102]
      else if c = 8 then [92, 98]
      else if c < 32 then [92, 117, 48, 48, hex_digit (c div 16), hex_digit (c mod 16)]
      else [c])"

definition quote :: "text_cp \<Rightarrow> text_cp" where
  "quote s = 34 # concat (map escape_char s) @ [34]"

fun join_comma :: "text_cp list \<Rightarrow> text_cp" where
  "join_comma [] = []"
| "join_comma [x] = x"
| "join_comma (x # y # xs) = x @ 44 # join_comma (y # xs)"

fun dumps :: "json \<Rightarrow> text_cp" where
  "dumps JNull = lit ''null''"
| "dumps (JBool b) = (if b then lit ''true'' else lit ''false'')"
| "dumps (JInt i) = lit (show_int i)"
| "dumps (JFloat l) = l"
| "dumps (JStr s) = quote s"
| "dumps (JArr xs) = 91 # join_comma (map dumps xs) @ [93]"
| "dumps (JObj kvs) = 123 # join_comma (map (\<lambda>(k, v). quote k @ 58 # dumps v) kvs) @ [125]"

section \<open>Parsing\<close>

definition is_ws :: "nat \<Rightarrow> bool" where
  "is_ws c \<longleftrightarrow> c = 32 \<or> c = 9 \<or> c = 10 \<or> c = 13"

definition skip_ws :: "text_cp \<Rightarrow> text_cp" where
  "skip_ws s = dropWhile is_ws s"

definition is_dig :: "nat \<Rightarrow> bool" where
  "is_dig c \<longleftrightarrow> 48 \<le> c \<and> c \<le> 57"

definition hex_value :: "nat \<Rightarrow> nat option" where
  "hex_value c =
     (if is_dig c then Some (c - 48)
      else if 97 \<le> c \<and> c \<le> 102 then Some (c - 87)
      else if 65 \<le> c \<and> c \<le> 70 then Some (c - 55)
      else None)"

fun hex4 :: "text_cp \<Rightarrow> (nat \<times> text_cp) option" where
  "hex4 (a # b # c # d # r) =
     (case (hex_value a, hex_value b, hex_value c, hex_value d) of
        (Some a', Some b', Some c', Some d') \<Rightarrow> Some (((a' * 16 + b') * 16 + c') * 16 + d', r)
      | _ \<Rightarrow> None)"
| "hex4 _ = None"

lemma hex4_shorter: "hex4 s = Some (n, r) \<Longrightarrow> length r < length s"
  by (induction s rule: hex4.induct) (auto split: option.splits)

text \<open>A \<open>\u\<close> escape: a high surrogate joins a low one that follows it.\<close>

definition unicode_escape :: "text_cp \<Rightarrow> (nat \<times> text_cp) option" where
  "unicode_escape s = (case hex4 s of
       None \<Rightarrow> None
     | Some (n, r) \<Rightarrow>
         if 55296 \<le> n \<and> n \<le> 56319 \<and> take 2 r = [92, 117]
         then (case hex4 (drop 2 r) of
                 None \<Rightarrow> None
               | Some (m, r') \<Rightarrow>
                   if 56320 \<le> m \<and> m \<le> 57343
                   then Some (65536 + ((n - 55296) * 1024 + (m - 56320)), r')
                   else Some (n, r))
         else Some (n, r))"

lemma unicode_escape_shorter: "unicode_escape s = Some (n, r) \<Longrightarrow> length r < length s"
  by (force simp: unicode_escape_def dest: hex4_shorter split: option.splits if_splits prod.splits)

definition simple_escape :: "nat \<Rightarrow> nat option" where
  "simple_escape e = map_of [(34, 34), (92, 92), (47, 47), (98, 8), (102, 12), (110, 10), (114, 13), (116, 9)] e"

text \<open>The text of a string literal after its opening quote.\<close>

function parse_string :: "text_cp \<Rightarrow> (text_cp \<times> text_cp) option" where
  "parse_string s = (case s of
       [] \<Rightarrow> None
     | c # r \<Rightarrow>
         if c = 34 then Some ([], r)
         else if c = 92 then
           (case r of
              [] \<Rightarrow> None
            | e # r' \<Rightarrow>
                if e = 117 then
                  (case unicode_escape r' of
                     None \<Rightarrow> None
                   | Some (n, r'') \<Rightarrow> map_option (\<lambda>(t, q). (n # t, q)) (parse_string r''))
                else (case simple_escape e of
                     None \<Rightarrow> None
                   | Some n \<Rightarrow> map_option (\<lambda>(t, q). (n # t, q)) (parse_string r')))
         else if c < 32 then None
         else map_option (\<lambda>(t, q). (c # t, q)) (parse_string r))"
  by pat_completeness auto
termination
  by (relation "measure length") (auto dest: unicode_escape_shorter)

declare parse_string.simps [simp del]

text \<open>A number: integer part, optional fraction, optional exponent.\<close>

definition int_part :: "text_cp \<Rightarrow> (text_cp \<times> text_cp) option" where
  "int_part s = (case s of
       [] \<Rightarrow> None
     | c # r \<Rightarrow> if c = 48 then Some ([48], r)
                else if is_dig c then Some (takeWhile is_dig s, dropWhile is_dig s)
                else None)"

definition frac_part :: "text_cp \<Rightarrow> text_cp \<times> text_cp" where
  "frac_part s = (case s of
       c # d # r \<Rightarrow> if c = 46 \<and> is_dig d
                   then (46 # takeWhile is_dig (d # r), dropWhile is_dig (d # r)) else ([], s)
     | _ \<Rightarrow> ([], s))"

definition exp_part :: "text_cp \<Rightarrow> text_cp \<times> text_cp" where
  "exp_part s = (case s of
       [] \<Rightarrow> ([], s)
     | c # r \<Rightarrow>
         if c \<noteq> 101 \<and> c \<noteq> 69 then ([], s)
         else (case r of
                 [] \<Rightarrow> ([], s)
               | d # q \<Rightarrow>
                   if is_dig d then (c # takeWhile is_dig r, dropWhile is_dig r)
                   else if (d = 43 \<or> d = 45) \<and> (case q of [] \<Rightarrow> False | x # _ \<Rightarrow> is_dig x)
                   then (c # d # takeWhile is_dig q, dropWhile is_dig q)
                   else ([], s)))"

definition digits_nat :: "text_cp \<Rightarrow> nat" where
  "digits_nat s = foldl (\<lambda>a c. 10 * a + (c - 48)) 0 s"

definition parse_number :: "text_cp \<Rightarrow> (json \<times> text_cp) option" where
  "parse_number s =
     (let neg = (take 1 s = [45]); s' = (if neg then drop 1 s else s) in
      case int_part s' of
        None \<Rightarrow> None
      | Some (ds, r) \<Rightarrow>
          (let (fr, r1) = frac_part r; (ex, r2) = exp_part r1 in
           if fr = [] \<and> ex = []
           then Some (JInt (if neg then - int (digits_nat ds) else int (digits_nat ds)), r2)
           else Some (JFloat ((if neg then [45] else []) @ ds @ fr @ ex), r2)))"

text \<open>A dictionary from its members: a repeated key keeps its place and takes the last value.\<close>

definition dict_of :: "(text_cp \<times> json) list \<Rightarrow> (text_cp \<times> json) list" where
  "dict_of kvs = foldl (\<lambda>d (k, v). AList.update k v d) [] kvs"

definition keyword :: "string \<Rightarrow> json \<Rightarrow> text_cp \<Rightarrow> (json \<times> text_cp) option" where
  "keyword w j s = (if take (length w) s = lit w then Some (j, drop (length w) s) else None)"

fun parse_value :: "nat \<Rightarrow> text_cp \<Rightarrow> (json \<times> text_cp) option"
  and parse_elems :: "nat \<Rightarrow> text_cp \<Rightarrow> (json list \<times> text_cp) option"
  and parse_members :: "nat \<Rightarrow> text_cp \<Rightarrow> ((text_cp \<times> json) list \<times> text_cp) option" where
  "parse_value 0 s = None"
| "parse_value (Suc n) s = (case s of
       [] \<Rightarrow> None
     | c # r \<Rightarrow>
         if c = 34 then map_option (\<lambda>(t, q). (JStr t, q)) (parse_string r)
         else if c = 123 then
           (case skip_ws r of
              [] \<Rightarrow> None
            | d # q \<Rightarrow> if d = 125 then Some (JObj [], q)
                       else map_option (\<lambda>(kvs, q'). (JObj (dict_of kvs), q')) (parse_members n (d # q)))
         else if c = 91 then
           (case skip_ws r of
              [] \<Rightarrow> None
            | d # q \<Rightarrow> if d = 93 then Some (JArr [], q)
                       else map_option (\<lambda>(xs, q'). (JArr xs, q')) (parse_elems n (d # q)))
         else if c = 110 then keyword ''null'' JNull s
         else if c = 116 then keyword ''true'' (JBool True) s
         else if c = 102 then keyword ''false'' (JBool False) s
         else if c = 78 then keyword ''NaN'' (JFloat (lit ''NaN'')) s
         else if c = 73 then keyword ''Infinity'' (JFloat (lit ''Infinity'')) s
         else (case parse_number s of
                 Some p \<Rightarrow> Some p
               | None \<Rightarrow> keyword ''-Infinity'' (JFloat (lit ''-Infinity'')) s))"
| "parse_elems 0 s = None"
| "parse_elems (Suc n) s = (case parse_value n s of
       None \<Rightarrow> None
     | Some (x, r) \<Rightarrow>
         (case skip_ws r of
            [] \<Rightarrow> None
          | d # q \<Rightarrow> if d = 93 then Some ([x], q)
                     else if d = 44 then map_option (\<lambda>(xs, q'). (x # xs, q')) (parse_elems n (skip_ws q))
                     else None))"
| "parse_members 0 s = None"
| "parse_members (Suc n) s = (case s of
       [] \<Rightarrow> None
     | c # r \<Rightarrow>
         if c \<noteq> 34 then None
         else case parse_string r of
                None \<Rightarrow> None
              | Some (k, r1) \<Rightarrow>
                  (case skip_ws r1 of
                     [] \<Rightarrow> None
                   | d # r2 \<Rightarrow>
                       if d \<noteq> 58 then None
                       else case parse_value n (skip_ws r2) of
                              None \<Rightarrow> None
                            | Some (v, r3) \<Rightarrow>
                                (case skip_ws r3 of
                                   [] \<Rightarrow> None
                                 | e # q \<Rightarrow>
                                     if e = 125 then Some ([(k, v)], q)
                                     else if e = 44
                                     then map_option (\<lambda>(kvs, q'). ((k, v) # kvs, q')) (parse_members n (skip_ws q))
                                     else None)))"

text \<open>Every value of a text of length \<open>n\<close> nests and lists at most \<open>n\<close> parts, so this fuel suffices.\<close>

definition loads :: "text_cp \<Rightarrow> json option" where
  "loads s = (case parse_value (length s + 1) (skip_ws s) of
       None \<Rightarrow> None
     | Some (j, r) \<Rightarrow> if skip_ws r = [] then Some j else None)"

section \<open>Round trip\<close>

subsection \<open>Strings\<close>

lemma hex_value_digit: "d < 16 \<Longrightarrow> hex_value (hex_digit d) = Some d"
  by (auto simp: hex_value_def hex_digit_def is_dig_def)

lemma unicode_escape_control:
  assumes "c < 32"
  shows "unicode_escape (48 # 48 # hex_digit (c div 16) # hex_digit (c mod 16) # r) = Some (c, r)"
proof -
  have "hex_value (hex_digit (c div 16)) = Some (c div 16)" and "hex_value (hex_digit (c mod 16)) = Some (c mod 16)"
    using assms by (simp_all add: hex_value_digit)
  moreover have "hex_value 48 = Some 0" by (simp add: hex_value_def is_dig_def)
  ultimately show ?thesis using assms by (simp add: unicode_escape_def)
qed

lemma parse_string_escape:
  "parse_string (escape_char c @ r) = map_option (\<lambda>(t, q). (c # t, q)) (parse_string r)"
proof -
  consider "c \<in> {34, 92, 10, 13, 9, 12, 8}" | "c \<notin> {34, 92, 10, 13, 9, 12, 8}" "c < 32"
    | "c \<notin> {34, 92, 10, 13, 9, 12, 8}" "\<not> c < 32" by blast
  then show ?thesis
  proof cases
    case 1
    then show ?thesis by (subst parse_string.simps) (auto simp: escape_char_def simple_escape_def)
  next
    case 2
    then show ?thesis
      by (subst parse_string.simps) (simp add: escape_char_def unicode_escape_control)
  next
    case 3
    then show ?thesis by (subst parse_string.simps) (simp add: escape_char_def)
  qed
qed

lemma parse_string_quoted: "parse_string (concat (map escape_char s) @ 34 # r) = Some (s, r)"
proof (induction s)
  case Nil
  show ?case by (subst parse_string.simps) simp
next
  case (Cons c s)
  then show ?case by (simp add: parse_string_escape)
qed

subsection \<open>Numbers\<close>

text \<open>What follows a value inside a printed value, or at its end.\<close>

definition delim :: "text_cp \<Rightarrow> bool" where
  "delim r \<longleftrightarrow> (case r of [] \<Rightarrow> True | c # _ \<Rightarrow> c = 44 \<or> c = 93 \<or> c = 125)"

lemma delim_simps [simp]: "delim []" "delim (44 # r)" "delim (93 # r)" "delim (125 # r)"
  by (simp_all add: delim_def)

lemma takeWhile_digits_delim:
  assumes "delim r"
  shows "takeWhile is_dig (s @ r) = takeWhile is_dig s" and "dropWhile is_dig (s @ r) = dropWhile is_dig s @ r"
proof -
  have "takeWhile is_dig r = []" "dropWhile is_dig r = r"
    using assms by (auto simp: delim_def is_dig_def split: list.splits)
  then show "takeWhile is_dig (s @ r) = takeWhile is_dig s" and "dropWhile is_dig (s @ r) = dropWhile is_dig s @ r"
    by (induction s) auto
qed

lemma int_part_delim: "delim r \<Longrightarrow> int_part s = Some (ds, q) \<Longrightarrow> int_part (s @ r) = Some (ds, q @ r)"
  using takeWhile_digits_delim [of r s] by (cases s) (auto simp: int_part_def split: if_splits)

lemma frac_part_delim: "delim r \<Longrightarrow> frac_part (s @ r) = (fst (frac_part s), snd (frac_part s) @ r)"
  using takeWhile_digits_delim [of r "tl s"]
  by (auto simp: frac_part_def delim_def is_dig_def neq_Nil_conv split: list.splits)

lemma exp_part_delim: "delim r \<Longrightarrow> exp_part (s @ r) = (fst (exp_part s), snd (exp_part s) @ r)"
  using takeWhile_digits_delim [of r "tl s"] takeWhile_digits_delim [of r "tl (tl s)"]
  by (auto simp: exp_part_def delim_def is_dig_def split: list.splits)

lemma parse_number_delim:
  assumes "delim r" and "parse_number s = Some (j, q)" shows "parse_number (s @ r) = Some (j, q @ r)"
proof (cases "take 1 s = [45]")
  case True
  then obtain s' where s: "s = 45 # s'" by (cases s) auto
  with assms obtain ds p where i: "int_part s' = Some (ds, p)"
    by (auto simp: parse_number_def split: option.splits)
  show ?thesis
    using assms s int_part_delim [OF assms(1) i] i
    by (auto simp: parse_number_def frac_part_delim exp_part_delim case_prod_unfold Let_def split: if_splits)
next
  case False
  with assms obtain ds p where i: "int_part s = Some (ds, p)"
    by (auto simp: parse_number_def split: option.splits)
  then have ne: "s \<noteq> []" by (auto simp: int_part_def)
  then have "take 1 (s @ r) \<noteq> [45]" using False by (cases s) auto
  then show ?thesis
    using assms False int_part_delim [OF assms(1) i] i
    by (auto simp: parse_number_def frac_part_delim exp_part_delim case_prod_unfold Let_def split: if_splits)
qed

definition float_lit :: "text_cp \<Rightarrow> bool" where
  "float_lit l \<longleftrightarrow> parse_number l = Some (JFloat l, [])"

lemma lit_digits: "list_all is_digit s \<Longrightarrow> list_all is_dig (lit s)"
  by (induction s) (auto simp: is_digit_def is_dig_def lit_simps)

lemma digits_nat_lit: "digits_nat (lit s) = digits_value s"
  unfolding digits_nat_def digits_value_def lit_def by (simp add: foldl_map)

lemma show_nat_head: "0 < n \<Longrightarrow> \<exists>d s. show_nat n = digit_char d # s \<and> 0 < d \<and> d < 10"
proof (induction n rule: show_nat.induct)
  case (1 n)
  show ?case
  proof (cases "n < 10")
    case True
    with 1 show ?thesis by (subst show_nat.simps) auto
  next
    case False
    then have "0 < n div 10" by simp
    with 1 False obtain d s where "show_nat (n div 10) = digit_char d # s \<and> 0 < d \<and> d < 10" by blast
    with False show ?thesis by (subst show_nat.simps) auto
  qed
qed

lemma int_part_show: "int_part (lit (show_nat n)) = Some (lit (show_nat n), [])"
proof (cases "n = 0")
  case True
  then show ?thesis
    by (subst show_nat.simps, subst show_nat.simps) (simp add: int_part_def digit_char_def of_char_of lit_simps)
next
  case False
  then obtain d s where d: "show_nat n = digit_char d # s" "0 < d" "d < 10"
    using show_nat_head by blast
  have all: "list_all is_dig (lit (show_nat n))" by (rule lit_digits [OF show_nat_digits])
  moreover have "lit (show_nat n) = (48 + d) # lit s" using d by (simp add: lit_simps of_char_digit)
  ultimately show ?thesis
    using d(2) by (auto simp: int_part_def list_all_iff takeWhile_eq_all_conv is_dig_def)
qed

lemma parse_number_int: "parse_number (lit (show_int i)) = Some (JInt i, [])"
proof -
  have e: "frac_part [] = ([], [])" "exp_part [] = ([], [])" by (simp_all add: frac_part_def exp_part_def)
  show ?thesis
  proof (cases "i < 0")
    case True
    then show ?thesis
      by (simp add: parse_number_def show_int_def lit_simps int_part_show e digits_nat_lit digits_value_show)
  next
    case False
    have "list_all is_dig (lit (show_nat (nat i)))" by (rule lit_digits [OF show_nat_digits])
    then have "take 1 (lit (show_nat (nat i))) \<noteq> [45]"
      by (cases "lit (show_nat (nat i))") (auto simp: is_dig_def)
    with False show ?thesis
      by (simp add: parse_number_def show_int_def int_part_show e digits_nat_lit digits_value_show)
  qed
qed

subsection \<open>Values\<close>

fun json_wf :: "json \<Rightarrow> bool" where
  "json_wf (JFloat l) = float_lit l"
| "json_wf (JArr xs) = list_all json_wf xs"
| "json_wf (JObj kvs) = (distinct (map fst kvs) \<and> list_all (\<lambda>p. json_wf (snd p)) kvs)"
| "json_wf _ = True"

fun json_fuel :: "json \<Rightarrow> nat" where
  "json_fuel (JArr xs) = Suc (sum_list (map (\<lambda>x. Suc (json_fuel x)) xs))"
| "json_fuel (JObj kvs) = Suc (sum_list (map (\<lambda>p. Suc (json_fuel (snd p))) kvs))"
| "json_fuel _ = 1"

lemma int_part_head: "int_part s = Some p \<Longrightarrow> \<exists>c t. s = c # t \<and> is_dig c"
  by (cases s) (auto simp: int_part_def is_dig_def split: if_splits)

lemma parse_number_head:
  assumes "parse_number s = Some p" shows "\<exists>c t. s = c # t \<and> (is_dig c \<or> c = 45)"
proof (cases "take 1 s = [45]")
  case True
  then show ?thesis by (cases s) auto
next
  case False
  with assms show ?thesis by (auto simp: parse_number_def Let_def dest: int_part_head split: option.splits)
qed

lemma dumps_head:
  "json_wf j \<Longrightarrow> \<exists>c t. dumps j = c # t \<and> \<not> is_ws c \<and> c \<noteq> 93 \<and> c \<noteq> 125"
proof (cases j)
  case (JInt i)
  with parse_number_head [OF parse_number_int] show ?thesis by (force simp: is_dig_def is_ws_def)
next
  case (JFloat l)
  moreover assume "json_wf j"
  ultimately show ?thesis using parse_number_head [of l] by (force simp: float_lit_def is_dig_def is_ws_def)
qed (auto simp: lit_simps quote_def is_ws_def)

lemma skip_ws_dumps: "json_wf j \<Longrightarrow> skip_ws (dumps j @ r) = dumps j @ r"
  using dumps_head [of j] by (auto simp: skip_ws_def)

lemma skip_ws_delim [simp]:
  "skip_ws (44 # r) = 44 # r" "skip_ws (93 # r) = 93 # r" "skip_ws (125 # r) = 125 # r"
  "skip_ws (58 # r) = 58 # r" "skip_ws (34 # r) = 34 # r" "skip_ws [] = []"
  by (simp_all add: skip_ws_def is_ws_def)

lemma parse_value_number:
  assumes "parse_number s = Some (j, [])" and "delim r"
  shows "parse_value (Suc n) (s @ r) = Some (j, r)"
proof -
  from parse_number_head [OF assms(1)] obtain c t where s: "s = c # t" "is_dig c \<or> c = 45" by blast
  have "parse_number (s @ r) = Some (j, r)" using parse_number_delim [OF assms(2,1)] by simp
  with s show ?thesis by (auto simp: is_dig_def)
qed

lemma parse_elems_dumps:
  assumes "\<And>x n r. x \<in> set xs \<Longrightarrow> delim r \<Longrightarrow> json_fuel x \<le> n \<Longrightarrow> parse_value n (dumps x @ r) = Some (x, r)"
    and "list_all json_wf xs" and "xs \<noteq> []" and "sum_list (map (\<lambda>x. Suc (json_fuel x)) xs) \<le> n"
  shows "parse_elems n (join_comma (map dumps xs) @ 93 # r) = Some (xs, r)"
  using assms
proof (induction xs arbitrary: n)
  case (Cons x xs)
  from Cons.prems(4) obtain m where n: "n = Suc m" "json_fuel x \<le> m" by (cases n) auto
  show ?case
  proof (cases xs)
    case Nil
    with Cons.prems(1) [of x "93 # r" m] n show ?thesis by simp
  next
    case (Cons y ys)
    with Cons.prems n have "parse_value m (dumps x @ 44 # join_comma (map dumps xs) @ 93 # r)
        = Some (x, 44 # join_comma (map dumps xs) @ 93 # r)" by simp
    moreover have "parse_elems m (join_comma (map dumps xs) @ 93 # r) = Some (xs, r)"
      using Cons Cons.prems n by (intro Cons.IH) auto
    moreover have "skip_ws (join_comma (map dumps xs) @ 93 # r) = join_comma (map dumps xs) @ 93 # r"
      using Cons Cons.prems(2) skip_ws_dumps [of y] by (cases ys) auto
    ultimately show ?thesis using n Cons by simp
  qed
qed simp

abbreviation dump_member :: "text_cp \<times> json \<Rightarrow> text_cp" where
  "dump_member \<equiv> \<lambda>(k, v). quote k @ 58 # dumps v"

lemma parse_members_dumps:
  assumes "\<And>x n r. x \<in> snd ` set kvs \<Longrightarrow> delim r \<Longrightarrow> json_fuel x \<le> n \<Longrightarrow> parse_value n (dumps x @ r) = Some (x, r)"
    and "list_all (\<lambda>p. json_wf (snd p)) kvs" and "kvs \<noteq> []" and "sum_list (map (\<lambda>p. Suc (json_fuel (snd p))) kvs) \<le> n"
  shows "parse_members n (join_comma (map dump_member kvs) @ 125 # r) = Some (kvs, r)"
  using assms
proof (induction kvs arbitrary: n)
  case (Cons p kvs)
  obtain k v where p: "p = (k, v)" by (cases p)
  from Cons.prems(4) p obtain m where n: "n = Suc m" "json_fuel v \<le> m" by (cases n) auto
  have str: "parse_string (concat (map escape_char k) @ 34 # q) = Some (k, q)" for q by (rule parse_string_quoted)
  have ws: "skip_ws (dumps v @ q) = dumps v @ q" for q using Cons.prems(2) p by (simp add: skip_ws_dumps)
  show ?case
  proof (cases kvs)
    case Nil
    with Cons.prems(1) [of v "125 # r" m] n p ws show ?thesis by (simp add: quote_def str)
  next
    case (Cons p' kvs')
    let ?rest = "join_comma (map dump_member kvs) @ 125 # r"
    have "parse_value m (dumps v @ 44 # ?rest) = Some (v, 44 # ?rest)"
      using Cons.prems(1) [of v "44 # ?rest" m] n p by simp
    moreover have "parse_members m ?rest = Some (kvs, r)"
      using Cons Cons.prems n p by (intro Cons.IH) auto
    moreover have "skip_ws ?rest = ?rest"
      using Cons by (cases kvs') (auto simp: quote_def split: prod.splits)
    ultimately show ?thesis using n Cons p ws by (simp add: quote_def str)
  qed
qed simp

lemma dict_of_distinct: "distinct (map fst kvs) \<Longrightarrow> dict_of kvs = kvs"
proof -
  have "distinct (map fst (d @ kvs)) \<Longrightarrow> foldl (\<lambda>d (k, v). AList.update k v d) d kvs = d @ kvs" for d
  proof (induction kvs arbitrary: d)
    case (Cons p kvs)
    obtain k v where p: "p = (k, v)" by (cases p)
    with Cons.prems have "map_of d k = None" by (auto simp: map_of_eq_None_iff)
    then have "AList.update k v d = d @ [(k, v)]" by (rule dict_update_new)
    with Cons p show ?case by simp
  qed simp
  from this [of "[]"] show "distinct (map fst kvs) \<Longrightarrow> dict_of kvs = kvs" by (simp add: dict_of_def)
qed

lemma parse_value_dumps:
  "json_wf j \<Longrightarrow> delim r \<Longrightarrow> json_fuel j \<le> n \<Longrightarrow> parse_value n (dumps j @ r) = Some (j, r)"
proof (induction j arbitrary: n r)
  case JNull
  then show ?case by (cases n) (auto simp: keyword_def lit_simps)
next
  case (JBool b)
  then show ?case by (cases n; cases b) (auto simp: keyword_def lit_simps)
next
  case (JInt i)
  then show ?case using parse_value_number [OF parse_number_int] by (cases n) simp_all
next
  case (JFloat l)
  then show ?case using parse_value_number [of l "JFloat l"] by (cases n) (simp_all add: float_lit_def)
next
  case (JStr s)
  then show ?case by (cases n) (simp_all add: quote_def parse_string_quoted)
next
  case (JArr xs)
  then obtain m where n: "n = Suc m" "sum_list (map (\<lambda>x. Suc (json_fuel x)) xs) \<le> m" by (cases n) auto
  show ?case
  proof (cases "xs = []")
    case False
    have "parse_elems m (join_comma (map dumps xs) @ 93 # r) = Some (xs, r)"
      using JArr n False by (intro parse_elems_dumps) (auto simp: list_all_iff)
    moreover obtain c t where h: "join_comma (map dumps xs) @ 93 # r = c # t" "\<not> is_ws c" "c \<noteq> 93"
      using False JArr.prems(1) dumps_head [of "hd xs"] by (cases xs rule: remdups_adj.cases) auto
    ultimately show ?thesis using n by (simp add: skip_ws_def)
  qed (use n in simp)
next
  case (JObj kvs)
  then obtain m where n: "n = Suc m" "sum_list (map (\<lambda>p. Suc (json_fuel (snd p))) kvs) \<le> m" by (cases n) auto
  show ?case
  proof (cases "kvs = []")
    case False
    have "parse_members m (join_comma (map dump_member kvs) @ 125 # r) = Some (kvs, r)"
      using JObj n False by (intro parse_members_dumps) (auto simp: list_all_iff snds.simps)
    moreover obtain t where h: "join_comma (map dump_member kvs) @ 125 # r = 34 # t"
      using False by (cases kvs rule: remdups_adj.cases) (auto simp: quote_def split: prod.splits)
    ultimately show ?thesis using n JObj.prems(1) by (simp add: dict_of_distinct)
  qed (use n in simp)
qed

lemma length_join_comma: "xs \<noteq> [] \<Longrightarrow> length (join_comma xs) + 1 = sum_list (map (\<lambda>x. Suc (length x)) xs)"
  by (induction xs rule: join_comma.induct) auto

lemma fuel_suffices: "json_wf j \<Longrightarrow> json_fuel j \<le> length (dumps j)"
proof (induction j)
  case (JArr xs)
  then have "sum_list (map (\<lambda>x. Suc (json_fuel x)) xs) \<le> sum_list (map (\<lambda>x. Suc (length (dumps x))) xs)"
    by (intro sum_list_mono) (auto simp: list_all_iff)
  also have "\<dots> \<le> length (join_comma (map dumps xs)) + 1"
    using length_join_comma [of "map dumps xs"] by (cases xs) (auto simp: comp_def)
  finally show ?case by simp
next
  case (JObj kvs)
  then have "sum_list (map (\<lambda>p. Suc (json_fuel (snd p))) kvs) \<le> sum_list (map (\<lambda>p. Suc (length (dump_member p))) kvs)"
    by (intro sum_list_mono) (force simp: list_all_iff snds.simps split: prod.splits)
  also have "\<dots> \<le> length (join_comma (map dump_member kvs)) + 1"
    using length_join_comma [of "map dump_member kvs"] by (cases kvs) (auto simp: comp_def)
  finally show ?case by simp
qed (use dumps_head in \<open>fastforce simp: Suc_le_eq\<close>)+

lemma loads_dumps: "json_wf j \<Longrightarrow> loads (dumps j) = Some j"
  using parse_value_dumps [of j "[]" "length (dumps j) + 1"] fuel_suffices [of j] skip_ws_dumps [of j "[]"]
  by (simp add: loads_def)

lemma dumps_inject: "json_wf i \<Longrightarrow> json_wf j \<Longrightarrow> dumps i = dumps j \<longleftrightarrow> i = j"
  by (metis loads_dumps option.inject)

end
