(* ===== verification/Framing.thy ===== *)
theory Framing
  imports Json Utf8
begin

text \<open>
  Framing of the language-server protocol (\<open>lsp/client.py\<close>, module functions): the encoder,
  the exact reader over a stream that may return short reads, and the bounded message
  reader, with their round trip.  Bytes are natural numbers below 256.
\<close>

section \<open>Streams\<close>

text \<open>
  An open byte stream: the bytes to come and how many of them the next calls of \<open>read\<close> are
  willing to return (an exhausted schedule returns all that was asked for).  A read of a
  positive size returns nothing only at the end of the stream.
\<close>

record stream =
  st_bytes :: "nat list"
  st_schedule :: "nat list"

definition stream_read :: "nat \<Rightarrow> stream \<Rightarrow> nat list \<times> stream" where
  "stream_read n s =
     (let k = (case st_schedule s of [] \<Rightarrow> n | m # _ \<Rightarrow> max 1 (min m n)) in
      (take k (st_bytes s), s\<lparr>st_bytes := drop k (st_bytes s), st_schedule := tl (st_schedule s)\<rparr>))"

definition stream_readline :: "stream \<Rightarrow> nat list \<times> stream" where
  "stream_readline s =
     (let pre = takeWhile (\<lambda>b. b \<noteq> 10) (st_bytes s);
          line = (if length pre < length (st_bytes s) then pre @ [10] else pre)
      in (line, s\<lparr>st_bytes := drop (length line) (st_bytes s)\<rparr>))"

section \<open>Errors\<close>

datatype lsp_error =
    LspTransportClosed string
  | LspProtocolError string
  | LspResponseError int text_cp json
  | LspEOFError
  | LspTimeoutError
  | LspValueError string
  | LspOtherError nat

section \<open>Encoding\<close>

definition MAX_CONTENT_BYTES :: nat where
  "MAX_CONTENT_BYTES = 64 * 1024 * 1024"

definition MAX_HEADER_BYTES :: nat where
  "MAX_HEADER_BYTES = 16 * 1024"

definition encode_message :: "json \<Rightarrow> nat list" where
  "encode_message payload =
     (let body = utf8_encode (dumps payload) in
      lit ''Content-Length: '' @ lit (show_nat (length body)) @ [13, 10, 13, 10] @ body)"

section \<open>Reading\<close>

function read_exact :: "stream \<Rightarrow> nat \<Rightarrow> (lsp_error + nat list) \<times> stream" where
  "read_exact s remaining =
     (if remaining = 0 then (Inr [], s)
      else let (chunk, s') = stream_read remaining s in
           if chunk = [] then (Inl LspEOFError, s')
           else case read_exact s' (remaining - length chunk) of
                  (Inl e, s'') \<Rightarrow> (Inl e, s'')
                | (Inr rest, s'') \<Rightarrow> (Inr (chunk @ rest), s''))"
  by pat_completeness auto
termination
  by (relation "measure snd") (auto simp: stream_read_def Let_def split: list.splits)

declare read_exact.simps [simp del]

definition is_space :: "nat \<Rightarrow> bool" where
  "is_space b \<longleftrightarrow> b = 32 \<or> (9 \<le> b \<and> b \<le> 13)"

definition strip_bytes :: "nat list \<Rightarrow> nat list" where
  "strip_bytes bs = rev (dropWhile is_space (rev (dropWhile is_space bs)))"

definition lower_byte :: "nat \<Rightarrow> nat" where
  "lower_byte b = (if 65 \<le> b \<and> b \<le> 90 then b + 32 else b)"

text \<open>\<open>int\<close> of a stripped byte string: a sign, then digits that single underscores may separate.\<close>

fun digit_run :: "nat list \<Rightarrow> nat \<Rightarrow> nat option" where
  "digit_run [] a = Some a"
| "digit_run (c # r) a =
     (if is_dig c then digit_run r (10 * a + (c - 48))
      else if c = 95 then (case r of d # _ \<Rightarrow> if is_dig d then digit_run r a else None | [] \<Rightarrow> None)
      else None)"

definition py_nat :: "nat list \<Rightarrow> nat option" where
  "py_nat s = (case s of c # r \<Rightarrow> if is_dig c then digit_run s 0 else None | [] \<Rightarrow> None)"

definition py_int :: "nat list \<Rightarrow> int option" where
  "py_int s = (case s of
       [] \<Rightarrow> None
     | c # r \<Rightarrow> if c = 43 then map_option int (py_nat r)
                else if c = 45 then map_option (\<lambda>n. - int n) (py_nat r)
                else map_option int (py_nat s))"

text \<open>\<open>bytes.partition(b':')\<close>.\<close>

definition partition_colon :: "nat list \<Rightarrow> nat list \<times> bool \<times> nat list" where
  "partition_colon line =
     (let name = takeWhile (\<lambda>b. b \<noteq> 58) line in
      if length name < length line then (name, True, drop (Suc (length name)) line) else (line, False, []))"

text \<open>One header line: the content length known so far, and whether the header ended.\<close>

definition header_line :: "nat list \<Rightarrow> int option \<Rightarrow> lsp_error + (int option \<times> bool)" where
  "header_line line content_length =
     (if line = [10] \<or> line = [13, 10] then Inr (content_length, True)
      else case partition_colon line of (name, separator, raw_value) \<Rightarrow>
        if \<not> separator then Inl (LspProtocolError ''malformed LSP header'')
        else if map lower_byte (strip_bytes name) \<noteq> lit ''content-length'' then Inr (content_length, False)
        else if content_length \<noteq> None then Inl (LspProtocolError ''duplicate Content-Length header'')
        else case py_int (strip_bytes raw_value) of
               None \<Rightarrow> Inl (LspProtocolError ''invalid Content-Length'')
             | Some n \<Rightarrow> Inr (Some n, False))"

lemma readline_consumes:
  "stream_readline s = (line, s') \<Longrightarrow> line \<noteq> [] \<Longrightarrow> length (st_bytes s') < length (st_bytes s)"
  by (cases "st_bytes s") (auto simp: stream_readline_def Let_def)

function read_headers :: "stream \<Rightarrow> nat \<Rightarrow> int option \<Rightarrow> (lsp_error + int option) \<times> stream" where
  "read_headers s header_bytes content_length =
     (let (line, s') = stream_readline s in
      if line = [] then (Inl LspEOFError, s')
      else if header_bytes + length line > MAX_HEADER_BYTES
      then (Inl (LspProtocolError ''LSP headers exceed the bounded limit''), s')
      else case header_line line content_length of
             Inl e \<Rightarrow> (Inl e, s')
           | Inr (cl, True) \<Rightarrow> (Inr cl, s')
           | Inr (cl, False) \<Rightarrow> read_headers s' (header_bytes + length line) cl)"
  by pat_completeness auto
termination
  by (relation "measure (\<lambda>(s, _, _). length (st_bytes s))") (auto intro: readline_consumes [OF sym])

declare read_headers.simps [simp del]

text \<open>
  \<open>json.loads\<close> on bytes: it decodes strict UTF-8 unless a byte-order mark or a zero byte shows
  another encoding.  \<open>other\<close> stands for what it makes of all other bodies.
\<close>

definition plain_utf8 :: "nat list \<Rightarrow> bool" where
  "plain_utf8 bs \<longleftrightarrow>
     take 2 bs \<notin> {[254, 255], [255, 254]} \<and> take 3 bs \<noteq> [239, 187, 191] \<and> take 4 bs \<noteq> [0, 0, 254, 255] \<and>
     \<not> (4 \<le> length bs \<and> (bs ! 0 = 0 \<or> bs ! 1 = 0)) \<and> \<not> (length bs = 2 \<and> (bs ! 0 = 0 \<or> bs ! 1 = 0))"

definition loads_bytes :: "(nat list \<Rightarrow> json option) \<Rightarrow> nat list \<Rightarrow> json option" where
  "loads_bytes other bs =
     (if plain_utf8 bs then (case utf8_decode bs of Some t \<Rightarrow> loads t | None \<Rightarrow> other bs) else other bs)"

definition read_message ::
    "(nat list \<Rightarrow> json option) \<Rightarrow> nat \<Rightarrow> stream \<Rightarrow> (lsp_error + (text_cp \<times> json) list) \<times> stream" where
  "read_message other max_content_bytes s =
     (case read_headers s 0 None of
        (Inl e, s') \<Rightarrow> (Inl e, s')
      | (Inr None, s') \<Rightarrow> (Inl (LspProtocolError ''missing Content-Length header''), s')
      | (Inr (Some content_length), s') \<Rightarrow>
          if content_length < 0 \<or> content_length > int max_content_bytes
          then (Inl (LspProtocolError ''Content-Length is outside the bounded limit''), s')
          else case read_exact s' (nat content_length) of
                 (Inl e, s'') \<Rightarrow> (Inl e, s'')
               | (Inr body, s'') \<Rightarrow>
                   (case loads_bytes other body of
                      None \<Rightarrow> (Inl (LspProtocolError ''invalid UTF-8 JSON-RPC body''), s'')
                    | Some (JObj kvs) \<Rightarrow> (Inr kvs, s'')
                    | Some _ \<Rightarrow> (Inl (LspProtocolError ''JSON-RPC payload must be an object''), s'')))"

section \<open>Exact reads do not depend on the chunks\<close>

lemma read_exact_enough:
  assumes "n \<le> length (st_bytes s)"
  shows "\<exists>sched. read_exact s n = (Inr (take n (st_bytes s)), \<lparr>st_bytes = drop n (st_bytes s), st_schedule = sched\<rparr>)"
  using assms
proof (induction s n rule: read_exact.induct)
  case (1 s n)
  show ?case
  proof (cases "n = 0")
    case True
    then show ?thesis by (subst read_exact.simps) (simp add: exI [of _ "st_schedule s"])
  next
    case False
    define k where "k = (case st_schedule s of [] \<Rightarrow> n | m # _ \<Rightarrow> max 1 (min m n))"
    have k: "0 < k" "k \<le> n" using False by (auto simp: k_def split: list.splits)
    let ?s' = "s\<lparr>st_bytes := drop k (st_bytes s), st_schedule := tl (st_schedule s)\<rparr>"
    have r: "stream_read n s = (take k (st_bytes s), ?s')" by (simp add: stream_read_def k_def Let_def)
    have len: "length (take k (st_bytes s)) = k" using k 1(2) by simp
    have ne: "take k (st_bytes s) \<noteq> []" using len k by auto
    have "n - k \<le> length (st_bytes ?s')" using 1(2) k by (simp add: diff_le_mono)
    then obtain sched where
      "read_exact ?s' (n - k) = (Inr (take (n - k) (drop k (st_bytes s))),
         \<lparr>st_bytes = drop (n - k) (drop k (st_bytes s)), st_schedule = sched\<rparr>)"
      using 1(1) [OF False r [symmetric] refl] ne len by auto
    moreover have "take k (st_bytes s) @ take (n - k) (drop k (st_bytes s)) = take n (st_bytes s)"
      using k by (metis le_add_diff_inverse take_add)
    ultimately show ?thesis using False r len ne k by (subst read_exact.simps) simp
  qed
qed

lemma read_exact_short:
  assumes "length (st_bytes s) < n" shows "fst (read_exact s n) = Inl LspEOFError"
  using assms
proof (induction s n rule: read_exact.induct)
  case (1 s n)
  define k where "k = (case st_schedule s of [] \<Rightarrow> n | m # _ \<Rightarrow> max 1 (min m n))"
  have k: "0 < k" "k \<le> n" using 1(2) by (auto simp: k_def split: list.splits)
  let ?s' = "s\<lparr>st_bytes := drop k (st_bytes s), st_schedule := tl (st_schedule s)\<rparr>"
  have r: "stream_read n s = (take k (st_bytes s), ?s')" by (simp add: stream_read_def k_def Let_def)
  show ?case
  proof (cases "take k (st_bytes s) = []")
    case True
    with 1(2) r show ?thesis by (subst read_exact.simps) simp
  next
    case False
    have "fst (read_exact ?s' (n - length (take k (st_bytes s)))) = Inl LspEOFError"
      using 1(1) [OF _ r [symmetric] refl False] 1(2) by auto
    with False 1(2) r show ?thesis by (subst read_exact.simps) (auto split: prod.splits sum.splits)
  qed
qed

section \<open>Round trip\<close>

lemma strip_value:
  assumes "list_all is_dig ds" and "ds \<noteq> []" shows "strip_bytes (32 # ds @ [13, 10]) = ds"
proof -
  have nsp: "\<not> is_space c" if "is_dig c" for c using that by (simp add: is_dig_def is_space_def)
  obtain d r where d: "ds = d # r" using assms(2) by (cases ds) auto
  then have "dropWhile is_space (32 # ds @ [13, 10]) = ds @ [13, 10]"
    using assms(1) nsp [of d] by (auto simp: is_space_def)
  moreover have "dropWhile is_space (10 # 13 # rev ds) = rev ds"
  proof -
    have "rev ds \<noteq> []" "is_dig (hd (rev ds))" using assms by (auto simp: list_all_iff hd_rev)
    then obtain e q where "rev ds = e # q" "is_dig e" by (cases "rev ds") auto
    then show ?thesis using nsp [of e] by (auto simp: is_space_def)
  qed
  ultimately show ?thesis by (simp add: strip_bytes_def)
qed

lemma digit_run_digits: "list_all is_dig ds \<Longrightarrow> digit_run ds a = Some (foldl (\<lambda>a c. 10 * a + (c - 48)) a ds)"
  by (induction ds arbitrary: a) auto

lemma py_int_show: "py_int (lit (show_nat n)) = Some (int n)"
proof -
  have all: "list_all is_dig (lit (show_nat n))" by (rule lit_digits [OF show_nat_digits])
  moreover have "lit (show_nat n) \<noteq> []" by (metis length_0_conv length_lit show_nat_nonempty)
  ultimately obtain c r where c: "lit (show_nat n) = c # r" "is_dig c" by (cases "lit (show_nat n)") auto
  have "digit_run (lit (show_nat n)) 0 = Some n"
    using digit_run_digits [OF all, of 0] digits_nat_lit [of "show_nat n"]
    by (simp add: digits_nat_def digits_value_show)
  with c show ?thesis by (auto simp: py_int_def py_nat_def is_dig_def)
qed

lemma readline_line:
  assumes "10 \<notin> set pre"
  shows "stream_readline \<lparr>st_bytes = pre @ 10 # rest, st_schedule = sch\<rparr> =
    (pre @ [10], \<lparr>st_bytes = rest, st_schedule = sch\<rparr>)"
proof -
  have "takeWhile (\<lambda>b. b \<noteq> 10) (pre @ 10 # rest) = pre" using assms by (induction pre) auto
  then show ?thesis by (simp add: stream_readline_def)
qed

lemma header_content_length:
  "header_line (lit ''Content-Length: '' @ lit (show_nat n) @ [13, 10]) None = Inr (Some (int n), False)"
proof -
  have all: "list_all is_dig (lit (show_nat n))" by (rule lit_digits [OF show_nat_digits])
  have ne: "lit (show_nat n) \<noteq> []" by (metis length_0_conv length_lit show_nat_nonempty)
  have "partition_colon (lit ''Content-Length: '' @ lit (show_nat n) @ [13, 10]) =
      (lit ''Content-Length'', True, 32 # lit (show_nat n) @ [13, 10])"
    by (simp add: partition_colon_def lit_simps Let_def)
  moreover have "map lower_byte (strip_bytes (lit ''Content-Length'')) = lit ''content-length''"
    by (simp add: lit_simps strip_bytes_def is_space_def lower_byte_def)
  moreover have "lit ''Content-Length: '' @ lit (show_nat n) @ [13, 10] \<notin> {[10], [13, 10]}"
    by (simp add: lit_simps)
  ultimately show ?thesis
    unfolding header_line_def by (simp add: strip_value [OF all ne] py_int_show)
qed

lemma header_end: "header_line [13, 10] cl = Inr (cl, True)"
  by (simp add: header_line_def)

lemma read_headers_encoded:
  assumes "n < 10 ^ 10"
  shows "read_headers \<lparr>st_bytes = lit ''Content-Length: '' @ lit (show_nat n) @ [13, 10, 13, 10] @ rest, st_schedule = sch\<rparr> 0 None =
    (Inr (Some (int n)), \<lparr>st_bytes = rest, st_schedule = sch\<rparr>)"
proof -
  let ?l1 = "lit ''Content-Length: '' @ lit (show_nat n) @ [13]"
  have dig: "list_all is_dig (lit (show_nat n))" by (rule lit_digits [OF show_nat_digits])
  then have "10 \<notin> set ?l1" by (auto simp: lit_simps list_all_iff is_dig_def)
  from readline_line [OF this, of "13 # 10 # rest" sch]
  have r1: "stream_readline \<lparr>st_bytes = lit ''Content-Length: '' @ lit (show_nat n) @ 13 # 10 # 13 # 10 # rest, st_schedule = sch\<rparr> =
    (lit ''Content-Length: '' @ lit (show_nat n) @ [13, 10], \<lparr>st_bytes = 13 # 10 # rest, st_schedule = sch\<rparr>)"
    by simp
  have r2: "stream_readline \<lparr>st_bytes = 13 # 10 # rest, st_schedule = sch\<rparr> =
    ([13, 10], \<lparr>st_bytes = rest, st_schedule = sch\<rparr>)"
    using readline_line [of "[13]" rest sch] by simp
  define line where "line = lit ''Content-Length: '' @ lit (show_nat n) @ [13, 10]"
  have "length (show_nat n) \<le> 10" using show_nat_length [of n 9] assms by simp
  then have len: "length line \<le> 28" "line \<noteq> []" by (simp_all add: line_def)
  have "read_headers \<lparr>st_bytes = 13 # 10 # rest, st_schedule = sch\<rparr> (length line) (Some (int n)) =
      (Inr (Some (int n)), \<lparr>st_bytes = rest, st_schedule = sch\<rparr>)"
    using len by (subst read_headers.simps) (simp add: r2 header_end MAX_HEADER_BYTES_def)
  with len show ?thesis
    unfolding line_def [symmetric]
    by (subst read_headers.simps)
      (simp add: r1 [folded line_def] header_content_length [of n, folded line_def] MAX_HEADER_BYTES_def)
qed

lemma plain_utf8_object: "bs = 123 # b # r \<Longrightarrow> b \<noteq> 0 \<Longrightarrow> plain_utf8 bs"
  by (cases r) (auto simp: plain_utf8_def)

lemma object_bytes:
  assumes "list_all valid_cp (dumps (JObj kvs))"
  shows "\<exists>b r. utf8_encode (dumps (JObj kvs)) = 123 # b # r \<and> b \<noteq> 0"
proof -
  have "\<exists>c t. join_comma (map dump_member kvs) @ [125] = c # t \<and> (c = 125 \<or> c = 34)"
    by (cases kvs rule: remdups_adj.cases) (auto simp: quote_def split: prod.splits)
  then obtain c t where "join_comma (map dump_member kvs) @ [125] = c # t" "c = 125 \<or> c = 34" by blast
  then show ?thesis by (auto simp: encode_cp_def)
qed

lemma loads_bytes_encoded:
  assumes "json_wf (JObj kvs)" and "list_all valid_cp (dumps (JObj kvs))"
  shows "loads_bytes other (utf8_encode (dumps (JObj kvs))) = Some (JObj kvs)"
  using object_bytes [OF assms(2)] plain_utf8_object decode_encode [OF assms(2)] loads_dumps [OF assms(1)]
  by (auto simp: loads_bytes_def)

text \<open>
  C26: Framing is lossless and self-delimiting: reading back a message the client wrote gives
  exactly its payload and leaves exactly the bytes that follow it, whatever the sizes of the
  chunks the stream returns, for payloads whose text can be encoded and is at most the
  64 MiB a body may have.  (\<open>other\<close> is what the JSON library does with bodies that are not
  plain UTF-8; the result does not depend on it.)
\<close>

theorem framing_roundtrip:
  assumes "json_wf (JObj kvs)" and "list_all valid_cp (dumps (JObj kvs))"
    and "length (utf8_encode (dumps (JObj kvs))) \<le> MAX_CONTENT_BYTES"
  shows "\<exists>sch'. read_message other MAX_CONTENT_BYTES
      \<lparr>st_bytes = encode_message (JObj kvs) @ rest, st_schedule = sch\<rparr> =
    (Inr kvs, \<lparr>st_bytes = rest, st_schedule = sch'\<rparr>)"
proof -
  let ?body = "utf8_encode (dumps (JObj kvs))"
  have small: "length ?body < 10 ^ 10" using assms(3) by (simp add: MAX_CONTENT_BYTES_def)
  obtain sch' where "read_exact \<lparr>st_bytes = ?body @ rest, st_schedule = sch\<rparr> (length ?body) =
      (Inr ?body, \<lparr>st_bytes = rest, st_schedule = sch'\<rparr>)"
    using read_exact_enough [of "length ?body" "\<lparr>st_bytes = ?body @ rest, st_schedule = sch\<rparr>"] by auto
  then show ?thesis
    using read_headers_encoded [OF small, of "?body @ rest" sch] assms(3) loads_bytes_encoded [OF assms(1,2)]
    by (simp add: read_message_def encode_message_def Let_def del: dumps.simps utf8_encode_simps)
qed

lemma framing_roundtrip_witness:
  "\<exists>sch'. read_message (\<lambda>_. None) MAX_CONTENT_BYTES
      \<lparr>st_bytes = encode_message (JObj [(lit ''id'', JInt 7)]) @ [1, 2], st_schedule = [1, 1, 3]\<rparr> =
    (Inr [(lit ''id'', JInt 7)], \<lparr>st_bytes = [1, 2], st_schedule = sch'\<rparr>)"
proof (rule framing_roundtrip)
  have s: "dumps (JObj [(lit ''id'', JInt 7)]) = [123, 34, 105, 100, 34, 58, 55, 125]"
    by (simp add: quote_def escape_char_def lit_simps show_int_def, subst show_nat.simps)
      (simp add: digit_char_def of_char_of lit_simps)
  show "json_wf (JObj [(lit ''id'', JInt 7)])" by simp
  show "list_all valid_cp (dumps (JObj [(lit ''id'', JInt 7)]))" unfolding s by (simp add: valid_cp_def)
  show "length (utf8_encode (dumps (JObj [(lit ''id'', JInt 7)]))) \<le> MAX_CONTENT_BYTES"
    unfolding s by (simp add: encode_cp_def MAX_CONTENT_BYTES_def)
qed



end
