(* ===== verification/Client.thy ===== *)
theory Client
  imports Framing
begin

text \<open>
  The synchronous language-server client (\<open>lsp/client.py\<close>, \<open>SyncLspClient\<close>): caller threads
  register requests and wait on one-place queues, the reader thread dispatches responses,
  and the first terminal error answers everybody.  A slice of a thread between two accesses
  to shared state is one function on the client's state.
\<close>

section \<open>Data\<close>

type_synonym payload = "(text_cp \<times> json) list"

text \<open>
  Where the reader thread stands: at the test of its loop, reading a message, about to put a
  response, or ended.
\<close>

datatype reader_pc = R_test | R_read | R_put int payload | R_done

text \<open>
  \<open>cl_slots i\<close> is the content of the one-place queue of request \<open>i\<close>; \<open>cl_waiting\<close> holds the
  requests whose callers wait on it, \<open>cl_leaving\<close> those whose callers have their answer (or
  gave up) and still have to drop the entry; \<open>cl_failing\<close> the errors a failing thread has yet
  to put, \<open>cl_handling\<close> the error the first failing thread has yet to pass to the terminal handler,
  \<open>cl_terminal_calls\<close> the calls of that handler.
\<close>

record client =
  cl_pending :: "int list"
  cl_slots :: "int \<Rightarrow> (lsp_error + payload) option"
  cl_next_id :: int
  cl_terminal :: "lsp_error option"
  cl_closing :: bool
  cl_retry :: "text_cp list"
  cl_waiting :: "int list"
  cl_leaving :: "int list"
  cl_failing :: "(int \<times> lsp_error) list"
  cl_handling :: "lsp_error option"
  cl_reader :: reader_pc
  cl_terminal_calls :: "lsp_error list"

definition CONTENT_MODIFIED :: int where "CONTENT_MODIFIED = -32801"
definition METHOD_NOT_FOUND :: int where "METHOD_NOT_FOUND = -32601"
definition INTERNAL_ERROR :: int where "INTERNAL_ERROR = -32603"

definition READ_ONLY_RETRY_METHODS :: "text_cp list" where
  "READ_ONLY_RETRY_METHODS = map lit
     [''workspace/symbol'', ''textDocument/documentSymbol'', ''textDocument/hover'',
      ''textDocument/definition'', ''textDocument/implementation'', ''textDocument/references'']"

definition client_init :: "real \<Rightarrow> lsp_error + client" where
  "client_init request_timeout =
     (if request_timeout \<le> 0 then Inl (LspValueError ''request_timeout must be positive'')
      else Inr \<lparr>cl_pending = [], cl_slots = (\<lambda>_. None), cl_next_id = 1, cl_terminal = None, cl_closing = False,
             cl_retry = [], cl_waiting = [], cl_leaving = [], cl_failing = [], cl_handling = None,
             cl_reader = R_test, cl_terminal_calls = []\<rparr>)"

definition set_retry_methods :: "text_cp list \<Rightarrow> client \<Rightarrow> client \<times> (lsp_error + unit)" where
  "set_retry_methods methods c =
     (if \<exists>m\<in>set methods. m \<notin> set READ_ONLY_RETRY_METHODS
      then (c, Inl (LspValueError ''ContentModified retry is restricted to read methods''))
      else (c\<lparr>cl_retry := methods\<rparr>, Inr ()))"

section \<open>Terminal state\<close>

text \<open>\<open>str\<close> of an error, as far as the model keeps its message.\<close>

fun err_str :: "lsp_error \<Rightarrow> string" where
  "err_str (LspTransportClosed s) = s"
| "err_str (LspProtocolError s) = s"
| "err_str (LspValueError s) = s"
| "err_str _ = []"

definition raise_if_terminal :: "client \<Rightarrow> lsp_error option" where
  "raise_if_terminal c = (case cl_terminal c of
       Some e \<Rightarrow> Some (LspTransportClosed (err_str e))
     | None \<Rightarrow> if cl_closing c then Some (LspTransportClosed ''LSP client is closing'') else None)"

text \<open>
  \<open>_fail_all\<close> under its lock.  The errors are put one by one afterwards, outside the lock, and
  the thread that set the terminal error then calls the terminal handler.
\<close>

definition fail_all :: "lsp_error \<Rightarrow> client \<Rightarrow> client" where
  "fail_all e c =
     c\<lparr>cl_terminal := (if cl_terminal c = None then Some e else cl_terminal c),
       cl_failing := cl_failing c @ map (\<lambda>i. (i, e)) (cl_pending c),
       cl_pending := [],
       cl_handling := (if cl_terminal c = None then Some e else cl_handling c)\<rparr>"

text \<open>\<open>put_nowait\<close> with \<open>queue.Full\<close> suppressed.\<close>

definition fail_put :: "int \<Rightarrow> lsp_error \<Rightarrow> client \<Rightarrow> client" where
  "fail_put i e c =
     c\<lparr>cl_failing := remove1 (i, e) (cl_failing c),
       cl_slots := (if cl_slots c i = None then (cl_slots c)(i := Some (Inl e)) else cl_slots c)\<rparr>"

text \<open>
  The call of the terminal handler, once the errors are put.  Only the first failing thread
  finds pending requests, so all errors still to be put are its own.
\<close>

definition fail_handler :: "client \<Rightarrow> client option" where
  "fail_handler c = (case cl_handling c of
       None \<Rightarrow> None
     | Some e \<Rightarrow> if cl_failing c = [] then Some (c\<lparr>cl_handling := None, cl_terminal_calls := cl_terminal_calls c @ [e]\<rparr>) else None)"

text \<open>\<open>close\<close> sets its flag and then fails everyone.\<close>

definition close_flag :: "client \<Rightarrow> client" where
  "close_flag c = c\<lparr>cl_closing := True\<rparr>"

definition client_close :: "client \<Rightarrow> client option" where
  "client_close c = (if cl_closing c then Some (fail_all (LspTransportClosed ''LSP client closed'') c) else None)"

section \<open>Requests\<close>

definition params_field :: "text_cp \<Rightarrow> json \<Rightarrow> payload" where
  "params_field meth params =
     (if meth = lit ''shutdown'' \<or> meth = lit ''exit'' then []
      else [(lit ''params'', if params = JNull then JObj [] else params)])"

definition request_payload :: "int \<Rightarrow> text_cp \<Rightarrow> json \<Rightarrow> json" where
  "request_payload i meth params =
     JObj ([(lit ''jsonrpc'', JStr (lit ''2.0'')), (lit ''id'', JInt i), (lit ''method'', JStr meth)] @ params_field meth params)"

definition notify_payload :: "text_cp \<Rightarrow> json \<Rightarrow> json" where
  "notify_payload meth params =
     JObj ([(lit ''jsonrpc'', JStr (lit ''2.0'')), (lit ''method'', JStr meth)] @ params_field meth params)"

definition request_begin :: "text_cp \<Rightarrow> client \<Rightarrow> client \<times> (lsp_error + int)" where
  "request_begin meth c =
     (if meth = [] then (c, Inl (LspValueError ''request method must be non-empty''))
      else case raise_if_terminal c of
             Some e \<Rightarrow> (c, Inl e)
           | None \<Rightarrow>
               let i = cl_next_id c in
               (c\<lparr>cl_next_id := i + 1, cl_pending := cl_pending c @ [i], cl_slots := (cl_slots c)(i := None),
                  cl_waiting := cl_waiting c @ [i]\<rparr>, Inr i))"

text \<open>A failed write: \<open>_send\<close> fails everyone and raises; the caller then drops its entry.\<close>

definition send_failed :: "int \<Rightarrow> client \<Rightarrow> client" where
  "send_failed i c =
     (fail_all (LspTransportClosed ''failed to write LSP message'') c)
       \<lparr>cl_waiting := remove1 i (cl_waiting c), cl_leaving := cl_leaving c @ [i]\<rparr>"

text \<open>The caller takes what its queue holds, or gives up on an empty one.\<close>

definition request_receive :: "int \<Rightarrow> client \<Rightarrow> client" where
  "request_receive i c =
     c\<lparr>cl_slots := (cl_slots c)(i := None), cl_waiting := remove1 i (cl_waiting c), cl_leaving := cl_leaving c @ [i]\<rparr>"

definition request_timeout :: "int \<Rightarrow> client \<Rightarrow> client" where
  "request_timeout i c = c\<lparr>cl_waiting := remove1 i (cl_waiting c), cl_leaving := cl_leaving c @ [i]\<rparr>"

definition request_drop :: "int \<Rightarrow> client \<Rightarrow> client" where
  "request_drop i c = c\<lparr>cl_leaving := remove1 i (cl_leaving c), cl_pending := remove1 i (cl_pending c)\<rparr>"

definition get_field :: "string \<Rightarrow> payload \<Rightarrow> json option" where
  "get_field k kvs = map_of kvs (lit k)"

text \<open>
  The outcome of \<open>_request_once\<close> from what the queue held.  \<open>to_int\<close> and \<open>to_str\<close> are \<open>int\<close>
  (which may raise) and \<open>str\<close> on a JSON value.
\<close>

definition response_outcome ::
    "(json \<Rightarrow> int option) \<Rightarrow> (json \<Rightarrow> text_cp) \<Rightarrow> lsp_error + payload \<Rightarrow> lsp_error + json" where
  "response_outcome to_int to_str r = (case r of
       Inl e \<Rightarrow> Inl e
     | Inr kvs \<Rightarrow>
         (case get_field ''error'' kvs of
            Some (JObj err) \<Rightarrow>
              (let code = (case get_field ''code'' err of None \<Rightarrow> Some INTERNAL_ERROR | Some v \<Rightarrow> to_int v);
                   message = (case get_field ''message'' err of None \<Rightarrow> [] | Some v \<Rightarrow> to_str v);
                   data = (case get_field ''data'' err of None \<Rightarrow> JNull | Some v \<Rightarrow> v)
               in case code of None \<Rightarrow> Inl (LspOtherError 0) | Some n \<Rightarrow> Inl (LspResponseError n message data))
          | Some _ \<Rightarrow> Inl (LspProtocolError ''JSON-RPC error response must contain an object'')
          | None \<Rightarrow>
              (case get_field ''result'' kvs of
                 None \<Rightarrow> Inl (LspProtocolError ''JSON-RPC response has neither result nor error'')
               | Some v \<Rightarrow> Inr v)))"

text \<open>
  \<open>request\<close>: the outcomes its attempts would have, in order; it returns the first that is not
  a \<open>ContentModified\<close> error, or the last it may make, with the number of attempts made.
\<close>

definition retryable :: "lsp_error + json \<Rightarrow> bool" where
  "retryable r = (case r of Inl (LspResponseError code _ _) \<Rightarrow> code = CONTENT_MODIFIED | _ \<Rightarrow> False)"

fun request_attempts :: "nat \<Rightarrow> nat \<Rightarrow> (nat \<Rightarrow> lsp_error + json) \<Rightarrow> nat \<times> (lsp_error + json)" where
  "request_attempts 0 attempt once = (attempt, Inl (LspOtherError 1))"
| "request_attempts (Suc left) attempt once =
     (if retryable (once attempt) \<and> left \<noteq> 0 then request_attempts left (Suc attempt) once
      else (Suc attempt, once attempt))"

definition client_request :: "client \<Rightarrow> text_cp \<Rightarrow> (nat \<Rightarrow> lsp_error + json) \<Rightarrow> nat \<times> (lsp_error + json)" where
  "client_request c meth once = request_attempts (if meth \<in> set (cl_retry c) then 3 else 1) 0 once"

section \<open>The reader\<close>

text \<open>A response id: an integer, or a string of digits (non-ASCII digits are not modelled).\<close>

definition response_id :: "json \<Rightarrow> int option" where
  "response_id v = (case v of
       JInt i \<Rightarrow> Some i
     | JBool b \<Rightarrow> Some (if b then 1 else 0)
     | JStr s \<Rightarrow> if s \<noteq> [] \<and> list_all is_dig s then Some (int (digits_nat s)) else None
     | _ \<Rightarrow> None)"

definition server_response ::
    "(text_cp \<Rightarrow> (json \<Rightarrow> text_cp + json) option) \<Rightarrow> payload \<Rightarrow> text_cp \<Rightarrow> json \<Rightarrow> json" where
  "server_response handlers kvs meth request_id =
     (let base = [(lit ''jsonrpc'', JStr (lit ''2.0'')), (lit ''id'', request_id)];
          params = (case get_field ''params'' kvs of None \<Rightarrow> JNull | Some v \<Rightarrow> v);
          err = (\<lambda>code message. JObj (base @ [(lit ''error'', JObj [(lit ''code'', JInt code), (lit ''message'', JStr message)])]))
      in case handlers meth of
           None \<Rightarrow> err METHOD_NOT_FOUND (lit ''unsupported server request: '' @ meth)
         | Some h \<Rightarrow> (case h params of
               Inr v \<Rightarrow> JObj (base @ [(lit ''result'', v)])
             | Inl message \<Rightarrow> err INTERNAL_ERROR message))"

text \<open>What the reader does with one payload besides its own state.\<close>

datatype dispatch_effect = D_none | D_send json | D_notify text_cp json

definition dispatch ::
    "(text_cp \<Rightarrow> (json \<Rightarrow> text_cp + json) option) \<Rightarrow> payload \<Rightarrow> client \<Rightarrow> (lsp_error + dispatch_effect) \<times> client" where
  "dispatch handlers kvs c =
     (case get_field ''method'' kvs of
        Some m \<Rightarrow>
          (case m of
             JStr meth \<Rightarrow>
               if meth = [] then (Inl (LspProtocolError ''JSON-RPC method must be a non-empty string''), c)
               else (case get_field ''id'' kvs of
                       Some i \<Rightarrow> (Inr (D_send (server_response handlers kvs meth i)), c)
                     | None \<Rightarrow> (Inr (D_notify meth (case get_field ''params'' kvs of None \<Rightarrow> JNull | Some v \<Rightarrow> v)), c))
           | _ \<Rightarrow> (Inl (LspProtocolError ''JSON-RPC method must be a non-empty string''), c))
      | None \<Rightarrow>
          (case get_field ''id'' kvs of
             None \<Rightarrow> (Inl (LspProtocolError ''unknown JSON-RPC payload shape''), c)
           | Some v \<Rightarrow>
               (case response_id v of
                  None \<Rightarrow> (Inl (LspProtocolError ''JSON-RPC response id must be an integer''), c)
                | Some i \<Rightarrow> (Inr D_none, if i \<in> set (cl_pending c) then c\<lparr>cl_reader := R_put i kvs\<rparr> else c))))"

text \<open>
  \<open>_read_loop\<close>: the test of the loop, and one turn of its body with the message or the error its
  reading raised; \<open>perform\<close> is the error that sending the answer to a server request or the
  notification handler raises, if any.
\<close>

definition read_test :: "client \<Rightarrow> client" where
  "read_test c =
     (if cl_closing c then (fail_all (LspTransportClosed ''LSP client reader stopped'') c)\<lparr>cl_reader := R_done\<rparr>
      else c\<lparr>cl_reader := R_read\<rparr>)"

definition read_turn ::
    "(text_cp \<Rightarrow> (json \<Rightarrow> text_cp + json) option) \<Rightarrow> (dispatch_effect \<Rightarrow> lsp_error option) \<Rightarrow> lsp_error + payload \<Rightarrow>
     client \<Rightarrow> client" where
  "read_turn handlers perform msg c =
     (case msg of
        Inl LspEOFError \<Rightarrow> (fail_all (LspTransportClosed ''end of stream'') c)\<lparr>cl_reader := R_done\<rparr>
      | Inl e \<Rightarrow> (fail_all e c)\<lparr>cl_reader := R_done\<rparr>
      | Inr kvs \<Rightarrow>
          (case dispatch handlers kvs (c\<lparr>cl_reader := R_test\<rparr>) of
             (Inl e, c') \<Rightarrow> (fail_all e c')\<lparr>cl_reader := R_done\<rparr>
           | (Inr effect, c') \<Rightarrow>
               (case (if effect = D_none then None else perform effect) of
                  None \<Rightarrow> c'
                | Some e \<Rightarrow> (fail_all e c')\<lparr>cl_reader := R_done\<rparr>)))"

text \<open>The blocking \<open>put\<close> of a response: possible once the queue is empty.\<close>

definition reader_put :: "client \<Rightarrow> client option" where
  "reader_put c = (case cl_reader c of
       R_put i kvs \<Rightarrow> if cl_slots c i = None
                      then Some (c\<lparr>cl_slots := (cl_slots c)(i := Some (Inr kvs)), cl_reader := R_test\<rparr>) else None
     | _ \<Rightarrow> None)"

section \<open>Interleavings\<close>

definition cl_init :: "client \<Rightarrow> bool" where
  "cl_init c \<longleftrightarrow> (\<exists>t. client_init t = Inr c)"

inductive cl_step :: "client \<Rightarrow> client \<Rightarrow> bool" where
  cl_retry_methods: "cl_step c (fst (set_retry_methods ms c))"
| cl_begin: "cl_step c (fst (request_begin meth c))"
| cl_send_failed: "i \<in> set (cl_waiting c) \<Longrightarrow> cl_step c (send_failed i c)"
| cl_notify_failed: "cl_step c (fail_all (LspTransportClosed ''failed to write LSP message'') c)"
| cl_receive: "i \<in> set (cl_waiting c) \<Longrightarrow> cl_slots c i \<noteq> None \<Longrightarrow> cl_step c (request_receive i c)"
| cl_timeout: "i \<in> set (cl_waiting c) \<Longrightarrow> cl_slots c i = None \<Longrightarrow> cl_step c (request_timeout i c)"
| cl_drop: "i \<in> set (cl_leaving c) \<Longrightarrow> cl_step c (request_drop i c)"
| cl_test: "cl_reader c = R_test \<Longrightarrow> cl_step c (read_test c)"
| cl_read: "cl_reader c = R_read \<Longrightarrow> cl_step c (read_turn handlers perform msg c)"
| cl_put: "reader_put c = Some d \<Longrightarrow> cl_step c d"
| cl_fail_put: "(i, e) \<in> set (cl_failing c) \<Longrightarrow> cl_step c (fail_put i e c)"
| cl_handler: "fail_handler c = Some d \<Longrightarrow> cl_step c d"
| cl_flag: "cl_step c (close_flag c)"
| cl_close: "client_close c = Some d \<Longrightarrow> cl_step c d"

section \<open>Invariant\<close>

definition answers :: "payload \<Rightarrow> int \<Rightarrow> bool" where
  "answers kvs i \<longleftrightarrow> Option.bind (get_field ''id'' kvs) response_id = Some i"

definition ids_ok :: "client \<Rightarrow> bool" where
  "ids_ok c \<longleftrightarrow> distinct (cl_pending c) \<and> distinct (cl_waiting c @ cl_leaving c) \<and>
     (\<forall>i\<in>set (cl_pending c). i < cl_next_id c) \<and> (\<forall>i\<in>set (cl_waiting c). i < cl_next_id c) \<and>
     (\<forall>i\<in>set (cl_leaving c). i < cl_next_id c)"

definition slots_ok :: "client \<Rightarrow> bool" where
  "slots_ok c \<longleftrightarrow>
     (\<forall>i kvs. cl_slots c i = Some (Inr kvs) \<longrightarrow> answers kvs i) \<and>
     (\<forall>i e. cl_slots c i = Some (Inl e) \<longrightarrow> cl_terminal c = Some e) \<and>
     (\<forall>i kvs. cl_reader c = R_put i kvs \<longrightarrow> answers kvs i) \<and>
     (\<forall>i e. (i, e) \<in> set (cl_failing c) \<longrightarrow> cl_terminal c = Some e)"

definition served_ok :: "client \<Rightarrow> bool" where
  "served_ok c \<longleftrightarrow> (cl_terminal c \<noteq> None \<longrightarrow> cl_pending c = []) \<and>
     (\<forall>i\<in>set (cl_waiting c). i \<in> set (cl_pending c) \<or> cl_slots c i \<noteq> None \<or> i \<in> fst ` set (cl_failing c)) \<and>
     cl_terminal_calls c @ (case cl_handling c of None \<Rightarrow> [] | Some e \<Rightarrow> [e]) = (case cl_terminal c of None \<Rightarrow> [] | Some e \<Rightarrow> [e]) \<and>
     (cl_terminal_calls c = [] \<or> cl_failing c = []) \<and>
     set (cl_retry c) \<subseteq> set READ_ONLY_RETRY_METHODS"

definition cl_inv :: "client \<Rightarrow> bool" where
  "cl_inv c \<longleftrightarrow> ids_ok c \<and> slots_ok c \<and> served_ok c"

lemmas cl_inv_simps = cl_inv_def ids_ok_def slots_ok_def served_ok_def

lemma cl_init_inv: "cl_init c \<Longrightarrow> cl_inv c"
  by (auto simp: cl_init_def client_init_def cl_inv_simps split: if_splits)

lemma fail_all_inv: "cl_inv c \<Longrightarrow> cl_inv (fail_all e c)"
  by (cases "cl_terminal c") (auto simp: fail_all_def cl_inv_simps image_Un image_image)

lemma set_retry_inv: "cl_inv c \<Longrightarrow> cl_inv (fst (set_retry_methods ms c))"
  by (auto simp: set_retry_methods_def cl_inv_simps)

lemma request_begin_inv: "cl_inv c \<Longrightarrow> cl_inv (fst (request_begin meth c))"
  by (cases "cl_terminal c") (fastforce simp: request_begin_def raise_if_terminal_def Let_def cl_inv_simps)+

lemma leave_inv:
  assumes "cl_inv c" and "i \<in> set (cl_waiting c)"
  shows "cl_inv (c\<lparr>cl_waiting := remove1 i (cl_waiting c), cl_leaving := cl_leaving c @ [i]\<rparr>)"
  using assms by (auto simp: cl_inv_simps)

lemma send_failed_inv:
  assumes "cl_inv c" and "i \<in> set (cl_waiting c)" shows "cl_inv (send_failed i c)"
  using leave_inv [OF fail_all_inv [OF assms(1)], of i] assms(2) by (simp add: send_failed_def fail_all_def)

lemma request_receive_inv:
  assumes "cl_inv c" and "i \<in> set (cl_waiting c)" shows "cl_inv (request_receive i c)"
  using assms by (auto simp: request_receive_def cl_inv_simps)

lemma request_drop_inv:
  assumes "cl_inv c" and "i \<in> set (cl_leaving c)" shows "cl_inv (request_drop i c)"
proof -
  from assms have "i \<notin> set (cl_waiting c)" by (auto simp: cl_inv_simps)
  with assms show ?thesis by (auto simp: request_drop_def cl_inv_simps dest: notin_set_remove1)
qed

lemma fail_put_inv:
  assumes "cl_inv c" and "(i, e) \<in> set (cl_failing c)" shows "cl_inv (fail_put i e c)"
proof -
  have other: "j \<in> fst ` set (remove1 (i, e) xs)" if "j \<in> fst ` set xs" "j \<noteq> i" for j and xs :: "(int \<times> lsp_error) list"
    using that by (induction xs) auto
  have "ids_ok (fail_put i e c)" using assms(1) by (simp add: fail_put_def cl_inv_def ids_ok_def)
  moreover have "slots_ok (fail_put i e c)"
  proof -
    have s: "slots_ok c" using assms(1) by (simp add: cl_inv_def)
    then have t: "cl_terminal c = Some e" using assms(2) unfolding slots_ok_def by blast
    have f: "e' = e" if "(j, e') \<in> set (remove1 (i, e) (cl_failing c))" for j e'
    proof -
      have "(j, e') \<in> set (cl_failing c)" using that set_remove1_subset by fast
      then have "cl_terminal c = Some e'" using s unfolding slots_ok_def by blast
      with t show ?thesis by simp
    qed
    have inr: "answers kvs j" if "cl_slots c j = Some (Inr kvs)" for j kvs
      using s that unfolding slots_ok_def by blast
    have inl: "e' = e" if "cl_slots c j = Some (Inl e')" for j e'
      using s t that unfolding slots_ok_def by (metis option.inject)
    have put: "answers kvs j" if "cl_reader c = R_put j kvs" for j kvs
      using s that unfolding slots_ok_def by blast
    show ?thesis
      unfolding slots_ok_def
    proof (intro conjI allI impI)
      fix j e' assume "cl_slots (fail_put i e c) j = Some (Inl e')"
      then show "cl_terminal (fail_put i e c) = Some e'"
        using t by (auto simp: fail_put_def split: if_splits dest: inl)
    next
      fix j e' assume "(j, e') \<in> set (cl_failing (fail_put i e c))"
      then have "e' = e" by (intro f) (simp add: fail_put_def)
      with t show "cl_terminal (fail_put i e c) = Some e'" by (simp add: fail_put_def)
    qed (auto simp: fail_put_def split: if_splits intro: inr put)
  qed
  moreover have "served_ok (fail_put i e c)"
  proof -
    let ?d = "fail_put i e c"
    have w: "j \<in> set (cl_pending ?d) \<or> cl_slots ?d j \<noteq> None \<or> j \<in> fst ` set (cl_failing ?d)"
      if j: "j \<in> set (cl_waiting c)" for j
    proof -
      from assms(1) j have "j \<in> set (cl_pending c) \<or> cl_slots c j \<noteq> None \<or> j \<in> fst ` set (cl_failing c)"
        unfolding cl_inv_def served_ok_def by blast
      then show ?thesis using other [of j "cl_failing c"] by (cases "j = i") (auto simp: fail_put_def)
    qed
    have "cl_waiting ?d = cl_waiting c" "cl_terminal ?d = cl_terminal c" "cl_pending ?d = cl_pending c"
      "cl_terminal_calls ?d = cl_terminal_calls c" "cl_handling ?d = cl_handling c" "cl_retry ?d = cl_retry c"
      by (simp_all add: fail_put_def)
    moreover have "cl_terminal_calls c = [] \<or> cl_failing ?d = []"
      using assms unfolding cl_inv_def served_ok_def by auto
    ultimately show ?thesis using w assms(1) unfolding cl_inv_def served_ok_def by simp
  qed
  ultimately show ?thesis by (simp add: cl_inv_def)
qed

lemma fail_handler_inv:
  assumes "cl_inv c" and "fail_handler c = Some d" shows "cl_inv d"
proof -
  from assms(2) obtain e where "cl_handling c = Some e" "cl_failing c = []"
    "d = c\<lparr>cl_handling := None, cl_terminal_calls := cl_terminal_calls c @ [e]\<rparr>"
    by (auto simp: fail_handler_def split: option.splits if_splits)
  with assms(1) show ?thesis by (simp add: cl_inv_simps)
qed

lemma reader_put_inv:
  assumes "cl_inv c" and "reader_put c = Some d" shows "cl_inv d"
proof -
  from assms(2) obtain i kvs where r: "cl_reader c = R_put i kvs" "cl_slots c i = None"
    and d: "d = c\<lparr>cl_slots := (cl_slots c)(i := Some (Inr kvs)), cl_reader := R_test\<rparr>"
    by (auto simp: reader_put_def split: reader_pc.splits if_splits)
  have "answers kvs i" using assms(1) r(1) unfolding cl_inv_def slots_ok_def by blast
  then have "slots_ok d" using assms(1) by (simp add: d cl_inv_def slots_ok_def)
  moreover have "ids_ok d" using assms(1) by (simp add: d cl_inv_def ids_ok_def)
  moreover have "served_ok d" using assms(1) by (simp add: d cl_inv_def served_ok_def)
  ultimately show ?thesis by (simp add: cl_inv_def)
qed

lemma dispatch_changes:
  "snd (dispatch handlers kvs c) = c \<or>
   (\<exists>i. answers kvs i \<and> snd (dispatch handlers kvs c) = c\<lparr>cl_reader := R_put i kvs\<rparr>)"
  by (cases "get_field ''method'' kvs"; cases "get_field ''id'' kvs")
    (auto simp: dispatch_def answers_def split: option.split json.split)

lemma dispatch_inv: "cl_inv c \<Longrightarrow> cl_reader c = R_test \<Longrightarrow> cl_inv (snd (dispatch handlers kvs c))"
  using dispatch_changes [of handlers kvs c] by (elim disjE exE conjE) (simp_all add: cl_inv_simps)

lemma reader_idle_inv: "cl_inv c \<Longrightarrow> pc \<in> {R_test, R_read, R_done} \<Longrightarrow> cl_inv (c\<lparr>cl_reader := pc\<rparr>)"
  by (auto simp: cl_inv_simps)

lemma reader_ends_inv: "cl_inv c \<Longrightarrow> cl_inv ((fail_all e c)\<lparr>cl_reader := R_done\<rparr>)"
  by (simp add: reader_idle_inv fail_all_inv)

lemma read_test_inv: "cl_inv c \<Longrightarrow> cl_inv (read_test c)"
  by (simp add: read_test_def reader_idle_inv reader_ends_inv)

lemma read_turn_inv:
  assumes "cl_inv c" shows "cl_inv (read_turn handlers perform msg c)"
proof (cases msg)
  case (Inl e)
  with assms show ?thesis by (cases e) (simp_all add: read_turn_def reader_ends_inv)
next
  case (Inr kvs)
  obtain x d where d: "dispatch handlers kvs (c\<lparr>cl_reader := R_test\<rparr>) = (x, d)" by fastforce
  have "cl_inv d" using dispatch_inv [of "c\<lparr>cl_reader := R_test\<rparr>" handlers kvs] reader_idle_inv [OF assms, of R_test] d by simp
  then show ?thesis using Inr d by (auto simp: read_turn_def reader_ends_inv split: sum.split option.split)
qed

lemma close_flag_inv: "cl_inv c \<Longrightarrow> cl_inv (close_flag c)"
  by (simp add: close_flag_def cl_inv_simps)

lemma close_inv: "cl_inv c \<Longrightarrow> client_close c = Some d \<Longrightarrow> cl_inv d"
  by (auto simp: client_close_def fail_all_inv split: if_splits)

lemma cl_step_inv: "cl_step c d \<Longrightarrow> cl_inv c \<Longrightarrow> cl_inv d"
  by (induction rule: cl_step.induct)
    (auto simp: request_timeout_def intro: set_retry_inv request_begin_inv send_failed_inv fail_all_inv request_receive_inv
      leave_inv request_drop_inv read_test_inv read_turn_inv reader_put_inv fail_put_inv fail_handler_inv close_flag_inv close_inv)

text \<open>Only ids that were issued are ever answered, by the reader or by a failing thread.\<close>

definition issued_ok :: "client \<Rightarrow> bool" where
  "issued_ok c \<longleftrightarrow> (\<forall>i. cl_slots c i \<noteq> None \<longrightarrow> i < cl_next_id c) \<and> (\<forall>i kvs. cl_reader c = R_put i kvs \<longrightarrow> i < cl_next_id c) \<and>
     fst ` set (cl_failing c) \<subseteq> {..< cl_next_id c}"

lemma fail_all_issued: "cl_inv c \<Longrightarrow> issued_ok c \<Longrightarrow> issued_ok (fail_all e c)"
  by (auto simp: fail_all_def issued_ok_def cl_inv_def ids_ok_def image_Un image_image)

lemma request_begin_issued: "issued_ok c \<Longrightarrow> issued_ok (fst (request_begin meth c))"
  by (fastforce simp: request_begin_def raise_if_terminal_def issued_ok_def Let_def split: option.splits)

lemma dispatch_issued:
  assumes "cl_inv c" and "issued_ok c" shows "issued_ok (snd (dispatch handlers kvs c))"
proof -
  have "snd (dispatch handlers kvs c) = c \<or>
      (\<exists>i. i \<in> set (cl_pending c) \<and> snd (dispatch handlers kvs c) = c\<lparr>cl_reader := R_put i kvs\<rparr>)"
    by (cases "get_field ''method'' kvs"; cases "get_field ''id'' kvs") (auto simp: dispatch_def split: option.split json.split)
  with assms show ?thesis by (elim disjE exE conjE) (simp_all add: issued_ok_def cl_inv_def ids_ok_def)
qed

lemma reader_ends_issued: "cl_inv c \<Longrightarrow> issued_ok c \<Longrightarrow> issued_ok ((fail_all e c)\<lparr>cl_reader := R_done\<rparr>)"
  using fail_all_issued [of c e] by (simp add: issued_ok_def)

lemma read_test_issued: "cl_inv c \<Longrightarrow> issued_ok c \<Longrightarrow> issued_ok (read_test c)"
  using reader_ends_issued [of c] by (simp add: read_test_def issued_ok_def)

lemma read_turn_issued:
  assumes "cl_inv c" and "issued_ok c" shows "issued_ok (read_turn handlers perform msg c)"
proof (cases msg)
  case (Inl e)
  with assms show ?thesis by (cases e) (simp_all add: read_turn_def reader_ends_issued)
next
  case (Inr kvs)
  let ?c = "c\<lparr>cl_reader := R_test\<rparr>"
  obtain x d where d: "dispatch handlers kvs ?c = (x, d)" by fastforce
  have c: "cl_inv ?c" "issued_ok ?c" using reader_idle_inv [OF assms(1), of R_test] assms(2) by (simp_all add: issued_ok_def)
  have "cl_inv d" "issued_ok d" using dispatch_inv [OF c(1), of handlers kvs] dispatch_issued [OF c, of handlers kvs] d by simp_all
  then show ?thesis using Inr d by (auto simp: read_turn_def reader_ends_issued split: sum.split option.split)
qed

lemma step_issued: "cl_step c d \<Longrightarrow> cl_inv c \<Longrightarrow> issued_ok c \<Longrightarrow> issued_ok d"
proof (induction rule: cl_step.induct)
  case (cl_retry_methods c ms)
  then show ?case by (auto simp: set_retry_methods_def issued_ok_def)
next
  case (cl_send_failed i c)
  then show ?case using fail_all_issued [of c] by (simp add: send_failed_def issued_ok_def)
next
  case (cl_put c d)
  then obtain i kvs where "cl_reader c = R_put i kvs"
    and d: "d = c\<lparr>cl_slots := (cl_slots c)(i := Some (Inr kvs)), cl_reader := R_test\<rparr>"
    by (auto simp: reader_put_def split: reader_pc.splits if_splits)
  with cl_put(3) show ?case by (simp add: d issued_ok_def)
next
  case (cl_fail_put i e c)
  then show ?case using image_mono [OF set_remove1_subset [of "(i, e)" "cl_failing c"], of fst]
    by (fastforce simp: fail_put_def issued_ok_def split: if_splits)
next
  case (cl_handler c d)
  then show ?case by (auto simp: fail_handler_def issued_ok_def split: option.splits if_splits)
next
  case (cl_flag c)
  then show ?case by (simp add: close_flag_def issued_ok_def)
next
  case (cl_close c d)
  then show ?case by (auto simp: client_close_def fail_all_issued split: if_splits)
next
  case (cl_receive i c)
  then show ?case by (simp add: request_receive_def issued_ok_def)
next
  case (cl_timeout i c)
  then show ?case by (simp add: request_timeout_def issued_ok_def)
next
  case (cl_drop i c)
  then show ?case by (simp add: request_drop_def issued_ok_def)
qed (blast intro: request_begin_issued read_test_issued read_turn_issued fail_all_issued)+

lemma cl_init_issued: "cl_init c \<Longrightarrow> issued_ok c"
  by (auto simp: cl_init_def client_init_def issued_ok_def split: if_splits)

interpretation cl_run: step_invariant cl_init cl_step "\<lambda>c. cl_inv c \<and> issued_ok c"
  by unfold_locales (blast intro: cl_init_inv cl_init_issued cl_step_inv step_issued)+

section \<open>Properties\<close>

text \<open>
  C12: An answer reaches only the request it belongs to.  Under every interleaving of callers,
  reader and failing threads, a response in a request's queue carries that request's id, an
  error in it is the client's one terminal error, nothing is ever delivered for an id that was
  not issued, and ids are never reused.  The terminal handler is called at most once, with the
  terminal error, and only after all errors have been put; if the client is terminal and the
  handler has not run, its call is outstanding.
\<close>

theorem responses_reach_their_request:
  assumes "reachable cl_init cl_step c"
  shows "(case cl_slots c i of
            None \<Rightarrow> True
          | Some (Inr kvs) \<Rightarrow> answers kvs i
          | Some (Inl e) \<Rightarrow> cl_terminal c = Some e) \<and>
    (cl_slots c i \<noteq> None \<longrightarrow> i < cl_next_id c) \<and>
    distinct (cl_pending c) \<and> set (cl_pending c) \<union> set (cl_waiting c) \<subseteq> {..< cl_next_id c} \<and>
    cl_terminal_calls c @ (case cl_handling c of None \<Rightarrow> [] | Some e \<Rightarrow> [e]) = (case cl_terminal c of None \<Rightarrow> [] | Some e \<Rightarrow> [e]) \<and>
    (cl_terminal_calls c \<noteq> [] \<longrightarrow> cl_failing c = [])"
  using cl_run.reachable_inv [OF assms]
  by (auto simp: cl_inv_def slots_ok_def ids_ok_def served_ok_def issued_ok_def split: option.split sum.split)

text \<open>
  C13: No caller is forgotten when the transport ends.  Once the client has a terminal error
  no request is pending and none can be added, every caller still waiting has an answer in
  its queue or one about to be put there, and that put is always possible or not needed.
\<close>

theorem terminal_answers_everyone:
  assumes "reachable cl_init cl_step c" and "cl_terminal c = Some e"
  shows "cl_pending c = [] \<and> snd (request_begin meth c) \<noteq> Inr i \<and>
    set (cl_waiting c) \<subseteq> {j. cl_slots c j \<noteq> None \<or>
      ((j, e) \<in> set (cl_failing c) \<and> cl_slots (fail_put j e c) j \<noteq> None)}"
proof -
  have inv: "cl_inv c" using cl_run.reachable_inv [OF assms(1)] by blast
  then have "cl_pending c = []" using assms(2) by (auto simp: cl_inv_def served_ok_def)
  moreover have "snd (request_begin meth c) \<noteq> Inr i"
    using assms(2) by (simp add: request_begin_def raise_if_terminal_def)
  moreover have "cl_slots c j \<noteq> None \<or> ((j, e) \<in> set (cl_failing c) \<and> cl_slots (fail_put j e c) j \<noteq> None)"
    if "j \<in> set (cl_waiting c)" for j
  proof -
    from inv that calculation(1) have "cl_slots c j \<noteq> None \<or> j \<in> fst ` set (cl_failing c)"
      by (auto simp: cl_inv_def served_ok_def)
    moreover from inv assms(2) have "(j, e') \<in> set (cl_failing c) \<Longrightarrow> e' = e" for e'
      by (auto simp: cl_inv_def slots_ok_def)
    ultimately show ?thesis by (auto simp: fail_put_def)
  qed
  ultimately show ?thesis by blast
qed

definition wit_client :: client where
  "wit_client = \<lparr>cl_pending = [], cl_slots = (\<lambda>_. None), cl_next_id = 1, cl_terminal = None, cl_closing = False,
     cl_retry = [], cl_waiting = [], cl_leaving = [], cl_failing = [], cl_handling = None,
     cl_reader = R_test, cl_terminal_calls = []\<rparr>"

definition wit_sent :: client where
  "wit_sent = fst (request_begin (lit ''initialize'') wit_client)"

lemma wit_sent_simps: "wit_sent = wit_client\<lparr>cl_pending := [1], cl_next_id := 2, cl_waiting := [1]\<rparr>"
  by (simp add: wit_sent_def wit_client_def request_begin_def raise_if_terminal_def Let_def lit_simps fun_upd_idem)

lemma wit_sent_reachable: "reachable cl_init cl_step wit_sent"
proof -
  have "reachable cl_init cl_step wit_client"
    by (rule reachable_init) (auto simp: cl_init_def client_init_def wit_client_def intro: exI [of _ 1])
  then show ?thesis unfolding wit_sent_def by (rule reachable_step) (rule cl_begin)
qed

theorem responses_reach_their_request_witness:
  "set (cl_pending wit_sent) \<union> set (cl_waiting wit_sent) \<subseteq> {..< 2}"
  using responses_reach_their_request [OF wit_sent_reachable, of 1] by (simp add: wit_sent_simps)

definition wit_closed :: client where
  "wit_closed = the (client_close (close_flag wit_sent))"

lemma wit_closed_simps:
  "client_close (close_flag wit_sent) = Some wit_closed" "cl_terminal wit_closed = Some (LspTransportClosed ''LSP client closed'')"
  "cl_waiting wit_closed = [1]"
  by (simp_all add: wit_closed_def client_close_def close_flag_def fail_all_def wit_sent_simps wit_client_def)

lemma wit_closed_reachable: "reachable cl_init cl_step wit_closed"
  using reachable_step [OF reachable_step [OF wit_sent_reachable cl_flag] cl_close [OF wit_closed_simps(1)]] .

theorem terminal_answers_everyone_witness:
  "cl_waiting wit_closed = [1] \<and>
   set (cl_waiting wit_closed) \<subseteq> {j. cl_slots wit_closed j \<noteq> None \<or>
      ((j, LspTransportClosed ''LSP client closed'') \<in> set (cl_failing wit_closed) \<and>
       cl_slots (fail_put j (LspTransportClosed ''LSP client closed'') wit_closed) j \<noteq> None)}"
  using terminal_answers_everyone [OF wit_closed_reachable wit_closed_simps(2), of "[]" 0] wit_closed_simps(3) by blast

lemma request_attempts_le: "fst (request_attempts n k once) \<le> k + n"
proof (induction n arbitrary: k)
  case (Suc n)
  from Suc.IH [of "Suc k"] show ?case by simp
qed simp

lemma request_attempts_last:
  "0 < n \<Longrightarrow> \<exists>k' \<ge> k. request_attempts n k once = (Suc k', once k') \<and> (\<forall>l. k \<le> l \<and> l < k' \<longrightarrow> retryable (once l))"
proof (induction n arbitrary: k)
  case (Suc n)
  show ?case
  proof (cases "retryable (once k) \<and> n \<noteq> 0")
    case True
    with Suc.IH [of "Suc k"] obtain k' where "Suc k \<le> k'" "request_attempts n (Suc k) once = (Suc k', once k')"
      "\<forall>l. Suc k \<le> l \<and> l < k' \<longrightarrow> retryable (once l)" by auto
    moreover have "retryable (once l)" if "k \<le> l" "l < k'" for l
      using that True calculation(3) by (cases "l = k") auto
    ultimately show ?thesis using True by (intro exI [of _ k']) auto
  qed auto
qed simp

text \<open>
  C25: Only reads are ever repeated, and boundedly: on any reachable client a request is sent
  once unless its method is one of the six read-only methods, at most three times otherwise,
  again only after a \<open>ContentModified\<close> error, and the caller gets the outcome of the last
  attempt made.
\<close>

theorem only_reads_are_retried:
  assumes "reachable cl_init cl_step c" and "client_request c meth once = (attempts, result)"
  shows "1 \<le> attempts \<and> attempts \<le> (if meth \<in> set READ_ONLY_RETRY_METHODS then 3 else 1) \<and>
    result = once (attempts - 1) \<and> {l. l < attempts - 1} \<subseteq> {l. retryable (once l)}"
proof -
  define n where "n = (if meth \<in> set (cl_retry c) then 3 else (1::nat))"
  have pos: "0 < n" by (simp add: n_def)
  have req: "request_attempts n 0 once = (attempts, result)" using assms(2) by (simp add: client_request_def n_def)
  obtain k' where "request_attempts n 0 once = (Suc k', once k')" "\<forall>l. l < k' \<longrightarrow> retryable (once l)"
    using request_attempts_last [of n 0 once] pos by auto
  moreover have "fst (request_attempts n 0 once) \<le> n" using request_attempts_le [of n 0 once] by simp
  moreover have "set (cl_retry c) \<subseteq> set READ_ONLY_RETRY_METHODS"
    using cl_run.reachable_inv [OF assms(1)] by (simp add: cl_inv_def served_ok_def)
  ultimately show ?thesis using req by (auto simp: n_def split: if_splits)
qed

theorem only_reads_are_retried_witness:
  "fst (client_request wit_sent (lit ''textDocument/rename'') (\<lambda>_. Inl (LspResponseError CONTENT_MODIFIED [] JNull))) = 1"
  using only_reads_are_retried [OF wit_sent_reachable, of "lit ''textDocument/rename''"
      "\<lambda>_. Inl (LspResponseError CONTENT_MODIFIED [] JNull)"]
  by (cases "client_request wit_sent (lit ''textDocument/rename'') (\<lambda>_. Inl (LspResponseError CONTENT_MODIFIED [] JNull))")
    (simp add: READ_ONLY_RETRY_METHODS_def)

end
