(* ===== verification/Envelopes.thy ===== *)
theory Envelopes
  imports Json
begin

text \<open>
  The public response envelopes (\<open>tools/envelopes.py\<close>): error codes and their fixed messages,
  metadata records, the copy that admits only JSON without secret-bearing keys, the two
  envelopes with their serialisation, the conversions of domain failures, and the published
  schemas with a checker for the JSON-schema keywords they use.
\<close>

section \<open>Codes and messages\<close>

datatype error_code =
    INVALID_PATH | UNTRUSTED_ROOT | INVALID_INPUT | OUT_OF_WORKSPACE | SCOPE_INCOMPATIBLE | NOT_READY
  | UNSUPPORTED | SYMBOL_NOT_FOUND | AMBIGUOUS_SYMBOL | STALE_HASH | READ_ONLY_ROOT | LEASE_EXPIRED
  | BUSY | TIMED_OUT | COOLDOWN | UNCERTAIN

fun code_value :: "error_code \<Rightarrow> string" where
  "code_value INVALID_PATH = ''INVALID_PATH''"
| "code_value UNTRUSTED_ROOT = ''UNTRUSTED_ROOT''"
| "code_value INVALID_INPUT = ''INVALID_INPUT''"
| "code_value OUT_OF_WORKSPACE = ''OUT_OF_WORKSPACE''"
| "code_value SCOPE_INCOMPATIBLE = ''SCOPE_INCOMPATIBLE''"
| "code_value NOT_READY = ''NOT_READY''"
| "code_value UNSUPPORTED = ''UNSUPPORTED''"
| "code_value SYMBOL_NOT_FOUND = ''SYMBOL_NOT_FOUND''"
| "code_value AMBIGUOUS_SYMBOL = ''AMBIGUOUS_SYMBOL''"
| "code_value STALE_HASH = ''STALE_HASH''"
| "code_value READ_ONLY_ROOT = ''READ_ONLY_ROOT''"
| "code_value LEASE_EXPIRED = ''LEASE_EXPIRED''"
| "code_value BUSY = ''BUSY''"
| "code_value TIMED_OUT = ''TIMED_OUT''"
| "code_value COOLDOWN = ''COOLDOWN''"
| "code_value UNCERTAIN = ''UNCERTAIN''"

definition ERROR_CODES :: "error_code list" where
  "ERROR_CODES = [INVALID_PATH, UNTRUSTED_ROOT, INVALID_INPUT, OUT_OF_WORKSPACE, SCOPE_INCOMPATIBLE, NOT_READY,
     UNSUPPORTED, SYMBOL_NOT_FOUND, AMBIGUOUS_SYMBOL, STALE_HASH, READ_ONLY_ROOT, LEASE_EXPIRED, BUSY, TIMED_OUT,
     COOLDOWN, UNCERTAIN]"

fun MESSAGES :: "error_code \<Rightarrow> string" where
  "MESSAGES INVALID_PATH = ''path is invalid''"
| "MESSAGES UNTRUSTED_ROOT = ''path is outside trusted roots''"
| "MESSAGES INVALID_INPUT = ''input is invalid''"
| "MESSAGES OUT_OF_WORKSPACE = ''path is outside the active workspace''"
| "MESSAGES SCOPE_INCOMPATIBLE = ''native program is incompatible with workspace trust''"
| "MESSAGES NOT_READY = ''requested state is not ready''"
| "MESSAGES UNSUPPORTED = ''operation is unsupported''"
| "MESSAGES SYMBOL_NOT_FOUND = ''symbol was not found''"
| "MESSAGES AMBIGUOUS_SYMBOL = ''symbol selection is ambiguous''"
| "MESSAGES STALE_HASH = ''file content no longer matches expected hash''"
| "MESSAGES READ_ONLY_ROOT = ''path is in a read-only root''"
| "MESSAGES LEASE_EXPIRED = ''workspace lease has expired''"
| "MESSAGES BUSY = ''workspace executor is busy''"
| "MESSAGES TIMED_OUT = ''operation timed out''"
| "MESSAGES COOLDOWN = ''adapter is in cooldown''"
| "MESSAGES UNCERTAIN = ''operation outcome is uncertain''"

definition SECRET_KEY_FRAGMENTS :: "text_cp list" where
  "SECRET_KEY_FRAGMENTS = map lit [''authorization'', ''bearer'', ''cookie'', ''password'', ''secret'', ''token'']"

section \<open>Metadata\<close>

text \<open>A float of the program: its value and its printed form.\<close>

record py_float =
  pf_value :: real
  pf_repr :: text_cp

datatype env_exn = EnvTypeError text_cp | EnvValueError text_cp

record workspace_md =
  wm_root :: text_cp
  wm_kind :: text_cp
  wm_subdir :: text_cp

record adapter_md =
  am_name :: text_cp
  am_language :: "text_cp option"

record generation_md =
  gm_trust :: "int option"
  gm_program :: "int option"
  gm_document :: "int option"
  gm_index :: "int option"
  gm_scope :: "text_cp option"

record truncation_md =
  tm_truncated :: bool
  tm_omitted :: int

record retry_md =
  rm_retryable :: bool
  rm_retry_after :: "py_float option"
  rm_waited :: "py_float option"
  rm_timeout :: "py_float option"
  rm_target :: "int option"
  rm_observed :: "int option"

definition workspace_md_ok :: "workspace_md \<Rightarrow> bool" where
  "workspace_md_ok m \<longleftrightarrow> take 1 (wm_root m) = [47] \<and> take 1 (wm_subdir m) = [47]"

definition workspace_md_dict :: "workspace_md \<Rightarrow> json" where
  "workspace_md_dict m = JObj [(lit ''root'', JStr (wm_root m)), (lit ''kind'', JStr (wm_kind m)),
     (lit ''working_subdirectory'', JStr (wm_subdir m))]"

definition adapter_md_dict :: "adapter_md \<Rightarrow> json" where
  "adapter_md_dict m = JObj ((lit ''name'', JStr (am_name m)) #
     (case am_language m of None \<Rightarrow> [] | Some l \<Rightarrow> [(lit ''language'', JStr l)]))"

definition opt_int_ok :: "int option \<Rightarrow> bool" where
  "opt_int_ok v = (case v of None \<Rightarrow> True | Some g \<Rightarrow> \<not> g < 0)"

definition generation_md_ok :: "generation_md \<Rightarrow> bool" where
  "generation_md_ok m \<longleftrightarrow> list_all opt_int_ok [gm_trust m, gm_program m, gm_document m, gm_index m]"

text \<open>A dictionary of the fields that are not \<open>None\<close>.\<close>

definition present :: "(string \<times> json option) list \<Rightarrow> json" where
  "present fs = JObj (concat (map (\<lambda>(k, v). case v of None \<Rightarrow> [] | Some j \<Rightarrow> [(lit k, j)]) fs))"

definition generation_md_dict :: "generation_md \<Rightarrow> json" where
  "generation_md_dict m = present
     [(''trust'', map_option JInt (gm_trust m)), (''program'', map_option JInt (gm_program m)),
      (''document'', map_option JInt (gm_document m)), (''index'', map_option JInt (gm_index m)),
      (''scope'', map_option JStr (gm_scope m))]"

definition truncation_md_ok :: "truncation_md \<Rightarrow> bool" where
  "truncation_md_ok m \<longleftrightarrow> \<not> (tm_omitted m < 0 \<or> (\<not> tm_truncated m \<and> tm_omitted m \<noteq> 0))"

definition truncation_md_dict :: "truncation_md \<Rightarrow> json" where
  "truncation_md_dict m = JObj [(lit ''truncated'', JBool (tm_truncated m)), (lit ''omitted_count'', JInt (tm_omitted m))]"

definition retry_md_ok :: "retry_md \<Rightarrow> bool" where
  "retry_md_ok m \<longleftrightarrow>
     list_all (\<lambda>v. case v of None \<Rightarrow> True | Some f \<Rightarrow> \<not> pf_value f < 0) [rm_retry_after m, rm_waited m, rm_timeout m] \<and>
     list_all opt_int_ok [rm_target m, rm_observed m]"

definition retry_md_dict :: "retry_md \<Rightarrow> json" where
  "retry_md_dict m = present
     [(''retryable'', Some (JBool (rm_retryable m))),
      (''retry_after_seconds'', map_option (JFloat \<circ> pf_repr) (rm_retry_after m)),
      (''waited_seconds'', map_option (JFloat \<circ> pf_repr) (rm_waited m)),
      (''timeout_seconds'', map_option (JFloat \<circ> pf_repr) (rm_timeout m)),
      (''target_generation'', map_option JInt (rm_target m)),
      (''observed_generation'', map_option JInt (rm_observed m))]"

section \<open>Copying JSON values\<close>

text \<open>
  A Python value by the tests of \<open>_json_value\<close>; the key of a mapping entry is \<open>None\<close> when it is
  not a string.
\<close>

datatype pyobj =
    ONone
  | OBool bool
  | OInt int
  | OStr text_cp
  | OFloat text_cp
  | ONonFinite
  | OException
  | OMapping "(text_cp option \<times> pyobj) list"
  | OSequence "pyobj list"
  | OOther

text \<open>
  \<open>str.lower\<close> as far as it can produce the letters of the fragments: ASCII capitals and the
  Kelvin sign.
\<close>

definition lower_cp :: "nat \<Rightarrow> nat" where
  "lower_cp c = (if 65 \<le> c \<and> c \<le> 90 then c + 32 else if c = 8490 then 107 else c)"

fun contains :: "text_cp \<Rightarrow> text_cp \<Rightarrow> bool" where
  "contains frag [] \<longleftrightarrow> frag = []"
| "contains frag (c # s) \<longleftrightarrow> take (length frag) (c # s) = frag \<or> contains frag s"

definition secret_key :: "text_cp \<Rightarrow> bool" where
  "secret_key k \<longleftrightarrow> list_ex (\<lambda>f. contains f (map lower_cp k)) SECRET_KEY_FRAGMENTS"

fun seq_sum :: "('e + 'a) list \<Rightarrow> 'e + 'a list" where
  "seq_sum [] = Inr []"
| "seq_sum (x # xs) = (case x of Inl e \<Rightarrow> Inl e | Inr v \<Rightarrow>
     (case seq_sum xs of Inl e \<Rightarrow> Inl e | Inr vs \<Rightarrow> Inr (v # vs)))"

fun json_value :: "text_cp \<Rightarrow> pyobj \<Rightarrow> env_exn + json" where
  "json_value field ONone = Inr JNull"
| "json_value field (OBool b) = Inr (JBool b)"
| "json_value field (OInt i) = Inr (JInt i)"
| "json_value field (OStr s) = Inr (JStr s)"
| "json_value field (OFloat l) = Inr (JFloat l)"
| "json_value field ONonFinite = Inl (EnvValueError (field @ lit '' must not contain non-finite floats''))"
| "json_value field OException = Inl (EnvTypeError (field @ lit '' must not contain exceptions''))"
| "json_value field (OMapping kvs) =
     map_sum id JObj (seq_sum (map (\<lambda>(k, v). case k of
        None \<Rightarrow> Inl (EnvTypeError (field @ lit '' mapping keys must be strings''))
      | Some key \<Rightarrow>
          if secret_key key then Inl (EnvValueError (field @ lit '' must not contain secret-bearing keys''))
          else map_sum id (Pair key) (json_value (field @ [46] @ key) v)) kvs))"
| "json_value field (OSequence vs) = map_sum id JArr (seq_sum (map (json_value field) vs))"
| "json_value field OOther = Inl (EnvTypeError (field @ lit '' must contain only JSON values''))"

fun plain_json :: "json \<Rightarrow> json" where
  "plain_json (JObj kvs) = JObj (map (\<lambda>(k, v). (k, plain_json v)) kvs)"
| "plain_json (JArr xs) = JArr (map plain_json xs)"
| "plain_json j = j"

section \<open>Envelopes\<close>

record success_envelope =
  se_data :: json
  se_workspace :: "workspace_md option"
  se_adapter :: "adapter_md option"
  se_generations :: "generation_md option"
  se_truncation :: "truncation_md option"

record error_envelope =
  ee_code :: error_code
  ee_message :: text_cp
  ee_retry :: "retry_md option"
  ee_details :: json
  ee_workspace :: "workspace_md option"
  ee_adapter :: "adapter_md option"
  ee_generations :: "generation_md option"

definition make_success ::
    "pyobj \<Rightarrow> workspace_md option \<Rightarrow> adapter_md option \<Rightarrow> generation_md option \<Rightarrow> truncation_md option \<Rightarrow>
     env_exn + success_envelope" where
  "make_success data w a g t = map_sum id
     (\<lambda>d. \<lparr>se_data = d, se_workspace = w, se_adapter = a, se_generations = g, se_truncation = t\<rparr>)
     (json_value (lit ''data'') data)"

definition opt_field :: "string \<Rightarrow> ('a \<Rightarrow> json) \<Rightarrow> 'a option \<Rightarrow> (text_cp \<times> json) list" where
  "opt_field k f v = (case v of None \<Rightarrow> [] | Some x \<Rightarrow> [(lit k, f x)])"

definition success_dict :: "success_envelope \<Rightarrow> json" where
  "success_dict e = JObj ([(lit ''ok'', JBool True), (lit ''data'', plain_json (se_data e))] @
     opt_field ''workspace'' workspace_md_dict (se_workspace e) @
     opt_field ''adapter'' adapter_md_dict (se_adapter e) @
     opt_field ''generations'' generation_md_dict (se_generations e) @
     opt_field ''truncation'' truncation_md_dict (se_truncation e))"

text \<open>\<open>ErrorEnvelope.__post_init__\<close>: the message is fixed by the code, the details are copied.\<close>

definition make_error ::
    "error_code \<Rightarrow> text_cp option \<Rightarrow> retry_md option \<Rightarrow> pyobj \<Rightarrow> workspace_md option \<Rightarrow> adapter_md option \<Rightarrow>
     generation_md option \<Rightarrow> env_exn + error_envelope" where
  "make_error code message retry details w a g =
     (let canonical = lit (MESSAGES code) in
      if message \<noteq> None \<and> message \<noteq> Some canonical
      then Inl (EnvValueError (lit ''error messages are fixed by error code''))
      else if canonical = [] \<or> 10 \<in> set canonical \<or> 13 \<in> set canonical
      then Inl (EnvValueError (lit ''error message must be one non-empty line''))
      else case json_value (lit ''details'') details of
             Inl e \<Rightarrow> Inl e
           | Inr (JObj kvs) \<Rightarrow> Inr \<lparr>ee_code = code, ee_message = canonical, ee_retry = retry, ee_details = JObj kvs,
                                    ee_workspace = w, ee_adapter = a, ee_generations = g\<rparr>
           | Inr _ \<Rightarrow> Inl (EnvTypeError (lit ''error details must be a mapping'')))"

definition error_dict :: "error_envelope \<Rightarrow> json" where
  "error_dict e = JObj ([(lit ''ok'', JBool False), (lit ''error'', JObj
       [(lit ''code'', JStr (lit (code_value (ee_code e)))),
        (lit ''message'', JStr (ee_message e)),
        (lit ''retry'', (case ee_retry e of None \<Rightarrow> JNull | Some r \<Rightarrow> retry_md_dict r)),
        (lit ''details'', plain_json (ee_details e))])] @
     opt_field ''workspace'' workspace_md_dict (ee_workspace e) @
     opt_field ''adapter'' adapter_md_dict (ee_adapter e) @
     opt_field ''generations'' generation_md_dict (ee_generations e))"

definition env_error ::
    "error_code \<Rightarrow> retry_md option \<Rightarrow> pyobj option \<Rightarrow> workspace_md option \<Rightarrow> adapter_md option \<Rightarrow>
     generation_md option \<Rightarrow> env_exn + error_envelope" where
  "env_error code retry details w a g =
     make_error code None retry (case details of None \<Rightarrow> OMapping [] | Some d \<Rightarrow> d) w a g"

section \<open>Conversions of domain failures\<close>

text \<open>\<open>ErrorCode(value)\<close>: the member with that value, or \<open>ValueError\<close>.\<close>

definition error_code_of :: "string \<Rightarrow> error_code option" where
  "error_code_of v = find (\<lambda>c. code_value c = v) ERROR_CODES"

datatype workspace_error_code = WS_INVALID_PATH | WS_UNTRUSTED_ROOT | WS_OUT_OF_WORKSPACE | WS_READ_ONLY_ROOT

fun ws_code_value :: "workspace_error_code \<Rightarrow> string" where
  "ws_code_value WS_INVALID_PATH = ''INVALID_PATH''"
| "ws_code_value WS_UNTRUSTED_ROOT = ''UNTRUSTED_ROOT''"
| "ws_code_value WS_OUT_OF_WORKSPACE = ''OUT_OF_WORKSPACE''"
| "ws_code_value WS_READ_ONLY_ROOT = ''READ_ONLY_ROOT''"

datatype adapter_error_code = AD_NOT_READY | AD_SCOPE_INCOMPATIBLE | AD_COOLDOWN

fun ad_code_value :: "adapter_error_code \<Rightarrow> string" where
  "ad_code_value AD_NOT_READY = ''NOT_READY''"
| "ad_code_value AD_SCOPE_INCOMPATIBLE = ''SCOPE_INCOMPATIBLE''"
| "ad_code_value AD_COOLDOWN = ''COOLDOWN''"

record workspace_error_data =
  wed_code :: workspace_error_code
  wed_identity :: "workspace_md option"
  wed_hint :: "text_cp option"
  wed_path :: "text_cp option"

definition opt_entry :: "string \<Rightarrow> text_cp option \<Rightarrow> (text_cp option \<times> pyobj) list" where
  "opt_entry k v = (case v of None \<Rightarrow> [] | Some s \<Rightarrow> [(Some (lit k), OStr s)])"

definition checked_workspace_md :: "workspace_md \<Rightarrow> env_exn + workspace_md" where
  "checked_workspace_md m =
     (if workspace_md_ok m then Inr m else Inl (EnvValueError (lit ''workspace metadata paths must be absolute'')))"

definition from_workspace_error :: "workspace_error_data \<Rightarrow> env_exn + error_envelope" where
  "from_workspace_error d =
     (case error_code_of (ws_code_value (wed_code d)) of
        None \<Rightarrow> Inl (EnvValueError (lit ''not a valid ErrorCode''))
      | Some code \<Rightarrow>
          let details = OMapping (opt_entry ''path'' (wed_path d) @ opt_entry ''activation_hint'' (wed_hint d)) in
          (case wed_identity d of
             None \<Rightarrow> env_error code None (Some details) None None None
           | Some m \<Rightarrow> (case checked_workspace_md m of
                 Inl e \<Rightarrow> Inl e
               | Inr w \<Rightarrow> env_error code None (Some details) (Some w) None None)))"

record scope_error_data =
  sed_language :: text_cp
  sed_project_kind :: text_cp
  sed_outside :: pyobj
  sed_config_path :: "text_cp option"
  sed_paths :: "text_cp list"

definition scope_error_details :: "scope_error_data \<Rightarrow> (text_cp option \<times> pyobj) list" where
  "scope_error_details s =
     [(Some (lit ''language''), OStr (sed_language s)), (Some (lit ''project_kind''), OStr (sed_project_kind s)),
      (Some (lit ''configured_program_outside_trust''), sed_outside s)] @
     opt_entry ''selected_config_path'' (sed_config_path s)"

record readiness_result =
  rr_ready :: bool
  rr_scope_incompatible :: bool
  rr_scope :: text_cp
  rr_target :: "int option"
  rr_observed :: "int option"
  rr_retry :: "retry_md option"
  rr_path :: "text_cp option"
  rr_scope_error :: "scope_error_data option"

text \<open>\<open>details.update\<close> of disjoint keys appends them.\<close>

definition from_readiness_result ::
    "readiness_result \<Rightarrow> workspace_md option \<Rightarrow> adapter_md option \<Rightarrow> env_exn + (success_envelope + error_envelope)" where
  "from_readiness_result r w a =
     (let g = \<lparr>gm_trust = None, gm_program = rr_target r, gm_document = None, gm_index = rr_observed r,
               gm_scope = Some (rr_scope r)\<rparr> in
      if \<not> generation_md_ok g then Inl (EnvValueError (lit ''generation values must be non-negative''))
      else if rr_ready r
      then map_sum id Inl (make_success (OMapping [(Some (lit ''ready''), OBool True)]) w a (Some g) None)
      else if (case rr_retry r of None \<Rightarrow> False | Some m \<Rightarrow> \<not> retry_md_ok m)
      then Inl (EnvValueError (lit ''retry durations must be non-negative''))
      else map_sum id Inr (env_error (if rr_scope_incompatible r then SCOPE_INCOMPATIBLE else NOT_READY) (rr_retry r)
             (Some (OMapping ((Some (lit ''scope''), OStr (rr_scope r)) # opt_entry ''path'' (rr_path r) @
                (case rr_scope_error r of None \<Rightarrow> []
                 | Some s \<Rightarrow> scope_error_details s @ [(Some (lit ''paths''), OSequence (map OStr (sed_paths s)))]))))
             w a (Some g)))"

definition plain_retry :: "bool \<Rightarrow> py_float option \<Rightarrow> py_float option \<Rightarrow> retry_md" where
  "plain_retry b after timeout = \<lparr>rm_retryable = b, rm_retry_after = after, rm_waited = None, rm_timeout = timeout,
     rm_target = None, rm_observed = None\<rparr>"

definition checked_retry :: "retry_md \<Rightarrow> env_exn + retry_md" where
  "checked_retry m = (if retry_md_ok m then Inr m else Inl (EnvValueError (lit ''retry durations must be non-negative'')))"

definition from_executor_busy :: "py_float \<Rightarrow> env_exn + error_envelope" where
  "from_executor_busy after =
     (case checked_retry (plain_retry True (Some after) None) of
        Inl e \<Rightarrow> Inl e | Inr m \<Rightarrow> env_error BUSY (Some m) None None None None)"

definition from_adapter_error :: "adapter_error_code \<Rightarrow> py_float option \<Rightarrow> adapter_md option \<Rightarrow> env_exn + error_envelope" where
  "from_adapter_error c after a =
     (case error_code_of (ad_code_value c) of
        None \<Rightarrow> Inl (EnvValueError (lit ''not a valid ErrorCode''))
      | Some code \<Rightarrow>
          (case after of
             None \<Rightarrow> env_error code None None None a None
           | Some _ \<Rightarrow>
               (case checked_retry (plain_retry (code \<in> {NOT_READY, COOLDOWN}) after None) of
                  Inl e \<Rightarrow> Inl e | Inr m \<Rightarrow> env_error code (Some m) None None a None)))"

definition from_adapter_cooldown :: "adapter_error_code \<Rightarrow> py_float option \<Rightarrow> adapter_md option \<Rightarrow> env_exn + error_envelope" where
  "from_adapter_cooldown c after a =
     (if c \<noteq> AD_COOLDOWN then Inl (EnvTypeError (lit ''expected AdapterError with COOLDOWN code''))
      else from_adapter_error c after a)"

definition from_timeout :: "bool \<Rightarrow> py_float option \<Rightarrow> env_exn + error_envelope" where
  "from_timeout retryable timeout =
     (case checked_retry (plain_retry retryable None timeout) of
        Inl e \<Rightarrow> Inl e | Inr m \<Rightarrow> env_error TIMED_OUT (Some m) None None None None)"

section \<open>Published schemas\<close>

text \<open>The JSON-schema keywords the published schemas use.\<close>

datatype schema =
    SAny
  | SConst json
  | SEnum "json list"
  | SType "string list"
  | SObject "string list" "(string \<times> schema) list"

fun json_type :: "json \<Rightarrow> string" where
  "json_type JNull = ''null''"
| "json_type (JBool _) = ''boolean''"
| "json_type (JInt _) = ''integer''"
| "json_type (JFloat _) = ''number''"
| "json_type (JStr _) = ''string''"
| "json_type (JArr _) = ''array''"
| "json_type (JObj _) = ''object''"

text \<open>\<open>SObject required properties\<close> is an object schema with \<open>additionalProperties: false\<close>.\<close>

fun validates :: "schema \<Rightarrow> json \<Rightarrow> bool" where
  "validates SAny j \<longleftrightarrow> True"
| "validates (SConst c) j \<longleftrightarrow> j = c"
| "validates (SEnum cs) j \<longleftrightarrow> j \<in> set cs"
| "validates (SType ts) j \<longleftrightarrow> json_type j \<in> set ts"
| "validates (SObject required properties) j \<longleftrightarrow>
     (case j of
        JObj kvs \<Rightarrow> list_all (\<lambda>k. lit k \<in> fst ` set kvs) required \<and>
          fst ` set kvs \<subseteq> lit ` fst ` set properties \<and>
          list_all (\<lambda>(k, s). list_all (\<lambda>(k', v). k' = lit k \<longrightarrow> validates s v) kvs) properties
      | _ \<Rightarrow> False)"

definition SUCCESS_SCHEMA :: schema where
  "SUCCESS_SCHEMA = SObject [''ok'', ''data'']
     [(''ok'', SConst (JBool True)), (''data'', SAny), (''workspace'', SType [''object'']),
      (''adapter'', SType [''object'']), (''generations'', SType [''object'']), (''truncation'', SType [''object''])]"

definition ERROR_SCHEMA :: schema where
  "ERROR_SCHEMA = SObject [''ok'', ''error'']
     [(''ok'', SConst (JBool False)),
      (''error'', SObject [''code'', ''message'', ''retry'', ''details'']
         [(''code'', SEnum (map (\<lambda>c. JStr (lit (code_value c))) ERROR_CODES)),
          (''message'', SType [''string'']), (''retry'', SType [''object'', ''null'']), (''details'', SType [''object''])]),
      (''workspace'', SType [''object'']), (''adapter'', SType [''object'']), (''generations'', SType [''object''])]"

text \<open>\<open>oneOf\<close>: exactly one alternative holds.\<close>

definition validates_envelope :: "json \<Rightarrow> bool" where
  "validates_envelope j \<longleftrightarrow> (validates SUCCESS_SCHEMA j \<noteq> validates ERROR_SCHEMA j)"

section \<open>Lemmas\<close>

lemma code_value_inject [simp]: "code_value c = code_value d \<longleftrightarrow> c = d"
  by (cases c; cases d) simp_all

lemma error_codes_all: "c \<in> set ERROR_CODES"
  by (cases c) (simp_all add: ERROR_CODES_def)

lemma seq_sum_Inr: "seq_sum xs = Inr vs \<Longrightarrow> xs = map Inr vs"
  by (induction xs arbitrary: vs) (auto split: sum.splits)

lemma plain_json_id [simp]: "plain_json j = j"
proof (induction j)
  case (JArr xs)
  then show ?case by (simp add: map_idI)
next
  case (JObj kvs)
  then show ?case by (auto simp: snds.simps intro!: map_idI)
qed simp_all

text \<open>No key of any mapping inside a value bears a secret.\<close>

fun no_secret_keys :: "json \<Rightarrow> bool" where
  "no_secret_keys (JObj kvs) \<longleftrightarrow> list_all (\<lambda>p. \<not> secret_key (fst p)) kvs \<and> list_all (\<lambda>p. no_secret_keys (snd p)) kvs"
| "no_secret_keys (JArr xs) \<longleftrightarrow> list_all no_secret_keys xs"
| "no_secret_keys _ \<longleftrightarrow> True"

lemma json_value_no_secret: "json_value field v = Inr j \<Longrightarrow> no_secret_keys j"
proof (induction field v arbitrary: j rule: json_value.induct)
  case (8 field kvs)
  let ?f = "\<lambda>(k, v). case k of
        None \<Rightarrow> Inl (EnvTypeError (field @ lit '' mapping keys must be strings''))
      | Some key \<Rightarrow>
          if secret_key key then Inl (EnvValueError (field @ lit '' must not contain secret-bearing keys''))
          else map_sum id (Pair key) (json_value (field @ [46] @ key) v)"
  from 8(2) obtain out where "seq_sum (map ?f kvs) = Inr out" and j: "j = JObj out"
    by (cases "seq_sum (map ?f kvs)") auto
  then have eq: "map ?f kvs = map Inr out" by (intro seq_sum_Inr)
  have "\<not> secret_key (fst p) \<and> no_secret_keys (snd p)" if p: "p \<in> set out" for p
  proof -
    from p have "Inr p \<in> set (map ?f kvs)" using eq by simp
    then obtain k v where kv: "(k, v) \<in> set kvs" "?f (k, v) = Inr p" by auto
    then obtain key where k: "k = Some key" "\<not> secret_key key"
      by (auto split: option.splits if_splits)
    with kv obtain j' where "json_value (field @ [46] @ key) v = Inr j'" "p = (key, j')"
      by (cases "json_value (field @ [46] @ key) v") auto
    with 8(1) [OF kv(1) refl k(1,2)] k show ?thesis by simp
  qed
  with j show ?case by (simp add: list_all_iff)
next
  case (9 field vs)
  then obtain out where s: "seq_sum (map (json_value field) vs) = Inr out" and j: "j = JArr out"
    by (cases "seq_sum (map (json_value field) vs)") auto
  from seq_sum_Inr [OF s] have eq: "map (json_value field) vs = map Inr out" .
  have "no_secret_keys x" if "x \<in> set out" for x
  proof -
    from that have "Inr x \<in> set (map (json_value field) vs)" using eq by simp
    then show ?thesis using 9(1) by auto
  qed
  with j show ?case by (simp add: list_all_iff)
qed auto

section \<open>Properties\<close>

lemma md_dict_types:
  "json_type (workspace_md_dict w) = ''object''" "json_type (adapter_md_dict a) = ''object''"
  "json_type (generation_md_dict g) = ''object''" "json_type (truncation_md_dict t) = ''object''"
  "json_type (retry_md_dict r) = ''object''"
  by (simp_all add: workspace_md_dict_def adapter_md_dict_def generation_md_dict_def truncation_md_dict_def
      retry_md_dict_def present_def)

lemma success_dict_valid: "validates SUCCESS_SCHEMA (success_dict e)"
  by (cases "se_workspace e"; cases "se_adapter e"; cases "se_generations e"; cases "se_truncation e")
    (simp_all add: SUCCESS_SCHEMA_def success_dict_def opt_field_def md_dict_types)

lemma error_dict_valid: "ee_details e = JObj kvs \<Longrightarrow> validates ERROR_SCHEMA (error_dict e)"
  using error_codes_all [of "ee_code e"]
  by (cases "ee_workspace e"; cases "ee_adapter e"; cases "ee_generations e"; cases "ee_retry e")
    (simp_all add: ERROR_SCHEMA_def error_dict_def opt_field_def md_dict_types image_iff)

lemma success_not_error: "\<not> validates ERROR_SCHEMA (success_dict e)"
  by (simp add: ERROR_SCHEMA_def success_dict_def)

lemma error_not_success: "\<not> validates SUCCESS_SCHEMA (error_dict e)"
  by (simp add: SUCCESS_SCHEMA_def error_dict_def)

lemma make_error_Inr:
  "make_error code m r d w a g = Inr e \<Longrightarrow>
   ee_code e = code \<and> ee_message e = lit (MESSAGES code) \<and> (\<exists>kvs. ee_details e = JObj kvs \<and> json_value (lit ''details'') d = Inr (JObj kvs))"
  by (auto simp: make_error_def Let_def split: if_splits sum.splits json.splits)

text \<open>
  C28: Every envelope the tool layer can construct serialises to the published schema: a success
  to the success schema and to it alone, an error to the error schema and to it alone, with the
  one message its code fixes whatever the caller passed.
\<close>

theorem envelopes_match_schema:
  "(case make_success data w a g t of
      Inl _ \<Rightarrow> True
    | Inr e \<Rightarrow> validates SUCCESS_SCHEMA (success_dict e) \<and> validates_envelope (success_dict e)) \<and>
   (case make_error code message r details w a g of
      Inl _ \<Rightarrow> True
    | Inr e \<Rightarrow> validates ERROR_SCHEMA (error_dict e) \<and> validates_envelope (error_dict e) \<and>
        ee_message e = lit (MESSAGES code))"
  using make_error_Inr [of code message r details w a g]
  by (auto simp: validates_envelope_def success_dict_valid success_not_error error_not_success
      intro: error_dict_valid split: sum.split)

text \<open>
  C29: No secret-bearing key leaves the daemon: at any depth, no mapping in a success's data or
  in an error's details has a key containing one of the secret fragments in any letter case.
\<close>

theorem envelopes_carry_no_secret_key:
  "(case make_success data w a g t of Inl _ \<Rightarrow> True | Inr e \<Rightarrow> no_secret_keys (se_data e)) \<and>
   (case make_error code message r details w a g of Inl _ \<Rightarrow> True | Inr e \<Rightarrow> no_secret_keys (ee_details e))"
proof -
  have "no_secret_keys (se_data e)" if s: "make_success data w a g t = Inr e" for e
  proof -
    from s obtain d where "json_value (lit ''data'') data = Inr d" "se_data e = d"
      by (cases "json_value (lit ''data'') data") (auto simp: make_success_def)
    then show ?thesis using json_value_no_secret by blast
  qed
  moreover have "no_secret_keys (ee_details e)" if "make_error code message r details w a g = Inr e" for e
    using make_error_Inr [OF that] json_value_no_secret by metis
  ultimately show ?thesis by (auto split: sum.split)
qed

lemma error_code_of_value: "error_code_of (code_value c) = Some c"
  by (cases c) (simp_all add: error_code_of_def ERROR_CODES_def)

lemma messages_one_line: "lit (MESSAGES c) \<noteq> [] \<and> 10 \<notin> set (lit (MESSAGES c)) \<and> 13 \<notin> set (lit (MESSAGES c))"
  by (cases c) (simp_all add: lit_simps)

lemma env_error_details:
  "env_error code r details w a g = Inr e \<longleftrightarrow>
   (\<exists>kvs. json_value (lit ''details'') (case details of None \<Rightarrow> OMapping [] | Some d \<Rightarrow> d) = Inr (JObj kvs) \<and>
     e = \<lparr>ee_code = code, ee_message = lit (MESSAGES code), ee_retry = r, ee_details = JObj kvs,
          ee_workspace = w, ee_adapter = a, ee_generations = g\<rparr>)"
  using messages_one_line [of code] unfolding env_error_def make_error_def Let_def
  by (auto split: sum.split json.split)

lemma adapter_error_converts:
  assumes "after = None \<or> 0 \<le> pf_value (the after)"
  shows "\<exists>e. from_adapter_error c after a = Inr e \<and> code_value (ee_code e) = ad_code_value c \<and> ee_adapter e = a \<and>
    (ee_retry e = None) = (after = None)"
proof -
  obtain code where code: "error_code_of (ad_code_value c) = Some code" "code_value code = ad_code_value c"
    by (cases c) (use error_code_of_value [of NOT_READY] error_code_of_value [of SCOPE_INCOMPATIBLE]
      error_code_of_value [of COOLDOWN] in auto)
  with assms show ?thesis
    by (cases after) (auto simp: from_adapter_error_def checked_retry_def retry_md_ok_def plain_retry_def opt_int_ok_def
      env_error_details)
qed

lemma plain_keys_not_secret: "\<not> secret_key (lit ''path'')" "\<not> secret_key (lit ''activation_hint'')"
  by (simp_all add: secret_key_def SECRET_KEY_FRAGMENTS_def lit_simps lower_cp_def)

lemma workspace_error_converts:
  assumes "wed_identity d = None \<or> workspace_md_ok (the (wed_identity d))"
  shows "\<exists>e. from_workspace_error d = Inr e \<and> code_value (ee_code e) = ws_code_value (wed_code d) \<and>
    ee_workspace e = wed_identity d"
proof -
  obtain code where code: "error_code_of (ws_code_value (wed_code d)) = Some code" "code_value code = ws_code_value (wed_code d)"
    by (cases "wed_code d") (use error_code_of_value [of INVALID_PATH] error_code_of_value [of UNTRUSTED_ROOT]
      error_code_of_value [of OUT_OF_WORKSPACE] error_code_of_value [of READ_ONLY_ROOT] in auto)
  have "\<exists>e. env_error code None (Some (OMapping (opt_entry ''path'' (wed_path d) @ opt_entry ''activation_hint'' (wed_hint d)))) w None None = Inr e
      \<and> ee_code e = code \<and> ee_workspace e = w" for w
    by (cases "wed_path d"; cases "wed_hint d") (simp_all add: env_error_details opt_entry_def plain_keys_not_secret)
  with code assms show ?thesis
    by (cases "wed_identity d") (auto simp: from_workspace_error_def checked_workspace_md_def Let_def)
qed

end
