(* ===== verification/Compact.thy ===== *)
theory Compact
  imports Envelopes "HOL-Library.Product_Lexorder"
begin

text \<open>
  The compact presentation of navigation results (\<open>tools/compact.py\<close>): validation of the
  public limits and kinds, path normalisation, the record types with their checks and their
  dictionaries, the deterministic order, exact de-duplication and grouping by file.
\<close>

section \<open>Limits, kinds and positions\<close>

datatype compact_exn = CValueError string | CTypeError string | CEnvelope env_exn

definition DEFAULT_MAX_ANSWER_CHARS :: int where "DEFAULT_MAX_ANSWER_CHARS = 12000"
definition MIN_MAX_ANSWER_CHARS :: int where "MIN_MAX_ANSWER_CHARS = 512"
definition MAX_MAX_ANSWER_CHARS :: int where "MAX_MAX_ANSWER_CHARS = 50000"
definition MIN_MAX_MATCHES :: int where "MIN_MAX_MATCHES = 1"
definition MAX_MAX_MATCHES :: int where "MAX_MAX_MATCHES = 100"

definition validate_max_answer_chars :: "pyobj \<Rightarrow> compact_exn + int" where
  "validate_max_answer_chars value = (case value of
       OInt v \<Rightarrow> if MIN_MAX_ANSWER_CHARS \<le> v \<and> v \<le> MAX_MAX_ANSWER_CHARS then Inr v
                 else Inl (CValueError ''max_answer_chars must be from 512 through 50000'')
     | _ \<Rightarrow> Inl (CValueError ''max_answer_chars must be an integer from 512 through 50000''))"

definition validate_max_matches :: "pyobj \<Rightarrow> compact_exn + int" where
  "validate_max_matches value = (case value of
       OInt v \<Rightarrow> if MIN_MAX_MATCHES \<le> v \<and> v \<le> MAX_MAX_MATCHES then Inr v
                 else Inl (CValueError ''max_matches must be from 1 through 100'')
     | _ \<Rightarrow> Inl (CValueError ''max_matches must be an integer from 1 through 100''))"

definition SYMBOL_KINDS :: "text_cp list" where
  "SYMBOL_KINDS = map lit [''file'', ''module'', ''namespace'', ''package'', ''class'', ''method'', ''property'',
     ''field'', ''constructor'', ''enum'', ''interface'', ''function'', ''variable'', ''constant'', ''string'',
     ''number'', ''boolean'', ''array'', ''object'', ''key'', ''null'', ''enum_member'', ''struct'', ''event'',
     ''operator'', ''type_parameter'']"

definition symbol_kind :: "int \<Rightarrow> text_cp" where
  "symbol_kind value =
     (if 1 \<le> value \<and> value \<le> int (length SYMBOL_KINDS) then SYMBOL_KINDS ! nat (value - 1)
      else lit ''unknown:'' @ lit (show_int value))"

text \<open>\<open>unknown:-?\d+\<close> with the digits of the language's \<open>\d\<close> restricted to ASCII.\<close>

definition unknown_kind_value :: "text_cp \<Rightarrow> int option" where
  "unknown_kind_value s =
     (if take 8 s \<noteq> lit ''unknown:'' then None
      else let r = drop 8 s; neg = (take 1 r = [45]); ds = (if neg then drop 1 r else r) in
           if ds \<noteq> [] \<and> list_all is_dig ds
           then Some (if neg then - int (digits_nat ds) else int (digits_nat ds)) else None)"

definition valid_kind_label :: "text_cp \<Rightarrow> bool" where
  "valid_kind_label value =
     (if value \<in> set SYMBOL_KINDS then True
      else case unknown_kind_value value of None \<Rightarrow> False | Some v \<Rightarrow> symbol_kind v = value)"

text \<open>The elements of the filter that are not strings are \<open>None\<close>; a string as a whole is refused.\<close>

definition validate_kind_filter :: "(text_cp option list + unit) option \<Rightarrow> compact_exn + text_cp list" where
  "validate_kind_filter value = (case value of
       None \<Rightarrow> Inr []
     | Some (Inr _) \<Rightarrow> Inl (CValueError ''must be a sequence of stable symbol-kind strings'')
     | Some (Inl ks) \<Rightarrow>
         if list_all (\<lambda>k. case k of None \<Rightarrow> False | Some s \<Rightarrow> valid_kind_label s) ks
         then Inr (sort (remdups (map the ks)))
         else Inl (CValueError ''contains an unknown symbol kind''))"

definition validate_overview_kind_filters ::
    "(text_cp option list + unit) option \<Rightarrow> (text_cp option list + unit) option \<Rightarrow> compact_exn + text_cp list \<times> text_cp list" where
  "validate_overview_kind_filters include_kinds exclude_kinds = (case validate_kind_filter include_kinds of
       Inl e \<Rightarrow> Inl e
     | Inr inc \<Rightarrow> map_sum id (Pair inc) (validate_kind_filter exclude_kinds))"

type_synonym cpos = "int \<times> int"
type_synonym crange = "cpos \<times> cpos"

definition obj_get :: "string \<Rightarrow> json \<Rightarrow> json option" where
  "obj_get k j = (case j of JObj kvs \<Rightarrow> map_of kvs (lit k) | _ \<Rightarrow> None)"

text \<open>\<open>_compact_position\<close> and \<open>_compact_raw_position\<close> differ in the name of the second field.\<close>

definition position_of :: "string \<Rightarrow> json option \<Rightarrow> compact_exn + cpos" where
  "position_of second raw = (case raw of
       Some (JObj kvs) \<Rightarrow>
         (case (map_of kvs (lit ''line''), map_of kvs (lit second)) of
            (Some (JInt l), Some (JInt c)) \<Rightarrow>
              if l < 0 \<or> c < 0 then Inl (CValueError ''requires non-negative integer line and column'') else Inr (l, c)
          | _ \<Rightarrow> Inl (CValueError ''requires non-negative integer line and column''))
     | _ \<Rightarrow> Inl (CValueError ''must be an object''))"

definition compact_range :: "json \<Rightarrow> compact_exn + crange" where
  "compact_range r =
     (case position_of ''column'' (obj_get ''start'' r) of
        Inl e \<Rightarrow> Inl e
      | Inr s \<Rightarrow> (case position_of ''column'' (obj_get ''end'' r) of
            Inl e \<Rightarrow> Inl e
          | Inr t \<Rightarrow> if t < s then Inl (CValueError ''range end precedes its start'') else Inr (s, t)))"

definition LSP_BASIS_PREFIX :: text_cp where
  "LSP_BASIS_PREFIX = lit ''lsp_zero_based_line_''"

definition lsp_basis :: "text_cp \<Rightarrow> bool" where
  "lsp_basis b \<longleftrightarrow> take (length LSP_BASIS_PREFIX) b = LSP_BASIS_PREFIX"

definition compact_raw_lsp_range :: "json \<Rightarrow> compact_exn + (crange \<times> text_cp)" where
  "compact_raw_lsp_range r =
     (case obj_get ''basis'' r of
        Some (JStr basis) \<Rightarrow>
          if \<not> lsp_basis basis then Inl (CValueError ''raw LSP range requires an explicit zero-based basis'')
          else (case position_of ''character'' (obj_get ''start'' r) of
             Inl e \<Rightarrow> Inl e
           | Inr s \<Rightarrow> (case position_of ''character'' (obj_get ''end'' r) of
                 Inl e \<Rightarrow> Inl e
               | Inr t \<Rightarrow> if t < s then Inl (CValueError ''raw LSP range end precedes its start'') else Inr ((s, t), basis)))
      | _ \<Rightarrow> Inl (CValueError ''raw LSP range requires an explicit zero-based basis''))"

definition crange_ok :: "crange \<Rightarrow> bool" where
  "crange_ok r \<longleftrightarrow> (case r of ((a, b), (c, d)) \<Rightarrow>
     0 \<le> a \<and> 0 \<le> b \<and> 0 \<le> c \<and> 0 \<le> d \<and> \<not> (c, d) < (a, b))"

definition range_json :: "crange \<Rightarrow> json" where
  "range_json r = (case r of ((a, b), (c, d)) \<Rightarrow> JArr [JArr [JInt a, JInt b], JArr [JInt c, JInt d]])"

section \<open>Paths\<close>

fun split_slash :: "text_cp \<Rightarrow> text_cp list" where
  "split_slash [] = [[]]"
| "split_slash (c # s) = (if c = 47 then [] # split_slash s
     else case split_slash s of [] \<Rightarrow> [[c]] | x # xs \<Rightarrow> (c # x) # xs)"

fun join_slash :: "text_cp list \<Rightarrow> text_cp" where
  "join_slash [] = []"
| "join_slash [x] = x"
| "join_slash (x # y # xs) = x @ 47 # join_slash (y # xs)"

text \<open>The component loop of \<open>posixpath.normpath\<close>; the collected components are in reverse.\<close>

fun norm_comps :: "bool \<Rightarrow> text_cp list \<Rightarrow> text_cp list \<Rightarrow> text_cp list" where
  "norm_comps rooted acc [] = rev acc"
| "norm_comps rooted acc (seg # rest) =
     (if seg = [] \<or> seg = [46] then norm_comps rooted acc rest
      else if seg \<noteq> [46, 46] \<or> (\<not> rooted \<and> acc = []) \<or> (acc \<noteq> [] \<and> hd acc = [46, 46])
      then norm_comps rooted (seg # acc) rest
      else if acc \<noteq> [] then norm_comps rooted (tl acc) rest
      else norm_comps rooted acc rest)"

definition normpath :: "text_cp \<Rightarrow> text_cp" where
  "normpath p =
     (if p = [] then [46]
      else let slashes = (if take 1 p \<noteq> [47] then 0 else if take 2 p = [47, 47] \<and> take 3 p \<noteq> [47, 47, 47] then 2 else (1::nat));
               q = replicate slashes 47 @ join_slash (norm_comps (slashes \<noteq> 0) [] (split_slash p))
           in if q = [] then [46] else q)"

definition normalize_path :: "text_cp \<Rightarrow> compact_exn + text_cp" where
  "normalize_path value =
     (if value = [] then Inl (CValueError ''path must be a non-empty string'')
      else let n = normpath value;
               n' = (if take 1 value = [47] then 47 # dropWhile (\<lambda>c. c = 47) n else n)
           in if n' = [46] then Inl (CValueError ''path must identify a file'') else Inr n')"

definition valid_sha256 :: "text_cp \<Rightarrow> bool" where
  "valid_sha256 v \<longleftrightarrow> length v = 64 \<and> list_all (\<lambda>c. c \<in> set (lit ''0123456789abcdef'')) v"

section \<open>Records\<close>

datatype overview = Overview (ov_name: text_cp) (ov_kind: int) (ov_children: "overview list") (ov_intrinsic: bool)

fun overview_ok :: "overview \<Rightarrow> bool" where
  "overview_ok (Overview n k cs i) \<longleftrightarrow> n \<noteq> [] \<and> list_all overview_ok cs"

fun overview_dict :: "overview \<Rightarrow> json" where
  "overview_dict (Overview n k cs i) = JObj ([(lit ''name'', JStr n), (lit ''kind'', JStr (symbol_kind k))] @
     (if cs = [] then [] else [(lit ''children'', JArr (map overview_dict cs))]))"

fun node_count :: "overview \<Rightarrow> nat" where
  "node_count (Overview n k cs i) = 1 + sum_list (map node_count cs)"

record symbol_match =
  sm_name_path :: text_cp
  sm_kind :: int
  sm_range :: crange
  sm_body :: "text_cp option"
  sm_info :: "text_cp option"

record reference =
  rf_range :: "crange option"
  rf_symbol :: "text_cp option"
  rf_snippet :: "text_cp option"
  rf_raw_range :: "crange option"
  rf_basis :: "text_cp option"

record target =
  tg_range :: "crange option"
  tg_name_path :: "text_cp option"
  tg_kind :: "int option"
  tg_body :: "text_cp option"
  tg_info :: "text_cp option"
  tg_raw_range :: "crange option"
  tg_basis :: "text_cp option"

datatype flat_record = FSymbol symbol_match | FReference reference | FTarget target

definition symbol_match_ok :: "symbol_match \<Rightarrow> bool" where
  "symbol_match_ok m \<longleftrightarrow> sm_name_path m \<noteq> [] \<and> crange_ok (sm_range m)"

definition coordinate_choice_ok :: "crange option \<Rightarrow> crange option \<Rightarrow> text_cp option \<Rightarrow> bool" where
  "coordinate_choice_ok decoded raw basis \<longleftrightarrow>
     (decoded = None) \<noteq> (raw = None) \<and>
     crange_ok (the (if decoded \<noteq> None then decoded else raw)) \<and>
     \<not> (raw = None \<and> basis \<noteq> None) \<and>
     \<not> (raw \<noteq> None \<and> (case basis of None \<Rightarrow> True | Some b \<Rightarrow> \<not> lsp_basis b))"

definition reference_ok :: "reference \<Rightarrow> bool" where
  "reference_ok r \<longleftrightarrow> coordinate_choice_ok (rf_range r) (rf_raw_range r) (rf_basis r) \<and> rf_symbol r \<noteq> Some []"

definition target_ok :: "target \<Rightarrow> bool" where
  "target_ok t \<longleftrightarrow> coordinate_choice_ok (tg_range t) (tg_raw_range t) (tg_basis t) \<and> tg_name_path t \<noteq> Some []"

definition flat_record_ok :: "flat_record \<Rightarrow> bool" where
  "flat_record_ok r = (case r of FSymbol m \<Rightarrow> symbol_match_ok m | FReference f \<Rightarrow> reference_ok f | FTarget t \<Rightarrow> target_ok t)"

definition coordinates_dict :: "crange option \<Rightarrow> crange option \<Rightarrow> text_cp option \<Rightarrow> (text_cp \<times> json) list" where
  "coordinates_dict decoded raw basis = (case decoded of
       Some r \<Rightarrow> [(lit ''range'', range_json r)]
     | None \<Rightarrow> [(lit ''raw_range'', range_json (the raw)), (lit ''position_basis'', JStr (the basis))])"

definition symbol_match_dict :: "symbol_match \<Rightarrow> json" where
  "symbol_match_dict m = JObj ([(lit ''name_path'', JStr (sm_name_path m)), (lit ''kind'', JStr (symbol_kind (sm_kind m))),
     (lit ''range'', range_json (sm_range m))] @ opt_field ''body'' JStr (sm_body m) @ opt_field ''info'' JStr (sm_info m))"

definition reference_dict :: "reference \<Rightarrow> json" where
  "reference_dict f = JObj (coordinates_dict (rf_range f) (rf_raw_range f) (rf_basis f) @
     opt_field ''symbol'' JStr (rf_symbol f) @ opt_field ''snippet'' JStr (rf_snippet f))"

definition target_dict :: "target \<Rightarrow> json" where
  "target_dict t = JObj (coordinates_dict (tg_range t) (tg_raw_range t) (tg_basis t) @
     opt_field ''name_path'' JStr (tg_name_path t) @ opt_field ''kind'' (JStr \<circ> symbol_kind) (tg_kind t) @
     opt_field ''body'' JStr (tg_body t) @ opt_field ''info'' JStr (tg_info t))"

definition flat_dict :: "flat_record \<Rightarrow> json" where
  "flat_dict r = (case r of FSymbol m \<Rightarrow> symbol_match_dict m | FReference f \<Rightarrow> reference_dict f | FTarget t \<Rightarrow> target_dict t)"

lemmas flat_dict_defs = flat_dict_def symbol_match_dict_def reference_dict_def target_dict_def

definition record_has_body :: "flat_record \<Rightarrow> bool" where
  "record_has_body r = (case r of FSymbol m \<Rightarrow> sm_body m \<noteq> None | FReference _ \<Rightarrow> False | FTarget t \<Rightarrow> tg_body t \<noteq> None)"

datatype record_key = Symbols | References | Targets

fun key_name :: "record_key \<Rightarrow> string" where
  "key_name Symbols = ''symbols''"
| "key_name References = ''references''"
| "key_name Targets = ''targets''"

definition record_key_of :: "flat_record \<Rightarrow> record_key" where
  "record_key_of r = (case r of FSymbol _ \<Rightarrow> Symbols | FReference _ \<Rightarrow> References | FTarget _ \<Rightarrow> Targets)"

record located =
  lr_path :: text_cp
  lr_record :: flat_record
  lr_language :: "text_cp option"
  lr_read_only :: "bool option"
  lr_sha256 :: "text_cp option"

text \<open>\<open>LocatedCompactRecord.__post_init__\<close>.\<close>

definition make_located :: "located \<Rightarrow> compact_exn + located" where
  "make_located l =
     (case normalize_path (lr_path l) of
        Inl e \<Rightarrow> Inl e
      | Inr p \<Rightarrow>
          if lr_language l = Some [] then Inl (CValueError ''language must be a non-empty string'')
          else if (case lr_sha256 l of None \<Rightarrow> False | Some h \<Rightarrow> \<not> valid_sha256 h)
          then Inl (CValueError ''sha256 must be 64 lowercase hexadecimal characters'')
          else Inr (l\<lparr>lr_path := p,
                      lr_read_only := (if lr_read_only l = Some False then None else lr_read_only l),
                      lr_sha256 := (if record_has_body (lr_record l) then lr_sha256 l else None)\<rparr>))"

definition opt_json :: "('a \<Rightarrow> json) \<Rightarrow> 'a option \<Rightarrow> json" where
  "opt_json f v = (case v of None \<Rightarrow> JNull | Some x \<Rightarrow> f x)"

definition located_dict :: "located \<Rightarrow> json" where
  "located_dict l = JObj [(lit ''path'', JStr (lr_path l)), (lit ''language'', opt_json JStr (lr_language l)),
     (lit ''read_only'', opt_json JBool (lr_read_only l)), (lit ''sha256'', opt_json JStr (lr_sha256 l)),
     (lit ''record'', flat_dict (lr_record l))]"

definition canonical_json :: "json \<Rightarrow> text_cp" where
  "canonical_json j = dumps j"

section \<open>Order and exact de-duplication\<close>

type_synonym order_key = "text_cp \<times> int \<times> int \<times> int \<times> int \<times> text_cp \<times> text_cp \<times> text_cp"

definition selected_range :: "flat_record \<Rightarrow> crange" where
  "selected_range r = (case r of
       FSymbol m \<Rightarrow> sm_range m
     | FReference f \<Rightarrow> the (if rf_range f \<noteq> None then rf_range f else rf_raw_range f)
     | FTarget t \<Rightarrow> the (if tg_range t \<noteq> None then tg_range t else tg_raw_range t))"

definition opt_text :: "text_cp option \<Rightarrow> text_cp" where
  "opt_text v = (case v of None \<Rightarrow> [] | Some s \<Rightarrow> s)"

definition order_name :: "flat_record \<Rightarrow> text_cp" where
  "order_name r = (case r of FSymbol m \<Rightarrow> sm_name_path m | FReference f \<Rightarrow> opt_text (rf_symbol f) | FTarget t \<Rightarrow> opt_text (tg_name_path t))"

definition order_kind :: "flat_record \<Rightarrow> text_cp" where
  "order_kind r = (case r of FSymbol m \<Rightarrow> symbol_kind (sm_kind m) | FReference _ \<Rightarrow> []
     | FTarget t \<Rightarrow> (case tg_kind t of None \<Rightarrow> [] | Some k \<Rightarrow> symbol_kind k))"

definition identity_text :: "located \<Rightarrow> text_cp" where
  "identity_text l = canonical_json (located_dict l)"

definition record_order_key :: "located \<Rightarrow> order_key" where
  "record_order_key l =
     (case selected_range (lr_record l) of ((a, b), (c, d)) \<Rightarrow>
        (lr_path l, a, b, c, d, order_name (lr_record l), order_kind (lr_record l), identity_text l))"

fun drop_seen :: "text_cp list \<Rightarrow> located list \<Rightarrow> located list" where
  "drop_seen seen [] = []"
| "drop_seen seen (x # xs) =
     (if identity_text x \<in> set seen then drop_seen seen xs
      else x # drop_seen (identity_text x # seen) xs)"

definition unique_sorted_records :: "located list \<Rightarrow> located list" where
  "unique_sorted_records records = drop_seen [] (sort_key record_order_key records)"

definition ordered_records :: "located list \<Rightarrow> located list" where
  "ordered_records records = unique_sorted_records records"

section \<open>Languages and grouping\<close>

definition LANGUAGE_SUFFIXES :: "(text_cp \<times> text_cp list) list" where
  "LANGUAGE_SUFFIXES =
     [(lit ''python'', map lit [''.py'', ''.pyi'', ''.pyw'']),
      (lit ''typescript'', map lit [''.cjs'', ''.cts'', ''.js'', ''.jsx'', ''.mjs'', ''.mts'', ''.ts'', ''.tsx''])]"

text \<open>\<open>PurePosixPath(path).suffix\<close> of a normalised path.\<close>

definition path_suffix :: "text_cp \<Rightarrow> text_cp" where
  "path_suffix p =
     (let name = last (split_slash p);
          after = takeWhile (\<lambda>c. c \<noteq> 46) (rev name);
          stem = length name - length after - 1
      in if 46 \<in> set name \<and> 0 < stem \<and> after \<noteq> [] then drop stem name else [])"

definition infer_language :: "text_cp \<Rightarrow> text_cp option" where
  "infer_language p = map_option fst (find (\<lambda>(l, sfx). map lower_cp (path_suffix p) \<in> set sfx) LANGUAGE_SUFFIXES)"

definition or_else :: "'a option \<Rightarrow> 'a option \<Rightarrow> 'a option" where
  "or_else a b = (case a of None \<Rightarrow> b | Some _ \<Rightarrow> a)"

text \<open>\<open>_one_file_value\<close>: the one value the items of a file agree on.\<close>

definition one_file_value :: "'a option list \<Rightarrow> compact_exn + 'a option" where
  "one_file_value vs =
     (let present = remdups (map the (filter (\<lambda>v. v \<noteq> None) vs)) in
      if length present > 1 then Inl (CValueError ''file group has conflicting values'')
      else Inr (case present of [] \<Rightarrow> None | x # _ \<Rightarrow> Some x))"

record 'r compact_file =
  cf_path :: text_cp
  cf_key :: record_key
  cf_records :: "'r list"
  cf_language :: "text_cp option"
  cf_read_only :: "bool option"
  cf_sha256 :: "text_cp option"

text \<open>\<open>CompactFile.__post_init__\<close>; \<open>fits\<close> says which records the key admits.\<close>

definition make_file :: "(record_key \<Rightarrow> 'r \<Rightarrow> bool) \<Rightarrow> 'r compact_file \<Rightarrow> compact_exn + 'r compact_file" where
  "make_file fits f =
     (case normalize_path (cf_path f) of
        Inl e \<Rightarrow> Inl e
      | Inr p \<Rightarrow>
          if cf_records f = [] then Inl (CValueError ''compact file groups must not be empty'')
          else if \<not> list_all (fits (cf_key f)) (cf_records f)
          then Inl (CTypeError ''file contains the wrong record type'')
          else if (case cf_sha256 f of None \<Rightarrow> False | Some h \<Rightarrow> \<not> valid_sha256 h)
          then Inl (CValueError ''sha256 must be 64 lowercase hexadecimal characters'')
          else Inr (f\<lparr>cf_path := p\<rparr>))"

definition file_dict :: "('r \<Rightarrow> json) \<Rightarrow> 'r compact_file \<Rightarrow> json" where
  "file_dict rec_dict f = JObj ([(lit ''path'', JStr (cf_path f))] @ opt_field ''language'' JStr (cf_language f) @
     (if cf_read_only f = Some True then [(lit ''read_only'', JBool True)] else []) @
     opt_field ''sha256'' JStr (cf_sha256 f) @
     [(lit (key_name (cf_key f)), JArr (map rec_dict (cf_records f)))])"

definition fits_key :: "record_key \<Rightarrow> flat_record \<Rightarrow> bool" where
  "fits_key k r \<longleftrightarrow> record_key_of r = k"

definition item_language :: "located \<Rightarrow> text_cp option" where
  "item_language l = or_else (lr_language l) (infer_language (lr_path l))"

text \<open>One turn of the grouping loop: the group of the items of one path.\<close>

definition file_group :: "record_key \<Rightarrow> bool \<Rightarrow> text_cp \<Rightarrow> located list \<Rightarrow> compact_exn + flat_record compact_file" where
  "file_group key multiple_languages path items =
     (case one_file_value (map lr_language items) of
        Inl e \<Rightarrow> Inl e
      | Inr lang \<Rightarrow>
        (case one_file_value (map lr_read_only items) of
           Inl e \<Rightarrow> Inl e
         | Inr read_only \<Rightarrow>
           (case one_file_value (map lr_sha256 items) of
              Inl _ \<Rightarrow> Inl (CValueError ''file group has conflicting sha256 values'')
            | Inr hash \<Rightarrow>
                let language = or_else lang (infer_language path);
                    has_body = list_ex (record_has_body \<circ> lr_record) items;
                    sha = (if has_body then hash else None)
                in if has_body \<and> sha = None then Inl (CValueError ''body-bearing file group requires sha256'')
                   else make_file fits_key
                     \<lparr>cf_path = path, cf_key = key, cf_records = map lr_record items,
                      cf_language = (if language \<noteq> None \<and> (multiple_languages \<or> infer_language path \<noteq> language)
                                     then language else None),
                      cf_read_only = read_only, cf_sha256 = sha\<rparr>)))"

definition group_records :: "located list \<Rightarrow> compact_exn + flat_record compact_file list" where
  "group_records records =
     (let ordered = unique_sorted_records records in
      case ordered of
        [] \<Rightarrow> Inr []
      | first # _ \<Rightarrow>
          let key = record_key_of (lr_record first) in
          if list_ex (\<lambda>i. record_key_of (lr_record i) \<noteq> key) ordered
          then Inl (CValueError ''one compact response cannot mix tool-specific record types'')
          else let languages = remdups (map the (filter (\<lambda>v. v \<noteq> None) (map item_language ordered)));
                   multiple = (length languages > 1)
               in seq_sum (map (\<lambda>p. file_group key multiple p (filter (\<lambda>i. lr_path i = p) ordered))
                    (rev (remdups (rev (map lr_path ordered))))))"

section \<open>Normalised paths\<close>

text \<open>A path component that normalisation keeps apart from \<open>..\<close>, and one it keeps at all.\<close>

definition plain_seg :: "text_cp \<Rightarrow> bool" where
  "plain_seg s \<longleftrightarrow> s \<noteq> [] \<and> s \<noteq> [46] \<and> s \<noteq> [46, 46] \<and> 47 \<notin> set s"

text \<open>What normalisation leaves: leading \<open>..\<close> components of a relative path, then plain ones.\<close>

definition normal_segs :: "bool \<Rightarrow> text_cp list \<Rightarrow> bool" where
  "normal_segs rooted xs \<longleftrightarrow> (\<exists>k ps. xs = replicate k [46, 46] @ ps \<and> list_all plain_seg ps \<and> (rooted \<longrightarrow> k = 0))"

lemma normal_segs_Nil [simp]: "normal_segs rooted []"
  by (auto simp: normal_segs_def)

lemma normal_segs_snoc_plain: "normal_segs r xs \<Longrightarrow> plain_seg s \<Longrightarrow> normal_segs r (xs @ [s])"
proof -
  assume "normal_segs r xs" and s: "plain_seg s"
  then obtain k ps where "xs = replicate k [46, 46] @ ps" "list_all plain_seg ps" "r \<longrightarrow> k = 0" by (auto simp: normal_segs_def)
  with s show ?thesis unfolding normal_segs_def by (intro exI [of _ k] exI [of _ "ps @ [s]"]) simp
qed

lemma normal_segs_snoc_up: "normal_segs False xs \<Longrightarrow> xs = [] \<or> last xs = [46, 46] \<Longrightarrow> normal_segs False (xs @ [[46, 46]])"
proof -
  assume "normal_segs False xs" and l: "xs = [] \<or> last xs = [46, 46]"
  then obtain k ps where x: "xs = replicate k [46, 46] @ ps" "list_all plain_seg ps" by (auto simp: normal_segs_def)
  with l have "ps = []" by (cases ps rule: rev_cases) (auto simp: plain_seg_def)
  with x have "xs @ [[46, 46]] = replicate (Suc k) [46, 46] @ []"
    by (simp add: replicate_append_same)
  then show ?thesis unfolding normal_segs_def by (intro exI [of _ "Suc k"] exI [of _ "[]"]) simp
qed

lemma normal_segs_butlast: "normal_segs r xs \<Longrightarrow> normal_segs r (butlast xs)"
proof -
  assume "normal_segs r xs"
  then obtain k ps where x: "xs = replicate k [46, 46] @ ps" "list_all plain_seg ps" "r \<longrightarrow> k = 0" by (auto simp: normal_segs_def)
  show ?thesis
  proof (cases "ps = []")
    case True
    then have "butlast xs = replicate (k - 1) [46, 46] @ []" using x by (cases k) (simp_all add: replicate_append_same [symmetric])
    then show ?thesis unfolding normal_segs_def using x(3) by (intro exI [of _ "k - 1"] exI [of _ "[]"]) simp
  next
    case False
    then have "butlast xs = replicate k [46, 46] @ butlast ps" using x by (simp add: butlast_append)
    moreover have "list_all plain_seg (butlast ps)" using x(2) by (auto simp: list_all_iff dest: in_set_butlastD)
    ultimately show ?thesis unfolding normal_segs_def using x(3) by blast
  qed
qed

lemma norm_comps_normal:
  assumes "normal_segs rooted (rev acc)" and "list_all (\<lambda>s. 47 \<notin> set s) xs"
  shows "normal_segs rooted (norm_comps rooted acc xs)"
  using assms
proof (induction rooted acc xs rule: norm_comps.induct)
  case (2 rooted acc seg rest)
  consider "seg = [] \<or> seg = [46]"
    | "seg \<noteq> []" "seg \<noteq> [46]" "seg \<noteq> [46, 46]"
    | "seg = [46, 46]" "(\<not> rooted \<and> acc = []) \<or> (acc \<noteq> [] \<and> hd acc = [46, 46])"
    | "seg = [46, 46]" "\<not> ((\<not> rooted \<and> acc = []) \<or> (acc \<noteq> [] \<and> hd acc = [46, 46]))" by blast
  then show ?case
  proof cases
    case 1
    with 2 show ?thesis by auto
  next
    case 2
    with "2.prems" have "normal_segs rooted (rev (seg # acc))"
      by (auto intro: normal_segs_snoc_plain simp: plain_seg_def)
    with 2 "2.IH"(2) "2.prems" show ?thesis by simp
  next
    case 3
    have "\<not> rooted"
    proof
      assume "rooted"
      with 3 "2.prems"(1) show False
        by (cases acc) (auto simp: normal_segs_def list_all_iff plain_seg_def)
    qed
    with 3 "2.prems" have "normal_segs rooted (rev (seg # acc))"
      by (auto intro!: normal_segs_snoc_up simp: last_rev)
    with 3 "2.IH"(2) "2.prems" show ?thesis by simp
  next
    case 4
    with "2.prems" normal_segs_butlast [of rooted "rev acc"] have "acc \<noteq> [] \<Longrightarrow> normal_segs rooted (rev (tl acc))"
      by (cases acc) auto
    with 4 "2.IH"(3,4) "2.prems" show ?thesis by auto
  qed
qed simp

lemma norm_comps_plain: "list_all plain_seg ps \<Longrightarrow> norm_comps rooted acc ps = rev acc @ ps"
  by (induction ps arbitrary: acc) (auto simp: plain_seg_def)

lemma norm_comps_ups: "norm_comps False (replicate j [46, 46]) (replicate k [46, 46] @ ps) = norm_comps False (replicate (j + k) [46, 46]) ps"
proof (induction k arbitrary: j)
  case (Suc k)
  have "norm_comps False (replicate j [46, 46]) ([46, 46] # replicate k [46, 46] @ ps) =
      norm_comps False (replicate (Suc j) [46, 46]) (replicate k [46, 46] @ ps)"
    by (cases j) simp_all
  with Suc [of "Suc j"] show ?case by simp
qed simp

lemma norm_comps_id: "normal_segs rooted xs \<Longrightarrow> norm_comps rooted [] xs = xs"
proof -
  assume "normal_segs rooted xs"
  then obtain k ps where x: "xs = replicate k [46, 46] @ ps" "list_all plain_seg ps" "rooted \<longrightarrow> k = 0" by (auto simp: normal_segs_def)
  show ?thesis
  proof (cases rooted)
    case True
    with x show ?thesis by (simp add: norm_comps_plain)
  next
    case False
    with x norm_comps_ups [of 0 k ps] show ?thesis by (simp add: norm_comps_plain)
  qed
qed

lemma split_slash_clean: "list_all (\<lambda>s. 47 \<notin> set s) (split_slash p)"
proof (induction p)
  case (Cons c p)
  then show ?case by (cases "split_slash p") auto
qed simp

lemma split_slash_nonempty: "split_slash p \<noteq> []"
  by (cases p) (auto split: list.split)

lemma split_slash_seg: "47 \<notin> set s \<Longrightarrow> split_slash s = [s]"
  by (induction s) auto

lemma split_slash_cons: "47 \<notin> set s \<Longrightarrow> split_slash (s @ 47 # r) = s # split_slash r"
  by (induction s) auto

lemma split_join: "xs \<noteq> [] \<Longrightarrow> list_all (\<lambda>s. 47 \<notin> set s) xs \<Longrightarrow> split_slash (join_slash xs) = xs"
  by (induction xs rule: join_slash.induct) (auto simp: split_slash_seg split_slash_cons)

lemma normal_segs_clean: "normal_segs r xs \<Longrightarrow> list_all (\<lambda>s. 47 \<notin> set s \<and> s \<noteq> []) xs"
proof -
  assume "normal_segs r xs"
  then obtain k ps where x: "xs = replicate k [46, 46] @ ps" and p: "list_all plain_seg ps" by (auto simp: normal_segs_def)
  have "list_all (\<lambda>s. 47 \<notin> set s \<and> s \<noteq> []) ps" using p by (rule list.pred_mono_strong) (simp add: plain_seg_def)
  moreover have "list_all (\<lambda>s. 47 \<notin> set s \<and> s \<noteq> []) (replicate k [46, 46 :: nat])" by (induction k) simp_all
  ultimately show ?thesis by (simp add: x)
qed

lemma join_slash_head:
  assumes "normal_segs r xs" and "xs \<noteq> []" shows "\<exists>c t. join_slash xs = c # t \<and> c \<noteq> 47"
proof -
  from normal_segs_clean [OF assms(1)] assms(2) obtain s ys where "xs = s # ys" "47 \<notin> set s" "s \<noteq> []"
    by (cases xs) auto
  then show ?thesis by (cases s; cases ys) auto
qed

lemma normpath_relative:
  assumes "normal_segs False xs" and "xs \<noteq> []" shows "normpath (join_slash xs) = join_slash xs"
proof -
  obtain c t where c: "join_slash xs = c # t" "c \<noteq> 47" using join_slash_head [OF assms] by blast
  have "split_slash (join_slash xs) = xs"
    using split_join [OF assms(2)] normal_segs_clean [OF assms(1)] by (simp add: list_all_iff)
  with c norm_comps_id [OF assms(1)] show ?thesis by (simp add: normpath_def)
qed

lemma normpath_absolute:
  assumes "normal_segs True xs" shows "normpath (47 # join_slash xs) = 47 # join_slash xs"
proof (cases "xs = []")
  case True
  then show ?thesis by (simp add: normpath_def)
next
  case False
  obtain c t where c: "join_slash xs = c # t" "c \<noteq> 47" using join_slash_head [OF assms False] by blast
  have "split_slash (join_slash xs) = xs"
    using split_join [OF False] normal_segs_clean [OF assms] by (simp add: list_all_iff)
  with c norm_comps_id [OF assms] show ?thesis by (simp add: normpath_def)
qed

lemma normpath_shape:
  assumes "p \<noteq> []"
  shows "\<exists>xs. normal_segs (take 1 p = [47]) xs \<and>
    (if take 1 p = [47] then \<exists>n. normpath p = replicate (Suc n) 47 @ join_slash xs
     else normpath p = (if xs = [] then [46] else join_slash xs))"
proof -
  define xs where "xs = norm_comps (take 1 p = [47]) [] (split_slash p)"
  have n: "normal_segs (take 1 p = [47]) xs"
    unfolding xs_def by (rule norm_comps_normal) (simp_all add: split_slash_clean)
  show ?thesis
  proof (cases "take 1 p = [47]")
    case True
    then have "normpath p = replicate 2 47 @ join_slash xs \<or> normpath p = replicate 1 47 @ join_slash xs"
      using assms by (auto simp: normpath_def xs_def Let_def)
    then have "\<exists>n. normpath p = replicate (Suc n) 47 @ join_slash xs" by (metis One_nat_def numeral_2_eq_2)
    with n True show ?thesis by auto
  next
    case False
    then have "normpath p = (if join_slash xs = [] then [46] else join_slash xs)"
      using assms by (simp add: normpath_def xs_def)
    moreover have "join_slash xs = [] \<longleftrightarrow> xs = []" using join_slash_head [OF n] by (cases xs) auto
    ultimately show ?thesis using n False by auto
  qed
qed

lemma normalize_path_fixed:
  assumes "normalize_path p = Inr q" shows "normalize_path q = Inr q"
proof -
  have ne: "p \<noteq> []" using assms by (auto simp: normalize_path_def)
  obtain xs where xs: "normal_segs (take 1 p = [47]) xs"
    and shape: "if take 1 p = [47] then \<exists>n. normpath p = replicate (Suc n) 47 @ join_slash xs
     else normpath p = (if xs = [] then [46] else join_slash xs)" using normpath_shape [OF ne] by blast
  show ?thesis
  proof (cases "take 1 p = [47]")
    case True
    with xs have head: "dropWhile (\<lambda>c. c = 47) (join_slash xs) = join_slash xs"
      using join_slash_head [of True xs] by (cases xs) auto
    have drop: "dropWhile (\<lambda>c. c = 47) (replicate n 47 @ join_slash xs) = join_slash xs" for n
      by (induction n) (simp_all add: head)
    from True shape drop have "q = 47 # join_slash xs"
      using assms ne by (auto simp: normalize_path_def Let_def split: if_splits)
    moreover have "normpath (47 # join_slash xs) = 47 # join_slash xs" using normpath_absolute xs True by simp
    ultimately show ?thesis using head by (simp add: normalize_path_def)
  next
    case False
    with shape assms ne have q: "q = join_slash xs" and x: "xs \<noteq> []"
      by (auto simp: normalize_path_def Let_def split: if_splits)
    obtain c t where c: "join_slash xs = c # t" "c \<noteq> 47" using join_slash_head [OF xs x] by blast
    have "normpath q = q" using normpath_relative [of xs] xs x q False by simp
    moreover have "q \<noteq> [46]" using assms ne False shape x by (auto simp: normalize_path_def Let_def split: if_splits)
    ultimately show ?thesis using c q by (simp add: normalize_path_def)
  qed
qed

section \<open>Printed records identify them\<close>

lemma show_int_inject: "show_int a = show_int b \<Longrightarrow> a = b"
  by (metis parse_number_int json.inject(2) option.inject prod.inject)

lemma symbol_kinds_distinct: "distinct SYMBOL_KINDS"
  by (simp add: SYMBOL_KINDS_def)

lemma symbol_kinds_known: "s \<in> set SYMBOL_KINDS \<Longrightarrow> take 8 s \<noteq> lit ''unknown:''"
  by (auto simp: SYMBOL_KINDS_def lit_simps)

lemma symbol_kind_known: "1 \<le> a \<and> a \<le> int (length SYMBOL_KINDS) \<Longrightarrow> symbol_kind a \<in> set SYMBOL_KINDS"
  unfolding symbol_kind_def by (auto intro!: nth_mem)

lemma symbol_kind_unknown: "\<not> (1 \<le> a \<and> a \<le> int (length SYMBOL_KINDS)) \<Longrightarrow> take 8 (symbol_kind a) = lit ''unknown:''"
  by (auto simp: symbol_kind_def lit_simps)

lemma symbol_kind_inject: "symbol_kind a = symbol_kind b \<Longrightarrow> a = b"
proof -
  assume eq: "symbol_kind a = symbol_kind b"
  let ?k = "\<lambda>v. 1 \<le> v \<and> v \<le> int (length SYMBOL_KINDS)"
  have "?k a \<longleftrightarrow> ?k b"
    using eq symbol_kind_known symbol_kind_unknown symbol_kinds_known by metis
  show ?thesis
  proof (cases "?k a")
    case True
    with eq \<open>?k a \<longleftrightarrow> ?k b\<close> have "SYMBOL_KINDS ! nat (a - 1) = SYMBOL_KINDS ! nat (b - 1)"
      by (simp add: symbol_kind_def)
    moreover have "nat (a - 1) < length SYMBOL_KINDS" "nat (b - 1) < length SYMBOL_KINDS"
      using True \<open>?k a \<longleftrightarrow> ?k b\<close> by auto
    ultimately have "nat (a - 1) = nat (b - 1)" using symbol_kinds_distinct by (simp add: nth_eq_iff_index_eq)
    with True \<open>?k a \<longleftrightarrow> ?k b\<close> show ?thesis by auto
  next
    case False
    with eq \<open>?k a \<longleftrightarrow> ?k b\<close> have "lit (show_int a) = lit (show_int b)" by (auto simp: symbol_kind_def)
    then show ?thesis by (simp add: show_int_inject)
  qed
qed

lemma range_json_inject: "range_json a = range_json b \<longleftrightarrow> a = b"
  by (auto simp: range_json_def split: prod.splits)

lemma opt_field_simps [simp]: "opt_field k f None = []" "opt_field k f (Some x) = [(lit k, f x)]"
  by (simp_all add: opt_field_def)

lemma opt_fields_inject:
  assumes "opt_field k f a @ r = opt_field k f b @ r'" and "k \<notin> ks" and "\<And>x y. f x = f y \<Longrightarrow> x = y"
    and "fst ` set r \<subseteq> lit ` ks" and "fst ` set r' \<subseteq> lit ` ks"
  shows "a = b \<and> r = r'"
  using assms by (cases a; cases b) (auto simp: image_iff)

lemma opt_field_mem: "(k', v) \<in> set (opt_field k f a) \<Longrightarrow> k' = lit k"
  by (cases a) simp_all

lemma symbol_dict_inject:
  assumes "flat_dict (FSymbol a) = flat_dict (FSymbol b)" shows "a = b"
proof -
  have "opt_field ''body'' JStr (sm_body a) @ opt_field ''info'' JStr (sm_info a) =
      opt_field ''body'' JStr (sm_body b) @ opt_field ''info'' JStr (sm_info b)"
    using assms by (simp add: flat_dict_defs)
  then have "sm_body a = sm_body b \<and> opt_field ''info'' JStr (sm_info a) = opt_field ''info'' JStr (sm_info b)"
    by (rule opt_fields_inject [where ks = "{''info''}"]) (auto dest!: opt_field_mem)
  moreover then have "sm_info a = sm_info b"
    using opt_fields_inject [of "''info''" JStr "sm_info a" "[]" "sm_info b" "[]" "{}"] by simp
  ultimately show ?thesis
    using assms by (simp add: flat_dict_defs range_json_inject symbol_kind_inject symbol_match.equality)
qed

lemma coordinates_dict_inject:
  assumes "coordinates_dict d r p @ xs = coordinates_dict d' r' p' @ ys"
    and "coordinate_choice_ok d r p" and "coordinate_choice_ok d' r' p'"
  shows "d = d' \<and> r = r' \<and> p = p' \<and> xs = ys"
  using assms
  by (cases d; cases d'; cases r; cases r'; cases p; cases p')
    (auto simp: coordinates_dict_def coordinate_choice_ok_def range_json_inject)

lemma reference_dict_inject:
  assumes "flat_dict (FReference a) = flat_dict (FReference b)" and "reference_ok a" and "reference_ok b" shows "a = b"
proof -
  from assms have c: "rf_range a = rf_range b" "rf_raw_range a = rf_raw_range b" "rf_basis a = rf_basis b"
    and o: "opt_field ''symbol'' JStr (rf_symbol a) @ opt_field ''snippet'' JStr (rf_snippet a) =
      opt_field ''symbol'' JStr (rf_symbol b) @ opt_field ''snippet'' JStr (rf_snippet b)"
    by (auto simp: flat_dict_defs reference_ok_def dest: coordinates_dict_inject)
  from o have "rf_symbol a = rf_symbol b \<and> opt_field ''snippet'' JStr (rf_snippet a) = opt_field ''snippet'' JStr (rf_snippet b)"
    by (rule opt_fields_inject [where ks = "{''snippet''}"]) (auto dest!: opt_field_mem)
  moreover then have "rf_snippet a = rf_snippet b"
    using opt_fields_inject [of "''snippet''" JStr "rf_snippet a" "[]" "rf_snippet b" "[]" "{}"] by simp
  ultimately show ?thesis using c by (simp add: reference.equality)
qed

lemma target_dict_inject:
  assumes "flat_dict (FTarget a) = flat_dict (FTarget b)" and "target_ok a" and "target_ok b" shows "a = b"
proof -
  let ?r = "\<lambda>t. opt_field ''kind'' (JStr \<circ> symbol_kind) (tg_kind t) @ opt_field ''body'' JStr (tg_body t) @ opt_field ''info'' JStr (tg_info t)"
  from assms have c: "tg_range a = tg_range b" "tg_raw_range a = tg_raw_range b" "tg_basis a = tg_basis b"
    and o: "opt_field ''name_path'' JStr (tg_name_path a) @ ?r a = opt_field ''name_path'' JStr (tg_name_path b) @ ?r b"
    by (auto simp: flat_dict_defs target_ok_def dest: coordinates_dict_inject)
  from o have n: "tg_name_path a = tg_name_path b \<and> ?r a = ?r b"
    by (rule opt_fields_inject [where ks = "{''kind'', ''body'', ''info''}"])
      (auto dest!: opt_field_mem)
  have k: "tg_kind a = tg_kind b \<and> opt_field ''body'' JStr (tg_body a) @ opt_field ''info'' JStr (tg_info a) =
      opt_field ''body'' JStr (tg_body b) @ opt_field ''info'' JStr (tg_info b)"
    by (rule opt_fields_inject [OF n [THEN conjunct2], where ks = "{''body'', ''info''}"])
      (auto dest!: opt_field_mem symbol_kind_inject)
  have b: "tg_body a = tg_body b \<and> opt_field ''info'' JStr (tg_info a) = opt_field ''info'' JStr (tg_info b)"
    by (rule opt_fields_inject [OF k [THEN conjunct2], where ks = "{''info''}"])
      (auto dest!: opt_field_mem)
  have "tg_info a = tg_info b"
    using b opt_fields_inject [of "''info''" JStr "tg_info a" "[]" "tg_info b" "[]" "{}"] by simp
  with c n k b show ?thesis by (simp add: target.equality)
qed

lemma flat_dict_inject:
  assumes "flat_dict a = flat_dict b" and "flat_record_ok a" and "flat_record_ok b" and "record_key_of a = record_key_of b"
  shows "a = b"
  using assms symbol_dict_inject reference_dict_inject target_dict_inject
  by (cases a; cases b) (auto simp: flat_record_ok_def record_key_of_def)

lemma opt_json_inject: "(\<And>x y. f x = f y \<Longrightarrow> x = y) \<Longrightarrow> (\<And>x. f x \<noteq> JNull) \<Longrightarrow> opt_json f a = opt_json f b \<Longrightarrow> a = b"
  by (cases a; cases b) (auto simp: opt_json_def, metis+)

lemma located_dict_inject:
  assumes "located_dict a = located_dict b" and "flat_record_ok (lr_record a)" and "flat_record_ok (lr_record b)"
    and "record_key_of (lr_record a) = record_key_of (lr_record b)"
  shows "a = b"
proof -
  from assms have "lr_record a = lr_record b" by (intro flat_dict_inject) (simp_all add: located_dict_def)
  moreover have "lr_language a = lr_language b" "lr_read_only a = lr_read_only b" "lr_sha256 a = lr_sha256 b"
    using assms(1) by (auto simp: located_dict_def intro: opt_json_inject)
  ultimately show ?thesis using assms(1) by (simp add: located_dict_def located.equality)
qed

lemma flat_dict_wf: "json_wf (flat_dict r)"
  by (cases r)
    (auto simp: flat_dict_defs range_json_def coordinates_dict_def opt_field_def split: option.split prod.split)

lemma located_dict_wf: "json_wf (located_dict l)"
  by (auto simp: located_dict_def flat_dict_wf opt_json_def split: option.split)

lemma identity_text_inject:
  assumes "identity_text a = identity_text b" and "flat_record_ok (lr_record a)" and "flat_record_ok (lr_record b)"
    and "record_key_of (lr_record a) = record_key_of (lr_record b)"
  shows "a = b"
  using assms dumps_inject [OF located_dict_wf located_dict_wf]
  by (intro located_dict_inject) (simp_all add: identity_text_def canonical_json_def)

section \<open>The canonical order\<close>

lemma drop_seen_subset: "set (drop_seen seen xs) \<subseteq> set xs"
  by (induction seen xs rule: drop_seen.induct) auto

lemma drop_seen_identities: "identity_text ` set (drop_seen seen xs) = identity_text ` set xs - set seen"
  by (induction seen xs rule: drop_seen.induct) auto

lemma drop_seen_distinct: "distinct (map identity_text (drop_seen seen xs))"
proof (induction seen xs rule: drop_seen.induct)
  case (2 seen x xs)
  then show ?case using drop_seen_identities [of "identity_text x # seen" xs] by auto
qed simp

lemma drop_seen_sorted: "sorted_wrt P xs \<Longrightarrow> sorted_wrt P (drop_seen seen xs)"
  by (induction seen xs rule: drop_seen.induct) (use drop_seen_subset in auto)

lemma drop_seen_id: "distinct (map identity_text xs) \<Longrightarrow> set (map identity_text xs) \<inter> set seen = {} \<Longrightarrow> drop_seen seen xs = xs"
  by (induction seen xs rule: drop_seen.induct) auto

lemma key_identity: "record_order_key a = record_order_key b \<Longrightarrow> identity_text a = identity_text b"
  by (auto simp: record_order_key_def split: prod.splits)

lemma lex_le_fst:
  fixes x y :: "'a::preorder \<times> 'b::ord"
  shows "x \<le> y \<Longrightarrow> fst x \<le> fst y"
  by (auto simp: less_eq_prod_def less_imp_le)

lemma key_fst: "fst (record_order_key l) = lr_path l"
  unfolding record_order_key_def by (simp only: case_prod_unfold fst_conv)

lemma key_path: "record_order_key a \<le> record_order_key b \<Longrightarrow> lr_path a \<le> lr_path b"
  unfolding key_fst [symmetric] by (rule lex_le_fst)

lemma unique_sorted_strict: "sorted_wrt (<) (map record_order_key (unique_sorted_records xs))"
proof -
  let ?ys = "unique_sorted_records xs"
  have "sorted_wrt (\<lambda>a b. record_order_key a \<le> record_order_key b) ?ys"
    unfolding unique_sorted_records_def by (rule drop_seen_sorted, rule sorted_sort_key [unfolded sorted_map])
  moreover have "distinct (map record_order_key ?ys)"
  proof -
    have d: "distinct (map identity_text ?ys)" by (simp add: unique_sorted_records_def drop_seen_distinct)
    then have "inj_on record_order_key (set ?ys)"
      unfolding distinct_map inj_on_def by (metis key_identity)
    with d show ?thesis by (simp add: distinct_map)
  qed
  ultimately show ?thesis by (simp add: strict_sorted_iff sorted_map)
qed

lemma sort_key_sorted: "sorted (map f xs) \<Longrightarrow> sort_key f xs = xs"
  by (induction xs) (auto simp: insort_is_Cons)

lemma unique_sorted_fixed:
  assumes "sorted_wrt (<) (map record_order_key xs)" and "distinct (map identity_text xs)"
  shows "unique_sorted_records xs = xs"
  using assms by (simp add: unique_sorted_records_def sort_key_sorted strict_sorted_iff drop_seen_id)

lemma unique_sorted_take: "unique_sorted_records (take n (unique_sorted_records xs)) = take n (unique_sorted_records xs)"
proof (rule unique_sorted_fixed)
  show "sorted_wrt (<) (map record_order_key (take n (unique_sorted_records xs)))"
    using unique_sorted_strict [of xs] by (simp add: take_map [symmetric] sorted_wrt_take)
  have "distinct (map identity_text (unique_sorted_records xs))"
    by (simp add: unique_sorted_records_def drop_seen_distinct)
  then show "distinct (map identity_text (take n (unique_sorted_records xs)))"
    by (simp add: take_map [symmetric])
qed

text \<open>Valid records of one kind, as every tool passes them.\<close>

definition uniform :: "located list \<Rightarrow> bool" where
  "uniform xs \<longleftrightarrow> list_all (\<lambda>l. flat_record_ok (lr_record l)) xs \<and>
     list_all (\<lambda>l. record_key_of (lr_record l) = record_key_of (lr_record (hd xs))) xs"

lemma uniform_identity: "uniform xs \<Longrightarrow> a \<in> set xs \<Longrightarrow> b \<in> set xs \<Longrightarrow> identity_text a = identity_text b \<Longrightarrow> a = b"
  by (rule identity_text_inject) (auto simp: uniform_def list_all_iff)

lemma unique_sorted_set: assumes "uniform xs" shows "set (unique_sorted_records xs) = set xs"
proof
  show "set (unique_sorted_records xs) \<subseteq> set xs"
    using drop_seen_subset [of "[]" "sort_key record_order_key xs"] by (simp add: unique_sorted_records_def)
  show "set xs \<subseteq> set (unique_sorted_records xs)"
  proof
    fix x assume x: "x \<in> set xs"
    have "identity_text ` set (unique_sorted_records xs) = identity_text ` set xs"
      using drop_seen_identities [of "[]" "sort_key record_order_key xs"] by (simp add: unique_sorted_records_def)
    with x obtain y where "y \<in> set (unique_sorted_records xs)" "identity_text y = identity_text x" by force
    moreover from this have "y \<in> set xs"
      using drop_seen_subset [of "[]" "sort_key record_order_key xs"] by (auto simp: unique_sorted_records_def)
    ultimately show "x \<in> set (unique_sorted_records xs)" using uniform_identity [OF assms x] by metis
  qed
qed

lemma unique_sorted_unique:
  assumes "uniform xs" and "uniform ys" and "set xs = set ys"
  shows "unique_sorted_records xs = unique_sorted_records ys"
proof -
  let ?a = "unique_sorted_records xs" and ?b = "unique_sorted_records ys"
  have sets: "set ?a = set ?b" using assms by (simp add: unique_sorted_set)
  have "map record_order_key ?a = map record_order_key ?b"
    by (rule strict_sorted_equal [OF unique_sorted_strict unique_sorted_strict, symmetric]) (simp add: sets)
  moreover have "inj_on record_order_key (set xs)"
    by (rule inj_onI) (rule uniform_identity [OF assms(1)], assumption, assumption, erule key_identity)
  then have "inj_on record_order_key (set ?a \<union> set ?b)"
    using assms by (simp add: unique_sorted_set)
  ultimately show ?thesis by (rule map_inj_on)
qed

section \<open>Grouping\<close>

lemma filter_min_first:
  "sorted (map f xs) \<Longrightarrow> (\<And>x. x \<in> set xs \<Longrightarrow> p \<le> f x) \<Longrightarrow> filter (\<lambda>x. f x = p) xs @ filter (\<lambda>x. f x \<noteq> p) xs = xs"
proof (induction xs)
  case (Cons x xs)
  show ?case
  proof (cases "f x = p")
    case True
    with Cons show ?thesis by simp
  next
    case False
    then have "p < f x" using Cons.prems(2) [of x] by simp
    then have "filter (\<lambda>x. f x = p) xs = []" and "filter (\<lambda>x. f x \<noteq> p) xs = xs"
      using Cons.prems(1) by (auto simp: filter_empty_conv filter_id_conv)
    with False show ?thesis by simp
  qed
qed simp

lemma concat_filter_sorted:
  fixes f :: "'a \<Rightarrow> 'b::linorder"
  assumes "sorted (map f xs)" and "sorted_wrt (<) ps" and "f ` set xs \<subseteq> set ps"
  shows "concat (map (\<lambda>p. filter (\<lambda>x. f x = p) xs) ps) = xs"
  using assms
proof (induction ps arbitrary: xs)
  case (Cons p ps)
  let ?r = "filter (\<lambda>x. f x \<noteq> p) xs"
  have "concat (map (\<lambda>q. filter (\<lambda>x. f x = q) ?r) ps) = ?r"
    using Cons.prems by (intro Cons.IH) (auto simp: sorted_filter [of f xs "\<lambda>x. f x \<noteq> p"])
  moreover have "map (\<lambda>q. filter (\<lambda>x. f x = q) ?r) ps = map (\<lambda>q. filter (\<lambda>x. f x = q) xs) ps"
    using Cons.prems(2) by (auto simp: conj_commute intro!: filter_cong)
  moreover have "filter (\<lambda>x. f x = p) xs @ ?r = xs"
    using Cons.prems by (intro filter_min_first) (auto simp: less_imp_le)
  ultimately show ?case by (simp only: list.map concat.simps)
qed simp

lemma sorted_wrt_remdups: "sorted_wrt P xs \<Longrightarrow> sorted_wrt P (remdups xs)"
  by (induction xs) auto

lemma first_occurrences_strict:
  fixes xs :: "'b::linorder list"
  assumes "sorted xs" shows "sorted_wrt (<) (rev (remdups (rev xs)))"
proof -
  have "sorted_wrt (\<ge>) (rev xs)" using assms by (simp add: sorted_wrt_rev)
  then have "sorted_wrt (\<ge>) (remdups (rev xs))" by (rule sorted_wrt_remdups)
  then have "sorted (rev (remdups (rev xs)))" by (simp add: sorted_wrt_rev)
  then show ?thesis by (simp add: strict_sorted_iff)
qed

lemma make_file_Inr:
  "make_file fits f = Inr g \<Longrightarrow> normalize_path (cf_path f) = Inr (cf_path f) \<Longrightarrow> g = f"
  by (auto simp: make_file_def split: if_splits)

lemma file_group_Inr:
  assumes "file_group key m p items = Inr g" and "normalize_path p = Inr p"
  shows "cf_path g = p \<and> cf_key g = key \<and> cf_records g = map lr_record items"
proof -
  obtain lang where 1: "one_file_value (map lr_language items) = Inr lang"
    using assms(1) by (cases "one_file_value (map lr_language items)") (auto simp: file_group_def)
  obtain ro where 2: "one_file_value (map lr_read_only items) = Inr ro"
    using assms(1) 1 by (cases "one_file_value (map lr_read_only items)") (auto simp: file_group_def)
  obtain h where 3: "one_file_value (map lr_sha256 items) = Inr h"
    using assms(1) 1 2 by (cases "one_file_value (map lr_sha256 items)") (auto simp: file_group_def)
  from assms(1) obtain f where "make_file fits_key f = Inr g" "cf_path f = p" "cf_key f = key" "cf_records f = map lr_record items"
    unfolding file_group_def 1 2 3 Let_def by (auto split: if_splits)
  with make_file_Inr [of fits_key f g] assms(2) show ?thesis by simp
qed

abbreviation normal_paths :: "located list \<Rightarrow> bool" where
  "normal_paths xs \<equiv> list_all (\<lambda>i. normalize_path (lr_path i) = Inr (lr_path i)) xs"

lemma unique_sorted_paths: "sorted (map lr_path (unique_sorted_records xs))"
proof -
  have "sorted_wrt (\<lambda>a b. record_order_key a \<le> record_order_key b) (unique_sorted_records xs)"
    using unique_sorted_strict [of xs] by (simp add: strict_sorted_iff sorted_map)
  then have "sorted_wrt (\<lambda>a b. lr_path a \<le> lr_path b) (unique_sorted_records xs)"
    by (rule sorted_wrt_mono_rel [rotated]) (rule key_path)
  then show ?thesis by (simp add: sorted_map)
qed

lemma group_records_Inr:
  assumes "group_records xs = Inr files" and "unique_sorted_records xs \<noteq> []"
  defines "ordered \<equiv> unique_sorted_records xs"
  shows "\<exists>key m. map (\<lambda>p. file_group key m p (filter (\<lambda>i. lr_path i = p) ordered)) (rev (remdups (rev (map lr_path ordered)))) = map Inr files \<and>
    list_all (\<lambda>i. record_key_of (lr_record i) = key) ordered"
  using assms(1,2)
  by (auto simp: group_records_def Let_def ordered_def list_ex_iff list_all_iff split: list.splits if_splits dest!: seq_sum_Inr)

lemma group_records_partition:
  assumes "group_records xs = Inr files" and "normal_paths xs"
  shows "concat (map (\<lambda>f. map (Pair (cf_path f)) (cf_records f)) files) =
      map (\<lambda>i. (lr_path i, lr_record i)) (unique_sorted_records xs) \<and>
    sorted_wrt (<) (map cf_path files)"
proof (cases "unique_sorted_records xs = []")
  case True
  then show ?thesis using assms(1) by (simp add: group_records_def)
next
  case False
  let ?o = "unique_sorted_records xs"
  let ?ps = "rev (remdups (rev (map lr_path ?o)))"
  obtain key m where eq: "map (\<lambda>p. file_group key m p (filter (\<lambda>i. lr_path i = p) ?o)) ?ps = map Inr files"
    using group_records_Inr [OF assms(1) False] by blast
  have "set ?o \<subseteq> set xs" using drop_seen_subset [of "[]" "sort_key record_order_key xs"] by (simp add: unique_sorted_records_def)
  then have norm: "normalize_path p = Inr p" if "p \<in> set ?ps" for p
    using assms(2) that by (auto simp: list_all_iff)
  have len: "length ?ps = length files" using arg_cong [OF eq, of length] by simp
  have each: "cf_path (files ! k) = ?ps ! k \<and> cf_records (files ! k) = map lr_record (filter (\<lambda>i. lr_path i = ?ps ! k) ?o)"
    if k: "k < length files" for k
  proof -
    have "file_group key m (?ps ! k) (filter (\<lambda>i. lr_path i = ?ps ! k) ?o) = Inr (files ! k)"
      using arg_cong [OF eq, of "\<lambda>l. l ! k"] k len by simp
    moreover have "normalize_path (?ps ! k) = Inr (?ps ! k)" using k len by (intro norm nth_mem) simp
    ultimately show ?thesis using file_group_Inr by blast
  qed
  have paths: "map cf_path files = ?ps" using len each by (intro nth_equalityI) auto
  have "map (\<lambda>f. map (Pair (cf_path f)) (cf_records f)) files =
      map (\<lambda>p. map (\<lambda>i. (lr_path i, lr_record i)) (filter (\<lambda>i. lr_path i = p) ?o)) ?ps"
  proof (rule nth_equalityI)
    fix k assume "k < length (map (\<lambda>f. map (Pair (cf_path f)) (cf_records f)) files)"
    then have k: "k < length files" by simp
    have "map (Pair p) (map lr_record (filter (\<lambda>i. lr_path i = p) ys)) =
        map (\<lambda>i. (lr_path i, lr_record i)) (filter (\<lambda>i. lr_path i = p) ys)" for p ys
      by (induction ys) auto
    with k len each [OF k] show "map (\<lambda>f. map (Pair (cf_path f)) (cf_records f)) files ! k =
        map (\<lambda>p. map (\<lambda>i. (lr_path i, lr_record i)) (filter (\<lambda>i. lr_path i = p) ?o)) ?ps ! k"
      by simp
  qed (use len in simp)
  then have "concat (map (\<lambda>f. map (Pair (cf_path f)) (cf_records f)) files) =
      map (\<lambda>i. (lr_path i, lr_record i)) (concat (map (\<lambda>p. filter (\<lambda>i. lr_path i = p) ?o) ?ps))"
    by (simp add: map_concat comp_def)
  also have "concat (map (\<lambda>p. filter (\<lambda>i. lr_path i = p) ?o) ?ps) = ?o"
    by (rule concat_filter_sorted) (simp_all add: unique_sorted_paths first_occurrences_strict)
  finally show ?thesis using paths first_occurrences_strict [OF unique_sorted_paths, of xs] by simp
qed

section \<open>Properties\<close>

text \<open>
  C30: The presentation of a result does not depend on the order or multiplicity in which the
  language servers produced it: two lists of valid records of one kind with the same elements
  give the same ordered records, which are exactly those elements, each once, strictly
  increasing in the published order key.
\<close>

theorem ordered_records_canonical:
  assumes "uniform xs" and "uniform ys" and "set xs = set ys"
  shows "ordered_records xs = ordered_records ys \<and> set (ordered_records xs) = set xs \<and>
    sorted_wrt (<) (map record_order_key (ordered_records xs))"
  using unique_sorted_unique [OF assms] unique_sorted_set [OF assms(1)] unique_sorted_strict
  by (simp add: ordered_records_def)

text \<open>
  Grouping by file loses and duplicates nothing: the groups are in strictly increasing path
  order, and reading them group by group gives back exactly the ordered records with their
  paths.
\<close>

theorem grouping_is_partition:
  assumes "group_records xs = Inr files" and "normal_paths xs"
  shows "concat (map (\<lambda>f. map (Pair (cf_path f)) (cf_records f)) files) =
      map (\<lambda>i. (lr_path i, lr_record i)) (ordered_records xs) \<and>
    sorted_wrt (<) (map cf_path files)"
  using group_records_partition [OF assms] by (simp add: ordered_records_def)

definition wit_ref :: "nat \<Rightarrow> located" where
  "wit_ref n = \<lparr>lr_path = lit ''a.py'', lr_record = FReference \<lparr>rf_range = Some ((int n, 0), (int n, 1)), rf_symbol = None,
     rf_snippet = None, rf_raw_range = None, rf_basis = None\<rparr>, lr_language = None, lr_read_only = None, lr_sha256 = None\<rparr>"

lemma wit_ref_ok: "uniform [wit_ref 2, wit_ref 1, wit_ref 2]" "uniform [wit_ref 1, wit_ref 2]"
  by (simp_all add: uniform_def wit_ref_def flat_record_ok_def reference_ok_def coordinate_choice_ok_def crange_ok_def
      record_key_of_def)

theorem ordered_records_canonical_witness:
  "ordered_records [wit_ref 2, wit_ref 1, wit_ref 2] = ordered_records [wit_ref 1, wit_ref 2] \<and>
   set (ordered_records [wit_ref 2, wit_ref 1, wit_ref 2]) = {wit_ref 1, wit_ref 2}"
  using ordered_records_canonical [OF wit_ref_ok] by auto

lemma wit_single: "unique_sorted_records [x] = [x]"
  by (simp add: unique_sorted_records_def)

lemma wit_normal: "normalize_path (lit ''a.py'') = Inr (lit ''a.py'')"
  by (simp add: normalize_path_def normpath_def lit_simps)

lemma wit_group: "group_records [wit_ref 2] = Inr [\<lparr>cf_path = lit ''a.py'', cf_key = References,
   cf_records = [lr_record (wit_ref 2)], cf_language = None, cf_read_only = None, cf_sha256 = None\<rparr>]"
proof -
  have "infer_language (lit ''a.py'') = Some (lit ''python'')"
    by (simp add: infer_language_def path_suffix_def LANGUAGE_SUFFIXES_def lit_simps lower_cp_def)
  then show ?thesis
    by (simp add: group_records_def wit_single wit_ref_def file_group_def one_file_value_def item_language_def or_else_def
        record_key_of_def record_has_body_def make_file_def wit_normal fits_key_def)
qed

theorem grouping_is_partition_witness:
  "group_records [wit_ref 2] = Inr [\<lparr>cf_path = lit ''a.py'', cf_key = References,
     cf_records = [lr_record (wit_ref 2)], cf_language = None, cf_read_only = None, cf_sha256 = None\<rparr>] \<and>
   map (\<lambda>i. (lr_path i, lr_record i)) (ordered_records [wit_ref 2]) = [(lit ''a.py'', lr_record (wit_ref 2))]"
proof -
  have "normal_paths [wit_ref 2]" by (simp add: wit_ref_def wit_normal)
  with grouping_is_partition [OF wit_group] show ?thesis by (simp add: wit_group)
qed

end
