(* ===== verification/CompactRender.thy ===== *)
theory CompactRender
  imports Compact Utf8
begin

text \<open>
  Bounded rendering (\<open>tools/compact.py\<close>): the navigation answer and its text, the loop that
  drops trailing records, the loop that drops trailing overview nodes, and the error that
  names the smallest budget that would do.  SHA-256 belongs to the environment and is the
  parameter \<open>sha256hex\<close>.
\<close>

section \<open>Answers\<close>

record call_tool_result =
  ct_text :: text_cp
  ct_structured :: json
  ct_is_error :: bool

definition render_payload :: "json \<Rightarrow> call_tool_result" where
  "render_payload payload = \<lparr>ct_text = canonical_json payload, ct_structured = payload, ct_is_error = False\<rparr>"

definition text_length :: "call_tool_result \<Rightarrow> int" where
  "text_length r = int (length (ct_text r))"

fun copy_json :: "pyobj \<Rightarrow> compact_exn + json" where
  "copy_json ONone = Inr JNull"
| "copy_json (OBool b) = Inr (JBool b)"
| "copy_json (OInt i) = Inr (JInt i)"
| "copy_json (OStr s) = Inr (JStr s)"
| "copy_json (OFloat l) = Inr (JFloat l)"
| "copy_json ONonFinite = Inl (CValueError ''must not contain non-finite floats'')"
| "copy_json (OMapping kvs) = map_sum id JObj (seq_sum (map (\<lambda>(k, v). case k of
      None \<Rightarrow> Inl (CTypeError ''mapping keys must be strings'')
    | Some key \<Rightarrow> map_sum id (Pair key) (copy_json v)) kvs))"
| "copy_json (OSequence vs) = map_sum id JArr (seq_sum (map copy_json vs))"
| "copy_json _ = Inl (CTypeError ''must contain only JSON values'')"

record 'r navigation =
  nv_workspace :: text_cp
  nv_files :: "'r compact_file list"
  nv_omitted :: int
  nv_coverage :: "json option"

definition make_navigation ::
    "text_cp \<Rightarrow> 'r compact_file list \<Rightarrow> int \<Rightarrow> pyobj option \<Rightarrow> compact_exn + 'r navigation" where
  "make_navigation workspace files omitted coverage =
     (if workspace = [] then Inl (CValueError ''workspace must be a non-empty string'')
      else if omitted < 0 then Inl (CValueError ''omitted must be a non-negative integer'')
      else case coverage of
             None \<Rightarrow> Inr \<lparr>nv_workspace = workspace, nv_files = files, nv_omitted = omitted, nv_coverage = None\<rparr>
           | Some c \<Rightarrow>
               if list_ex (\<lambda>f. cf_key f \<noteq> References) files
               then Inl (CValueError ''coverage is valid only for reference results'')
               else (case copy_json c of
                       Inl e \<Rightarrow> Inl e
                     | Inr (JObj kvs) \<Rightarrow>
                         Inr \<lparr>nv_workspace = workspace, nv_files = files, nv_omitted = omitted, nv_coverage = Some (JObj kvs)\<rparr>
                     | Inr _ \<Rightarrow> Inl (CTypeError ''coverage must be a mapping'')))"

definition navigation_dict :: "('r \<Rightarrow> json) \<Rightarrow> 'r navigation \<Rightarrow> json" where
  "navigation_dict rec_dict n = JObj [(lit ''ok'', JBool True), (lit ''data'', JObj
     ([(lit ''workspace'', JStr (nv_workspace n)), (lit ''files'', JArr (map (file_dict rec_dict) (nv_files n)))] @
      opt_field ''coverage'' plain_json (nv_coverage n) @ [(lit ''omitted'', JInt (nv_omitted n))]))]"

definition render_success :: "('r \<Rightarrow> json) \<Rightarrow> 'r navigation \<Rightarrow> call_tool_result" where
  "render_success rec_dict n = render_payload (navigation_dict rec_dict n)"

section \<open>The minimum-budget error\<close>

record exact_body_recovery =
  eb_has_children :: bool
  eb_relative_path :: text_cp
  eb_name_path :: text_cp

definition make_exact_body_recovery :: "bool \<Rightarrow> text_cp \<Rightarrow> text_cp \<Rightarrow> compact_exn + exact_body_recovery" where
  "make_exact_body_recovery has_children relative_path name_path = (case normalize_path relative_path of
       Inl e \<Rightarrow> Inl e
     | Inr q \<Rightarrow> if name_path = [] then Inl (CValueError ''symbol name_path must be a non-empty string'')
               else Inr \<lparr>eb_has_children = has_children, eb_relative_path = q, eb_name_path = name_path\<rparr>)"

definition OVERVIEW_THEN :: text_cp where "OVERVIEW_THEN = lit ''overview_then_find_child_symbol''"
definition RETRY_MINIMUM :: text_cp where "RETRY_MINIMUM = lit ''retry_with_minimum_answer_chars''"
definition LOCATION_THEN :: text_cp where "LOCATION_THEN = lit ''find_symbol_location_then_exact_file_read''"

definition exact_body_recovery_action :: "exact_body_recovery option \<Rightarrow> int \<Rightarrow> text_cp option" where
  "exact_body_recovery_action recovery minimum = (case recovery of
       None \<Rightarrow> None
     | Some r \<Rightarrow> Some (if eb_has_children r then OVERVIEW_THEN
                      else if minimum \<le> MAX_MAX_ANSWER_CHARS then RETRY_MINIMUM else LOCATION_THEN))"

definition recovery_relative_path :: "exact_body_recovery option \<Rightarrow> text_cp option" where
  "recovery_relative_path recovery = (case recovery of
       None \<Rightarrow> None | Some r \<Rightarrow> if eb_has_children r then Some (eb_relative_path r) else None)"

definition recovery_name_path :: "exact_body_recovery option \<Rightarrow> text_cp option" where
  "recovery_name_path recovery = (case recovery of
       None \<Rightarrow> None | Some r \<Rightarrow> if eb_has_children r then Some (eb_name_path r) else None)"

definition pop_key :: "string \<Rightarrow> json \<Rightarrow> json" where
  "pop_key k j = (case j of JObj kvs \<Rightarrow> JObj (AList.delete (lit k) kvs) | _ \<Rightarrow> j)"

definition set_key :: "string \<Rightarrow> json \<Rightarrow> json \<Rightarrow> json" where
  "set_key k v j = (case j of JObj kvs \<Rightarrow> JObj (AList.update (lit k) v kvs) | _ \<Rightarrow> j)"

text \<open>\<open>str.encode\<close> raises \<open>UnicodeEncodeError\<close>, a \<open>ValueError\<close>, on a lone surrogate.\<close>

abbreviation not_encodable :: compact_exn where
  "not_encodable \<equiv> CValueError ''surrogates not allowed''"

definition target_identity :: "(text_cp \<Rightarrow> text_cp) \<Rightarrow> text_cp \<Rightarrow> compact_exn + json" where
  "target_identity sha256hex v =
     (if list_all valid_cp v
      then Inr (JObj [(lit ''length'', JInt (int (length v))), (lit ''sha256'', JStr (sha256hex v))])
      else Inl not_encodable)"

definition replace_oversized_overview_target :: "(text_cp \<Rightarrow> text_cp) \<Rightarrow> json \<Rightarrow> compact_exn + json option" where
  "replace_oversized_overview_target sha256hex details =
     (if obj_get ''next_action'' details \<noteq> Some (JStr OVERVIEW_THEN) then Inr None
      else case (obj_get ''relative_path'' details, obj_get ''name_path'' details) of
             (Some (JStr p), Some (JStr n)) \<Rightarrow>
               (case target_identity sha256hex p of
                  Inl e \<Rightarrow> Inl e
                | Inr path_identity \<Rightarrow>
                    (case target_identity sha256hex n of
                       Inl e \<Rightarrow> Inl e
                     | Inr name_identity \<Rightarrow>
                         Inr (Some (set_key ''target'' (JObj [(lit ''relative_path'', path_identity), (lit ''name_path'', name_identity)])
                           (set_key ''next_action'' (JStr LOCATION_THEN)
                             (pop_key ''name_path'' (pop_key ''relative_path'' details)))))))
           | _ \<Rightarrow> Inr None)"

definition set_details :: "json \<Rightarrow> json \<Rightarrow> json" where
  "set_details details payload = (case obj_get ''error'' payload of
       Some e \<Rightarrow> set_key ''error'' (set_key ''details'' details e) payload | None \<Rightarrow> payload)"

definition shed_details :: "(text_cp \<Rightarrow> text_cp) \<Rightarrow> json \<Rightarrow> json \<Rightarrow> int \<Rightarrow> compact_exn + json" where
  "shed_details sha256hex d4 p3 budget =
     (let fits = (\<lambda>p. int (length (canonical_json p)) \<le> budget); p4 = set_details d4 p3;
          failure = Inl (CValueError ''minimum required chars error exceeds the public answer budget'') in
      if fits p4 then Inr p4
      else case replace_oversized_overview_target sha256hex d4 of
             Inl e \<Rightarrow> Inl e
           | Inr None \<Rightarrow> failure
           | Inr (Some d5) \<Rightarrow> let p5 = set_details d5 p4 in if fits p5 then Inr p5 else failure)"

definition bound_minimum_error :: "(text_cp \<Rightarrow> text_cp) \<Rightarrow> json \<Rightarrow> int \<Rightarrow> compact_exn + json" where
  "bound_minimum_error sha256hex payload budget =
     (let fits = (\<lambda>p. int (length (canonical_json p)) \<le> budget);
          failure = Inl (CValueError ''minimum required chars error exceeds the public answer budget'') in
      if fits payload then Inr payload
      else let p1 = pop_key ''workspace'' payload in if fits p1 then Inr p1
      else let p2 = pop_key ''adapter'' p1 in if fits p2 then Inr p2
      else let p3 = pop_key ''generations'' p2 in if fits p3 then Inr p3
      else case Option.bind (obj_get ''error'' p3) (obj_get ''details'') of
             Some (JObj kvs) \<Rightarrow> shed_details sha256hex (pop_key ''authorities'' (JObj kvs)) p3 budget
           | _ \<Rightarrow> failure)"

definition target_entries :: "text_cp option \<Rightarrow> text_cp option \<Rightarrow> compact_exn + (text_cp option \<times> pyobj) list" where
  "target_entries relative_path name_path = (case relative_path of
       None \<Rightarrow> Inr []
     | Some p \<Rightarrow> (case normalize_path p of
           Inl e \<Rightarrow> Inl e
         | Inr q \<Rightarrow>
             if the name_path = [] then Inl (CValueError ''symbol name_path must be a non-empty string'')
             else Inr [(Some (lit ''relative_path''), OStr q), (Some (lit ''name_path''), OStr (the name_path))]))"

definition minimum_details :: "int \<Rightarrow> text_cp option \<Rightarrow> (text_cp option \<times> pyobj) list \<Rightarrow> pyobj list \<Rightarrow> pyobj" where
  "minimum_details minimum next_action entries authorities =
     OMapping ([(Some (lit ''field''), OStr (lit ''max_answer_chars'')), (Some (lit ''minimum_required_chars''), OInt minimum)] @
       opt_entry ''next_action'' next_action @ entries @
       (if authorities = [] then [] else [(Some (lit ''authorities''), OSequence authorities)]))"

definition minimum_required_chars_result ::
    "(text_cp \<Rightarrow> text_cp) \<Rightarrow> int \<Rightarrow> workspace_md option \<Rightarrow> adapter_md option \<Rightarrow> generation_md option \<Rightarrow> pyobj list \<Rightarrow>
     text_cp option \<Rightarrow> text_cp option \<Rightarrow> text_cp option \<Rightarrow> int \<Rightarrow> compact_exn + call_tool_result" where
  "minimum_required_chars_result sha256hex minimum w a g authorities next_action relative_path name_path max_chars =
     (case validate_max_answer_chars (OInt max_chars) of
        Inl e \<Rightarrow> Inl e
      | Inr budget \<Rightarrow>
          if minimum < 0 then Inl (CValueError ''minimum_required_chars must be non-negative'')
          else if next_action \<noteq> None \<and> the next_action \<notin> {OVERVIEW_THEN, RETRY_MINIMUM, LOCATION_THEN}
          then Inl (CValueError ''next_action is not an exact-body recovery action'')
          else if (relative_path = None) \<noteq> (name_path = None)
          then Inl (CValueError ''exact-body recovery target requires both relative_path and name_path'')
          else if relative_path \<noteq> None \<and> next_action \<noteq> Some OVERVIEW_THEN
          then Inl (CValueError ''exact-body recovery target requires child-overview recovery'')
          else case target_entries relative_path name_path of
                 Inl e \<Rightarrow> Inl e
               | Inr entries \<Rightarrow>
                   (case env_error INVALID_INPUT None (Some (minimum_details minimum next_action entries authorities)) w a g of
                        Inl e \<Rightarrow> Inl (CEnvelope e)
                      | Inr envelope \<Rightarrow> map_sum id render_payload (bound_minimum_error sha256hex (error_dict envelope) budget)))"

section \<open>Bounded flat records\<close>

definition flat_success ::
    "text_cp \<Rightarrow> located list \<Rightarrow> int \<Rightarrow> pyobj option \<Rightarrow> compact_exn + flat_record navigation" where
  "flat_success workspace records omitted coverage =
     (case group_records records of Inl e \<Rightarrow> Inl e | Inr files \<Rightarrow> make_navigation workspace files omitted coverage)"

definition minimum_flat_success_chars ::
    "text_cp \<Rightarrow> located list \<Rightarrow> int \<Rightarrow> pyobj option \<Rightarrow> compact_exn + int" where
  "minimum_flat_success_chars workspace records omitted coverage =
     (case flat_success workspace [hd records] (omitted + int (length records) - 1) coverage of
        Inl e \<Rightarrow> Inl e | Inr n \<Rightarrow> Inr (int (length (canonical_json (navigation_dict flat_dict n)))))"

text \<open>
  The loop of \<open>render_bounded_records\<close>; \<open>n\<close> is the number of records still retained.
  \<open>too_small\<close> builds the minimum error, with or without the recovery of an exact body.
\<close>

fun bounded_records_loop ::
    "(bool \<Rightarrow> int \<Rightarrow> compact_exn + call_tool_result) \<Rightarrow> text_cp \<Rightarrow> located list \<Rightarrow> int \<Rightarrow> pyobj option \<Rightarrow> int \<Rightarrow> nat \<Rightarrow>
     compact_exn + call_tool_result" where
  "bounded_records_loop too_small workspace ordered omitted coverage budget 0 =
     (if ordered \<noteq> []
      then (case minimum_flat_success_chars workspace ordered omitted coverage of
              Inl e \<Rightarrow> Inl e | Inr minimum \<Rightarrow> too_small True minimum)
      else case flat_success workspace [] omitted coverage of
             Inl e \<Rightarrow> Inl e
           | Inr n \<Rightarrow>
               if text_length (render_success flat_dict n) \<le> budget then Inr (render_success flat_dict n)
               else too_small False (int (length (canonical_json (navigation_dict flat_dict n)))))"
| "bounded_records_loop too_small workspace ordered omitted coverage budget (Suc k) =
     (case flat_success workspace (take (Suc k) ordered) (omitted + int (length ordered - Suc k)) coverage of
        Inl e \<Rightarrow> Inl e
      | Inr n \<Rightarrow>
          if text_length (render_success flat_dict n) \<le> budget then Inr (render_success flat_dict n)
          else bounded_records_loop too_small workspace ordered omitted coverage budget k)"

definition render_bounded_records ::
    "(text_cp \<Rightarrow> text_cp) \<Rightarrow> text_cp \<Rightarrow> located list \<Rightarrow> int \<Rightarrow> int \<Rightarrow> pyobj option \<Rightarrow>
     workspace_md option \<Rightarrow> adapter_md option \<Rightarrow> generation_md option \<Rightarrow> pyobj list \<Rightarrow> exact_body_recovery option \<Rightarrow>
     compact_exn + call_tool_result" where
  "render_bounded_records sha256hex workspace records max_chars omitted coverage w a g authorities recovery =
     (case validate_max_answer_chars (OInt max_chars) of
        Inl e \<Rightarrow> Inl e
      | Inr budget \<Rightarrow>
          if omitted < 0 then Inl (CValueError ''omitted must be non-negative'')
          else let ordered = unique_sorted_records records in
               bounded_records_loop
                 (\<lambda>exact minimum.
                    if exact
                    then minimum_required_chars_result sha256hex minimum w a g authorities
                           (exact_body_recovery_action recovery minimum) (recovery_relative_path recovery)
                           (recovery_name_path recovery) budget
                    else minimum_required_chars_result sha256hex minimum w a g authorities None None None budget)
                 workspace ordered omitted coverage budget (length ordered))"

section \<open>The longest prefix that fits\<close>

text \<open>The answer with the first \<open>k\<close> ordered records.\<close>

definition prefix_answer :: "text_cp \<Rightarrow> located list \<Rightarrow> int \<Rightarrow> pyobj option \<Rightarrow> nat \<Rightarrow> compact_exn + flat_record navigation" where
  "prefix_answer workspace ordered omitted coverage k =
     flat_success workspace (take k ordered) (omitted + int (length ordered - k)) coverage"

definition answer_length :: "flat_record navigation \<Rightarrow> int" where
  "answer_length n = text_length (render_success flat_dict n)"

lemma answer_length: "answer_length n = int (length (canonical_json (navigation_dict flat_dict n)))"
  by (simp add: answer_length_def text_length_def render_success_def render_payload_def)

lemma minimum_flat_prefix:
  "ordered \<noteq> [] \<Longrightarrow> minimum_flat_success_chars workspace ordered omitted coverage =
     map_sum id answer_length (prefix_answer workspace ordered omitted coverage 1)"
  by (cases ordered) (auto simp: minimum_flat_success_chars_def prefix_answer_def answer_length split: sum.split)

text \<open>
  What the loop returns from \<open>k\<close> retained records on: the longest fitting prefix, or the
  minimum error after every non-empty prefix was rendered and found too long.
\<close>

inductive loop_result ::
    "(bool \<Rightarrow> int \<Rightarrow> compact_exn + call_tool_result) \<Rightarrow> (nat \<Rightarrow> compact_exn + flat_record navigation) \<Rightarrow> bool \<Rightarrow> int \<Rightarrow> nat \<Rightarrow>
     compact_exn + call_tool_result \<Rightarrow> bool"
  for too_small answer nonempty budget k where
  fits: "answer j = Inr n \<Longrightarrow> j \<le> k \<Longrightarrow> j = 0 \<longrightarrow> \<not> nonempty \<Longrightarrow> answer_length n \<le> budget \<Longrightarrow>
    (\<And>i. j < i \<Longrightarrow> i \<le> k \<Longrightarrow> \<exists>m. answer i = Inr m \<and> budget < answer_length m) \<Longrightarrow>
    loop_result too_small answer nonempty budget k (Inr (render_success flat_dict n))"
| minimum: "(\<And>i. 0 < i \<Longrightarrow> i \<le> k \<Longrightarrow> \<exists>m. answer i = Inr m \<and> budget < answer_length m) \<Longrightarrow>
    answer (if nonempty then 1 else 0) = Inr n \<Longrightarrow> \<not> nonempty \<longrightarrow> budget < answer_length n \<Longrightarrow>
    loop_result too_small answer nonempty budget k (too_small nonempty (answer_length n))"
| raises: "answer i = Inl e \<Longrightarrow> i \<le> k \<or> i = (if nonempty then 1 else 0) \<Longrightarrow> i = 0 \<longrightarrow> \<not> nonempty \<Longrightarrow>
    loop_result too_small answer nonempty budget k (Inl e)"

lemma loop_result_Suc:
  assumes "loop_result too_small answer nonempty budget k res" and "answer (Suc k) = Inr n" and "budget < answer_length n"
  shows "loop_result too_small answer nonempty budget (Suc k) res"
  using assms(1)
proof cases
  case (fits j m)
  have "\<exists>m. answer i = Inr m \<and> budget < answer_length m" if "j < i" "i \<le> Suc k" for i
    using fits(6) that assms(2,3) by (cases "i = Suc k") auto
  with fits show ?thesis by (metis le_SucI loop_result.fits)
next
  case (minimum m)
  have "\<exists>m. answer i = Inr m \<and> budget < answer_length m" if "0 < i" "i \<le> Suc k" for i
    using minimum(2) that assms(2,3) by (cases "i = Suc k") auto
  with minimum show ?thesis by (metis loop_result.minimum)
next
  case (raises i e)
  then show ?thesis by (auto intro: loop_result.raises [of _ i])
qed

lemma bounded_records_loop_result:
  "k \<le> length ordered \<Longrightarrow>
   loop_result too_small (prefix_answer workspace ordered omitted coverage) (ordered \<noteq> []) budget k
     (bounded_records_loop too_small workspace ordered omitted coverage budget k)"
proof (induction k)
  case 0
  let ?A = "prefix_answer workspace ordered omitted coverage"
  show ?case
  proof (cases "ordered = []")
    case True
    then have A: "?A 0 = flat_success workspace [] omitted coverage" by (simp add: prefix_answer_def)
    show ?thesis
    proof (cases "?A 0")
      case (Inl e)
      with True A show ?thesis by (simp add: loop_result.raises [of _ 0])
    next
      case (Inr n)
      with True A show ?thesis
        using loop_result.fits [of ?A 0 n 0 "ordered \<noteq> []" budget too_small]
          loop_result.minimum [of 0 ?A budget "ordered \<noteq> []" n too_small]
        by (auto simp: answer_length_def [symmetric] answer_length [symmetric])
    qed
  next
    case False
    show ?thesis
    proof (cases "?A 1")
      case (Inr n)
      with False show ?thesis using loop_result.minimum [of 0 ?A budget "ordered \<noteq> []" n too_small]
        by (simp add: minimum_flat_prefix)
    qed (use False in \<open>simp add: minimum_flat_prefix loop_result.raises [of _ 1]\<close>)
  qed
next
  case (Suc k)
  let ?A = "prefix_answer workspace ordered omitted coverage"
  show ?case
  proof (cases "?A (Suc k)")
    case (Inl e)
    then have "loop_result too_small ?A (ordered \<noteq> []) budget (Suc k) (Inl e)"
      by (intro loop_result.raises [of _ "Suc k"]) auto
    with Inl show ?thesis by (simp add: prefix_answer_def [of _ _ _ _ "Suc k"])
  next
    case (Inr n)
    show ?thesis
    proof (cases "answer_length n \<le> budget")
      case True
      then have "loop_result too_small ?A (ordered \<noteq> []) budget (Suc k) (Inr (render_success flat_dict n))"
        using Inr by (intro loop_result.fits [of _ "Suc k"]) auto
      with Inr True show ?thesis by (simp add: prefix_answer_def [of _ _ _ _ "Suc k"] answer_length_def)
    next
      case False
      with Suc Inr have "loop_result too_small ?A (ordered \<noteq> []) budget (Suc k)
          (bounded_records_loop too_small workspace ordered omitted coverage budget k)"
        by (intro loop_result_Suc) auto
      with Inr False show ?thesis by (simp add: prefix_answer_def [of _ _ _ _ "Suc k"] answer_length_def)
    qed
  qed
qed

lemma loop_succeeds:
  assumes "answer j = Inr n" and "answer_length n \<le> budget" and "j \<le> k" and "0 < j \<or> \<not> nonempty"
    and "loop_result too_small answer nonempty budget k res" and "\<not> nonempty \<longrightarrow> k = 0"
    and "\<And>i. 0 < i \<Longrightarrow> i \<le> k \<Longrightarrow> \<exists>m. answer i = Inr m"
  shows "\<exists>i m. answer i = Inr m \<and> i \<le> k \<and> (i = 0 \<longrightarrow> \<not> nonempty) \<and> res = Inr (render_success flat_dict m)"
  using assms(5)
proof cases
  case (fits i m)
  then show ?thesis by blast
next
  case (minimum m)
  have "False"
  proof (cases "0 < j")
    case True
    then show False using minimum(2) [OF True assms(3)] assms(1,2) by simp
  next
    case False
    with assms(1,2,4) minimum(3,4) show False by simp
  qed
  then show ?thesis ..
next
  case (raises i e)
  have "i = 0 \<or> (0 < i \<and> i \<le> k)" using raises(3,4) assms(3,4,6) by (auto split: if_splits)
  with raises assms show ?thesis by (metis Inl_Inr_False le_zero_eq less_nat_zero_code)
qed

section \<open>What a minimum error says\<close>

definition minimum_field :: "json \<Rightarrow> json option" where
  "minimum_field payload =
     Option.bind (obj_get ''error'' payload) (\<lambda>e. Option.bind (obj_get ''details'' e) (obj_get ''minimum_required_chars''))"

definition required_chars :: "call_tool_result \<Rightarrow> int option" where
  "required_chars r = (case minimum_field (ct_structured r) of Some (JInt m) \<Rightarrow> Some m | _ \<Rightarrow> None)"

lemma obj_get_pop [simp]: "obj_get k (pop_key k' j) = (if k = k' then None else obj_get k j)"
  by (cases j) (simp_all add: obj_get_def pop_key_def delete_conv' del: lit_simps)

lemma obj_get_set: "obj_get k (set_key k' v j) = (if k = k' \<and> (\<exists>kvs. j = JObj kvs) then Some v else obj_get k j)"
  by (cases j) (simp_all add: obj_get_def set_key_def update_conv' del: lit_simps)

lemma obj_get_set_other [simp]: "k \<noteq> k' \<Longrightarrow> obj_get k (set_key k' v j) = obj_get k j"
  by (simp add: obj_get_set)

lemma pop_key_obj [simp]: "(\<exists>kvs. pop_key k j = JObj kvs) \<longleftrightarrow> (\<exists>kvs. j = JObj kvs)"
  by (cases j) (simp_all add: pop_key_def)

lemma set_key_obj [simp]: "(\<exists>kvs. set_key k v j = JObj kvs) \<longleftrightarrow> (\<exists>kvs. j = JObj kvs)"
  by (cases j) (simp_all add: set_key_def)

lemma obj_get_obj: "obj_get k j = Some v \<Longrightarrow> \<exists>kvs. j = JObj kvs"
  by (cases j) (simp_all add: obj_get_def)

lemma minimum_field_pop [simp]: "k \<noteq> ''error'' \<Longrightarrow> minimum_field (pop_key k p) = minimum_field p"
  by (simp add: minimum_field_def)

lemma minimum_field_set_details:
  assumes "obj_get ''error'' p = Some e" and "obj_get ''details'' e = Some d0"
  shows "minimum_field (set_details d p) = obj_get ''minimum_required_chars'' d"
    and "obj_get ''error'' (set_details d p) = Some (set_key ''details'' d e)"
  using assms obj_get_obj [OF assms(1)] obj_get_obj [OF assms(2)]
  by (auto simp: minimum_field_def set_details_def obj_get_set)

lemma replace_target_minimum:
  assumes "replace_oversized_overview_target sha256hex d = Inr (Some d')"
  shows "obj_get ''minimum_required_chars'' d' = obj_get ''minimum_required_chars'' d"
proof -
  have "\<exists>i. d' = set_key ''target'' i (set_key ''next_action'' (JStr LOCATION_THEN) (pop_key ''name_path'' (pop_key ''relative_path'' d)))"
    using assms unfolding replace_oversized_overview_target_def
    by (auto simp del: lit_simps split: if_split_asm option.split_asm json.split_asm sum.split_asm)
  then show ?thesis by auto
qed

abbreviation without_metadata :: "json \<Rightarrow> json" where
  "without_metadata p \<equiv> pop_key ''generations'' (pop_key ''adapter'' (pop_key ''workspace'' p))"

lemma bound_minimum_error_early:
  assumes "bound_minimum_error sha256hex payload budget = Inr p"
    and "int (length (canonical_json payload)) \<le> budget \<or> int (length (canonical_json (pop_key ''workspace'' payload))) \<le> budget \<or>
      int (length (canonical_json (pop_key ''adapter'' (pop_key ''workspace'' payload)))) \<le> budget \<or>
      int (length (canonical_json (without_metadata payload))) \<le> budget"
  shows "minimum_field p = minimum_field payload \<and> int (length (canonical_json p)) \<le> budget"
  using assms unfolding bound_minimum_error_def Let_def
  by (elim disjE) (simp_all split: if_split_asm, auto)

lemma bound_minimum_error_late:
  assumes "\<not> int (length (canonical_json payload)) \<le> budget" "\<not> int (length (canonical_json (pop_key ''workspace'' payload))) \<le> budget"
      "\<not> int (length (canonical_json (pop_key ''adapter'' (pop_key ''workspace'' payload)))) \<le> budget"
      "\<not> int (length (canonical_json (without_metadata payload))) \<le> budget"
    and "obj_get ''error'' payload = Some e" and "obj_get ''details'' e = Some (JObj kvs)"
  shows "bound_minimum_error sha256hex payload budget =
    shed_details sha256hex (pop_key ''authorities'' (JObj kvs)) (without_metadata payload) budget"
  unfolding bound_minimum_error_def Let_def
  using assms by simp

lemma shed_details_Inr:
  assumes "shed_details sha256hex d4 p3 budget = Inr p" and e: "obj_get ''error'' p3 = Some e" and d: "obj_get ''details'' e = Some d0"
  shows "minimum_field p = obj_get ''minimum_required_chars'' d4 \<and> int (length (canonical_json p)) \<le> budget"
proof (cases "int (length (canonical_json (set_details d4 p3))) \<le> budget")
  case True
  with assms(1) have "p = set_details d4 p3" by (simp add: shed_details_def)
  with True show ?thesis using minimum_field_set_details(1) [OF e d] by simp
next
  case False
  with assms(1) obtain d5 where d5: "replace_oversized_overview_target sha256hex d4 = Inr (Some d5)"
      "p = set_details d5 (set_details d4 p3)" "int (length (canonical_json p)) \<le> budget"
    unfolding shed_details_def Let_def by (simp split: sum.split_asm option.split_asm if_split_asm)
  have "obj_get ''details'' (set_key ''details'' d4 e) = Some d4" using obj_get_obj [OF d] by (simp add: obj_get_set)
  from minimum_field_set_details(1) [OF minimum_field_set_details(2) [OF e d] this] d5 replace_target_minimum [OF d5(1)]
  show ?thesis by simp
qed

lemma bound_minimum_error_Inr:
  assumes "bound_minimum_error sha256hex payload budget = Inr p"
    and e: "obj_get ''error'' payload = Some e" and d: "obj_get ''details'' e = Some (JObj kvs)"
  shows "minimum_field p = minimum_field payload \<and> int (length (canonical_json p)) \<le> budget"
proof (rule ccontr)
  assume neg: "\<not> ?thesis"
  with bound_minimum_error_early [OF assms(1)] have
    "bound_minimum_error sha256hex payload budget =
      shed_details sha256hex (pop_key ''authorities'' (JObj kvs)) (without_metadata payload) budget"
    by (intro bound_minimum_error_late [OF _ _ _ _ e d]) blast+
  with assms(1) have "shed_details sha256hex (pop_key ''authorities'' (JObj kvs)) (without_metadata payload) budget = Inr p" by simp
  from shed_details_Inr [OF this _ d] e d neg show False by (simp add: minimum_field_def)
qed

lemma env_error_dict:
  assumes "env_error code r (Some d) w a g = Inr e"
  shows "\<exists>kvs. json_value (lit ''details'') d = Inr (JObj kvs) \<and>
    error_dict e = JObj ([(lit ''ok'', JBool False), (lit ''error'', JObj
       [(lit ''code'', JStr (lit (code_value code))), (lit ''message'', JStr (lit (MESSAGES code))),
        (lit ''retry'', (case r of None \<Rightarrow> JNull | Some r \<Rightarrow> retry_md_dict r)), (lit ''details'', JObj kvs)])] @
     opt_field ''workspace'' workspace_md_dict w @ opt_field ''adapter'' adapter_md_dict a @
     opt_field ''generations'' generation_md_dict g)"
  using assms unfolding env_error_def make_error_def
  by (auto simp: Let_def error_dict_def simp del: lit_simps split: if_splits sum.splits json.splits)

lemma json_value_cons:
  assumes "json_value field (OMapping ((Some k, v) # kvs)) = Inr (JObj ps)"
  obtains j qs where "ps = (k, j) # qs" "json_value (field @ [46] @ k) v = Inr j" "json_value field (OMapping kvs) = Inr (JObj qs)"
proof -
  have "\<exists>j qs. ps = (k, j) # qs \<and> json_value (field @ [46] @ k) v = Inr j \<and> json_value field (OMapping kvs) = Inr (JObj qs)"
    using assms by (simp add: map_sum_Inr split: if_split_asm sum.split_asm)
  then show thesis using that by blast
qed

lemma minimum_required_Inr:
  assumes "minimum_required_chars_result sha256hex minimum w a g authorities next_action relative_path name_path max_chars = Inr r"
  shows "required_chars r = Some minimum \<and> text_length r \<le> max_chars \<and> 0 \<le> minimum"
proof -
  obtain details e p where *: "env_error INVALID_INPUT None (Some (OMapping
        ((Some (lit ''field''), OStr (lit ''max_answer_chars'')) # (Some (lit ''minimum_required_chars''), OInt minimum) # details))) w a g = Inr e"
      "bound_minimum_error sha256hex (error_dict e) max_chars = Inr p" "r = render_payload p" "0 \<le> minimum"
    using assms unfolding minimum_required_chars_result_def minimum_details_def Let_def validate_max_answer_chars_def
    by (auto simp: map_sum_Inr simp del: lit_simps json_value.simps split: if_split_asm sum.split_asm)
  obtain kvs where kvs: "json_value (lit ''details'') (OMapping
        ((Some (lit ''field''), OStr (lit ''max_answer_chars'')) # (Some (lit ''minimum_required_chars''), OInt minimum) # details)) = Inr (JObj kvs)"
    "minimum_field (error_dict e) = obj_get ''minimum_required_chars'' (JObj kvs)"
    and err: "\<exists>v. obj_get ''error'' (error_dict e) = Some v \<and> obj_get ''details'' v = Some (JObj kvs)"
    using env_error_dict [OF *(1)] by (auto simp: minimum_field_def obj_get_def simp del: lit_simps json_value.simps)
  have "obj_get ''minimum_required_chars'' (JObj kvs) = Some (JInt minimum)"
    using kvs(1) by (auto elim!: json_value_cons simp: obj_get_def simp del: lit_simps json_value.simps(8))
  with kvs(2) err bound_minimum_error_Inr [OF *(2)] *(3,4) show ?thesis
    by (auto simp: required_chars_def text_length_def render_payload_def)
qed

lemma required_success [simp]: "required_chars (render_success d n) = None"
  by (simp add: required_chars_def render_success_def render_payload_def navigation_dict_def minimum_field_def obj_get_def
    del: lit_simps)

lemma render_bounded_records_loop:
  assumes "render_bounded_records sha256hex workspace records max_chars omitted coverage w a g authorities recovery = Inr r"
  obtains too_small where "loop_result too_small (prefix_answer workspace (unique_sorted_records records) omitted coverage)
      (unique_sorted_records records \<noteq> []) max_chars (length (unique_sorted_records records)) (Inr r)"
    and "\<And>b m r. too_small b m = Inr r \<Longrightarrow> required_chars r = Some m \<and> text_length r \<le> max_chars"
    and "MIN_MAX_ANSWER_CHARS \<le> max_chars" and "0 \<le> omitted"
proof -
  let ?t = "\<lambda>exact minimum. if exact
      then minimum_required_chars_result sha256hex minimum w a g authorities (exact_body_recovery_action recovery minimum)
             (recovery_relative_path recovery) (recovery_name_path recovery) max_chars
      else minimum_required_chars_result sha256hex minimum w a g authorities None None None max_chars"
  from assms have "bounded_records_loop ?t workspace (unique_sorted_records records) omitted coverage max_chars
      (length (unique_sorted_records records)) = Inr r" "MIN_MAX_ANSWER_CHARS \<le> max_chars" "0 \<le> omitted"
    unfolding render_bounded_records_def validate_max_answer_chars_def Let_def
    by (simp_all split: if_split_asm)
  with bounded_records_loop_result [OF order_refl, of ?t workspace "unique_sorted_records records" omitted coverage max_chars]
  show thesis by (intro that [of ?t]) (auto dest: minimum_required_Inr split: if_split_asm)
qed

text \<open>
  C31: An answer keeps within its budget and is the longest that does.  Whatever
  \<open>render_bounded_records\<close> returns is at most \<open>max_answer_chars\<close> long; it shows the first \<open>k\<close>
  ordered records and counts all others as omitted, while every longer prefix would have been
  too long, or, when not even the first record fits, it names a minimum above the budget.
\<close>

theorem records_answer_longest_prefix:
  assumes "render_bounded_records sha256hex workspace records max_chars omitted coverage w a g authorities recovery = Inr r"
  shows "text_length r \<le> max_chars \<and>
    ((\<exists>k n. prefix_answer workspace (ordered_records records) omitted coverage k = Inr n \<and> k \<le> length (ordered_records records) \<and>
        (k = 0 \<longleftrightarrow> ordered_records records = []) \<and> r = render_success flat_dict n \<and>
        (\<forall>i. k < i \<and> i \<le> length (ordered_records records) \<longrightarrow>
          (\<exists>m. prefix_answer workspace (ordered_records records) omitted coverage i = Inr m \<and> max_chars < answer_length m))) \<or>
     (\<exists>n. prefix_answer workspace (ordered_records records) omitted coverage (if ordered_records records = [] then 0 else 1) = Inr n \<and>
        required_chars r = Some (answer_length n) \<and> max_chars < answer_length n))"
proof -
  obtain too_small where loop: "loop_result too_small (prefix_answer workspace (unique_sorted_records records) omitted coverage)
      (unique_sorted_records records \<noteq> []) max_chars (length (unique_sorted_records records)) (Inr r)"
    and small: "\<And>b m r. too_small b m = Inr r \<Longrightarrow> required_chars r = Some m \<and> text_length r \<le> max_chars"
    using assms by (rule render_bounded_records_loop) blast
  from loop [folded ordered_records_def] show ?thesis
  proof cases
    case (fits j n)
    then show ?thesis by (intro conjI disjI1 exI [of _ j] exI [of _ n]) (auto simp: answer_length_def)
  next
    case (minimum n)
    have "max_chars < answer_length n"
      using minimum(2) [of 1] minimum(3,4) by (cases "ordered_records records = []") (auto simp: Suc_le_eq)
    with minimum(1,3) small [OF minimum(1) [symmetric]] show ?thesis
      by (intro conjI disjI2 exI [of _ n]) auto
  qed
qed

lemma retry_succeeds:
  assumes "render_bounded_records sha256hex workspace records max_chars omitted coverage w a g authorities recovery = Inr r"
    and "required_chars r = Some m" and "m \<le> MAX_MAX_ANSWER_CHARS"
  shows "\<exists>k n. render_bounded_records sha256hex workspace records m omitted coverage w a g authorities recovery =
        Inr (render_success flat_dict n) \<and>
      prefix_answer workspace (ordered_records records) omitted coverage k = Inr n \<and>
      k \<le> length (ordered_records records) \<and> (k = 0 \<longrightarrow> ordered_records records = [])"
proof -
  let ?ord = "unique_sorted_records records"
  let ?A = "prefix_answer workspace ?ord omitted coverage"
  obtain too_small where loop: "loop_result too_small ?A (?ord \<noteq> []) max_chars (length ?ord) (Inr r)"
    and small: "\<And>b m r. too_small b m = Inr r \<Longrightarrow> required_chars r = Some m \<and> text_length r \<le> max_chars"
    and pos: "MIN_MAX_ANSWER_CHARS \<le> max_chars" "0 \<le> omitted"
    using assms(1) by (rule render_bounded_records_loop) blast
  have "?thesis" if "ordered_records records = ?ord"
    using loop
  proof cases
    case (fits j n)
    with assms(2) show ?thesis by simp
  next
    case (minimum n)
    from small [OF minimum(1) [symmetric]] assms(2) have m: "m = answer_length n" by simp
    have "max_chars < m"
      using minimum(2) [of 1] minimum(3,4) m by (cases "?ord = []") (auto simp: Suc_le_eq)
    with pos assms(3) have budget: "validate_max_answer_chars (OInt m) = Inr m" by (simp add: validate_max_answer_chars_def)
    define t where "t = (\<lambda>exact minimum. if exact
      then minimum_required_chars_result sha256hex minimum w a g authorities (exact_body_recovery_action recovery minimum)
             (recovery_relative_path recovery) (recovery_name_path recovery) m
      else minimum_required_chars_result sha256hex minimum w a g authorities None None None m)"
    have eq: "render_bounded_records sha256hex workspace records m omitted coverage w a g authorities recovery =
        bounded_records_loop t workspace ?ord omitted coverage m (length ?ord)"
      using budget pos(2) by (simp add: render_bounded_records_def t_def Let_def)
    have all: "\<exists>m. ?A i = Inr m" if "0 < i" "i \<le> length ?ord" for i using minimum(2) that by blast
    have len: "(if ?ord \<noteq> [] then 1 else 0) \<le> length ?ord" "0 < (if ?ord \<noteq> [] then 1 else (0::nat)) \<or> \<not> ?ord \<noteq> []"
      "\<not> ?ord \<noteq> [] \<longrightarrow> length ?ord = 0" by (auto simp: Suc_le_eq)
    from loop_succeeds [OF minimum(3) _ len(1,2) bounded_records_loop_result [OF order_refl, of t workspace ?ord omitted coverage m] len(3) all]
    show ?thesis unfolding eq that using m by auto
  qed
  then show ?thesis by (simp add: ordered_records_def)
qed

text \<open>
  C32: Retrying with the minimum an answer names.  Whenever \<open>render_bounded_records\<close> names a minimum
  that is at most the public maximum of 50000 characters, the same call with that budget succeeds
  and shows at least the first ordered record.  If the named minimum is above that maximum, the same
  call with it raises the error on \<open>max_answer_chars\<close>.
\<close>

theorem retry_with_minimum_succeeds:
  assumes "render_bounded_records sha256hex workspace records max_chars omitted coverage w a g authorities recovery = Inr r"
    and "required_chars r = Some m"
  shows "if m \<le> MAX_MAX_ANSWER_CHARS
    then \<exists>k n. render_bounded_records sha256hex workspace records m omitted coverage w a g authorities recovery =
          Inr (render_success flat_dict n) \<and>
        prefix_answer workspace (ordered_records records) omitted coverage k = Inr n \<and>
        k \<le> length (ordered_records records) \<and> (k = 0 \<longrightarrow> ordered_records records = [])
    else render_bounded_records sha256hex workspace records m omitted coverage w a g authorities recovery =
          Inl (CValueError ''max_answer_chars must be from 512 through 50000'')"
  using retry_succeeds [OF assms] by (auto simp: render_bounded_records_def validate_max_answer_chars_def)

section \<open>The minimum error fits every budget\<close>

definition bare_error :: "(text_cp \<times> json) list \<Rightarrow> json" where
  "bare_error details = JObj [(lit ''ok'', JBool False), (lit ''error'', JObj
     [(lit ''code'', JStr (lit ''INVALID_INPUT'')), (lit ''message'', JStr (lit ''input is invalid'')), (lit ''retry'', JNull),
      (lit ''details'', JObj details)])]"

lemma bare_error_length: "length (dumps (bare_error kvs)) = 98 + length (dumps (JObj kvs))"
  by (simp add: bare_error_def quote_def escape_char_def lit_simps)

lemma show_int_length: "0 \<le> i \<Longrightarrow> i < 2 ^ 63 \<Longrightarrow> length (show_int i) \<le> 19"
  using show_nat_length [of "nat i" 18] by (simp add: show_int_def)

lemma hex_escape:
  "list_all (\<lambda>c. c \<in> set (lit ''0123456789abcdef'')) s \<Longrightarrow> length (concat (map escape_char s)) = length s"
  by (induction s) (auto simp: escape_char_def lit_simps)

lemma sha256_quote: "valid_sha256 s \<Longrightarrow> length (quote s) = 66"
  by (simp add: valid_sha256_def quote_def hex_escape)

lemma entry_lengths:
  "length (quote (lit ''field'')) = 7" "length (quote (lit ''max_answer_chars'')) = 18"
  "length (quote (lit ''minimum_required_chars'')) = 24" "length (quote (lit ''next_action'')) = 13"
  "length (quote (lit ''target'')) = 8" "length (quote (lit ''relative_path'')) = 15" "length (quote (lit ''name_path'')) = 11"
  "length (quote (lit ''length'')) = 8" "length (quote (lit ''sha256'')) = 8"
  "length (quote LOCATION_THEN) = 43" "length (quote OVERVIEW_THEN) = 33" "length (quote RETRY_MINIMUM) = 33"
  by (simp_all add: quote_def escape_char_def lit_simps LOCATION_THEN_def OVERVIEW_THEN_def RETRY_MINIMUM_def)

lemma identity_length:
  assumes "target_identity sha256hex v = Inr i" and "valid_sha256 (sha256hex v)" and "int (length v) < 2 ^ 63"
  shows "length (dumps i) \<le> 106"
proof -
  have "i = JObj [(lit ''length'', JInt (int (length v))), (lit ''sha256'', JStr (sha256hex v))]"
    using assms(1) by (simp add: target_identity_def split: if_split_asm)
  then show ?thesis using sha256_quote [OF assms(2)] show_int_length [of "int (length v)"] assms(3) by (simp add: entry_lengths)
qed

lemma short_details_fit:
  assumes "0 \<le> minimum" and "minimum < 2 ^ 63"
  shows "length (canonical_json (bare_error ([(lit ''field'', JStr (lit ''max_answer_chars'')),
      (lit ''minimum_required_chars'', JInt minimum)]))) \<le> 512"
    and "act \<in> {OVERVIEW_THEN, RETRY_MINIMUM, LOCATION_THEN} \<Longrightarrow>
      length (canonical_json (bare_error ([(lit ''field'', JStr (lit ''max_answer_chars'')),
      (lit ''minimum_required_chars'', JInt minimum), (lit ''next_action'', JStr act)]))) \<le> 512"
    and "length (dumps path_identity) \<le> 106 \<Longrightarrow> length (dumps name_identity) \<le> 106 \<Longrightarrow>
      length (canonical_json (bare_error ([(lit ''field'', JStr (lit ''max_answer_chars'')),
      (lit ''minimum_required_chars'', JInt minimum), (lit ''next_action'', JStr LOCATION_THEN),
      (lit ''target'', JObj [(lit ''relative_path'', path_identity), (lit ''name_path'', name_identity)])]))) \<le> 512"
  using show_int_length [OF assms]
  by (auto simp: bare_error_length canonical_json_def entry_lengths)

lemma without_metadata_error:
  assumes "env_error INVALID_INPUT None (Some d) w a g = Inr e"
  obtains kvs where "json_value (lit ''details'') d = Inr (JObj kvs)" and "without_metadata (error_dict e) = bare_error kvs"
    and "\<exists>v. obj_get ''error'' (error_dict e) = Some v \<and> obj_get ''details'' v = Some (JObj kvs)"
  using env_error_dict [OF assms] that
  by (auto simp: bare_error_def pop_key_def opt_field_def obj_get_def split: option.splits)

lemma set_details_bare [simp]: "set_details (JObj d) (bare_error kvs) = bare_error d"
  by (simp add: set_details_def bare_error_def set_key_def obj_get_def)

lemma bound_minimum_error_Inl:
  assumes "without_metadata payload = bare_error kvs"
    and "\<exists>v. obj_get ''error'' payload = Some v \<and> obj_get ''details'' v = Some (JObj kvs)"
    and err: "bound_minimum_error sha256hex payload budget = Inl e"
  shows "shed_details sha256hex (pop_key ''authorities'' (JObj kvs)) (bare_error kvs) budget = Inl e"
proof -
  from assms(2) obtain v where v: "obj_get ''error'' payload = Some v" "obj_get ''details'' v = Some (JObj kvs)" by blast
  have "\<not> int (length (canonical_json payload)) \<le> budget" "\<not> int (length (canonical_json (pop_key ''workspace'' payload))) \<le> budget"
      "\<not> int (length (canonical_json (pop_key ''adapter'' (pop_key ''workspace'' payload)))) \<le> budget"
      "\<not> int (length (canonical_json (without_metadata payload))) \<le> budget"
    using err unfolding bound_minimum_error_def Let_def by (simp_all split: if_split_asm)
  from bound_minimum_error_late [OF this v, of sha256hex] assms(1) err show ?thesis by simp
qed

lemma shed_short:
  "length (canonical_json (bare_error ds)) \<le> 512 \<Longrightarrow> 512 \<le> budget \<Longrightarrow>
   shed_details sha256hex (JObj ds) (bare_error kvs) budget \<noteq> Inl e"
  by (simp add: shed_details_def)

lemma shed_target:
  assumes "replace_oversized_overview_target sha256hex (JObj ds) = Inr (Some (JObj ds'))"
    and "length (canonical_json (bare_error ds')) \<le> 512" and "512 \<le> budget"
  shows "shed_details sha256hex (JObj ds) (bare_error kvs) budget \<noteq> Inl e"
  using assms by (simp add: shed_details_def Let_def)

lemma error_keys_not_secret [simp]:
  "\<not> secret_key (lit ''field'')" "\<not> secret_key (lit ''minimum_required_chars'')" "\<not> secret_key (lit ''next_action'')"
  "\<not> secret_key (lit ''relative_path'')" "\<not> secret_key (lit ''name_path'')" "\<not> secret_key (lit ''authorities'')"
  by (simp_all add: secret_key_def SECRET_KEY_FRAGMENTS_def lit_simps lower_cp_def)

text \<open>What \<open>ExactBodyRecovery\<close> guarantees of its values, and lengths a text can have.\<close>

definition recovery_ok :: "exact_body_recovery option \<Rightarrow> bool" where
  "recovery_ok recovery = (case recovery of None \<Rightarrow> True | Some r \<Rightarrow>
     normalize_path (eb_relative_path r) = Inr (eb_relative_path r) \<and> eb_name_path r \<noteq> [] \<and>
     int (length (eb_relative_path r)) < 2 ^ 63 \<and> int (length (eb_name_path r)) < 2 ^ 63)"

text \<open>Whether the texts of a recovery target can be encoded.\<close>

definition recovery_encodable :: "exact_body_recovery option \<Rightarrow> bool" where
  "recovery_encodable recovery = (case recovery of None \<Rightarrow> True | Some r \<Rightarrow>
     list_all valid_cp (eb_relative_path r) \<and> list_all valid_cp (eb_name_path r))"

lemma make_exact_body_recovery_ok:
  "make_exact_body_recovery hc p n = Inr r \<Longrightarrow> int (length (eb_relative_path r)) < 2 ^ 63 \<Longrightarrow> int (length n) < 2 ^ 63 \<Longrightarrow>
   recovery_ok (Some r)"
  by (auto simp: make_exact_body_recovery_def recovery_ok_def intro: normalize_path_fixed split: sum.splits if_splits)

definition authority_entry :: "json option \<Rightarrow> (text_cp \<times> json) list" where
  "authority_entry j = opt_field ''authorities'' id j"

definition recovery_entries :: "exact_body_recovery option \<Rightarrow> int \<Rightarrow> (text_cp \<times> json) list" where
  "recovery_entries recovery minimum = (case recovery of
       None \<Rightarrow> []
     | Some r \<Rightarrow> if eb_has_children r
                then [(lit ''next_action'', JStr OVERVIEW_THEN), (lit ''relative_path'', JStr (eb_relative_path r)),
                      (lit ''name_path'', JStr (eb_name_path r))]
                else [(lit ''next_action'', JStr (if minimum \<le> MAX_MAX_ANSWER_CHARS then RETRY_MINIMUM else LOCATION_THEN))])"

abbreviation base_entries :: "int \<Rightarrow> (text_cp \<times> json) list" where
  "base_entries minimum \<equiv> [(lit ''field'', JStr (lit ''max_answer_chars'')), (lit ''minimum_required_chars'', JInt minimum)]"

lemma pop_authorities:
  "pop_key ''authorities'' (JObj (base_entries minimum @ recovery_entries recovery minimum @ authority_entry j)) =
   JObj (base_entries minimum @ recovery_entries recovery minimum)"
  by (auto simp: pop_key_def recovery_entries_def authority_entry_def opt_field_def split: option.split)

lemma replace_recovery:
  assumes "eb_has_children r"
  shows "replace_oversized_overview_target sha256hex (JObj (base_entries minimum @ recovery_entries (Some r) minimum)) =
    (case target_identity sha256hex (eb_relative_path r) of
       Inl e \<Rightarrow> Inl e
     | Inr path_identity \<Rightarrow>
         (case target_identity sha256hex (eb_name_path r) of
            Inl e \<Rightarrow> Inl e
          | Inr name_identity \<Rightarrow> Inr (Some (JObj [(lit ''field'', JStr (lit ''max_answer_chars'')),
              (lit ''minimum_required_chars'', JInt minimum), (lit ''next_action'', JStr LOCATION_THEN),
              (lit ''target'', JObj [(lit ''relative_path'', path_identity), (lit ''name_path'', name_identity)])]))))"
  using assms
  by (simp add: replace_oversized_overview_target_def recovery_entries_def obj_get_def set_key_def pop_key_def cong: sum.case_cong)

lemma shed_recovery:
  assumes "\<forall>s. valid_sha256 (sha256hex s)" and "recovery_ok recovery" and "0 \<le> minimum" and "minimum < 2 ^ 63" and "512 \<le> budget"
    and err: "shed_details sha256hex (JObj (base_entries minimum @ recovery_entries recovery minimum)) (bare_error kvs) budget = Inl e"
  shows "e = not_encodable \<and> \<not> recovery_encodable recovery"
proof (cases "\<exists>r. recovery = Some r \<and> eb_has_children r")
  case True
  then obtain r where r: "recovery = Some r" "eb_has_children r" by blast
  note replaced = replace_recovery [OF r(2), of sha256hex minimum, folded r(1)]
  show ?thesis
  proof (cases "recovery_encodable recovery")
    case True
    then obtain i j where ij: "target_identity sha256hex (eb_relative_path r) = Inr i" "target_identity sha256hex (eb_name_path r) = Inr j"
      by (simp add: recovery_encodable_def target_identity_def r)
    have "length (dumps i) \<le> 106" "length (dumps j) \<le> 106"
      using identity_length [OF ij(1)] identity_length [OF ij(2)] assms(1,2) by (simp_all add: recovery_ok_def r)
    from shed_target [OF _ short_details_fit(3) [OF assms(3,4) this] assms(5), of sha256hex] replaced ij err
    show ?thesis by (simp del: lit_simps)
  next
    case False
    then have "replace_oversized_overview_target sha256hex (JObj (base_entries minimum @ recovery_entries recovery minimum)) = Inl not_encodable"
      unfolding replaced by (auto simp: recovery_encodable_def target_identity_def r)
    with err False show ?thesis by (simp add: shed_details_def Let_def del: lit_simps split: if_split_asm)
  qed
next
  case False
  then have "recovery_entries recovery minimum \<in> {[], [(lit ''next_action'', JStr RETRY_MINIMUM)], [(lit ''next_action'', JStr LOCATION_THEN)]}"
    by (auto simp: recovery_entries_def split: option.split)
  then consider "recovery_entries recovery minimum = []"
    | act where "recovery_entries recovery minimum = [(lit ''next_action'', JStr act)]" "act \<in> {OVERVIEW_THEN, RETRY_MINIMUM, LOCATION_THEN}"
    by blast
  then show ?thesis
  proof cases
    case 1
    from shed_short [OF short_details_fit(1) [OF assms(3,4)] assms(5)] err show ?thesis unfolding 1 append_Nil2 by blast
  next
    case (2 act)
    from shed_short [OF short_details_fit(2) [OF assms(3,4) 2(2)] assms(5)] err show ?thesis unfolding 2(1) by simp
  qed
qed

lemma minimum_details_value:
  assumes "recovery_ok recovery" and "json_value (lit ''details'' @ [46] @ lit ''authorities'') (OSequence authorities) = Inr j"
  shows "\<exists>entries. target_entries (recovery_relative_path recovery) (recovery_name_path recovery) = Inr entries \<and>
    json_value (lit ''details'') (minimum_details minimum (exact_body_recovery_action recovery minimum) entries authorities) =
      Inr (JObj (base_entries minimum @ recovery_entries recovery minimum @ authority_entry (if authorities = [] then None else Some j)))"
proof (cases recovery)
  case None
  then show ?thesis using assms(2)
    by (auto simp: minimum_details_def target_entries_def recovery_relative_path_def exact_body_recovery_action_def opt_entry_def recovery_entries_def
      authority_entry_def opt_field_def)
next
  case (Some r)
  then show ?thesis using assms
    by (cases "eb_has_children r")
      (auto simp: minimum_details_def target_entries_def recovery_relative_path_def recovery_name_path_def exact_body_recovery_action_def opt_entry_def
        recovery_entries_def authority_entry_def opt_field_def recovery_ok_def)
qed

lemma recovery_arguments:
  "exact_body_recovery_action recovery minimum \<noteq> None \<Longrightarrow>
     the (exact_body_recovery_action recovery minimum) \<in> {OVERVIEW_THEN, RETRY_MINIMUM, LOCATION_THEN}"
  "recovery_relative_path recovery = None \<longleftrightarrow> recovery_name_path recovery = None"
  "recovery_relative_path recovery \<noteq> None \<Longrightarrow> exact_body_recovery_action recovery minimum = Some OVERVIEW_THEN"
  by (auto simp: exact_body_recovery_action_def recovery_relative_path_def recovery_name_path_def split: option.splits)

lemma minimum_required_result:
  assumes "MIN_MAX_ANSWER_CHARS \<le> budget" and "budget \<le> MAX_MAX_ANSWER_CHARS" and "0 \<le> minimum"
    and g1: "\<not> (act \<noteq> None \<and> the act \<notin> {OVERVIEW_THEN, RETRY_MINIMUM, LOCATION_THEN})"
    and g2: "\<not> ((rel = None) \<noteq> (name = None))" and g3: "\<not> (rel \<noteq> None \<and> act \<noteq> Some OVERVIEW_THEN)"
    and en: "target_entries rel name = Inr entries"
    and e: "env_error INVALID_INPUT None (Some (minimum_details minimum act entries authorities)) w a g = Inr e"
  shows "minimum_required_chars_result sha256hex minimum w a g authorities act rel name budget =
    map_sum id render_payload (bound_minimum_error sha256hex (error_dict e) budget)"
proof -
  have b: "validate_max_answer_chars (OInt budget) = Inr budget" using assms(1,2) by (simp add: validate_max_answer_chars_def)
  have m: "\<not> minimum < 0" using assms(3) by simp
  show ?thesis
    unfolding minimum_required_chars_result_def
    by (simp only: b sum.case m if_False g1 g2 g3 en e)
qed

lemma minimum_error_delivered:
  assumes "\<forall>s. valid_sha256 (sha256hex s)" and "recovery_ok recovery" and "0 \<le> minimum" and "minimum < 2 ^ 63"
    and "MIN_MAX_ANSWER_CHARS \<le> budget" and "budget \<le> MAX_MAX_ANSWER_CHARS"
    and "json_value (lit ''details'' @ [46] @ lit ''authorities'') (OSequence authorities) = Inr j"
  shows "if recovery_encodable recovery
    then \<exists>r. minimum_required_chars_result sha256hex minimum w a g authorities (exact_body_recovery_action recovery minimum)
      (recovery_relative_path recovery) (recovery_name_path recovery) budget = Inr r \<and> text_length r \<le> budget
    else (\<exists>r. minimum_required_chars_result sha256hex minimum w a g authorities (exact_body_recovery_action recovery minimum)
      (recovery_relative_path recovery) (recovery_name_path recovery) budget = Inr r \<and> text_length r \<le> budget) \<or>
      minimum_required_chars_result sha256hex minimum w a g authorities (exact_body_recovery_action recovery minimum)
      (recovery_relative_path recovery) (recovery_name_path recovery) budget = Inl not_encodable"
proof -
  let ?act = "exact_body_recovery_action recovery minimum"
  obtain entries kvs where en: "target_entries (recovery_relative_path recovery) (recovery_name_path recovery) = Inr entries"
    and kvs: "json_value (lit ''details'') (minimum_details minimum ?act entries authorities) = Inr (JObj kvs)"
    and pop: "pop_key ''authorities'' (JObj kvs) = JObj (base_entries minimum @ recovery_entries recovery minimum)"
    using minimum_details_value [OF assms(2,7)] pop_authorities by blast
  obtain e where e: "env_error INVALID_INPUT None (Some (minimum_details minimum ?act entries authorities)) w a g = Inr e"
    using kvs by (simp only: env_error_details option.case) blast
  from without_metadata_error [OF e] kvs
  have bare: "without_metadata (error_dict e) = bare_error kvs"
      "\<exists>v. obj_get ''error'' (error_dict e) = Some v \<and> obj_get ''details'' v = Some (JObj kvs)" by force+
  have "512 \<le> budget" using assms(5) by (simp add: MIN_MAX_ANSWER_CHARS_def)
  then have unlikely: "x = not_encodable \<and> \<not> recovery_encodable recovery" if "bound_minimum_error sha256hex (error_dict e) budget = Inl x" for x
    using shed_recovery [OF assms(1-4)] bound_minimum_error_Inl [OF bare that] pop by simp
  have res: "minimum_required_chars_result sha256hex minimum w a g authorities ?act
      (recovery_relative_path recovery) (recovery_name_path recovery) budget = map_sum id render_payload (bound_minimum_error sha256hex (error_dict e) budget)"
    using recovery_arguments(1,3) [of recovery minimum] recovery_arguments(2) [of recovery]
    by (subst minimum_required_result [OF assms(5,6,3) _ _ _ en e]) auto
  show ?thesis
  proof (cases "bound_minimum_error sha256hex (error_dict e) budget")
    case (Inl x)
    with unlikely [OF Inl] res show ?thesis by simp
  next
    case (Inr p)
    with res minimum_required_Inr show ?thesis by (metis map_sum.simps(2))
  qed
qed

text \<open>
  C34: The error that names the minimum can always be delivered.  For every budget a caller may
  choose, any metadata, any serialisable authorities and any recovery whose texts can be encoded, shedding
  the optional parts and replacing an oversized target by its length and hash leaves an error that
  fits, so the renderer never raises there.  A recovery target with a lone surrogate can only make
  it raise the encoding error of \<open>_target_identity\<close> (for texts shorter than \<open>2 ^ 63\<close> characters, the largest length the
  language can represent, and a hash function that returns 64 hexadecimal digits).
\<close>

theorem minimum_error_always_fits:
  assumes "\<forall>s. valid_sha256 (sha256hex s)" and "recovery_ok recovery" and "0 \<le> minimum" and "minimum < 2 ^ 63"
    and "MIN_MAX_ANSWER_CHARS \<le> budget" and "budget \<le> MAX_MAX_ANSWER_CHARS"
    and "json_value (lit ''details'' @ [46] @ lit ''authorities'') (OSequence authorities) = Inr j"
  shows "if recovery_encodable recovery
    then \<exists>r. minimum_required_chars_result sha256hex minimum w a g authorities (exact_body_recovery_action recovery minimum)
      (recovery_relative_path recovery) (recovery_name_path recovery) budget = Inr r \<and> text_length r \<le> budget
    else (\<exists>r. minimum_required_chars_result sha256hex minimum w a g authorities (exact_body_recovery_action recovery minimum)
      (recovery_relative_path recovery) (recovery_name_path recovery) budget = Inr r \<and> text_length r \<le> budget) \<or>
      minimum_required_chars_result sha256hex minimum w a g authorities (exact_body_recovery_action recovery minimum)
      (recovery_relative_path recovery) (recovery_name_path recovery) budget = Inl not_encodable"
  using assms by (rule minimum_error_delivered)

definition zero_hash :: "text_cp \<Rightarrow> text_cp" where
  "zero_hash s = replicate 64 48"

lemma zero_hash_valid: "valid_sha256 (zero_hash s)"
  by (simp add: zero_hash_def valid_sha256_def list_all_iff lit_simps)

theorem minimum_error_always_fits_witness:
  "\<exists>r. minimum_required_chars_result zero_hash 600 None None None [] (Some OVERVIEW_THEN) (Some (lit ''a.py'')) (Some (lit ''f'')) 512
     = Inr r \<and> text_length r \<le> 512"
proof -
  have "recovery_ok (Some \<lparr>eb_has_children = True, eb_relative_path = lit ''a.py'', eb_name_path = lit ''f''\<rparr>)"
    by (simp add: recovery_ok_def wit_normal) (simp add: lit_simps)
  moreover have "recovery_encodable (Some \<lparr>eb_has_children = True, eb_relative_path = lit ''a.py'', eb_name_path = lit ''f''\<rparr>)"
    by (simp add: recovery_encodable_def valid_cp_def lit_simps)
  ultimately show ?thesis
    using minimum_error_always_fits [of zero_hash "Some \<lparr>eb_has_children = True, eb_relative_path = lit ''a.py'', eb_name_path = lit ''f''\<rparr>"
      600 512 "[]" "JArr []" None None None] zero_hash_valid
    by (simp add: MIN_MAX_ANSWER_CHARS_def MAX_MAX_ANSWER_CHARS_def exact_body_recovery_action_def recovery_relative_path_def
      recovery_name_path_def)
qed

text \<open>A reference with a snippet of 600 characters.\<close>

definition long_ref :: located where
  "long_ref = \<lparr>lr_path = lit ''a.py'', lr_record = FReference \<lparr>rf_range = Some ((2, 0), (2, 5)), rf_symbol = None,
     rf_snippet = Some (replicate 600 97), rf_raw_range = None, rf_basis = None\<rparr>, lr_language = None, lr_read_only = None, lr_sha256 = None\<rparr>"

definition long_nav :: "flat_record navigation" where
  "long_nav = \<lparr>nv_workspace = lit ''/w'', nv_files = [\<lparr>cf_path = lit ''a.py'', cf_key = References,
     cf_records = [lr_record long_ref], cf_language = None, cf_read_only = None, cf_sha256 = None\<rparr>], nv_omitted = 0, nv_coverage = None\<rparr>"

lemma long_answer: "prefix_answer (lit ''/w'') [long_ref] 0 None (Suc 0) = Inr long_nav"
proof -
  have "infer_language (lit ''a.py'') = Some (lit ''python'')"
    by (simp add: infer_language_def path_suffix_def LANGUAGE_SUFFIXES_def lit_simps lower_cp_def)
  then have "group_records [long_ref] = Inr (nv_files long_nav)"
    by (simp add: group_records_def wit_single long_ref_def file_group_def one_file_value_def item_language_def or_else_def
        record_key_of_def record_has_body_def make_file_def wit_normal fits_key_def long_nav_def)
  then show ?thesis by (simp add: prefix_answer_def flat_success_def make_navigation_def long_nav_def lit_simps)
qed

lemma long_text: "length (concat (map escape_char (replicate n 97))) = n"
  by (induction n) (simp_all add: escape_char_def)

lemma long_length: "answer_length long_nav = 727"
  by (simp add: answer_length long_nav_def long_ref_def navigation_dict_def file_dict_def flat_dict_defs
    coordinates_dict_def range_json_def opt_field_def canonical_json_def long_text key_name.simps
    quote_def escape_char_def lit_simps show_int_def show_nat.simps digit_char_def)

lemma long_ordered: "ordered_records [long_ref] = [long_ref]"
  by (simp add: ordered_records_def wit_single)

abbreviation long_render :: "int \<Rightarrow> compact_exn + call_tool_result" where
  "long_render budget \<equiv> render_bounded_records zero_hash (lit ''/w'') [long_ref] budget 0 None None None None [] None"

theorem records_answer_longest_prefix_witness:
  "long_render 1000 = Inr (render_success flat_dict long_nav) \<and> text_length (render_success flat_dict long_nav) \<le> 1000"
proof -
  have "long_render 1000 = Inr (render_success flat_dict long_nav)"
    using long_answer long_length
    by (simp add: render_bounded_records_def validate_max_answer_chars_def MIN_MAX_ANSWER_CHARS_def MAX_MAX_ANSWER_CHARS_def
      wit_single prefix_answer_def answer_length_def)
  with records_answer_longest_prefix [OF this] show ?thesis by simp
qed

theorem retry_with_minimum_succeeds_witness:
  "(\<exists>r. long_render 512 = Inr r \<and> required_chars r = Some 727) \<and> (\<exists>n. long_render 727 = Inr (render_success flat_dict n))"
proof -
  obtain r where r: "minimum_required_chars_result zero_hash 727 None None None [] None None None 512 = Inr r"
    using minimum_error_delivered [of zero_hash None 727 512 "[]" "JArr []" None None None] zero_hash_valid
    by (auto simp: recovery_ok_def recovery_encodable_def MIN_MAX_ANSWER_CHARS_def MAX_MAX_ANSWER_CHARS_def exact_body_recovery_action_def
      recovery_relative_path_def recovery_name_path_def)
  have l: "long_render 512 = Inr r"
    using long_answer long_length r
    by (simp add: render_bounded_records_def validate_max_answer_chars_def MIN_MAX_ANSWER_CHARS_def MAX_MAX_ANSWER_CHARS_def
      wit_single prefix_answer_def answer_length_def exact_body_recovery_action_def recovery_relative_path_def
      recovery_name_path_def minimum_flat_prefix)
  have m: "required_chars r = Some 727" using minimum_required_Inr [OF r] by simp
  from retry_with_minimum_succeeds [OF l m] l m show ?thesis by (auto simp: MAX_MAX_ANSWER_CHARS_def)
qed

end
