(* ===== verification/OverviewRender.thy ===== *)
theory OverviewRender
  imports CompactRender
begin

text \<open>
  Bounded overviews (\<open>tools/compact.py\<close>): pruning of trailing nodes of the symbol tree without
  orphaning a child, and the smallest prefix of an overview.
\<close>

section \<open>Pruning\<close>

definition with_children :: "overview \<Rightarrow> overview list \<Rightarrow> overview" where
  "with_children s cs = (case s of Overview n k _ i \<Rightarrow> Overview n k cs i)"

function remove_last_symbol :: "overview list \<Rightarrow> overview list \<times> nat" where
  "remove_last_symbol symbols =
     (if symbols = [] then ([], 0)
      else let l = last symbols in
           if ov_children l \<noteq> []
           then (case remove_last_symbol (ov_children l) of (retained, removed) \<Rightarrow>
                   if retained = [] \<and> \<not> ov_intrinsic l then (butlast symbols, removed + 1)
                   else (butlast symbols @ [with_children l retained], removed))
           else (butlast symbols, 1))"
  by pat_completeness auto
termination
proof (relation "measure (size_list size)")
  fix symbols :: "overview list" and l
  assume "symbols \<noteq> []" and l: "l = last symbols" and "ov_children l \<noteq> []"
  then have "size l \<le> size_list size symbols" by (metis last_in_set size_list_estimation' order_refl)
  moreover have "size_list size (ov_children l) < size l" by (cases l) simp
  ultimately show "(ov_children l, symbols) \<in> measure (size_list size)" by simp
qed simp

declare remove_last_symbol.simps [simp del]

type_synonym overview_file = "overview compact_file"

text \<open>The file loop runs from the last file to the first; the argument is the reversed list.\<close>

fun remove_last_in_files :: "overview_file list \<Rightarrow> (overview_file list \<times> nat) option" where
  "remove_last_in_files [] = None"
| "remove_last_in_files (f # fs) =
     (if cf_records f = [] then map_option (\<lambda>(gs, r). (f # gs, r)) (remove_last_in_files fs)
      else case remove_last_symbol (cf_records f) of (retained, removed) \<Rightarrow>
             if retained \<noteq> [] then Some (f\<lparr>cf_records := retained\<rparr> # fs, removed) else Some (fs, removed))"

definition remove_last_overview_node :: "overview_file list \<Rightarrow> overview_file list \<times> nat" where
  "remove_last_overview_node files = (case remove_last_in_files (rev files) of
       None \<Rightarrow> (files, 0) | Some (gs, r) \<Rightarrow> (rev gs, r))"

fun validate_overview_groups :: "overview_file list \<Rightarrow> compact_exn + unit" where
  "validate_overview_groups [] = Inr ()"
| "validate_overview_groups (f # fs) =
     (if cf_key f \<noteq> Symbols then Inl (CTypeError ''overview rendering requires overview-symbol file groups'')
      else if cf_sha256 f \<noteq> None then Inl (CValueError ''overview file groups must not contain sha256'')
      else validate_overview_groups fs)"

definition validated_overview_files :: "overview_file list \<Rightarrow> compact_exn + overview_file list" where
  "validated_overview_files files =
     (let ordered = sort_key cf_path files in map_sum id (\<lambda>_. ordered) (validate_overview_groups ordered))"

fun minimum_overview_symbol_prefix :: "overview \<Rightarrow> (overview \<times> nat) option" where
  "minimum_overview_symbol_prefix (Overview n k cs i) =
     (if i then Some (Overview n k [] i, 1)
      else case cs of
             [] \<Rightarrow> None
           | c # _ \<Rightarrow> map_option (\<lambda>(child, r). (Overview n k [child] i, r + 1)) (minimum_overview_symbol_prefix c))"

definition total_nodes :: "overview_file list \<Rightarrow> nat" where
  "total_nodes files = sum_list (map (\<lambda>f. sum_list (map node_count (cf_records f))) files)"

definition overview_success :: "text_cp \<Rightarrow> overview_file list \<Rightarrow> int \<Rightarrow> compact_exn + overview navigation" where
  "overview_success workspace files omitted = make_navigation workspace files omitted None"

definition minimum_overview_success_chars :: "text_cp \<Rightarrow> overview_file list \<Rightarrow> int \<Rightarrow> compact_exn + int" where
  "minimum_overview_success_chars workspace files omitted =
     (case minimum_overview_symbol_prefix (hd (cf_records (hd files))) of
        None \<Rightarrow> Inl (CValueError ''structural overview ancestor must retain a matching descendant'')
      | Some (prefix, retained) \<Rightarrow>
          (case overview_success workspace [(hd files)\<lparr>cf_records := [prefix]\<rparr>] (omitted + int (total_nodes files) - int retained) of
             Inl e \<Rightarrow> Inl e | Inr n \<Rightarrow> Inr (int (length (canonical_json (navigation_dict overview_dict n))))))"

section \<open>Counting removed nodes\<close>

lemma node_count_children: "node_count s = 1 + sum_list (map node_count (ov_children s))"
  by (cases s) simp

lemma with_children_simps [simp]:
  "ov_children (with_children s cs) = cs" "ov_name (with_children s cs) = ov_name s"
  "ov_kind (with_children s cs) = ov_kind s" "ov_intrinsic (with_children s cs) = ov_intrinsic s"
  by (cases s; simp add: with_children_def)+

abbreviation nodes :: "overview list \<Rightarrow> nat" where
  "nodes xs \<equiv> sum_list (map node_count xs)"

lemma remove_last_leaf: "ov_children l = [] \<Longrightarrow> remove_last_symbol (xs @ [l]) = (xs, 1)"
  by (subst remove_last_symbol.simps) simp

lemma remove_last_drop:
  "ov_children l \<noteq> [] \<Longrightarrow> remove_last_symbol (ov_children l) = ([], q) \<Longrightarrow> \<not> ov_intrinsic l \<Longrightarrow>
   remove_last_symbol (xs @ [l]) = (xs, q + 1)"
  by (subst remove_last_symbol.simps) simp

lemma remove_last_keep:
  "ov_children l \<noteq> [] \<Longrightarrow> remove_last_symbol (ov_children l) = (cs, q) \<Longrightarrow> cs \<noteq> [] \<or> ov_intrinsic l \<Longrightarrow>
   remove_last_symbol (xs @ [l]) = (xs @ [with_children l cs], q)"
  by (subst remove_last_symbol.simps) auto

text \<open>Induction along the last branch of the tree, one case per outcome of the removal.\<close>

lemma remove_last_induct [consumes 2, case_names leaf drop keep]:
  assumes "remove_last_symbol xs = (ys, r)" and "xs \<noteq> []"
    and leaf: "\<And>xs l. ov_children l = [] \<Longrightarrow> P (xs @ [l]) xs 1"
    and drop: "\<And>xs l q. ov_children l \<noteq> [] \<Longrightarrow> \<not> ov_intrinsic l \<Longrightarrow> P (ov_children l) [] q \<Longrightarrow> P (xs @ [l]) xs (q + 1)"
    and keep: "\<And>xs l cs q. ov_children l \<noteq> [] \<Longrightarrow> cs \<noteq> [] \<or> ov_intrinsic l \<Longrightarrow> P (ov_children l) cs q \<Longrightarrow>
      P (xs @ [l]) (xs @ [with_children l cs]) q"
  shows "P xs ys r"
  using assms(1,2)
proof (induction xs arbitrary: ys r rule: remove_last_symbol.induct)
  case (1 xs)
  obtain zs l where xs: "xs = zs @ [l]" using 1(3) by (metis rev_exhaust)
  show ?case
  proof (cases "ov_children l = []")
    case True
    with 1(2) xs show ?thesis using leaf [OF True, of zs] by (simp add: remove_last_leaf)
  next
    case False
    obtain cs q where c: "remove_last_symbol (ov_children l) = (cs, q)" by fastforce
    have ih: "P (ov_children l) cs q" using 1(1) [OF 1(3) refl] False c xs by simp
    show ?thesis
    proof (cases "cs = [] \<and> \<not> ov_intrinsic l")
      case True
      with 1(2) xs c False ih drop [of l q zs] show ?thesis by (auto simp: remove_last_drop)
    next
      case keep': False
      then have k: "cs \<noteq> [] \<or> ov_intrinsic l" by simp
      from 1(2) xs remove_last_keep [OF False c k] keep [OF False k ih] show ?thesis by auto
    qed
  qed
qed

lemma remove_last_symbol_count:
  assumes "remove_last_symbol xs = (ys, r)" and "xs \<noteq> []" shows "nodes xs = nodes ys + r \<and> 0 < r"
  using assms
proof (induction rule: remove_last_induct)
  case (leaf xs l)
  then show ?case using node_count_children [of l] by simp
next
  case (drop xs l q)
  then show ?case using node_count_children [of l] by simp
next
  case (keep xs l cs q)
  then show ?case using node_count_children [of l] node_count_children [of "with_children l cs"] by simp
qed

lemma node_count_pos: "0 < node_count s"
  by (cases s) simp

lemma total_nodes_simps [simp]:
  "total_nodes [] = 0" "total_nodes (f # fs) = nodes (cf_records f) + total_nodes fs"
  "total_nodes (fs @ gs) = total_nodes fs + total_nodes gs" "total_nodes (rev fs) = total_nodes fs"
  by (simp_all add: total_nodes_def rev_map [symmetric] sum_list_rev)

lemma remove_last_in_files_count:
  "remove_last_in_files fs = Some (gs, r) \<Longrightarrow> total_nodes fs = total_nodes gs + r \<and> 0 < r"
proof (induction fs arbitrary: gs r)
  case (Cons f fs)
  show ?case
  proof (cases "cf_records f = []")
    case True
    with Cons.prems obtain hs where "remove_last_in_files fs = Some (hs, r)" "gs = f # hs" by auto
    with Cons.IH True show ?thesis by simp
  next
    case False
    obtain ys q where y: "remove_last_symbol (cf_records f) = (ys, q)" by fastforce
    from remove_last_symbol_count [OF y False] have "nodes (cf_records f) = nodes ys + q" "0 < q" by auto
    with Cons.prems False y show ?thesis by (auto split: if_splits)
  qed
qed simp

lemma remove_last_overview_count:
  "remove_last_overview_node files = (gs, r) \<Longrightarrow> total_nodes files = total_nodes gs + r"
  using remove_last_in_files_count [of "rev files"]
  by (auto simp: remove_last_overview_node_def split: option.splits)

section \<open>Bounded overviews\<close>

function bounded_overview_loop ::
    "(int \<Rightarrow> compact_exn + call_tool_result) \<Rightarrow> text_cp \<Rightarrow> overview_file list \<Rightarrow> int \<Rightarrow> int \<Rightarrow> overview_file list \<Rightarrow> nat \<Rightarrow>
     compact_exn + call_tool_result" where
  "bounded_overview_loop too_small workspace original omitted budget retained removed =
     (if original \<noteq> [] \<and> retained = []
      then (case minimum_overview_success_chars workspace original omitted of
              Inl e \<Rightarrow> Inl e | Inr minimum \<Rightarrow> too_small minimum)
      else case overview_success workspace retained (omitted + int removed) of
             Inl e \<Rightarrow> Inl e
           | Inr n \<Rightarrow>
               if text_length (render_success overview_dict n) \<le> budget then Inr (render_success overview_dict n)
               else case remove_last_overview_node retained of (retained', removed_now) \<Rightarrow>
                      if removed_now = 0 then too_small (int (length (canonical_json (navigation_dict overview_dict n))))
                      else bounded_overview_loop too_small workspace original omitted budget retained' (removed + removed_now))"
  by pat_completeness auto
termination
  apply (relation "measure (\<lambda>(_, _, _, _, _, retained, _). total_nodes retained)")
   apply simp
  apply (drule remove_last_overview_count [OF sym])
  apply simp
  done

declare bounded_overview_loop.simps [simp del]

definition render_bounded_overview ::
    "(text_cp \<Rightarrow> text_cp) \<Rightarrow> text_cp \<Rightarrow> overview_file list \<Rightarrow> int \<Rightarrow> int \<Rightarrow>
     workspace_md option \<Rightarrow> adapter_md option \<Rightarrow> generation_md option \<Rightarrow> pyobj list \<Rightarrow> compact_exn + call_tool_result" where
  "render_bounded_overview sha256hex workspace files max_chars omitted w a g authorities =
     (case validate_max_answer_chars (OInt max_chars) of
        Inl e \<Rightarrow> Inl e
      | Inr budget \<Rightarrow>
          if omitted < 0 then Inl (CValueError ''omitted must be non-negative'')
          else case validated_overview_files files of
                 Inl e \<Rightarrow> Inl e
               | Inr original \<Rightarrow>
                   bounded_overview_loop
                     (\<lambda>minimum. minimum_required_chars_result sha256hex minimum w a g authorities None None None budget)
                     workspace original omitted budget original 0)"

section \<open>What pruning keeps\<close>

text \<open>A prefix in document order: whole siblings, then at most one node whose children are again a prefix.\<close>

fun tree_prefix :: "overview list \<Rightarrow> overview list \<Rightarrow> bool" where
  "tree_prefix [] ys = True"
| "tree_prefix (x # xs) [] = False"
| "tree_prefix (Overview n k cs i # xs) (Overview n' k' cs' i' # ys) =
     (if xs = [] then n = n' \<and> k = k' \<and> i = i' \<and> tree_prefix cs cs'
      else Overview n k cs i = Overview n' k' cs' i' \<and> tree_prefix xs ys)"

text \<open>Every node is a match or stands above one.\<close>

fun matched :: "overview \<Rightarrow> bool" where
  "matched (Overview n k cs i) \<longleftrightarrow> (i \<or> cs \<noteq> []) \<and> list_all matched cs"

fun chain :: "overview \<Rightarrow> bool" where
  "chain (Overview n k cs i) \<longleftrightarrow> cs = [] \<or> (\<not> i \<and> length cs = 1 \<and> list_all chain cs)"

lemma tree_prefix_refl [simp]: "tree_prefix xs xs"
proof (induction "size_list size xs" arbitrary: xs rule: less_induct)
  case less
  show ?case
  proof (cases xs)
    case (Cons x ys)
    with less show ?thesis by (cases x) auto
  qed simp
qed

lemma tree_prefix_append [simp]: "tree_prefix xs (xs @ ys)"
proof (induction xs)
  case (Cons x xs)
  then show ?case by (cases x) auto
qed simp

lemma tree_prefix_snoc: "tree_prefix cs (ov_children l) \<Longrightarrow> tree_prefix (xs @ [with_children l cs]) (xs @ [l])"
proof (induction xs)
  case Nil
  then show ?case by (cases l) (simp add: with_children_def)
next
  case (Cons x xs)
  then show ?case by (cases x) auto
qed

lemma tree_prefix_trans: "tree_prefix xs ys \<Longrightarrow> tree_prefix ys zs \<Longrightarrow> tree_prefix xs zs"
proof (induction xs ys arbitrary: zs rule: tree_prefix.induct)
  case (3 n k cs i xs n' k' cs' i' ys)
  obtain m l ds j ws where z: "zs = Overview m l ds j # ws"
    using 3(4) by (cases zs; cases "hd zs") auto
  show ?case
  proof (cases "xs = []")
    case True
    then show ?thesis using 3 z by (auto split: if_splits)
  next
    case False
    with 3(3) have "ys \<noteq> []" by (cases xs; cases ys) auto
    with 3 z False show ?thesis by auto
  qed
qed auto

lemma remove_last_prefix:
  assumes "remove_last_symbol xs = (ys, r)" and "xs \<noteq> []" shows "tree_prefix ys xs"
  using assms by (induction rule: remove_last_induct) (auto intro: tree_prefix_snoc)

lemma matched_children: "matched s \<longleftrightarrow> (ov_intrinsic s \<or> ov_children s \<noteq> []) \<and> list_all matched (ov_children s)"
  by (cases s) simp

lemma chain_children: "chain s \<longleftrightarrow> ov_children s = [] \<or> (\<not> ov_intrinsic s \<and> length (ov_children s) = 1 \<and> list_all chain (ov_children s))"
  by (cases s) simp

lemma remove_last_matched:
  assumes "remove_last_symbol xs = (ys, r)" and "xs \<noteq> []" shows "list_all matched xs \<longrightarrow> list_all matched ys"
  using assms
proof (induction rule: remove_last_induct)
  case (keep xs l cs q)
  then show ?case using matched_children [of l] matched_children [of "with_children l cs"] by auto
qed auto

lemma remove_last_empty:
  assumes "remove_last_symbol xs = (ys, r)" and "xs \<noteq> []" shows "ys = [] \<longrightarrow> (\<exists>x. xs = [x] \<and> chain x)"
  using assms by (induction rule: remove_last_induct) (auto simp: chain_children)

lemma minimum_prefix_unique:
  "tree_prefix [x] (y # ys) \<Longrightarrow> matched x \<Longrightarrow> chain x \<Longrightarrow> minimum_overview_symbol_prefix y = Some (x, node_count x)"
proof (induction y arbitrary: x ys rule: minimum_overview_symbol_prefix.induct)
  case (1 n k ds i)
  obtain cs where x: "x = Overview n k cs i" and p: "tree_prefix cs ds" using 1(2) by (cases x) auto
  show ?case
  proof (cases "cs = []")
    case True
    with x 1(3) show ?thesis by simp
  next
    case False
    with x 1(4) obtain c where c: "cs = [c]" "chain c" "\<not> i" by (cases cs) auto
    with p obtain d es where d: "ds = d # es" by (cases ds; cases c) auto
    from 1(1) [OF c(3) d] p c d x 1(3) show ?thesis by simp
  qed
qed

fun files_prefix :: "overview_file list \<Rightarrow> overview_file list \<Rightarrow> bool" where
  "files_prefix [] gs = True"
| "files_prefix (f # fs) [] = False"
| "files_prefix (f # fs) (g # gs) =
     (if fs = [] then f = g\<lparr>cf_records := cf_records f\<rparr> \<and> tree_prefix (cf_records f) (cf_records g)
      else f = g \<and> files_prefix fs gs)"

definition overview_files_ok :: "overview_file list \<Rightarrow> bool" where
  "overview_files_ok files \<longleftrightarrow> list_all (\<lambda>f. cf_records f \<noteq> [] \<and> list_all matched (cf_records f)) files"

lemma files_prefix_append [simp]: "files_prefix fs (fs @ gs)"
  by (induction fs) auto

lemma files_prefix_snoc: "tree_prefix ys (cf_records f) \<Longrightarrow> files_prefix (fs @ [f\<lparr>cf_records := ys\<rparr>]) (fs @ [f])"
  by (induction fs) auto

lemma files_prefix_trans: "files_prefix fs gs \<Longrightarrow> files_prefix gs hs \<Longrightarrow> files_prefix fs hs"
proof (induction fs gs arbitrary: hs rule: files_prefix.induct)
  case (3 f fs g gs)
  obtain h hs' where h: "hs = h # hs'" using 3(3) by (cases hs) auto
  show ?case
  proof (cases "fs = []")
    case True
    have "f = h\<lparr>cf_records := cf_records f\<rparr> \<and> tree_prefix (cf_records f) (cf_records h)"
    proof (cases "gs = []")
      case gs: True
      from True 3(2) have f: "f = g\<lparr>cf_records := cf_records f\<rparr>" "tree_prefix (cf_records f) (cf_records g)" by auto
      from gs 3(3) h have g: "g = h\<lparr>cf_records := cf_records g\<rparr>" "tree_prefix (cf_records g) (cf_records h)" by auto
      from f(2) g(2) have "tree_prefix (cf_records f) (cf_records h)" by (rule tree_prefix_trans)
      moreover have "f = h\<lparr>cf_records := cf_records f\<rparr>" by (subst f(1), subst g(1)) simp
      ultimately show ?thesis by simp
    next
      case False
      with True 3(2,3) h show ?thesis by simp
    qed
    with True h show ?thesis by simp
  next
    case False
    with 3(2) have "gs \<noteq> []" by (cases fs; cases gs) auto
    with 3 h False show ?thesis by auto
  qed
qed auto

lemma remove_last_overview_snoc:
  assumes "cf_records f \<noteq> []" and "remove_last_symbol (cf_records f) = (ys, r)"
  shows "remove_last_overview_node (fs @ [f]) = (if ys = [] then fs else fs @ [f\<lparr>cf_records := ys\<rparr>], r)"
  using assms by (simp add: remove_last_overview_node_def)

lemma remove_last_overview_ok:
  assumes "overview_files_ok files" and "files \<noteq> []" and "remove_last_overview_node files = (gs, r)"
  shows "0 < r" and "overview_files_ok gs" and "files_prefix gs files"
    and "gs = [] \<Longrightarrow> \<exists>f x. files = [f] \<and> cf_records f = [x] \<and> chain x"
proof -
  obtain fs f where files: "files = fs @ [f]" using assms(2) by (metis rev_exhaust)
  obtain ys q where y: "remove_last_symbol (cf_records f) = (ys, q)" by fastforce
  have ne: "cf_records f \<noteq> []" and m: "list_all matched (cf_records f)" and fs: "overview_files_ok fs"
    using assms(1) files by (auto simp: overview_files_ok_def)
  have gs: "gs = (if ys = [] then fs else fs @ [f\<lparr>cf_records := ys\<rparr>])" and r: "r = q"
    using assms(3) files remove_last_overview_snoc [OF ne y] by auto
  show "0 < r" using remove_last_symbol_count [OF y ne] r by simp
  show "overview_files_ok gs" using remove_last_matched [OF y ne] m fs gs by (auto simp: overview_files_ok_def)
  show "files_prefix gs files" using files_prefix_snoc [OF remove_last_prefix [OF y ne]] gs files by simp
  show "gs = [] \<Longrightarrow> \<exists>f x. files = [f] \<and> cf_records f = [x] \<and> chain x"
    using remove_last_empty [OF y ne] gs files by (auto split: if_splits)
qed

section \<open>The loop\<close>

definition overview_length :: "overview navigation \<Rightarrow> int" where
  "overview_length n = text_length (render_success overview_dict n)"

lemma overview_length: "overview_length n = int (length (canonical_json (navigation_dict overview_dict n)))"
  by (simp add: overview_length_def text_length_def render_success_def render_payload_def)

text \<open>The answer that shows \<open>retained\<close> of the original files and counts every other node as omitted.\<close>

definition pruned_answer :: "text_cp \<Rightarrow> overview_file list \<Rightarrow> int \<Rightarrow> overview_file list \<Rightarrow> overview navigation" where
  "pruned_answer workspace original omitted retained =
     \<lparr>nv_workspace = workspace, nv_files = retained,
      nv_omitted = omitted + int (total_nodes original) - int (total_nodes retained), nv_coverage = None\<rparr>"

lemma overview_success_pruned:
  assumes "workspace \<noteq> []" and "0 \<le> omitted" and "total_nodes original = total_nodes retained + removed"
  shows "overview_success workspace retained (omitted + int removed) = Inr (pruned_answer workspace original omitted retained)"
  using assms by (simp add: overview_success_def make_navigation_def pruned_answer_def)

lemma minimum_overview_pruned:
  assumes "workspace \<noteq> []" and "0 \<le> omitted" and "files_prefix [f] original" and "cf_records f = [x]" and "chain x" and "matched x"
    and "total_nodes original = node_count x + removed"
  shows "minimum_overview_success_chars workspace original omitted = Inr (overview_length (pruned_answer workspace original omitted [f]))"
proof -
  obtain g gs where g: "original = g # gs" "f = g\<lparr>cf_records := [x]\<rparr>" "tree_prefix [x] (cf_records g)"
    using assms(3,4) by (cases original) auto
  then obtain y ys where y: "cf_records g = y # ys" by (cases "cf_records g") auto
  have "minimum_overview_symbol_prefix y = Some (x, node_count x)"
    using minimum_prefix_unique [of x y ys] g(3) y assms(5,6) by simp
  then show ?thesis
    using overview_success_pruned [OF assms(1,2), of original "[f]" removed] assms(7) g y
    by (simp add: minimum_overview_success_chars_def overview_length)
qed

definition shows_prefix :: "text_cp \<Rightarrow> overview_file list \<Rightarrow> int \<Rightarrow> int \<Rightarrow> call_tool_result \<Rightarrow> bool" where
  "shows_prefix workspace original omitted budget r \<longleftrightarrow>
     (\<exists>retained. files_prefix retained original \<and> overview_files_ok retained \<and> (retained = [] \<longleftrightarrow> original = []) \<and>
        r = render_success overview_dict (pruned_answer workspace original omitted retained) \<and>
        overview_length (pruned_answer workspace original omitted retained) \<le> budget)"

lemma overview_loop_cases:
  assumes "workspace \<noteq> []" and "0 \<le> omitted" and "retained \<noteq> []" and "overview_files_ok retained" and "files_prefix retained original"
    and "total_nodes original = total_nodes retained + removed"
  shows "(\<exists>r. bounded_overview_loop too_small workspace original omitted budget retained removed = Inr r \<and>
        shows_prefix workspace original omitted budget r) \<or>
    (\<exists>m. minimum_overview_success_chars workspace original omitted = Inr m \<and> budget < m \<and>
        bounded_overview_loop too_small workspace original omitted budget retained removed = too_small m)"
  using assms(3-6)
proof (induction "total_nodes retained" arbitrary: retained removed rule: less_induct)
  case less
  let ?n = "pruned_answer workspace original omitted retained"
  have orig: "original \<noteq> []" using less.prems(1,3) by (cases retained; cases original) auto
  note ok = overview_success_pruned [OF assms(1,2) less.prems(4)]
  obtain gs q where g: "remove_last_overview_node retained = (gs, q)" by fastforce
  note step = remove_last_overview_ok [OF less.prems(2,1) g]
  show ?case
  proof (cases "overview_length ?n \<le> budget")
    case True
    then have "bounded_overview_loop too_small workspace original omitted budget retained removed = Inr (render_success overview_dict ?n)"
      using less.prems(1) ok by (subst bounded_overview_loop.simps) (simp add: overview_length_def)
    then show ?thesis using True less.prems orig by (auto simp: shows_prefix_def)
  next
    case big: False
    have loop: "bounded_overview_loop too_small workspace original omitted budget retained removed =
        bounded_overview_loop too_small workspace original omitted budget gs (removed + q)"
      using less.prems(1) ok big step(1) g by (subst bounded_overview_loop.simps) (simp add: overview_length_def)
    have count: "total_nodes retained = total_nodes gs + q" using remove_last_overview_count [OF g] .
    show ?thesis
    proof (cases "gs = []")
      case True
      obtain f x where f: "retained = [f]" "cf_records f = [x]" "chain x" using step(4) [OF True] by blast
      then have "matched x" using less.prems(2) by (simp add: overview_files_ok_def)
      with f less.prems have "minimum_overview_success_chars workspace original omitted = Inr (overview_length ?n)"
        using minimum_overview_pruned [OF assms(1,2), of f original x removed] by simp
      with big True orig show ?thesis unfolding loop by (subst bounded_overview_loop.simps) simp
    next
      case False
      have "files_prefix gs original" using files_prefix_trans [OF step(3) less.prems(3)] .
      moreover have "total_nodes gs < total_nodes retained" using count step(1) by simp
      ultimately show ?thesis unfolding loop
        using less.hyps [of gs "removed + q"] False step(2) less.prems(4) count by simp
    qed
  qed
qed

lemma overview_loop_empty:
  assumes "workspace \<noteq> []" and "0 \<le> omitted"
  shows "bounded_overview_loop too_small workspace [] omitted budget [] 0 =
    (let n = pruned_answer workspace [] omitted [] in
     if overview_length n \<le> budget then Inr (render_success overview_dict n) else too_small (overview_length n))"
  using overview_success_pruned [OF assms, of "[]" "[]" 0]
  by (subst bounded_overview_loop.simps) (simp add: remove_last_overview_node_def overview_length_def overview_length [symmetric])

lemma overview_outcome:
  assumes "workspace \<noteq> []" and "0 \<le> omitted" and "overview_files_ok original"
  shows "(\<exists>r. bounded_overview_loop too_small workspace original omitted budget original 0 = Inr r \<and>
        shows_prefix workspace original omitted budget r) \<or>
    (\<exists>m. (if original = [] then m = overview_length (pruned_answer workspace [] omitted [])
          else minimum_overview_success_chars workspace original omitted = Inr m) \<and> budget < m \<and>
        bounded_overview_loop too_small workspace original omitted budget original 0 = too_small m)"
proof (cases "original = []")
  case True
  then show ?thesis using overview_loop_empty [OF assms(1,2), of too_small budget]
    by (auto simp: Let_def shows_prefix_def overview_files_ok_def)
next
  case False
  then show ?thesis using overview_loop_cases [OF assms(1,2) False assms(3), of original 0 too_small budget]
      files_prefix_append [of original "[]"] by simp
qed

lemma validate_groups_ok:
  "validated_overview_files files = Inr original \<Longrightarrow> original = sort_key cf_path files"
  by (auto simp: validated_overview_files_def Let_def map_sum_Inr)

lemma overview_ok_sort: "overview_files_ok (sort_key f files) = overview_files_ok files"
  by (simp add: overview_files_ok_def list_all_iff)

lemma render_bounded_overview_loop:
  assumes "render_bounded_overview sha256hex workspace files max_chars omitted w a g authorities = Inr r"
  shows "validate_max_answer_chars (OInt max_chars) = Inr max_chars \<and> 0 \<le> omitted \<and>
    validated_overview_files files = Inr (sort_key cf_path files) \<and>
    bounded_overview_loop (\<lambda>minimum. minimum_required_chars_result sha256hex minimum w a g authorities None None None max_chars)
      workspace (sort_key cf_path files) omitted max_chars (sort_key cf_path files) 0 = Inr r"
  using assms validate_groups_ok [of files] unfolding render_bounded_overview_def validate_max_answer_chars_def
  by (auto split: if_split_asm sum.split_asm)

lemma overview_empty_workspace: "bounded_overview_loop too_small [] original omitted budget original 0 \<noteq> Inr r"
  by (subst bounded_overview_loop.simps) (simp add: overview_success_def make_navigation_def)

text \<open>
  C33: A bounded overview is a prefix of the whole one.  The answer is at most
  \<open>max_answer_chars\<close> long; it shows, in path and document order, whole files and symbols up to
  a cut, so no child appears without all its ancestors, every ancestor kept only for its
  descendants still has a matching one, and the omitted count is exactly the number of nodes
  left out.  When not even the smallest such prefix fits, the answer names a minimum above
  the budget, and the same call with that minimum succeeds if it is at most the public maximum
  of 50000.  (The files are as the callers build them: none is empty and every structural
  ancestor has a match below it.)
\<close>

theorem overview_answer_is_prefix:
  assumes "render_bounded_overview sha256hex workspace files max_chars omitted w a g authorities = Inr r"
    and "overview_files_ok files"
  shows "text_length r \<le> max_chars \<and>
    (shows_prefix workspace (sort_key cf_path files) omitted max_chars r \<or>
     (\<exists>m. required_chars r = Some m \<and> max_chars < m \<and>
       (m \<le> MAX_MAX_ANSWER_CHARS \<longrightarrow>
         (\<exists>r'. render_bounded_overview sha256hex workspace files m omitted w a g authorities = Inr r' \<and>
           shows_prefix workspace (sort_key cf_path files) omitted m r'))))"
proof -
  define orig where "orig = sort_key cf_path files"
  define t where "t = (\<lambda>budget minimum. minimum_required_chars_result sha256hex minimum w a g authorities None None None budget)"
  have run: "validate_max_answer_chars (OInt max_chars) = Inr max_chars" "0 \<le> omitted" "validated_overview_files files = Inr orig"
      "bounded_overview_loop (t max_chars) workspace orig omitted max_chars orig 0 = Inr r"
    using render_bounded_overview_loop [OF assms(1)] by (simp_all add: orig_def t_def)
  have ws: "workspace \<noteq> []" using run(4) overview_empty_workspace by metis
  have ok: "overview_files_ok orig" using assms(2) by (simp add: orig_def overview_ok_sort)
  note outcome = overview_outcome [OF ws run(2) ok]
  from outcome [of "t max_chars" max_chars] run(4) consider
      "shows_prefix workspace orig omitted max_chars r"
    | m where "t max_chars m = Inr r" "max_chars < m"
        "if orig = [] then m = overview_length (pruned_answer workspace [] omitted [])
          else minimum_overview_success_chars workspace orig omitted = Inr m"
    by (auto simp del: if_split)
  then show ?thesis
  proof cases
    case 1
    then show ?thesis by (auto simp: orig_def [symmetric] shows_prefix_def overview_length_def)
  next
    case (2 m)
    have r: "required_chars r = Some m" "text_length r \<le> max_chars" using minimum_required_Inr [OF 2(1) [unfolded t_def]] by simp_all
    have "\<exists>r'. render_bounded_overview sha256hex workspace files m omitted w a g authorities = Inr r' \<and>
        shows_prefix workspace orig omitted m r'" if "m \<le> MAX_MAX_ANSWER_CHARS"
    proof -
      have "validate_max_answer_chars (OInt m) = Inr m"
        using run(1) 2(2) that by (auto simp: validate_max_answer_chars_def split: if_split_asm)
      then have "render_bounded_overview sha256hex workspace files m omitted w a g authorities =
          bounded_overview_loop (t m) workspace orig omitted m orig 0"
        using run(2,3) by (simp add: render_bounded_overview_def t_def)
      with outcome [of "t m" m] 2(3) show ?thesis by (auto split: if_splits)
    qed
    with r 2(2) show ?thesis by (auto simp: orig_def [symmetric])
  qed
qed

definition wit_file :: overview_file where
  "wit_file = \<lparr>cf_path = lit ''a.py'', cf_key = Symbols,
     cf_records = [Overview (lit ''C'') 5 [Overview (lit ''f'') 6 [] True] False],
     cf_language = None, cf_read_only = None, cf_sha256 = None\<rparr>"

theorem overview_answer_is_prefix_witness:
  "\<exists>r. render_bounded_overview zero_hash (lit ''/w'') [wit_file] 512 0 None None None [] = Inr r \<and> text_length r \<le> 512"
proof -
  let ?n = "\<lparr>nv_workspace = lit ''/w'', nv_files = [wit_file], nv_omitted = 0, nv_coverage = None\<rparr>"
  have "text_length (render_success overview_dict ?n) \<le> 512"
    by (simp add: text_length_def render_success_def render_payload_def canonical_json_def navigation_dict_def file_dict_def
      wit_file_def opt_field_def symbol_kind_def SYMBOL_KINDS_def quote_def escape_char_def show_int_def show_nat.simps lit_simps)
  then have r: "render_bounded_overview zero_hash (lit ''/w'') [wit_file] 512 0 None None None [] = Inr (render_success overview_dict ?n)"
    by (simp add: render_bounded_overview_def validate_max_answer_chars_def MIN_MAX_ANSWER_CHARS_def MAX_MAX_ANSWER_CHARS_def
      validated_overview_files_def wit_file_def bounded_overview_loop.simps overview_success_def make_navigation_def lit_simps)
  have "overview_files_ok [wit_file]" by (simp add: overview_files_ok_def wit_file_def)
  from overview_answer_is_prefix [OF r this] r show ?thesis by blast
qed

end
