(* ===== verification/Normalize.thy ===== *)
theory Normalize
  imports Envelopes "HOL-Library.Product_Lexorder" "HOL-Library.Sublist"
begin

text \<open>
  Normalisation of language-server symbols (\<open>lsp/normalize.py\<close>): document symbols with their
  name paths, and the narrowest symbol around a location.  Raw symbols are the JSON values the
  client received.  The adapter's callables (\<open>normalize_name\<close>, \<open>recover_containment\<close>,
  \<open>body_completeness\<close>) and the URL library (\<open>uri_path\<close>, the work of \<open>_file_uri_path\<close>) are
  parameters, as is the text \<open>other_str\<close> of a detail that is not a string.
\<close>

section \<open>Values\<close>

datatype norm_error =
    NegativeCoordinates
  | EndBeforeStart
  | LocationShape
  | PositionShape
  | RangeShape
  | EmptyName
  | NameNormalizedToEmpty
  | NoLocation text_cp
  | InvalidKind text_cp
  | ChildrenNotSequence text_cp
  | NonObjectChild text_cp

type_synonym position = "int \<times> int"

record lsp_range =
  rg_start :: position
  rg_end :: position

record location =
  loc_uri :: text_cp
  loc_range :: lsp_range
  loc_path :: "text_cp option"

datatype symbol = Symbol
  (sy_name: text_cp) (sy_segment: text_cp) (sy_path: "text_cp list") (sy_kind: int) (sy_location: location)
  (sy_selection: lsp_range) (sy_detail: "text_cp option") (sy_children: "symbol list") (sy_incomplete: "text_cp option")

definition make_range :: "position \<Rightarrow> position \<Rightarrow> norm_error + lsp_range" where
  "make_range s e =
     (if fst s < 0 \<or> snd s < 0 \<or> fst e < 0 \<or> snd e < 0 then Inl NegativeCoordinates
      else if e < s then Inl EndBeforeStart
      else Inr \<lparr>rg_start = s, rg_end = e\<rparr>)"

definition range_contains :: "lsp_range \<Rightarrow> position \<Rightarrow> bool" where
  "range_contains r p \<longleftrightarrow> rg_start r \<le> p \<and> p < rg_end r"

fun iter_depth_first :: "symbol \<Rightarrow> symbol list" where
  "iter_depth_first (Symbol n seg path k l sel d cs inc) =
     Symbol n seg path k l sel d cs inc # concat (map iter_depth_first cs)"

section \<open>Reading raw values\<close>

definition raw_get :: "string \<Rightarrow> json \<Rightarrow> json option" where
  "raw_get k j = (case j of JObj kvs \<Rightarrow> map_of kvs (lit k) | _ \<Rightarrow> None)"

definition is_mapping :: "json option \<Rightarrow> bool" where
  "is_mapping v = (case v of Some (JObj _) \<Rightarrow> True | _ \<Rightarrow> False)"

definition lsp_raw_position :: "json \<Rightarrow> norm_error + position" where
  "lsp_raw_position raw = (case (raw_get ''line'' raw, raw_get ''character'' raw) of
       (Some (JInt l), Some (JInt c)) \<Rightarrow> Inr (l, c) | _ \<Rightarrow> Inl PositionShape)"

definition lsp_raw_range :: "json \<Rightarrow> norm_error + lsp_range" where
  "lsp_raw_range raw =
     (if is_mapping (raw_get ''start'' raw) \<and> is_mapping (raw_get ''end'' raw)
      then (case lsp_raw_position (the (raw_get ''start'' raw)) of
              Inl e \<Rightarrow> Inl e
            | Inr s \<Rightarrow> (case lsp_raw_position (the (raw_get ''end'' raw)) of Inl e \<Rightarrow> Inl e | Inr t \<Rightarrow> make_range s t))
      else Inl RangeShape)"

definition normalize_location :: "(text_cp \<Rightarrow> text_cp option) \<Rightarrow> json \<Rightarrow> norm_error + location" where
  "normalize_location uri_path raw = (case raw_get ''uri'' raw of
       Some (JStr uri) \<Rightarrow>
         (if is_mapping (raw_get ''range'' raw)
          then map_sum id (\<lambda>r. \<lparr>loc_uri = uri, loc_range = r, loc_path = uri_path uri\<rparr>) (lsp_raw_range (the (raw_get ''range'' raw)))
          else Inl LocationShape)
     | _ \<Rightarrow> Inl LocationShape)"

section \<open>Document symbols\<close>

record normalizer =
  nz_uri_path :: "text_cp \<Rightarrow> text_cp option"
  nz_name_fn :: "text_cp \<Rightarrow> text_cp"
  nz_completeness :: "(json \<Rightarrow> text_cp option) option"
  nz_other_str :: "json \<Rightarrow> text_cp"
  nz_document_uri :: text_cp

fun normalized_names :: "(text_cp \<Rightarrow> text_cp) \<Rightarrow> json list \<Rightarrow> norm_error + text_cp list" where
  "normalized_names name_fn [] = Inr []"
| "normalized_names name_fn (raw # rest) = (case raw_get ''name'' raw of
     Some (JStr name) \<Rightarrow>
       if name = [] then Inl EmptyName
       else if name_fn name = [] then Inl NameNormalizedToEmpty
       else map_sum id (Cons (name_fn name)) (normalized_names name_fn rest)
   | _ \<Rightarrow> Inl EmptyName)"

definition segment :: "text_cp list \<Rightarrow> text_cp \<Rightarrow> nat \<Rightarrow> text_cp" where
  "segment names name overload =
     (if 1 < count_list names name then name @ lit ''['' @ lit (show_nat overload) @ lit '']'' else name)"

definition symbol_location :: "normalizer \<Rightarrow> text_cp \<Rightarrow> json \<Rightarrow> norm_error + location" where
  "symbol_location nz name raw =
     (if is_mapping (raw_get ''location'' raw) then normalize_location (nz_uri_path nz) (the (raw_get ''location'' raw))
      else if is_mapping (raw_get ''range'' raw)
      then map_sum id (\<lambda>r. \<lparr>loc_uri = nz_document_uri nz, loc_range = r, loc_path = nz_uri_path nz (nz_document_uri nz)\<rparr>)
             (lsp_raw_range (the (raw_get ''range'' raw)))
      else Inl (NoLocation name))"

definition symbol_selection :: "location \<Rightarrow> json \<Rightarrow> norm_error + lsp_range" where
  "symbol_selection l raw =
     (if is_mapping (raw_get ''selectionRange'' raw) then lsp_raw_range (the (raw_get ''selectionRange'' raw)) else Inr (loc_range l))"

definition symbol_kind_value :: "text_cp \<Rightarrow> json \<Rightarrow> norm_error + int" where
  "symbol_kind_value name raw = (case raw_get ''kind'' raw of Some (JInt k) \<Rightarrow> Inr k | _ \<Rightarrow> Inl (InvalidKind name))"

definition child_mappings :: "text_cp \<Rightarrow> json \<Rightarrow> norm_error + json list" where
  "child_mappings name raw = (case raw_get ''children'' raw of
       None \<Rightarrow> Inr []
     | Some (JArr cs) \<Rightarrow> if list_all (\<lambda>c. is_mapping (Some c)) cs then Inr cs else Inl (NonObjectChild name)
     | Some _ \<Rightarrow> Inl (ChildrenNotSequence name))"

definition symbol_detail :: "normalizer \<Rightarrow> json \<Rightarrow> text_cp option" where
  "symbol_detail nz raw = (case raw_get ''detail'' raw of
       None \<Rightarrow> None | Some JNull \<Rightarrow> None | Some (JStr s) \<Rightarrow> Some s | Some d \<Rightarrow> Some (nz_other_str nz d))"

lemma raw_get_smaller: "raw_get k raw = Some v \<Longrightarrow> size v < size raw"
proof (cases raw)
  case (JObj kvs)
  assume "raw_get k raw = Some v"
  with JObj have "(lit k, v) \<in> set kvs" by (simp add: raw_get_def map_of_SomeD)
  then have "size v < size_list (size_prod (\<lambda>_. 0) size) kvs + 1"
    using size_list_estimation' [of "(lit k, v)" kvs "size v" "size_prod (\<lambda>_. 0) size"] by simp
  with JObj show ?thesis by simp
qed (simp_all add: raw_get_def)

lemma child_mappings_smaller: "child_mappings name raw = Inr cs \<Longrightarrow> size_list size cs \<le> size raw"
proof (cases "raw_get ''children'' raw")
  case None
  assume "child_mappings name raw = Inr cs"
  with None show ?thesis by (cases raw) (auto simp: child_mappings_def)
next
  case (Some v)
  assume "child_mappings name raw = Inr cs"
  with Some have "v = JArr cs" by (auto simp: child_mappings_def split: json.splits if_splits)
  with raw_get_smaller [OF Some] show ?thesis by simp
qed

lemma zip_size: "size_list (\<lambda>p. size (fst p)) (zip raws names) \<le> size_list size raws"
  by (induction raws names rule: list_induct2') auto

text \<open>
  \<open>_normalize_siblings\<close>: first the names of all siblings, then one symbol after the other
  (\<open>normalize_rest\<close>, with \<open>seen\<close> the names already used), each with its children.
\<close>

function (sequential) normalize_siblings :: "normalizer \<Rightarrow> text_cp list \<Rightarrow> json list \<Rightarrow> norm_error + symbol list"
  and normalize_rest :: "normalizer \<Rightarrow> text_cp list \<Rightarrow> text_cp list \<Rightarrow> text_cp list \<Rightarrow> (json \<times> text_cp) list \<Rightarrow> norm_error + symbol list"
where
  "normalize_siblings nz parent raws = (case normalized_names (nz_name_fn nz) raws of
       Inl e \<Rightarrow> Inl e
     | Inr names \<Rightarrow> normalize_rest nz parent names [] (zip raws names))"
| "normalize_rest nz parent names seen [] = Inr []"
| "normalize_rest nz parent names seen ((raw, name) # rest) =
     (let seg = segment names name (count_list seen name); path = parent @ [seg] in
      case symbol_location nz name raw of Inl e \<Rightarrow> Inl e | Inr loc \<Rightarrow>
      (case symbol_selection loc raw of Inl e \<Rightarrow> Inl e | Inr sel \<Rightarrow>
      (case symbol_kind_value name raw of Inl e \<Rightarrow> Inl e | Inr kind \<Rightarrow>
      (case child_mappings name raw of Inl e \<Rightarrow> Inl e | Inr mappings \<Rightarrow>
      (case normalize_siblings nz path mappings of Inl e \<Rightarrow> Inl e | Inr children \<Rightarrow>
      (case normalize_rest nz parent names (seen @ [name]) rest of Inl e \<Rightarrow> Inl e | Inr symbols \<Rightarrow>
         Inr (Symbol name seg path kind loc sel (symbol_detail nz raw) children
                (case nz_completeness nz of None \<Rightarrow> None | Some f \<Rightarrow> f raw) # symbols)))))))"
  by pat_completeness auto
termination
proof (relation "measure (\<lambda>x. case x of Inl (_, _, raws) \<Rightarrow> 2 * size_list size raws + 1
    | Inr (_, _, _, _, ps) \<Rightarrow> 2 * size_list (\<lambda>p. size (fst p)) ps)")
  fix nz parent and raws :: "json list" and names :: "text_cp list"
  show "(Inr (nz, parent, names, [], zip raws names), Inl (nz, parent, raws)) \<in>
      measure (\<lambda>x. case x of Inl (_, _, raws) \<Rightarrow> 2 * size_list size raws + 1 | Inr (_, _, _, _, ps) \<Rightarrow> 2 * size_list (\<lambda>p. size (fst p)) ps)"
    using zip_size [of raws names] by simp
qed (auto dest: child_mappings_smaller)

declare normalize_siblings.simps [simp del] normalize_rest.simps [simp del]

definition normalize_document_symbols ::
    "normalizer \<Rightarrow> (symbol list \<Rightarrow> symbol list) option \<Rightarrow> json list option \<Rightarrow> norm_error + symbol list" where
  "normalize_document_symbols nz recover raw_symbols = (case raw_symbols of
       None \<Rightarrow> Inr []
     | Some [] \<Rightarrow> Inr []
     | Some raws \<Rightarrow> (case normalize_siblings nz [] raws of
           Inl e \<Rightarrow> Inl e
         | Inr roots \<Rightarrow> Inr (case recover of None \<Rightarrow> roots | Some f \<Rightarrow> f roots)))"

fun reparent :: "symbol \<Rightarrow> text_cp list \<Rightarrow> symbol" where
  "reparent (Symbol n seg path k l sel d cs inc) parent =
     Symbol n seg (parent @ [seg]) k l sel d (map (\<lambda>c. reparent c (parent @ [seg])) cs) inc"

section \<open>The narrowest symbol\<close>

definition range_size_key :: "lsp_range \<Rightarrow> int \<times> int \<times> int \<times> int" where
  "range_size_key r = (let (sl, sc) = rg_start r; (el, ec) = rg_end r in
     (el - sl, if el = sl then ec - sc else ec, - sl, - sc))"

text \<open>\<open>min(xs, key=f)\<close>: the first element with the least key.\<close>

definition min_by :: "('a \<Rightarrow> 'k::linorder) \<Rightarrow> 'a list \<Rightarrow> 'a" where
  "min_by f xs = foldl (\<lambda>b x. if f x < f b then x else b) (hd xs) (tl xs)"

definition containing_symbol :: "symbol list \<Rightarrow> location \<Rightarrow> symbol option" where
  "containing_symbol symbols loc =
     (let candidates = filter (\<lambda>s. loc_uri (sy_location s) = loc_uri loc \<and>
                          range_contains (loc_range (sy_location s)) (rg_start (loc_range loc)))
                        (concat (map iter_depth_first symbols)) in
      if candidates = [] then None else Some (min_by (\<lambda>s. range_size_key (loc_range (sy_location s))) candidates))"

section \<open>Narrowest\<close>

definition strictly_inside :: "lsp_range \<Rightarrow> lsp_range \<Rightarrow> bool" where
  "strictly_inside t s \<longleftrightarrow> rg_start s \<le> rg_start t \<and> rg_end t \<le> rg_end s \<and> t \<noteq> s"

lemma strictly_inside_key:
  assumes "strictly_inside t s" and "rg_start t \<le> rg_end t"
  shows "range_size_key t < range_size_key s"
proof -
  obtain al ac where a: "rg_start t = (al, ac)" by fastforce
  obtain bl bc where b: "rg_end t = (bl, bc)" by fastforce
  obtain cl cc where c: "rg_start s = (cl, cc)" by fastforce
  obtain dl dc where d: "rg_end s = (dl, dc)" by fastforce
  have ne: "\<not> (al = cl \<and> ac = cc \<and> bl = dl \<and> bc = dc)"
    using assms(1) a b c d by (auto simp: strictly_inside_def intro: lsp_range.equality)
  have le: "cl < al \<or> (cl = al \<and> cc \<le> ac)" "bl < dl \<or> (bl = dl \<and> bc \<le> dc)" "al < bl \<or> (al = bl \<and> ac \<le> bc)"
    using assms a b c d by (auto simp: strictly_inside_def)
  have "bl - al < dl - cl \<or> (al = cl \<and> bl = dl)" using le by linarith
  then show ?thesis
  proof
    assume "bl - al < dl - cl"
    then show ?thesis by (simp add: range_size_key_def a b c d)
  next
    assume "al = cl \<and> bl = dl"
    with ne le show ?thesis by (auto simp: range_size_key_def a b c d)
  qed
qed

lemma foldl_min:
  "foldl (\<lambda>b x. if f x < f b then x else b) b xs \<in> insert b (set xs) \<and>
   (\<forall>x\<in>insert b (set xs). (f (foldl (\<lambda>b x. if f x < f b then x else b) b xs) :: 'k::linorder) \<le> f x)"
proof (induction xs arbitrary: b)
  case (Cons x xs)
  from Cons [of "if f x < f b then x else b"] show ?case by (auto split: if_splits)
qed simp

lemma min_by_least:
  assumes "xs \<noteq> []" shows "min_by f xs \<in> set xs" and "x \<in> set xs \<Longrightarrow> f (min_by f xs) \<le> f x"
  using assms foldl_min [of f "hd xs" "tl xs"] by (cases xs; auto simp: min_by_def)+

definition candidate :: "location \<Rightarrow> symbol \<Rightarrow> bool" where
  "candidate loc s \<longleftrightarrow> loc_uri (sy_location s) = loc_uri loc \<and> range_contains (loc_range (sy_location s)) (rg_start (loc_range loc))"

definition forest :: "symbol list \<Rightarrow> symbol list" where
  "forest symbols = concat (map iter_depth_first symbols)"

lemma containing_symbol_alt:
  "containing_symbol symbols loc = (let cs = filter (candidate loc) (forest symbols) in
     if cs = [] then None else Some (min_by (\<lambda>s. range_size_key (loc_range (sy_location s))) cs))"
  by (simp add: containing_symbol_def candidate_def [abs_def] forest_def)

text \<open>
  C37: \<open>containing_symbol\<close> finds the narrowest symbol around a position: it answers nothing
  exactly when no symbol of the tree, at any depth, contains the position in the same
  document, and otherwise a symbol that contains it and inside whose range no other
  containing symbol's range lies.
\<close>

theorem containing_symbol_narrowest:
  "case containing_symbol symbols loc of
     None \<Rightarrow> filter (candidate loc) (forest symbols) = []
   | Some s \<Rightarrow> s \<in> set (forest symbols) \<and> candidate loc s \<and>
       {t \<in> set (forest symbols). candidate loc t \<and> strictly_inside (loc_range (sy_location t)) (loc_range (sy_location s))} = {}"
proof (cases "filter (candidate loc) (forest symbols) = []")
  case True
  then show ?thesis by (simp add: containing_symbol_alt)
next
  case False
  let ?f = "\<lambda>s. range_size_key (loc_range (sy_location s))"
  let ?s = "min_by ?f (filter (candidate loc) (forest symbols))"
  have s: "containing_symbol symbols loc = Some ?s"
    using False by (simp add: containing_symbol_alt)
  note least = min_by_least [OF False, where f = ?f]
  have "\<not> strictly_inside (loc_range (sy_location t)) (loc_range (sy_location ?s))"
    if "t \<in> set (forest symbols)" "candidate loc t" for t
  proof
    assume "strictly_inside (loc_range (sy_location t)) (loc_range (sy_location ?s))"
    moreover have "rg_start (loc_range (sy_location t)) \<le> rg_end (loc_range (sy_location t))"
      using that(2) by (auto simp: candidate_def range_contains_def)
    ultimately have "?f t < ?f ?s" by (rule strictly_inside_key)
    with least(2) [of t] that show False by simp
  qed
  with least(1) show ?thesis unfolding s by auto
qed

section \<open>Name paths\<close>

fun tree_ok :: "text_cp list \<Rightarrow> symbol \<Rightarrow> bool" where
  "tree_ok parent (Symbol n seg path k l sel d cs inc) \<longleftrightarrow>
     path = parent @ [seg] \<and> distinct (map sy_segment cs) \<and> list_all (tree_ok path) cs"

lemma tree_ok_path: "tree_ok parent s \<Longrightarrow> sy_path s = parent @ [sy_segment s]"
  by (cases s) simp

lemma tree_ok_prefix: "tree_ok parent s \<Longrightarrow> t \<in> set (iter_depth_first s) \<Longrightarrow> prefix (parent @ [sy_segment s]) (sy_path t)"
proof (induction s arbitrary: parent)
  case (Symbol n seg path k l sel d cs inc)
  show ?case
  proof (cases "t = Symbol n seg path k l sel d cs inc")
    case True
    with Symbol.prems show ?thesis by simp
  next
    case False
    with Symbol.prems obtain c where c: "c \<in> set cs" "t \<in> set (iter_depth_first c)" by auto
    with Symbol.prems have "tree_ok path c" by (auto simp: list_all_iff)
    with Symbol.IH [OF c(1) this c(2)] Symbol.prems(1) show ?thesis by (auto simp: prefix_def)
  qed
qed

lemma forest_distinct:
  assumes "distinct (map sy_segment ss)" and "list_all (tree_ok parent) ss"
    and "\<And>s. s \<in> set ss \<Longrightarrow> distinct (map sy_path (iter_depth_first s))"
  shows "distinct (map sy_path (forest ss))"
  using assms
proof (induction ss)
  case (Cons s ss)
  have "sy_path t \<noteq> sy_path u" if "t \<in> set (iter_depth_first s)" "u \<in> set (forest ss)" for t u
  proof
    assume eq: "sy_path t = sy_path u"
    from that(2) obtain v where v: "v \<in> set ss" "u \<in> set (iter_depth_first v)" by (auto simp: forest_def)
    have "prefix (parent @ [sy_segment s]) (sy_path t)" using Cons.prems(2) that(1) by (auto intro: tree_ok_prefix)
    moreover have "prefix (parent @ [sy_segment v]) (sy_path t)"
      using Cons.prems(2) v by (auto simp: eq list_all_iff intro: tree_ok_prefix)
    ultimately have "sy_segment s = sy_segment v" using prefix_same_cases by fastforce
    with v Cons.prems(1) show False by auto
  qed
  then show ?case using Cons by (fastforce simp: forest_def)
qed (simp add: forest_def)

lemma tree_distinct: "tree_ok parent s \<Longrightarrow> distinct (map sy_path (iter_depth_first s))"
proof (induction s arbitrary: parent)
  case (Symbol n seg path k l sel d cs inc)
  have ok: "list_all (tree_ok path) cs" "distinct (map sy_segment cs)" using Symbol.prems by auto
  have "distinct (map sy_path (forest cs))"
    using ok Symbol.IH by (intro forest_distinct [OF ok(2,1)]) (auto simp: list_all_iff)
  moreover have "path \<noteq> sy_path t" if "t \<in> set (forest cs)" for t
  proof -
    from that obtain c where "c \<in> set cs" "t \<in> set (iter_depth_first c)" by (auto simp: forest_def)
    with ok tree_ok_prefix have "prefix (path @ [sy_segment c]) (sy_path t)" by (metis list_all_iff)
    then show ?thesis by (auto simp: prefix_def)
  qed
  ultimately show ?case by (auto simp: forest_def)
qed

section \<open>Segments\<close>

definition nth_segment :: "text_cp list \<Rightarrow> nat \<Rightarrow> text_cp" where
  "nth_segment names i = segment names (names ! i) (count_list (take i names) (names ! i))"

lemma bracket_split:
  assumes "91 \<notin> set m" and "91 \<notin> set n" and "m @ 91 # a = n @ (91 :: nat) # b" shows "m = n \<and> a = b"
  using assms
proof (induction m arbitrary: n)
  case Nil
  then show ?case by (cases n) auto
next
  case (Cons x m)
  then show ?case by (cases n) auto
qed

lemma segment_inject:
  assumes "segment names m i = segment names n j" and "91 \<notin> set m" and "91 \<notin> set n"
  shows "m = n \<and> (1 < count_list names m \<longrightarrow> i = j)"
  using assms bracket_split [of m n "lit (show_nat i) @ [93]" "lit (show_nat j) @ [93]"]
  by (auto simp: segment_def lit_simps dest: show_nat_inject split: if_splits)

lemma count_take:
  assumes "i < j" and "j \<le> length xs" shows "count_list (take i xs) (xs ! i) < count_list (take j xs) (xs ! i)"
proof -
  obtain k where k: "j = i + Suc k" using assms(1) less_imp_Suc_add by fastforce
  have "drop i xs = xs ! i # drop (Suc i) xs" using assms by (simp add: Cons_nth_drop_Suc)
  then have "take j xs = take i xs @ xs ! i # take k (drop (Suc i) xs)"
    unfolding k take_add by simp
  then show ?thesis by (simp add: count_list_append)
qed

lemma count_twice: "i < j \<Longrightarrow> j < length xs \<Longrightarrow> xs ! i = xs ! j \<Longrightarrow> 1 < count_list xs (xs ! i)"
proof -
  assume *: "i < j" "j < length xs" "xs ! i = xs ! j"
  have "count_list (take i xs) (xs ! i) < count_list (take j xs) (xs ! i)" using * count_take [of i j xs] by simp
  also have "\<dots> < count_list (take (length xs) xs) (xs ! i)" using * count_take [of j "length xs" xs] by simp
  finally show ?thesis using * count_take [of i j xs] count_take [of j "length xs" xs] by simp
qed

lemma segments_distinct:
  assumes "\<And>n. n \<in> set names \<Longrightarrow> 91 \<notin> set n"
  shows "distinct (map (nth_segment names) [0..<length names])"
proof -
  have "nth_segment names i \<noteq> nth_segment names j" if ij: "i < j" "j < length names" for i j
  proof
    assume "nth_segment names i = nth_segment names j"
    then have eq: "names ! i = names ! j"
      "1 < count_list names (names ! i) \<longrightarrow> count_list (take i names) (names ! i) = count_list (take j names) (names ! j)"
      unfolding nth_segment_def using segment_inject assms ij by (metis nth_mem less_trans)+
    with ij count_twice [of i j names] count_take [of i j names] show False by simp
  qed
  then have "inj_on (nth_segment names) {0..<length names}"
    by (intro inj_onI) (metis atLeastLessThan_iff linorder_neqE_nat)
  then show ?thesis by (simp add: distinct_map)
qed

lemma normalized_names_length: "normalized_names f raws = Inr names \<Longrightarrow> length names = length raws"
  by (induction raws arbitrary: names) (auto simp: map_sum_Inr split: option.splits json.splits if_splits)

definition plain_names :: "symbol list \<Rightarrow> bool" where
  "plain_names ss \<longleftrightarrow> list_all (\<lambda>s. 91 \<notin> set (sy_name s)) (forest ss)"

lemma plain_names_Cons:
  "plain_names (Symbol n seg path k l sel d cs inc # ss) \<longleftrightarrow> 91 \<notin> set n \<and> plain_names cs \<and> plain_names ss"
  by (auto simp: plain_names_def forest_def)

lemma plain_names_roots: "plain_names ss \<Longrightarrow> s \<in> set ss \<Longrightarrow> 91 \<notin> set (sy_name s)"
proof (induction ss)
  case (Cons x ss)
  then show ?case by (cases x) (auto simp: plain_names_Cons)
qed simp

lemma normalized_ok:
  "normalize_siblings nz parent raws = Inr ss \<Longrightarrow> plain_names ss \<Longrightarrow> distinct (map sy_segment ss) \<and> list_all (tree_ok parent) ss"
  "normalize_rest nz parent names seen ps = Inr ss \<Longrightarrow> plain_names ss \<Longrightarrow> names = seen @ map snd ps \<Longrightarrow>
   map sy_segment ss = map (nth_segment names) [length seen..<length names] \<and> map sy_name ss = map snd ps \<and>
   list_all (tree_ok parent) ss"
proof (induction nz parent raws and nz parent names seen ps arbitrary: ss and ss rule: normalize_siblings_normalize_rest.induct)
  case (1 nz parent raws)
  obtain names where names: "normalized_names (nz_name_fn nz) raws = Inr names"
    and rest: "normalize_rest nz parent names [] (zip raws names) = Inr ss"
    using 1(2) by (auto simp: normalize_siblings.simps split: sum.splits)
  have "names = map snd (zip raws names)" using normalized_names_length [OF names] by simp
  with 1(1) [OF names rest 1(3)] have ss: "map sy_segment ss = map (nth_segment names) [0..<length names]"
      "map sy_name ss = names" "list_all (tree_ok parent) ss" by auto
  have "distinct (map (nth_segment names) [0..<length names])"
    using plain_names_roots [OF 1(3)] ss(2) by (intro segments_distinct) auto
  with ss show ?case by simp
next
  case (2 nz parent names seen)
  then show ?case by (simp add: normalize_rest.simps)
next
  case (3 nz parent names seen raw name rest)
  let ?seg = "segment names name (count_list seen name)"
  obtain loc sel kind ms children symbols where
    l: "symbol_location nz name raw = Inr loc" "symbol_selection loc raw = Inr sel" "symbol_kind_value name raw = Inr kind"
      "child_mappings name raw = Inr ms" and c: "normalize_siblings nz (parent @ [?seg]) ms = Inr children"
    and s: "normalize_rest nz parent names (seen @ [name]) rest = Inr symbols"
    and ss: "ss = Symbol name ?seg (parent @ [?seg]) kind loc sel (symbol_detail nz raw) children
                (case nz_completeness nz of None \<Rightarrow> None | Some f \<Rightarrow> f raw) # symbols"
    using 3(3) by (auto simp: normalize_rest.simps Let_def split: sum.splits)
  have ch: "distinct (map sy_segment children) \<and> list_all (tree_ok (parent @ [?seg])) children"
    using 3(1) [OF refl refl l c] 3(4) ss by (simp add: plain_names_Cons)
  have rs: "map sy_segment symbols = map (nth_segment names) [length (seen @ [name])..<length names] \<and>
      map sy_name symbols = map snd rest \<and> list_all (tree_ok parent) symbols"
    using 3(2) [OF refl refl l c s] 3(4,5) ss by (simp add: plain_names_Cons)
  have "nth_segment names (length seen) = ?seg" using 3(5) by (simp add: nth_segment_def)
  moreover have "[length seen..<length names] = length seen # [Suc (length seen)..<length names]"
    using 3(5) by (intro upt_conv_Cons) simp
  ultimately show ?case using ch rs ss by simp
qed

lemma reparent_segment [simp]: "sy_segment (reparent s p) = sy_segment s"
  by (cases s) simp

lemma reparent_ok: "tree_ok parent s \<Longrightarrow> tree_ok p (reparent s p)"
  by (induction s arbitrary: parent p) (auto simp: list_all_iff comp_def)

text \<open>
  C35: A name path identifies one symbol of a document.  When the normalised names contain no
  bracket, the paths of all symbols of a document, at every depth, are pairwise different
  (siblings that share a name get an index), and every path is the path of the parent
  followed by the symbol's own segment.
\<close>

theorem name_paths_unique:
  assumes "normalize_document_symbols nz None (Some raws) = Inr symbols" and "plain_names symbols"
  shows "distinct (map sy_path (forest symbols)) \<and> list_all (tree_ok []) symbols"
proof (cases raws)
  case Nil
  with assms(1) show ?thesis by (simp add: normalize_document_symbols_def forest_def)
next
  case (Cons x xs)
  with assms(1) have "normalize_siblings nz [] raws = Inr symbols"
    by (auto simp: normalize_document_symbols_def split: sum.splits)
  with normalized_ok(1) assms(2) have ok: "distinct (map sy_segment symbols)" "list_all (tree_ok []) symbols" by blast+
  with forest_distinct [OF ok] tree_distinct show ?thesis by (auto simp: list_all_iff)
qed

definition wit_raw :: json where
  "wit_raw = JObj [(lit ''name'', JStr (lit ''f'')), (lit ''kind'', JInt 12), (lit ''range'', JObj
     [(lit ''start'', JObj [(lit ''line'', JInt 3), (lit ''character'', JInt 0)]),
      (lit ''end'', JObj [(lit ''line'', JInt 4), (lit ''character'', JInt 2)])])]"

definition wit_nz :: normalizer where
  "wit_nz = \<lparr>nz_uri_path = (\<lambda>_. None), nz_name_fn = id, nz_completeness = None, nz_other_str = (\<lambda>_. []), nz_document_uri = lit ''u''\<rparr>"

definition wit_symbol :: "text_cp \<Rightarrow> symbol" where
  "wit_symbol seg = Symbol (lit ''f'') seg [seg] 12
     \<lparr>loc_uri = lit ''u'', loc_range = \<lparr>rg_start = (3, 0), rg_end = (4, 2)\<rparr>, loc_path = None\<rparr> \<lparr>rg_start = (3, 0), rg_end = (4, 2)\<rparr> None [] None"

lemma wit_normalized:
  "normalize_document_symbols wit_nz None (Some [wit_raw, wit_raw]) = Inr [wit_symbol (lit ''f[0]''), wit_symbol (lit ''f[1]'')]"
  by (simp add: normalize_document_symbols_def wit_raw_def wit_nz_def wit_symbol_def normalize_siblings.simps normalize_rest.simps
    symbol_location_def symbol_selection_def symbol_kind_value_def child_mappings_def symbol_detail_def raw_get_def is_mapping_def
    lsp_raw_range_def lsp_raw_position_def make_range_def segment_def show_nat.simps digit_char_def Let_def lit_simps)

theorem name_paths_unique_witness:
  "distinct (map sy_path (forest [wit_symbol (lit ''f[0]''), wit_symbol (lit ''f[1]'')]))"
proof -
  have "plain_names [wit_symbol (lit ''f[0]''), wit_symbol (lit ''f[1]'')]"
    by (simp add: plain_names_def forest_def wit_symbol_def lit_simps)
  from name_paths_unique [OF wit_normalized this] show ?thesis by simp
qed

end
