(* ===== verification/Navigation.thy ===== *)
theory Navigation
  imports Positions Normalize Compact
begin

text \<open>
  Document-scoped navigation (\<open>tools/navigation.py\<close>): one authorised document with its
  normalised symbols, the name-path patterns, \<open>find_symbol\<close> and \<open>get_symbols_overview\<close> with their
  size bounds, and the search over several documents.  The provider that loads a document, the
  hash function, and the two parameters of normalisation are arguments.
\<close>

section \<open>Documents\<close>

record document_symbol_input =
  di_relative_path :: text_cp
  di_uri :: text_cp
  di_snapshot :: file_snapshot
  di_raw_symbols :: "json list option"
  di_encoding :: position_encoding
  di_workspace :: "workspace_md option"
  di_adapter :: "adapter_md option"
  di_generations :: "generation_md option"
  di_completeness :: "(json \<Rightarrow> text_cp option) option"

definition document_input_ok :: "document_symbol_input \<Rightarrow> bool" where
  "document_input_ok i \<longleftrightarrow> di_relative_path i \<noteq> [] \<and> hd (di_relative_path i) \<noteq> 47 \<and> di_uri i \<noteq> []"

record document_navigation =
  dn_relative_path :: text_cp
  dn_uri :: text_cp
  dn_snapshot :: file_snapshot
  dn_mapper :: position_mapper
  dn_symbols :: "symbol list"
  dn_workspace :: "workspace_md option"
  dn_adapter :: "adapter_md option"
  dn_generations :: "generation_md option"

text \<open>What the code takes from libraries: SHA-256, URL paths, the text of odd details.\<close>

record libraries =
  lb_sha256 :: "nat list \<Rightarrow> text_cp"
  lb_uri_path :: "text_cp \<Rightarrow> text_cp option"
  lb_other_str :: "json \<Rightarrow> text_cp"

definition from_input :: "libraries \<Rightarrow> document_symbol_input \<Rightarrow> norm_error + document_navigation" where
  "from_input lib value =
     (case normalize_document_symbols
             \<lparr>nz_uri_path = lb_uri_path lib, nz_name_fn = id, nz_completeness = di_completeness value,
              nz_other_str = lb_other_str lib, nz_document_uri = di_uri value\<rparr> None (di_raw_symbols value) of
        Inl e \<Rightarrow> Inl e
      | Inr symbols \<Rightarrow>
          Inr \<lparr>dn_relative_path = di_relative_path value, dn_uri = di_uri value, dn_snapshot = di_snapshot value,
               dn_mapper = \<lparr>pm_snapshot = di_snapshot value, pm_encoding = di_encoding value\<rparr>, dn_symbols = symbols,
               dn_workspace = di_workspace value, dn_adapter = di_adapter value, dn_generations = di_generations value\<rparr>)"

definition document_sha256 :: "libraries \<Rightarrow> document_navigation \<Rightarrow> text_cp" where
  "document_sha256 lib d = lb_sha256 lib (fs_raw_bytes (dn_snapshot d))"

datatype tool_envelope = Success success_envelope | Failure error_envelope

datatype nav_exn = NavPosition position_error | NavEnvelope env_exn

fun obj_of_json :: "json \<Rightarrow> pyobj" where
  "obj_of_json JNull = ONone"
| "obj_of_json (JBool b) = OBool b"
| "obj_of_json (JInt i) = OInt i"
| "obj_of_json (JStr s) = OStr s"
| "obj_of_json (JFloat l) = OFloat l"
| "obj_of_json (JArr xs) = OSequence (map obj_of_json xs)"
| "obj_of_json (JObj kvs) = OMapping (map (\<lambda>(k, v). (Some k, obj_of_json v)) kvs)"

definition nav_error ::
    "error_code \<Rightarrow> json \<Rightarrow> workspace_md option \<Rightarrow> adapter_md option \<Rightarrow> generation_md option \<Rightarrow> nav_exn + tool_envelope" where
  "nav_error code details w a g = (case env_error code None (Some (obj_of_json details)) w a g of
       Inl e \<Rightarrow> Inl (NavEnvelope e) | Inr e \<Rightarrow> Inr (Failure e))"

definition nav_success ::
    "json \<Rightarrow> workspace_md option \<Rightarrow> adapter_md option \<Rightarrow> generation_md option \<Rightarrow> truncation_md option \<Rightarrow> nav_exn + tool_envelope" where
  "nav_success data w a g t = (case make_success (obj_of_json data) w a g t of
       Inl e \<Rightarrow> Inl (NavEnvelope e) | Inr e \<Rightarrow> Inr (Success e))"

text \<open>\<open>TruncationMetadata(omitted > 0, omitted)\<close>\<close>

definition truncation :: "nat \<Rightarrow> truncation_md" where
  "truncation omitted = \<lparr>tm_truncated = 0 < omitted, tm_omitted = int omitted\<rparr>"

text \<open>\<open>_canonical_json\<close>: the keys of every mapping in order.\<close>

fun sort_keys :: "json \<Rightarrow> json" where
  "sort_keys (JObj kvs) = JObj (sort_key fst (map (\<lambda>(k, v). (k, sort_keys v)) kvs))"
| "sort_keys (JArr xs) = JArr (map sort_keys xs)"
| "sort_keys j = j"

definition sorted_json :: "json \<Rightarrow> text_cp" where
  "sorted_json j = dumps (sort_keys j)"

section \<open>Name paths\<close>

datatype name_path_arg = NPText text_cp | NPSequence "text_cp option list" | NPOther

record name_path_pattern =
  np_components :: "text_cp list"
  np_absolute :: bool

definition expression :: "name_path_pattern \<Rightarrow> text_cp" where
  "expression p = (if np_absolute p then lit ''/'' else []) @ join_slash (np_components p)"

definition strip_slashes :: "text_cp \<Rightarrow> text_cp" where
  "strip_slashes s = rev (dropWhile (\<lambda>c. c = 47) (rev (dropWhile (\<lambda>c. c = 47) s)))"

definition parse_name_path :: "name_path_arg \<Rightarrow> name_path_pattern option" where
  "parse_name_path v = (case v of
       NPText s \<Rightarrow>
         (let parts = split_slash (strip_slashes s) in
          if [] \<in> set parts then None else Some \<lparr>np_components = parts, np_absolute = s \<noteq> [] \<and> hd s = 47\<rparr>)
     | NPSequence ps \<Rightarrow>
         if ps = [] \<or> list_ex (\<lambda>p. p = None \<or> p = Some []) ps then None
         else Some \<lparr>np_components = map the ps, np_absolute = False\<rparr>
     | NPOther \<Rightarrow> None)"

definition matches_name_path :: "symbol \<Rightarrow> name_path_pattern \<Rightarrow> bool \<Rightarrow> bool" where
  "matches_name_path s p substring =
     (let comps = sy_path s; pats = np_components p; n = length pats in
      if length comps < n then False
      else if np_absolute p \<and> length comps \<noteq> n then False
      else list_all (\<lambda>(i, e, a). if substring \<and> i = n - 1 then contains e a else e = a)
             (zip [0..<n] (zip pats (drop (length comps - n) comps))))"

definition valid_relative_path :: "text_cp \<Rightarrow> bool" where
  "valid_relative_path v \<longleftrightarrow> v \<noteq> [] \<and> hd v \<noteq> 47 \<and> 92 \<notin> set v \<and>
     list_all (\<lambda>part. part \<notin> {[], lit ''.'', lit ''..''}) (split_slash v)"

definition valid_relative_scope :: "text_cp \<Rightarrow> bool" where
  "valid_relative_scope v \<longleftrightarrow> v = lit ''.'' \<or> valid_relative_path (rev (dropWhile (\<lambda>c. c = 47) (rev v)))"

definition symbol_order_key :: "symbol \<Rightarrow> int \<times> int \<times> text_cp list" where
  "symbol_order_key s = (fst (rg_start (loc_range (sy_location s))), snd (rg_start (loc_range (sy_location s))), sy_path s)"

definition name_path_text :: "symbol \<Rightarrow> text_cp" where
  "name_path_text s = join_slash (sy_path s)"

definition lsp_position_of :: "position \<Rightarrow> lsp_position" where
  "lsp_position_of p = \<lparr>lsp_line = fst p, lsp_character = snd p\<rparr>"

section \<open>Rendered symbols\<close>

definition position_json :: "public_position \<Rightarrow> json" where
  "position_json p = JObj [(lit ''line'', JInt (pp_line p)), (lit ''column'', JInt (pp_column p)),
     (lit ''text_offset'', JInt (int (pp_text_offset p))), (lit ''byte_offset'', JInt (int (pp_byte_offset p)))]"

definition source_range :: "position_mapper \<Rightarrow> lsp_range \<Rightarrow> position_error + json" where
  "source_range m r = map_sum id (\<lambda>(a, b). JObj [(lit ''start'', position_json a), (lit ''end'', position_json b)])
     (render_range m (lsp_position_of (rg_start r)) (lsp_position_of (rg_end r)))"

definition source_body :: "position_mapper \<Rightarrow> lsp_range \<Rightarrow> position_error + text_cp" where
  "source_body m r = render_text m (lsp_position_of (rg_start r)) (lsp_position_of (rg_end r))"

definition symbol_data :: "document_navigation \<Rightarrow> symbol \<Rightarrow> bool \<Rightarrow> bool \<Rightarrow> position_error + (text_cp \<times> json) list" where
  "symbol_data d s include_body include_info =
     (case source_range (dn_mapper d) (loc_range (sy_location s)) of
        Inl e \<Rightarrow> Inl e
      | Inr rng \<Rightarrow>
          (case (if include_info
                 then map_sum id (\<lambda>sel. [(lit ''info'', JObj [(lit ''detail'', opt_json JStr (sy_detail s)),
                          (lit ''selection_range'', sel)])]) (source_range (dn_mapper d) (sy_selection s))
                 else Inr []) of
             Inl e \<Rightarrow> Inl e
           | Inr info \<Rightarrow>
               (case (if include_body
                      then map_sum id (\<lambda>b. [(lit ''body'', JStr b), (lit ''has_children'', JBool (sy_children s \<noteq> []))])
                             (source_body (dn_mapper d) (loc_range (sy_location s)))
                      else Inr []) of
                  Inl e \<Rightarrow> Inl e
                | Inr body \<Rightarrow> Inr ([(lit ''name'', JStr (sy_name s)), (lit ''name_path'', JStr (name_path_text s)),
                    (lit ''kind'', JInt (sy_kind s)), (lit ''range'', rng)] @ info @ body))))"

definition invalid_bounds :: "document_navigation \<Rightarrow> nav_exn + tool_envelope" where
  "invalid_bounds d = nav_error INVALID_INPUT (JObj [(lit ''field'', JStr (lit ''max_depth, max_answer_chars, or name_path''))])
     (dn_workspace d) (dn_adapter d) (dn_generations d)"

definition incomplete_body_error :: "document_navigation \<Rightarrow> symbol \<Rightarrow> nav_exn + tool_envelope" where
  "incomplete_body_error d s = nav_error UNSUPPORTED
     (JObj [(lit ''operation'', JStr (lit ''find_symbol'')), (lit ''reason'', JStr (lit ''incomplete_assignment_range'')),
        (lit ''recovery_reason'', opt_json JStr (sy_incomplete s)), (lit ''relative_path'', JStr (dn_relative_path d)),
        (lit ''name_path'', JStr (name_path_text s))])
     (dn_workspace d) (dn_adapter d) (dn_generations d)"

text \<open>The loops that append items while the rendered whole stays in its bound.\<close>

fun keep_while :: "('a list \<Rightarrow> bool) \<Rightarrow> 'a list \<Rightarrow> 'a list \<Rightarrow> 'a list" where
  "keep_while fits kept [] = kept"
| "keep_while fits kept (x # xs) = (if fits (kept @ [x]) then keep_while fits (kept @ [x]) xs else kept)"

definition bounded_candidates :: "json list \<Rightarrow> int \<Rightarrow> json list \<times> nat" where
  "bounded_candidates candidates max_chars =
     (let kept = keep_while (\<lambda>xs. int (length (sorted_json (JObj [(lit ''candidates'', JArr xs)]))) \<le> max_chars) [] candidates
      in (kept, length candidates - length kept))"

section \<open>Queries\<close>

definition name_path_error :: "error_code \<Rightarrow> document_navigation \<Rightarrow> name_path_pattern \<Rightarrow> (text_cp \<times> json) list \<Rightarrow> nav_exn + tool_envelope" where
  "name_path_error code d p extra = nav_error code
     (JObj ([(lit ''relative_path'', JStr (dn_relative_path d)), (lit ''name_path'', JStr (expression p))] @ extra))
     (dn_workspace d) (dn_adapter d) (dn_generations d)"

definition find_matches :: "document_navigation \<Rightarrow> name_path_pattern \<Rightarrow> bool \<Rightarrow> symbol list" where
  "find_matches d p substring =
     sort_key symbol_order_key (filter (\<lambda>s. matches_name_path s p substring) (concat (map iter_depth_first (dn_symbols d))))"

definition ambiguous_error :: "document_navigation \<Rightarrow> name_path_pattern \<Rightarrow> symbol list \<Rightarrow> int \<Rightarrow> nav_exn + tool_envelope" where
  "ambiguous_error d p found budget =
     (case seq_sum (map (\<lambda>s. symbol_data d s False False) found) of
        Inl e \<Rightarrow> Inl (NavPosition e)
      | Inr datas \<Rightarrow>
          (case bounded_candidates (map JObj datas) budget of (candidates, omitted) \<Rightarrow>
             name_path_error AMBIGUOUS_SYMBOL d p
               [(lit ''candidates'', JArr candidates), (lit ''truncated'', JBool (0 < omitted)),
                (lit ''omitted_count'', JInt (int omitted))]))"

definition find_symbol ::
    "libraries \<Rightarrow> document_navigation \<Rightarrow> name_path_arg \<Rightarrow> bool \<Rightarrow> bool \<Rightarrow> bool \<Rightarrow> int \<Rightarrow> int option \<Rightarrow> nav_exn + tool_envelope" where
  "find_symbol lib d name_path substring include_body include_info max_chars error_max =
     (case parse_name_path name_path of
        None \<Rightarrow> invalid_bounds d
      | Some p \<Rightarrow>
          if max_chars \<le> 0 \<or> (\<exists>m. error_max = Some m \<and> m \<le> 0) then invalid_bounds d
          else (case find_matches d p substring of
                  [] \<Rightarrow> name_path_error SYMBOL_NOT_FOUND d p [(lit ''next_action'', JStr (lit ''get_symbols_overview''))]
                | a # b # rest \<Rightarrow> ambiguous_error d p (a # b # rest) (case error_max of None \<Rightarrow> max_chars | Some m \<Rightarrow> m)
                | [s] \<Rightarrow>
                    if include_body \<and> sy_incomplete s \<noteq> None then incomplete_body_error d s
                    else (case symbol_data d s include_body include_info of
                            Inl e \<Rightarrow> Inl (NavPosition e)
                          | Inr selected \<Rightarrow>
                              if int (length (sorted_json (JObj selected))) > max_chars
                              then nav_error INVALID_INPUT (JObj [(lit ''field'', JStr (lit ''max_answer_chars'')),
                                     (lit ''minimum_required'', JInt (int (length (sorted_json (JObj selected)))))])
                                     (dn_workspace d) (dn_adapter d) (dn_generations d)
                              else nav_success (JObj [(lit ''relative_path'', JStr (dn_relative_path d)),
                                     (lit ''sha256'', JStr (document_sha256 lib d)), (lit ''symbol'', JObj selected)])
                                     (dn_workspace d) (dn_adapter d) (dn_generations d) None)))"

text \<open>Overview: the tree to a depth, then whole roots while they fit.\<close>

fun render_overview :: "document_navigation \<Rightarrow> int \<Rightarrow> int \<Rightarrow> symbol \<Rightarrow> position_error + (json \<times> nat)" where
  "render_overview d max_depth depth (Symbol n seg path k l sel det cs inc) =
     (case symbol_data d (Symbol n seg path k l sel det cs inc) False True of
        Inl e \<Rightarrow> Inl e
      | Inr kvs \<Rightarrow>
          if cs \<noteq> [] \<and> max_depth \<le> depth
          then Inr (JObj (kvs @ [(lit ''children'', JArr []), (lit ''children_truncated'', JBool True)]),
                    length (concat (map iter_depth_first cs)))
          else (case seq_sum (map (render_overview d max_depth (depth + 1)) cs) of
                  Inl e \<Rightarrow> Inl e
                | Inr rs \<Rightarrow> Inr (JObj (kvs @ [(lit ''children'', JArr (map fst rs)), (lit ''children_truncated'', JBool False)]),
                                sum_list (map snd rs))))"

definition overview_roots :: "document_navigation \<Rightarrow> int \<Rightarrow> position_error + (json list \<times> nat)" where
  "overview_roots d max_depth =
     map_sum id (\<lambda>rs. (map fst rs, sum_list (map snd rs)))
       (seq_sum (map (render_overview d max_depth 0) (sort_key symbol_order_key (dn_symbols d))))"

definition overview_data :: "libraries \<Rightarrow> document_navigation \<Rightarrow> int \<Rightarrow> nat \<Rightarrow> json list \<Rightarrow> json" where
  "overview_data lib d max_depth depth_omitted roots =
     JObj [(lit ''relative_path'', JStr (dn_relative_path d)), (lit ''sha256'', JStr (document_sha256 lib d)),
       (lit ''max_depth'', JInt max_depth), (lit ''depth_truncated'', JBool (0 < depth_omitted)),
       (lit ''depth_omitted_count'', JInt (int depth_omitted)), (lit ''symbols'', JArr roots)]"

definition bound_overview :: "(json list \<Rightarrow> json) \<Rightarrow> json list \<Rightarrow> int \<Rightarrow> json \<times> nat" where
  "bound_overview data roots max_chars =
     (let kept = keep_while (\<lambda>xs. int (length (sorted_json (data xs))) \<le> max_chars) [] roots
      in (data kept, length roots - length kept))"

definition get_symbols_overview :: "libraries \<Rightarrow> document_navigation \<Rightarrow> int \<Rightarrow> int \<Rightarrow> nav_exn + tool_envelope" where
  "get_symbols_overview lib d max_depth max_chars =
     (if max_depth < 0 \<or> max_chars \<le> 0 then invalid_bounds d
      else case overview_roots d max_depth of
             Inl e \<Rightarrow> Inl (NavPosition e)
           | Inr (roots, depth_omitted) \<Rightarrow>
               (case bound_overview (overview_data lib d max_depth depth_omitted) roots max_chars of
                  (bounded, omitted) \<Rightarrow>
                    nav_success bounded (dn_workspace d) (dn_adapter d) (dn_generations d) (Some (truncation omitted))))"

section \<open>The service\<close>

datatype provider_exn = ProviderWorkspaceError workspace_error_data | ProviderInputError

definition load_document ::
    "libraries \<Rightarrow> (text_cp \<Rightarrow> provider_exn + document_symbol_input) \<Rightarrow> text_cp \<Rightarrow> nav_exn + (tool_envelope + document_navigation)" where
  "load_document lib provider relative_path =
     (if \<not> valid_relative_path relative_path
      then map_sum id Inl (nav_error INVALID_INPUT (JObj [(lit ''field'', JStr (lit ''relative_path''))]) None None None)
      else case provider relative_path of
             Inl (ProviderWorkspaceError d) \<Rightarrow>
               (case from_workspace_error d of Inl e \<Rightarrow> Inl (NavEnvelope e) | Inr e \<Rightarrow> Inr (Inl (Failure e)))
           | Inl ProviderInputError \<Rightarrow>
               map_sum id Inl (nav_error INVALID_INPUT (JObj [(lit ''path'', JStr relative_path)]) None None None)
           | Inr loaded \<Rightarrow>
               if di_relative_path loaded \<noteq> relative_path
               then map_sum id Inl (nav_error INVALID_PATH (JObj [(lit ''path'', JStr relative_path)]) (di_workspace loaded) None None)
               else (case from_input lib loaded of
                       Inl _ \<Rightarrow> map_sum id Inl (nav_error INVALID_INPUT (JObj [(lit ''path'', JStr relative_path)]) None None None)
                     | Inr d \<Rightarrow> Inr (Inr d)))"

fun load_all ::
    "libraries \<Rightarrow> (text_cp \<Rightarrow> provider_exn + document_symbol_input) \<Rightarrow> text_cp list \<Rightarrow> nav_exn + (tool_envelope + document_navigation list)" where
  "load_all lib provider [] = Inr (Inr [])"
| "load_all lib provider (p # ps) = (case load_document lib provider p of
     Inl e \<Rightarrow> Inl e
   | Inr (Inl env) \<Rightarrow> Inr (Inl env)
   | Inr (Inr d) \<Rightarrow> (case load_all lib provider ps of
       Inl e \<Rightarrow> Inl e | Inr (Inl env) \<Rightarrow> Inr (Inl env) | Inr (Inr ds) \<Rightarrow> Inr (Inr (d # ds))))"

definition document_matches :: "name_path_pattern \<Rightarrow> bool \<Rightarrow> document_navigation list \<Rightarrow> (document_navigation \<times> symbol) list" where
  "document_matches p substring ds =
     sort_key (\<lambda>(d, s). (dn_relative_path d, symbol_order_key s))
       (concat (map (\<lambda>d. map (Pair d) (filter (\<lambda>s. matches_name_path s p substring)
          (concat (map iter_depth_first (dn_symbols d))))) ds))"

definition match_json :: "libraries \<Rightarrow> bool \<Rightarrow> bool \<Rightarrow> document_navigation \<times> symbol \<Rightarrow> position_error + json" where
  "match_json lib include_body include_info ds =
     map_sum id (\<lambda>kvs. JObj [(lit ''relative_path'', JStr (dn_relative_path (fst ds))),
         (lit ''sha256'', JStr (document_sha256 lib (fst ds))), (lit ''symbol'', JObj kvs)])
       (symbol_data (fst ds) (snd ds) include_body include_info)"

text \<open>Matches are rendered one at a time until the first that does not fit.\<close>

fun keep_matches ::
    "(document_navigation \<times> symbol \<Rightarrow> position_error + json) \<Rightarrow> (json list \<Rightarrow> bool) \<Rightarrow> json list \<Rightarrow>
     (document_navigation \<times> symbol) list \<Rightarrow> position_error + json list" where
  "keep_matches render fits kept [] = Inr kept"
| "keep_matches render fits kept (m # ms) = (case render m of
     Inl e \<Rightarrow> Inl e
   | Inr j \<Rightarrow> if fits (kept @ [j]) then keep_matches render fits (kept @ [j]) ms else Inr kept)"

definition directory_base :: "text_cp \<Rightarrow> name_path_pattern \<Rightarrow> json list \<Rightarrow> json" where
  "directory_base scope p symbols = JObj [(lit ''relative_path'', JStr scope), (lit ''scope'', JStr (lit ''directory'')),
     (lit ''name_path'', JStr (expression p)), (lit ''symbols'', JArr symbols)]"

definition find_symbol_in_documents ::
    "libraries \<Rightarrow> (text_cp \<Rightarrow> provider_exn + document_symbol_input) \<Rightarrow> text_cp list \<Rightarrow> name_path_arg \<Rightarrow> text_cp \<Rightarrow>
     bool \<Rightarrow> bool \<Rightarrow> bool \<Rightarrow> int \<Rightarrow> nav_exn + tool_envelope" where
  "find_symbol_in_documents lib provider paths name_path scope substring include_body include_info max_chars =
     (let bad = nav_error INVALID_INPUT (JObj [(lit ''field'', JStr (lit ''relative_path, name_path, or max_answer_chars''))]) None None None
      in case parse_name_path name_path of
        None \<Rightarrow> bad
      | Some p \<Rightarrow>
          if max_chars \<le> 0 \<or> \<not> valid_relative_scope scope then bad
          else (case load_all lib provider (sort (remdups paths)) of
                  Inl e \<Rightarrow> Inl e
                | Inr (Inl env) \<Rightarrow> Inr env
                | Inr (Inr documents) \<Rightarrow>
                    (let found = document_matches p substring documents;
                         workspace = (case documents of [] \<Rightarrow> None | d # _ \<Rightarrow> dn_workspace d);
                         fits = (\<lambda>xs. int (length (sorted_json (directory_base scope p xs))) \<le> max_chars) in
                     if found = []
                     then nav_error SYMBOL_NOT_FOUND (JObj [(lit ''relative_path'', JStr scope),
                            (lit ''name_path'', JStr (expression p)), (lit ''scope'', JStr (lit ''directory''))]) workspace None None
                     else (case (if include_body then find (\<lambda>(d, s). sy_incomplete s \<noteq> None) found else None) of
                             Some (d, s) \<Rightarrow> incomplete_body_error d s
                           | None \<Rightarrow>
                               if \<not> fits []
                               then nav_error INVALID_INPUT (JObj [(lit ''field'', JStr (lit ''max_answer_chars'')),
                                      (lit ''minimum_required'', JInt (int (length (sorted_json (directory_base scope p [])))))])
                                      workspace None None
                               else (case keep_matches (match_json lib include_body include_info) fits [] found of
                                       Inl e \<Rightarrow> Inl (NavPosition e)
                                     | Inr kept \<Rightarrow> nav_success (directory_base scope p kept) workspace None None
                                                    (Some (truncation (length found - length kept))))))))"

text \<open>\<open>DocumentNavigationService.get_symbols_overview\<close> and \<open>find_symbol\<close>: load, then answer.\<close>

definition with_document ::
    "(document_navigation \<Rightarrow> nav_exn + tool_envelope) \<Rightarrow> nav_exn + (tool_envelope + document_navigation) \<Rightarrow> nav_exn + tool_envelope" where
  "with_document f loaded = (case loaded of Inl e \<Rightarrow> Inl e | Inr (Inl env) \<Rightarrow> Inr env | Inr (Inr d) \<Rightarrow> f d)"

definition service_overview ::
    "libraries \<Rightarrow> (text_cp \<Rightarrow> provider_exn + document_symbol_input) \<Rightarrow> text_cp \<Rightarrow> int \<Rightarrow> int \<Rightarrow> nav_exn + tool_envelope" where
  "service_overview lib provider relative_path max_depth max_chars =
     with_document (\<lambda>d. get_symbols_overview lib d max_depth max_chars) (load_document lib provider relative_path)"

definition service_find_symbol ::
    "libraries \<Rightarrow> (text_cp \<Rightarrow> provider_exn + document_symbol_input) \<Rightarrow> text_cp \<Rightarrow> name_path_arg \<Rightarrow> bool \<Rightarrow> bool \<Rightarrow> bool \<Rightarrow> int \<Rightarrow>
     int option \<Rightarrow> nav_exn + tool_envelope" where
  "service_find_symbol lib provider relative_path name_path substring include_body include_info max_chars error_max =
     with_document (\<lambda>d. find_symbol lib d name_path substring include_body include_info max_chars error_max)
       (load_document lib provider relative_path)"

section \<open>Name paths as texts\<close>

abbreviation clean_path :: "text_cp list \<Rightarrow> bool" where
  "clean_path xs \<equiv> xs \<noteq> [] \<and> list_all (\<lambda>s. s \<noteq> [] \<and> 47 \<notin> set s) xs"

lemma join_slash_ends:
  assumes "clean_path xs" shows "join_slash xs \<noteq> [] \<and> hd (join_slash xs) \<noteq> 47 \<and> last (join_slash xs) \<noteq> 47"
  using assms
proof (induction xs rule: join_slash.induct)
  case (2 x)
  then have "x \<noteq> []" "47 \<notin> set x" by auto
  then show ?case by (metis hd_in_set join_slash.simps(2) last_in_set)
next
  case (3 x y xs)
  then have "x \<noteq> []" "47 \<notin> set x" by auto
  then have "hd x \<noteq> 47" by (metis hd_in_set)
  with 3 \<open>x \<noteq> []\<close> show ?case by auto
qed simp

lemma strip_join: assumes "clean_path xs" shows "strip_slashes (47 # join_slash xs) = join_slash xs"
proof -
  obtain c s where c: "join_slash xs = c # s" "c \<noteq> 47" using join_slash_ends [OF assms] by (cases "join_slash xs") auto
  obtain e r where e: "rev (join_slash xs) = e # r" "e \<noteq> 47"
    using join_slash_ends [OF assms] by (cases "rev (join_slash xs)") (auto simp: last_rev hd_rev [symmetric])
  have "dropWhile (\<lambda>c. c = 47) (47 # join_slash xs) = join_slash xs" using c by simp
  moreover have "dropWhile (\<lambda>c. c = 47) (rev (join_slash xs)) = rev (join_slash xs)" using e by simp
  ultimately show ?thesis by (simp add: strip_slashes_def)
qed

lemma parse_absolute:
  assumes "clean_path xs"
  shows "parse_name_path (NPText (47 # join_slash xs)) = Some \<lparr>np_components = xs, np_absolute = True\<rparr>"
proof -
  have "split_slash (join_slash xs) = xs" using assms by (intro split_join) (auto simp: list_all_iff)
  then show ?thesis using assms strip_join [OF assms] by (auto simp: parse_name_path_def Let_def list_all_iff)
qed

lemma matches_absolute:
  "matches_name_path s \<lparr>np_components = xs, np_absolute = True\<rparr> False \<longleftrightarrow> sy_path s = xs"
proof
  assume m: "matches_name_path s \<lparr>np_components = xs, np_absolute = True\<rparr> False"
  then have len: "length (sy_path s) = length xs" by (auto simp: matches_name_path_def Let_def split: if_splits)
  with m have "list_all (\<lambda>(i, e, a). e = a) (zip [0..<length xs] (zip xs (sy_path s)))"
    by (simp add: matches_name_path_def Let_def)
  with len show "sy_path s = xs" by (intro nth_equalityI) (auto simp: list_all_length)
next
  assume "sy_path s = xs"
  then show "matches_name_path s \<lparr>np_components = xs, np_absolute = True\<rparr> False"
    by (auto simp: matches_name_path_def Let_def list_all_length)
qed

section \<open>Segments are not empty\<close>

lemma normalized_names_nonempty: "normalized_names f raws = Inr names \<Longrightarrow> [] \<notin> set names"
  by (induction raws arbitrary: names) (auto simp: map_sum_Inr split: option.splits json.splits if_splits)

lemma segment_nonempty: "n \<noteq> [] \<Longrightarrow> segment names n k \<noteq> []"
  by (simp add: segment_def)

lemma normalized_paths:
  "normalize_siblings nz parent raws = Inr ss \<Longrightarrow> [] \<notin> set parent \<Longrightarrow>
     list_all (\<lambda>s. sy_path s \<noteq> [] \<and> [] \<notin> set (sy_path s)) (forest ss)"
  "normalize_rest nz parent names seen ps = Inr ss \<Longrightarrow> [] \<notin> set parent \<Longrightarrow> [] \<notin> snd ` set ps \<Longrightarrow>
     list_all (\<lambda>s. sy_path s \<noteq> [] \<and> [] \<notin> set (sy_path s)) (forest ss)"
proof (induction nz parent raws and nz parent names seen ps arbitrary: ss and ss rule: normalize_siblings_normalize_rest.induct)
  case (1 nz parent raws)
  obtain names where names: "normalized_names (nz_name_fn nz) raws = Inr names"
    and rest: "normalize_rest nz parent names [] (zip raws names) = Inr ss"
    using 1(2) by (auto simp: normalize_siblings.simps split: sum.splits)
  have "[] \<notin> snd ` set (zip raws names)" using normalized_names_nonempty [OF names] by (auto dest: set_zip_rightD)
  with 1(1) [OF names rest 1(3)] show ?case .
next
  case (2 nz parent names seen)
  then show ?case by (simp add: normalize_rest.simps forest_def)
next
  case (3 nz parent names seen raw name rest)
  let ?seg = "segment names name (count_list seen name)"
  obtain loc sel kind ms children symbols where
    l: "symbol_location nz name raw = Inr loc" "symbol_selection loc raw = Inr sel" "symbol_kind_value name raw = Inr kind"
      "child_mappings name raw = Inr ms" and c: "normalize_siblings nz (parent @ [?seg]) ms = Inr children"
    and s: "normalize_rest nz parent names (seen @ [name]) rest = Inr symbols"
    and ss: "ss = Symbol name ?seg (parent @ [?seg]) kind loc sel (symbol_detail nz raw) children
                (case nz_completeness nz of None \<Rightarrow> None | Some f \<Rightarrow> f raw) # symbols"
    using 3(3) by (auto simp: normalize_rest.simps Let_def split: sum.splits)
  have p: "[] \<notin> set (parent @ [?seg])" using 3(4,5) segment_nonempty [of name names "count_list seen name"] by (cases "?seg = []") auto
  have "list_all (\<lambda>s. sy_path s \<noteq> [] \<and> [] \<notin> set (sy_path s)) (forest children)" using 3(1) [OF refl refl l c p] .
  moreover have "list_all (\<lambda>s. sy_path s \<noteq> [] \<and> [] \<notin> set (sy_path s)) (forest symbols)"
    using 3(2) [OF refl refl l c s 3(4)] 3(5) by auto
  ultimately show ?case using p by (auto simp: ss forest_def)
qed

lemma from_input_symbols:
  assumes "from_input lib i = Inr d"
  shows "dn_symbols d = [] \<or> (\<exists>nz raws. normalize_siblings nz [] raws = Inr (dn_symbols d))"
proof -
  obtain nz where "normalize_document_symbols nz None (di_raw_symbols i) = Inr (dn_symbols d)"
    using assms by (auto simp: from_input_def split: sum.splits)
  then show ?thesis by (auto simp: normalize_document_symbols_def split: sum.splits list.splits option.splits)
qed

lemma from_input_paths:
  assumes "from_input lib i = Inr d" and "s \<in> set (forest (dn_symbols d))"
  shows "sy_path s \<noteq> [] \<and> [] \<notin> set (sy_path s)"
  using from_input_symbols [OF assms(1)] normalized_paths(1) assms(2) by (fastforce simp: forest_def list_all_iff)

lemma from_input_ok:
  assumes "from_input lib i = Inr d" and "plain_names (dn_symbols d)"
  shows "distinct (map sy_path (forest (dn_symbols d)))"
proof -
  from from_input_symbols [OF assms(1)] consider "dn_symbols d = []" | nz raws where "normalize_siblings nz [] raws = Inr (dn_symbols d)"
    by blast
  then show ?thesis
  proof cases
    case 2
    have ok: "distinct (map sy_segment (dn_symbols d))" "list_all (tree_ok []) (dn_symbols d)"
      using normalized_ok(1) [OF 2 assms(2)] by auto
    from forest_distinct [OF ok] tree_distinct ok(2) show ?thesis by (auto simp: list_all_iff)
  qed (simp add: forest_def)
qed

lemma filter_unique: "distinct (map f xs) \<Longrightarrow> x \<in> set xs \<Longrightarrow> filter (\<lambda>y. f y = f x) xs = [x]"
proof (induction xs)
  case (Cons a xs)
  then show ?case by (cases "f a = f x") (auto simp: filter_empty_conv image_iff)
qed simp

text \<open>
  C36: When the name path shown for a symbol finds it again.  If no segment of the symbol's path
  contains a slash, the displayed name path with a leading slash is accepted as a pattern and
  matches exactly the symbols with that path; in a document none of whose names contains an
  opening bracket that is this symbol alone, so the exact path is never ambiguous.  If some segment
  does contain a slash (a quoted or computed member name), the displayed path is rejected or
  matches other symbols only: it never finds the symbol it was shown for.
\<close>

theorem shown_name_path_finds_symbol:
  assumes "from_input lib i = Inr d" and "s \<in> set (forest (dn_symbols d))"
  shows "if list_all (\<lambda>seg. 47 \<notin> set seg) (sy_path s)
    then \<exists>p. parse_name_path (NPText (47 # name_path_text s)) = Some p \<and>
           set (find_matches d p False) = {t \<in> set (forest (dn_symbols d)). sy_path t = sy_path s} \<and>
           (plain_names (dn_symbols d) \<longrightarrow> find_matches d p False = [s])
    else \<forall>p. parse_name_path (NPText (47 # name_path_text s)) = Some p \<longrightarrow> s \<notin> set (find_matches d p False)"
proof (cases "list_all (\<lambda>seg. 47 \<notin> set seg) (sy_path s)")
  case True
  have clean: "clean_path (sy_path s)" using from_input_paths [OF assms] True by (auto simp: list_all_iff)
  have "filter (\<lambda>t. sy_path t = sy_path s) (forest (dn_symbols d)) = [s]" if "plain_names (dn_symbols d)"
    using filter_unique [OF from_input_ok [OF assms(1) that] assms(2)] .
  then show ?thesis
    using True parse_absolute [OF clean] by (auto simp: name_path_text_def find_matches_def matches_absolute forest_def)
next
  case False
  have "s \<notin> set (find_matches d p False)" if parsed: "parse_name_path (NPText (47 # name_path_text s)) = Some p" for p
  proof -
    obtain t where "p = \<lparr>np_components = split_slash t, np_absolute = True\<rparr>"
      using parsed by (auto simp: parse_name_path_def Let_def split: if_splits)
    then show ?thesis using False split_slash_clean [of t] by (auto simp: find_matches_def matches_absolute)
  qed
  with False show ?thesis by simp
qed

lemma seq_sum_map_Inr: "(\<And>x. x \<in> set xs \<Longrightarrow> g x = Inr (h x)) \<Longrightarrow> seq_sum (map g xs) = Inr (map h xs)"
  by (induction xs) simp_all

lemma json_value_obj:
  "no_secret_keys j \<Longrightarrow> json_value field (obj_of_json j) = Inr j"
proof (induction j arbitrary: field rule: obj_of_json.induct)
  case (6 xs)
  then have "seq_sum (map (json_value field \<circ> obj_of_json) xs) = Inr (map id xs)"
    by (intro seq_sum_map_Inr) (auto simp: list_all_iff)
  then show ?case by simp
next
  case (7 kvs)
  have elem: "json_value f (obj_of_json v) = Inr v \<and> \<not> secret_key k" if "(k, v) \<in> set kvs" for f k v
    using 7(1) [OF that refl] 7(2) that by (auto simp: list_all_iff)
  have "seq_sum (map ((\<lambda>(k, v). case k of
        None \<Rightarrow> Inl (EnvTypeError (field @ lit '' mapping keys must be strings''))
      | Some key \<Rightarrow>
          if secret_key key then Inl (EnvValueError (field @ lit '' must not contain secret-bearing keys''))
          else map_sum id (Pair key) (json_value (field @ [46] @ key) v)) \<circ> (\<lambda>(k, v). (Some k, obj_of_json v))) kvs) = Inr (map id kvs)"
    using elem by (intro seq_sum_map_Inr) fastforce
  then show ?case by (simp only: obj_of_json.simps json_value.simps map_map) simp
qed auto

definition nav_lib :: libraries where
  "nav_lib = \<lparr>lb_sha256 = (\<lambda>_. []), lb_uri_path = (\<lambda>_. None), lb_other_str = (\<lambda>_. [])\<rparr>"

definition nav_input :: document_symbol_input where
  "nav_input = \<lparr>di_relative_path = lit ''a.py'', di_uri = lit ''u'', di_snapshot = demo_snapshot, di_raw_symbols = Some [wit_raw, wit_raw],
     di_encoding = UTF16, di_workspace = None, di_adapter = None, di_generations = None, di_completeness = None\<rparr>"

lemma nav_document: "\<exists>d. from_input nav_lib nav_input = Inr d \<and> dn_symbols d = [wit_symbol (lit ''f[0]''), wit_symbol (lit ''f[1]'')]"
  using wit_normalized by (simp add: from_input_def nav_lib_def nav_input_def wit_nz_def)

theorem shown_name_path_finds_symbol_witness:
  "\<exists>d p. from_input nav_lib nav_input = Inr d \<and> parse_name_path (NPText (lit ''/f[1]'')) = Some p \<and>
     find_matches d p False = [wit_symbol (lit ''f[1]'')]"
proof -
  obtain d where d: "from_input nav_lib nav_input = Inr d" "dn_symbols d = [wit_symbol (lit ''f[0]''), wit_symbol (lit ''f[1]'')]"
    using nav_document by blast
  have plain: "plain_names (dn_symbols d)" by (simp add: d plain_names_def forest_def wit_symbol_def lit_simps)
  have s: "wit_symbol (lit ''f[1]'') \<in> set (forest (dn_symbols d))" by (simp add: d forest_def wit_symbol_def)
  have "list_all (\<lambda>seg. 47 \<notin> set seg) (sy_path (wit_symbol (lit ''f[1]'')))" by (simp add: wit_symbol_def lit_simps)
  then obtain p where "parse_name_path (NPText (47 # name_path_text (wit_symbol (lit ''f[1]'')))) = Some p"
      "find_matches d p False = [wit_symbol (lit ''f[1]'')]" using shown_name_path_finds_symbol [OF d(1) s] plain by auto
  moreover have "47 # name_path_text (wit_symbol (lit ''f[1]'')) = lit ''/f[1]''" by (simp add: name_path_text_def wit_symbol_def lit_simps)
  ultimately show ?thesis using d(1) by auto
qed

end
