(* ===== verification/Editing.thy ===== *)
theory Editing
  imports Navigation Executor
begin

text \<open>
  Hash-guarded replacement of one symbol body (\<open>tools/editing.py\<close>).  The operation runs under
  its lock; what the operating system, the authoriser, the symbol provider and the notifier
  answer at each call are arguments, so other processes may do anything in between.  The
  model returns the effects in the order they happen, the commit state of the edit, and the
  envelope returned or the exception that leaves the function.
\<close>

section \<open>Data\<close>

record authorized_edit =
  ae_path :: text_cp
  ae_relative_path :: text_cp
  ae_workspace :: "workspace_md option"
  ae_root :: "text_cp option"

definition valid_normalized_relative_path :: "text_cp \<Rightarrow> bool" where
  "valid_normalized_relative_path v \<longleftrightarrow> v \<noteq> [] \<and> hd v \<noteq> 47 \<and> 92 \<notin> set v \<and> 0 \<notin> set v \<and>
     list_all (\<lambda>part. part \<notin> {[], lit ''.'', lit ''..''}) (split_slash v)"

text \<open>\<open>root / relative\<close> and \<open>Path.name\<close> on absolute, normalised paths.\<close>

definition path_join :: "text_cp \<Rightarrow> text_cp \<Rightarrow> text_cp" where
  "path_join rt relative = (if rt = [47] then 47 # relative else rt @ 47 # relative)"

definition path_name :: "text_cp \<Rightarrow> text_cp" where
  "path_name p = last (split_slash p)"

definition authorized_edit_ok :: "authorized_edit \<Rightarrow> bool" where
  "authorized_edit_ok t \<longleftrightarrow> take 1 (ae_path t) = [47] \<and> valid_normalized_relative_path (ae_relative_path t) \<and>
     (case ae_root t of None \<Rightarrow> True | Some rt \<Rightarrow> ae_path t = path_join rt (ae_relative_path t))"

record replacement_notification =
  rn_path :: text_cp
  rn_relative_path :: text_cp
  rn_uri :: text_cp
  rn_text :: text_cp
  rn_old_hash :: text_cp
  rn_new_hash :: text_cp
  rn_symbol_name_path :: json

record notification_result =
  nr_state :: text_cp
  nr_file_generation :: int
  nr_generations :: "generation_md option"

definition notification_result_ok :: "notification_result \<Rightarrow> bool" where
  "notification_result_ok n \<longleftrightarrow> nr_state n \<noteq> [] \<and> 0 \<le> nr_file_generation n"

record file_stat =
  st_dev :: nat
  st_ino :: nat
  st_size :: nat
  st_mtime_ns :: int
  st_ctime_ns :: int
  st_mode :: nat

definition stat_identity :: "file_stat \<Rightarrow> nat \<times> nat \<times> nat \<times> int \<times> int \<times> nat" where
  "stat_identity s = (st_dev s, st_ino s, st_size s, st_mtime_ns s, st_ctime_ns s, st_mode s)"

definition inode_identity :: "file_stat \<Rightarrow> nat \<times> nat" where
  "inode_identity s = (st_dev s, st_ino s)"

text \<open>\<open>stat.S_ISREG\<close> and \<open>stat.S_IMODE\<close>\<close>

definition s_isreg :: "nat \<Rightarrow> bool" where "s_isreg mode \<longleftrightarrow> mode div 4096 mod 16 = 8"
definition s_imode :: "nat \<Rightarrow> nat" where "s_imode mode = mode mod 4096"

record target_snapshot =
  ts_raw_bytes :: "nat list"
  ts_mode :: nat

section \<open>What the environment answers\<close>

text \<open>\<open>None\<close> stands for an \<open>OSError\<close>; \<open>chunks\<close> are the non-empty results of \<open>os.read\<close>.\<close>

datatype file_read =
    OpenFailed
  | Opened "file_stat option" "nat list list option" "file_stat option" "file_stat option"

datatype target_read = DirectoryFailed | DirectoryOpened file_read

datatype parent_check = ParentFailed | ParentStats "file_stat option" "file_stat option"

datatype unlink_outcome = Unlinked | UnlinkMissing | UnlinkFailed

record atomic_env =
  av_directory :: bool
  av_token :: text_cp
  av_create :: bool
  av_writes :: "int list"
  av_chmod :: bool
  av_flush :: bool
  av_close :: bool
  av_parent1 :: parent_check
  av_read :: file_read
  av_parent2 :: parent_check
  av_replace :: bool
  av_parent3 :: parent_check
  av_directory_flush :: bool
  av_unlink :: unlink_outcome

text \<open>The outcomes of the calls of the authoriser, the resolver and the notifier; \<open>Raised\<close>: an exception the tool does not handle there.\<close>

datatype authorize_outcome = AuthorizeWorkspaceError workspace_error_data | AuthorizeRaised | AuthorizeOther | Authorized authorized_edit
datatype resolve_outcome =
    ResolveWorkspaceError workspace_error_data | ResolveRaised | ResolveInputError | Resolved document_symbol_input
datatype notify_outcome = NotifyRaised | NotifyInvalid | Notified notification_result

record edit_env =
  ev_authorize :: authorize_outcome
  ev_read :: target_read
  ev_resolve :: resolve_outcome
  ev_confirm :: target_read
  ev_atomic :: atomic_env
  ev_reread :: target_read
  ev_notify :: notify_outcome

datatype edit_effect =
    CreateTemporary text_cp
  | WriteTemporary "nat list"
  | ChmodTemporary nat
  | FlushTemporary
  | Rename
  | FlushDirectory
  | UnlinkTemporary
  | Notify replacement_notification

datatype edit_exn = EditOSError | EditCommitError | EditProviderError | EditEnvelope env_exn

section \<open>Reading the target\<close>

definition read_target_in_directory :: "file_read \<Rightarrow> target_snapshot option" where
  "read_target_in_directory r = (case r of
       OpenFailed \<Rightarrow> None
     | Opened before chunks after entry \<Rightarrow>
         (case before of None \<Rightarrow> None | Some b \<Rightarrow>
            if \<not> s_isreg (st_mode b) then None
            else (case chunks of None \<Rightarrow> None | Some cs \<Rightarrow>
                  (case after of None \<Rightarrow> None | Some a \<Rightarrow>
                     if stat_identity b \<noteq> stat_identity a then None
                     else (case entry of None \<Rightarrow> None | Some e \<Rightarrow>
                           if stat_identity a \<noteq> stat_identity e then None
                           else Some \<lparr>ts_raw_bytes = concat cs, ts_mode = s_imode (st_mode a)\<rparr>)))))"

definition read_target :: "target_read \<Rightarrow> target_snapshot option" where
  "read_target r = (case r of DirectoryFailed \<Rightarrow> None | DirectoryOpened f \<Rightarrow> read_target_in_directory f)"

definition safe_current_hash :: "libraries \<Rightarrow> target_read \<Rightarrow> text_cp option" where
  "safe_current_hash lib r = map_option (\<lambda>s. lb_sha256 lib (ts_raw_bytes s)) (read_target r)"

definition current_lexical_parent :: "parent_check \<Rightarrow> bool" where
  "current_lexical_parent c = (case c of
       ParentStats (Some pinned) (Some current) \<Rightarrow> inode_identity pinned = inode_identity current
     | _ \<Rightarrow> False)"

section \<open>Error envelopes\<close>

definition never_retry :: retry_md where
  "never_retry = \<lparr>rm_retryable = False, rm_retry_after = None, rm_waited = None, rm_timeout = None, rm_target = None, rm_observed = None\<rparr>"

definition edit_error ::
    "error_code \<Rightarrow> retry_md option \<Rightarrow> json \<Rightarrow> workspace_md option \<Rightarrow> adapter_md option \<Rightarrow> generation_md option \<Rightarrow> edit_exn + tool_envelope" where
  "edit_error code retry details w a g = (case env_error code retry (Some (obj_of_json details)) w a g of
       Inl e \<Rightarrow> Inl (EditEnvelope e) | Inr e \<Rightarrow> Inr (Failure e))"

definition stale :: "authorized_edit \<Rightarrow> text_cp \<Rightarrow> text_cp \<Rightarrow> edit_exn + tool_envelope" where
  "stale t expected current = edit_error STALE_HASH (Some never_retry)
     (JObj [(lit ''relative_path'', JStr (ae_relative_path t)), (lit ''expected_hash'', JStr expected),
        (lit ''current_hash'', JStr current), (lit ''requires_current_reread'', JBool True)]) (ae_workspace t) None None"

definition uncertain ::
    "authorized_edit \<Rightarrow> document_symbol_input \<Rightarrow> json \<Rightarrow> text_cp \<Rightarrow> text_cp \<Rightarrow> text_cp \<Rightarrow> text_cp option \<Rightarrow> text_cp option \<Rightarrow>
     edit_exn + tool_envelope" where
  "uncertain t supplied identity old_hash new_hash stage observed fallback = edit_error UNCERTAIN (Some never_retry)
     (JObj [(lit ''relative_path'', JStr (ae_relative_path t)), (lit ''old_hash'', JStr old_hash), (lit ''new_hash'', JStr new_hash),
        (lit ''current_hash'', opt_json JStr (case observed of Some h \<Rightarrow> Some h | None \<Rightarrow> fallback)),
        (lit ''symbol'', identity), (lit ''notification_state'', JStr (lit ''failed'')), (lit ''uncertain_stage'', JStr stage),
        (lit ''requires_current_reread'', JBool True)]) (ae_workspace t) (di_adapter supplied) (di_generations supplied)"

definition invalid_target :: "authorized_edit \<Rightarrow> string \<Rightarrow> edit_exn + tool_envelope" where
  "invalid_target t stage = edit_error INVALID_PATH None
     (JObj [(lit ''path'', JStr (ae_path t)), (lit ''stage'', JStr (lit stage))]) (ae_workspace t) None None"

section \<open>The replacement\<close>

definition newline_contract :: "file_snapshot \<Rightarrow> nat list option" where
  "newline_contract s =
     (let endings = set (fs_line_endings s) in
      if endings = {} then Some [LF] else if endings = {[LF]} then Some [LF]
      else if endings = {[CR, LF]} then Some [CR, LF] else None)"

text \<open>The three calls of \<open>str.replace\<close>.\<close>

fun replace_crlf :: "text_cp \<Rightarrow> text_cp" where
  "replace_crlf (c # d # s) = (if c = CR \<and> d = LF then LF # replace_crlf s else c # replace_crlf (d # s))"
| "replace_crlf s = s"

definition normalized_body :: "nat list \<Rightarrow> text_cp \<Rightarrow> text_cp" where
  "normalized_body nl body =
     concat (map (\<lambda>c. if c = LF then nl else [c]) (map (\<lambda>c. if c = CR then LF else c) (replace_crlf body)))"

definition replacement_bytes :: "file_snapshot \<Rightarrow> text_cp \<Rightarrow> nat \<Rightarrow> nat \<Rightarrow> nat list option" where
  "replacement_bytes s body start stop = (case newline_contract s of
       None \<Rightarrow> None
     | Some nl \<Rightarrow>
         let text = normalized_body nl body in
         if list_all valid_cp text
         then Some (take start (fs_raw_bytes s) @ utf8_encode text @ drop stop (fs_raw_bytes s)) else None)"

fun write_all :: "nat list \<Rightarrow> int list \<Rightarrow> edit_effect list \<times> bool" where
  "write_all remaining [] = ([], remaining = [])"
| "write_all remaining (n # ns) =
     (if remaining = [] then ([], True)
      else if n \<le> 0 \<or> n > int (length remaining) then ([], False)
      else case write_all (drop (nat n) remaining) ns of
             (effects, ok) \<Rightarrow> (WriteTemporary (take (nat n) remaining) # effects, ok))"

section \<open>Atomic installation\<close>

datatype atomic_exn =
    ConcurrentChange text_cp
  | InvalidTarget
  | InstalledUncertain string
  | AtomicOSError
  | AtomicCommitError

type_synonym commit = "EditCommitState option"

definition commit_mark :: "(EditCommitState \<Rightarrow> (EditCommitState, unit) outcome) \<Rightarrow> commit \<Rightarrow> commit \<times> bool" where
  "commit_mark mark c = (case c of None \<Rightarrow> (None, True) | Some st \<Rightarrow> (case mark st of (st', r) \<Rightarrow> (Some st', r = Inr ())))"

text \<open>From the rename on; the parameters are the calls that follow it.\<close>

definition after_rename :: "libraries \<Rightarrow> nat list \<Rightarrow> atomic_env \<Rightarrow> commit \<Rightarrow> edit_effect list \<times> commit \<times> (atomic_exn + text_cp)" where
  "after_rename lib content v c = (case commit_mark mark_installed c of (c', ok) \<Rightarrow>
     if \<not> ok then ([Rename], c', Inl AtomicCommitError)
     else if \<not> current_lexical_parent (av_parent3 v)
     then ([Rename], c', Inl (InstalledUncertain ''post_install_path_validation''))
     else if \<not> av_directory_flush v then ([Rename, FlushDirectory], c', Inl (InstalledUncertain ''directory_fsync''))
     else ([Rename, FlushDirectory], c', Inr (lb_sha256 lib content)))"

definition install_checked ::
    "libraries \<Rightarrow> nat list \<Rightarrow> nat list \<Rightarrow> atomic_env \<Rightarrow> commit \<Rightarrow> edit_effect list \<times> commit \<times> (atomic_exn + text_cp)" where
  "install_checked lib content expected_raw v c =
     (if \<not> current_lexical_parent (av_parent1 v) then ([], c, Inl InvalidTarget)
      else case read_target_in_directory (av_read v) of
             None \<Rightarrow> ([], c, Inl InvalidTarget)
           | Some current \<Rightarrow>
               if ts_raw_bytes current \<noteq> expected_raw
               then ([], c, Inl (ConcurrentChange (lb_sha256 lib (ts_raw_bytes current))))
               else if \<not> current_lexical_parent (av_parent2 v) then ([], c, Inl InvalidTarget)
               else if \<not> av_replace v then ([], c, Inl AtomicOSError)
               else after_rename lib content v c)"

definition temporary_name :: "authorized_edit \<Rightarrow> text_cp \<Rightarrow> text_cp" where
  "temporary_name t token = lit ''.'' @ path_name (ae_path t) @ lit ''.serena-light-'' @ token @ lit ''.tmp''"

definition atomic_body ::
    "libraries \<Rightarrow> authorized_edit \<Rightarrow> nat list \<Rightarrow> nat list \<Rightarrow> nat \<Rightarrow> atomic_env \<Rightarrow> commit \<Rightarrow>
     edit_effect list \<times> commit \<times> (atomic_exn + text_cp)" where
  "atomic_body lib t content expected_raw mode v c =
     (let create = CreateTemporary (temporary_name t (av_token v)) in
      if \<not> av_create v then ([], c, Inl AtomicOSError)
      else case write_all content (av_writes v) of (writes, ok) \<Rightarrow>
        if \<not> ok then (create # writes, c, Inl AtomicOSError)
        else if \<not> av_chmod v then (create # writes, c, Inl AtomicOSError)
        else if \<not> av_flush v then (create # writes @ [ChmodTemporary mode], c, Inl AtomicOSError)
        else if \<not> av_close v then (create # writes @ [ChmodTemporary mode, FlushTemporary], c, Inl AtomicOSError)
        else case install_checked lib content expected_raw v c of (effects, c', r) \<Rightarrow>
               (create # writes @ [ChmodTemporary mode, FlushTemporary] @ effects, c', r))"

text \<open>With the \<open>finally\<close> clause: an \<open>OSError\<close> of \<open>os.unlink\<close> other than a missing file replaces the outcome.\<close>

definition atomic_replace ::
    "libraries \<Rightarrow> authorized_edit \<Rightarrow> nat list \<Rightarrow> nat list \<Rightarrow> nat \<Rightarrow> atomic_env \<Rightarrow> commit \<Rightarrow>
     edit_effect list \<times> commit \<times> (atomic_exn + text_cp)" where
  "atomic_replace lib t content expected_raw mode v c =
     (if \<not> av_directory v then ([], c, Inl AtomicOSError)
      else case atomic_body lib t content expected_raw mode v c of (effects, c', r) \<Rightarrow>
             (effects @ [UnlinkTemporary], c', if av_unlink v = UnlinkFailed then Inl AtomicOSError else r))"

section \<open>The symbol to replace\<close>

definition byte_offset :: "json \<Rightarrow> string \<Rightarrow> int option" where
  "byte_offset rng endpoint = (case obj_get endpoint rng of
       Some (JObj p) \<Rightarrow> (case obj_get ''byte_offset'' (JObj p) of Some (JInt i) \<Rightarrow> Some i | _ \<Rightarrow> None)
     | _ \<Rightarrow> None)"

text \<open>\<open>Inl ()\<close> is a \<open>TypeError\<close>, \<open>ValueError\<close> or \<open>PositionError\<close>; \<open>Inr (Inl e)\<close> an envelope to return.\<close>

definition resolve_unique_symbol ::
    "libraries \<Rightarrow> (text_cp \<Rightarrow> text_cp) \<Rightarrow> authorized_edit \<Rightarrow> file_snapshot \<Rightarrow> document_symbol_input \<Rightarrow> name_path_arg \<Rightarrow>
     unit + (tool_envelope + (json \<times> int \<times> int \<times> document_navigation))" where
  "resolve_unique_symbol lib as_uri t snapshot supplied name_path =
     (if di_relative_path supplied \<noteq> ae_relative_path t \<or> di_uri supplied \<noteq> as_uri (ae_path t) \<or>
         fs_raw_bytes (di_snapshot supplied) \<noteq> fs_raw_bytes snapshot
      then Inl ()
      else case from_input lib supplied of
             Inl _ \<Rightarrow> Inl ()
           | Inr document \<Rightarrow>
               (case find_symbol lib document name_path False False False 64000 None of
                  Inl _ \<Rightarrow> Inl ()
                | Inr (Failure e) \<Rightarrow> Inr (Inl (Failure e))
                | Inr (Success e) \<Rightarrow>
                    (case obj_get ''symbol'' (se_data e) of
                       Some (JObj symbol) \<Rightarrow>
                         (case obj_get ''range'' (JObj symbol) of
                            Some (JObj r) \<Rightarrow>
                              (case (byte_offset (JObj r) ''start'', byte_offset (JObj r) ''end'') of
                                 (Some start, Some stop) \<Rightarrow>
                                   Inr (Inr (JObj (map (\<lambda>k. (lit k, the (obj_get k (JObj symbol)))) [''name'', ''name_path'', ''kind'']),
                                     start, stop, document))
                               | _ \<Rightarrow> Inl ())
                          | _ \<Rightarrow> Inl ())
                     | _ \<Rightarrow> Inl ())))"

section \<open>The operation\<close>

definition valid_name_path :: "name_path_arg \<Rightarrow> bool" where
  "valid_name_path v = (case v of
       NPText s \<Rightarrow> [] \<notin> set (split_slash (strip_slashes s))
     | NPSequence ps \<Rightarrow> ps \<noteq> [] \<and> list_all (\<lambda>p. p \<noteq> None \<and> p \<noteq> Some []) ps
     | NPOther \<Rightarrow> False)"

definition valid_hash :: "text_cp \<Rightarrow> bool" where
  "valid_hash v \<longleftrightarrow> length v = 64 \<and> list_all (\<lambda>c. c \<in> set (lit ''0123456789abcdefABCDEF'')) v"

text \<open>\<open>str.lower\<close> on the digits of a hash.\<close>

definition lower_hash :: "text_cp \<Rightarrow> text_cp" where
  "lower_hash = map (\<lambda>c. if 65 \<le> c \<and> c \<le> 90 then c + 32 else c)"

type_synonym edit_result = "edit_effect list \<times> commit \<times> (edit_exn + tool_envelope)"

text \<open>From the installed bytes on: notification and answer.\<close>

definition finish_edit ::
    "libraries \<Rightarrow> authorized_edit \<Rightarrow> document_symbol_input \<Rightarrow> json \<Rightarrow> document_navigation \<Rightarrow> nat list \<Rightarrow> text_cp \<Rightarrow> text_cp \<Rightarrow> text_cp \<Rightarrow>
     edit_env \<Rightarrow> commit \<Rightarrow> edit_result" where
  "finish_edit lib t supplied identity document replacement old_hash new_hash changed_hash v c =
     (case from_bytes replacement of
        Inl _ \<Rightarrow> ([], c, uncertain t supplied identity old_hash new_hash (lit ''notification'') (safe_current_hash lib (ev_reread v)) (Some changed_hash))
      | Inr s \<Rightarrow>
          let note = Notify \<lparr>rn_path = ae_path t, rn_relative_path = ae_relative_path t, rn_uri = dn_uri document, rn_text = fs_text s,
                       rn_old_hash = old_hash, rn_new_hash = new_hash, rn_symbol_name_path = the (obj_get ''name_path'' identity)\<rparr> in
          (case ev_notify v of
             Notified n \<Rightarrow>
               (case commit_mark mark_done c of (c', ok) \<Rightarrow>
                  if \<not> ok then ([note], c', Inl EditCommitError)
                  else ([note], c', case make_success (obj_of_json (JObj
                           [(lit ''relative_path'', JStr (ae_relative_path t)), (lit ''old_hash'', JStr old_hash),
                            (lit ''new_hash'', JStr new_hash), (lit ''symbol'', identity),
                            (lit ''file_generation'', JInt (nr_file_generation n)), (lit ''notification_state'', JStr (nr_state n))]))
                           (ae_workspace t) (di_adapter supplied)
                           (case nr_generations n of Some g \<Rightarrow> Some g | None \<Rightarrow> di_generations supplied) None of
                         Inl e \<Rightarrow> Inl (EditEnvelope e) | Inr e \<Rightarrow> Inr (Success e)))
           | _ \<Rightarrow> ([note], c, uncertain t supplied identity old_hash new_hash (lit ''notification'')
                     (safe_current_hash lib (ev_reread v)) (Some changed_hash))))"

definition install_edit ::
    "libraries \<Rightarrow> authorized_edit \<Rightarrow> document_symbol_input \<Rightarrow> json \<Rightarrow> document_navigation \<Rightarrow> nat list \<Rightarrow> nat list \<Rightarrow> nat \<Rightarrow> text_cp \<Rightarrow>
     edit_env \<Rightarrow> commit \<Rightarrow> edit_result" where
  "install_edit lib t supplied identity document replacement current mode expected v c =
     (let old_hash = lb_sha256 lib current; new_hash = lb_sha256 lib replacement in
      case atomic_replace lib t replacement current mode (ev_atomic v) c of
        (effects, c', Inr changed_hash) \<Rightarrow>
          (case finish_edit lib t supplied identity document replacement old_hash new_hash changed_hash v c' of
             (notes, c'', r) \<Rightarrow> (effects @ notes, c'', r))
      | (effects, c', Inl (ConcurrentChange h)) \<Rightarrow> (effects, c', stale t expected h)
      | (effects, c', Inl InvalidTarget) \<Rightarrow> (effects, c', invalid_target t ''pre_install_validation'')
      | (effects, c', Inl (InstalledUncertain stage)) \<Rightarrow>
          (effects, c', uncertain t supplied identity old_hash new_hash (lit stage) (safe_current_hash lib (ev_reread v)) None)
      | (effects, c', Inl AtomicOSError) \<Rightarrow> (effects, c', Inl EditOSError)
      | (effects, c', Inl AtomicCommitError) \<Rightarrow> (effects, c', Inl EditCommitError))"

definition workspace_failure :: "workspace_error_data \<Rightarrow> edit_exn + tool_envelope" where
  "workspace_failure d = (case from_workspace_error d of Inl e \<Rightarrow> Inl (EditEnvelope e) | Inr e \<Rightarrow> Inr (Failure e))"

definition edit_resolved ::
    "libraries \<Rightarrow> authorized_edit \<Rightarrow> document_symbol_input \<Rightarrow> file_snapshot \<Rightarrow> json \<times> int \<times> int \<times> document_navigation \<Rightarrow> text_cp \<Rightarrow> text_cp \<Rightarrow>
     edit_env \<Rightarrow> commit \<Rightarrow> edit_result" where
  "edit_resolved lib t supplied snapshot resolved body expected v c =
     (case resolved of (identity, start, stop, document) \<Rightarrow>
       case read_target (ev_confirm v) of
         None \<Rightarrow> ([], c, invalid_target t ''current_file_reread'')
       | Some confirmed \<Rightarrow>
           if ts_raw_bytes confirmed \<noteq> fs_raw_bytes snapshot
           then ([], c, stale t expected (lb_sha256 lib (ts_raw_bytes confirmed)))
           else (case replacement_bytes snapshot body (nat start) (nat stop) of
                   None \<Rightarrow> ([], c, edit_error INVALID_INPUT None (JObj [(lit ''path'', JStr (ae_relative_path t)),
                             (lit ''stage'', JStr (lit ''replacement_body''))]) (ae_workspace t) (di_adapter supplied) (di_generations supplied))
                 | Some replacement \<Rightarrow>
                     install_edit lib t supplied identity document replacement (fs_raw_bytes snapshot) (ts_mode confirmed) expected v c))"

definition edit_current ::
    "libraries \<Rightarrow> (text_cp \<Rightarrow> text_cp) \<Rightarrow> authorized_edit \<Rightarrow> target_snapshot \<Rightarrow> name_path_arg \<Rightarrow> text_cp \<Rightarrow> text_cp \<Rightarrow> edit_env \<Rightarrow> commit \<Rightarrow>
     edit_result" where
  "edit_current lib as_uri t current name_path body expected v c =
     (let bad = ([], c, edit_error INVALID_INPUT None (JObj [(lit ''path'', JStr (ae_relative_path t)),
                        (lit ''stage'', JStr (lit ''symbol_resolution''))]) (ae_workspace t) None None) in
      case from_bytes (ts_raw_bytes current) of
        Inl _ \<Rightarrow> bad
      | Inr snapshot \<Rightarrow>
          (case ev_resolve v of
             ResolveWorkspaceError d \<Rightarrow> ([], c, workspace_failure d)
           | ResolveRaised \<Rightarrow> ([], c, Inl EditProviderError)
           | ResolveInputError \<Rightarrow> bad
           | Resolved supplied \<Rightarrow>
               (case resolve_unique_symbol lib as_uri t snapshot supplied name_path of
                  Inl _ \<Rightarrow> bad
                | Inr (Inl env) \<Rightarrow> ([], c, Inr env)
                | Inr (Inr resolved) \<Rightarrow> edit_resolved lib t supplied snapshot resolved body expected v c)))"

definition replace_symbol_body ::
    "libraries \<Rightarrow> (text_cp \<Rightarrow> text_cp) \<Rightarrow> name_path_arg \<Rightarrow> text_cp \<Rightarrow> text_cp \<Rightarrow> text_cp \<Rightarrow> edit_env \<Rightarrow> commit \<Rightarrow> edit_result" where
  "replace_symbol_body lib as_uri name_path relative_path body expected_hash v c =
     (if \<not> valid_name_path name_path \<or> relative_path = [] \<or> 0 \<in> set relative_path \<or> \<not> valid_hash expected_hash
      then ([], c, edit_error INVALID_INPUT None
             (JObj [(lit ''field'', JStr (lit ''name_path, relative_path, body, or expected_hash''))]) None None None)
      else let expected = lower_hash expected_hash in
      case ev_authorize v of
        AuthorizeWorkspaceError d \<Rightarrow> ([], c, workspace_failure d)
      | AuthorizeRaised \<Rightarrow> ([], c, Inl EditProviderError)
      | AuthorizeOther \<Rightarrow> ([], c, edit_error INVALID_PATH None (JObj [(lit ''path'', JStr relative_path)]) None None None)
      | Authorized t \<Rightarrow>
          if ae_relative_path t \<noteq> relative_path
          then ([], c, edit_error INVALID_PATH None (JObj [(lit ''path'', JStr relative_path)]) (ae_workspace t) None None)
          else (case read_target (ev_read v) of
                  None \<Rightarrow> ([], c, invalid_target t ''current_file_reread'')
                | Some current \<Rightarrow>
                    let old_hash = lb_sha256 lib (ts_raw_bytes current) in
                    if old_hash \<noteq> expected then ([], c, stale t expected old_hash)
                    else edit_current lib as_uri t current name_path body expected v c))"

section \<open>Effects of an installation\<close>

lemma write_all_chunks:
  "write_all remaining ns = (effects, ok) \<Longrightarrow>
     \<exists>chunks. effects = map WriteTemporary chunks \<and> (ok \<longrightarrow> concat chunks = remaining)"
proof (induction remaining ns arbitrary: effects rule: write_all.induct)
  case (2 remaining n ns)
  show ?case
  proof (cases "remaining = [] \<or> n \<le> 0 \<or> n > int (length remaining)")
    case True
    with 2(2) show ?thesis by (auto split: if_splits intro: exI [of _ "[]"])
  next
    case False
    obtain rest where rest: "write_all (drop (nat n) remaining) ns = (rest, ok)"
      and e: "effects = WriteTemporary (take (nat n) remaining) # rest"
      using 2(2) False by (auto split: prod.splits)
    obtain chunks where "rest = map WriteTemporary chunks" "ok \<longrightarrow> concat chunks = drop (nat n) remaining"
      using 2(1) [OF _ _ rest] False by auto
    with e show ?thesis by (intro exI [of _ "take (nat n) remaining # chunks"]) simp
  qed
qed auto

lemma after_rename_effects:
  assumes "after_rename lib content v c = (effects, c', r)"
  shows "\<exists>post. effects = Rename # post \<and> post \<in> {[], [FlushDirectory]} \<and>
    (\<forall>h. r = Inr h \<longrightarrow> post = [FlushDirectory] \<and> h = lb_sha256 lib content) \<and>
    r \<notin> {Inl InvalidTarget} \<union> range (Inl \<circ> ConcurrentChange) \<union> {Inl AtomicOSError} \<and>
    (r = Inl AtomicCommitError \<longleftrightarrow> \<not> snd (commit_mark mark_installed c)) \<and> c' = fst (commit_mark mark_installed c)"
  using assms unfolding after_rename_def by (auto split: prod.splits if_splits)

text \<open>Whether the rename happened, by the outcome, and what was true before it.\<close>

definition install_guard :: "nat list \<Rightarrow> atomic_env \<Rightarrow> bool" where
  "install_guard expected_raw v \<longleftrightarrow> current_lexical_parent (av_parent1 v) \<and> current_lexical_parent (av_parent2 v) \<and> av_replace v \<and>
     map_option ts_raw_bytes (read_target_in_directory (av_read v)) = Some expected_raw"

lemma install_checked_cases:
  "install_checked lib content expected_raw v c =
     (if install_guard expected_raw v then after_rename lib content v c
      else ([], c, snd (snd (install_checked lib content expected_raw v c))))"
  "\<not> install_guard expected_raw v \<Longrightarrow> install_checked lib content expected_raw v c = (effects, c', r) \<Longrightarrow>
     r \<in> {Inl InvalidTarget, Inl AtomicOSError} \<union> range (Inl \<circ> ConcurrentChange)"
  by (auto simp: install_checked_def install_guard_def split: option.splits if_splits)

definition install_trace :: "text_cp \<Rightarrow> nat \<Rightarrow> nat list \<Rightarrow> edit_effect list \<Rightarrow> edit_effect list \<Rightarrow> bool" where
  "install_trace name mode content post effects \<longleftrightarrow> (\<exists>chunks. concat chunks = content \<and>
     effects = CreateTemporary name # map WriteTemporary chunks @ [ChmodTemporary mode, FlushTemporary, Rename] @ post) \<and>
     Rename \<notin> set post"

abbreviation refused :: "(atomic_exn + text_cp) set" where
  "refused \<equiv> {Inl InvalidTarget, Inl AtomicOSError} \<union> range (Inl \<circ> ConcurrentChange)"

lemma atomic_body_cases:
  assumes "atomic_body lib t content expected mode v c = (effects, c', r)"
  shows "Rename \<notin> set effects \<and> \<not> (\<exists>n. Notify n \<in> set effects) \<and> c' = c \<and> r \<in> refused \<or>
    install_guard expected v \<and> (\<exists>post. install_trace (temporary_name t (av_token v)) mode content post effects \<and>
      (Rename # post, c', r) = after_rename lib content v c)"
proof -
  obtain writes ok where w: "write_all content (av_writes v) = (writes, ok)" by fastforce
  obtain chunks where ch: "writes = map WriteTemporary chunks" "ok \<longrightarrow> concat chunks = content"
    using write_all_chunks [OF w] by blast
  obtain e2 c2 r2 where i: "install_checked lib content expected v c = (e2, c2, r2)" by (metis prod_cases3)
  show ?thesis
  proof (cases "av_create v \<and> ok \<and> av_chmod v \<and> av_flush v \<and> av_close v \<and> install_guard expected v")
    case True
    with assms w i have e: "effects = CreateTemporary (temporary_name t (av_token v)) # writes @ [ChmodTemporary mode, FlushTemporary] @ e2"
      "c' = c2" "r = r2" by (auto simp: atomic_body_def Let_def)
    have a: "after_rename lib content v c = (e2, c2, r2)" using install_checked_cases(1) i True by metis
    obtain post where p: "e2 = Rename # post" "post \<in> {[], [FlushDirectory]}" using after_rename_effects [OF a] by blast
    have "install_trace (temporary_name t (av_token v)) mode content post effects"
      using p ch True by (auto simp: install_trace_def e intro!: exI [of _ chunks])
    with True a p(1) e show ?thesis by auto
  next
    case False
    then have "Rename \<notin> set effects \<and> \<not> (\<exists>n. Notify n \<in> set effects) \<and> c' = c \<and> r \<in> refused"
    proof (cases "av_create v \<and> ok \<and> av_chmod v \<and> av_flush v \<and> av_close v")
      case True
      with False have g: "\<not> install_guard expected v" by simp
      then have "e2 = []" "c2 = c" "r2 \<in> refused"
        using install_checked_cases(1) [of lib content expected v c] install_checked_cases(2) [OF g i] i by auto
      with True assms w i ch show ?thesis by (auto simp: atomic_body_def Let_def)
    next
      case False
      with assms w ch show ?thesis by (auto simp: atomic_body_def Let_def split: if_splits)
    qed
    then show ?thesis by blast
  qed
qed

lemma atomic_replace_cases:
  assumes "atomic_replace lib t content expected mode v c = (effects, c', r)"
  shows "Rename \<notin> set effects \<and> \<not> (\<exists>n. Notify n \<in> set effects) \<and> c' = c \<and> r \<in> refused \<or>
    install_guard expected v \<and> (\<exists>post ra. install_trace (temporary_name t (av_token v)) mode content (post @ [UnlinkTemporary]) effects \<and>
      (Rename # post, c', ra) = after_rename lib content v c \<and> r = (if av_unlink v = UnlinkFailed then Inl AtomicOSError else ra))"
proof (cases "av_directory v")
  case True
  obtain e1 c1 r1 where b: "atomic_body lib t content expected mode v c = (e1, c1, r1)" by (metis prod_cases3)
  with True assms have e: "effects = e1 @ [UnlinkTemporary]" "c' = c1" "r = (if av_unlink v = UnlinkFailed then Inl AtomicOSError else r1)"
    by (auto simp: atomic_replace_def)
  from atomic_body_cases [OF b] show ?thesis
  proof (elim disjE conjE exE)
    fix post assume g: "install_guard expected v" and t: "install_trace (temporary_name t (av_token v)) mode content post e1"
      and a: "(Rename # post, c1, r1) = after_rename lib content v c"
    have "install_trace (temporary_name t (av_token v)) mode content (post @ [UnlinkTemporary]) effects"
      using t by (auto simp: install_trace_def e)
    with g a e show ?thesis by blast
  qed (auto simp: e)
qed (use assms in \<open>auto simp: atomic_replace_def\<close>)

section \<open>Codes of the answers\<close>

lemma edit_error_code: "edit_error code r details w a g = Inr env \<Longrightarrow> \<exists>e. env = Failure e \<and> ee_code e = code \<and> ee_retry e = r"
  by (auto simp: edit_error_def env_error_details split: sum.splits)

lemma nav_error_code: "nav_error code details w a g = Inr env \<Longrightarrow> \<exists>e. env = Failure e \<and> ee_code e = code"
  by (auto simp: nav_error_def env_error_details split: sum.splits)

lemma nav_success_code: "nav_success data w a g t \<noteq> Inr (Failure e)"
  by (auto simp: nav_success_def split: sum.splits)

lemma workspace_failure_code:
  assumes "workspace_failure d = Inr env" shows "\<exists>e. env = Failure e \<and> ee_code e \<noteq> UNCERTAIN"
proof -
  obtain code e where "error_code_of (ws_code_value (wed_code d)) = Some code" "env = Failure e" "ee_code e = code"
    using assms by (auto simp: workspace_failure_def from_workspace_error_def env_error_details Let_def split: sum.splits option.splits)
  then show ?thesis by (cases "wed_code d") (auto simp: error_code_of_def ERROR_CODES_def)
qed

lemmas nav_codes = invalid_bounds_def incomplete_body_error_def name_path_error_def

lemma find_symbol_code:
  assumes "find_symbol lib d np substring include_body include_info n k = Inr (Failure e)"
  shows "ee_code e \<in> {INVALID_INPUT, SYMBOL_NOT_FOUND, AMBIGUOUS_SYMBOL, UNSUPPORTED}"
proof -
  have amb: "ee_code e = AMBIGUOUS_SYMBOL" if "ambiguous_error d p ss b = Inr (Failure e)" for p ss b
    using that by (auto simp: ambiguous_error_def name_path_error_def split: sum.splits prod.splits dest: nav_error_code)
  show ?thesis
    using assms unfolding find_symbol_def
    by (auto simp: nav_codes nav_success_code split: option.splits if_splits list.splits sum.splits
        dest!: nav_error_code [of _ _ _ _ _ "Failure e"] amb)
qed

definition answer_installed :: "tool_envelope \<Rightarrow> bool" where
  "answer_installed env = (case env of Success _ \<Rightarrow> True | Failure e \<Rightarrow> ee_code e = UNCERTAIN)"

definition notified_once :: "edit_effect list \<Rightarrow> bool" where
  "notified_once effects \<longleftrightarrow> (\<exists>pre n. effects = pre @ [Notify n] \<and> FlushDirectory \<in> set pre \<and> \<not> (\<exists>m. Notify m \<in> set pre))"

lemma refusals:
  "stale t expected h = Inr env \<Longrightarrow> \<not> answer_installed env"
  "invalid_target t stage = Inr env \<Longrightarrow> \<not> answer_installed env"
  "edit_error INVALID_INPUT r details w a g = Inr env \<Longrightarrow> \<not> answer_installed env"
  "edit_error INVALID_PATH r details w a g = Inr env \<Longrightarrow> \<not> answer_installed env"
  "workspace_failure d = Inr env \<Longrightarrow> \<not> answer_installed env"
  unfolding stale_def invalid_target_def answer_installed_def
  by (auto dest!: edit_error_code workspace_failure_code)

lemma uncertain_code:
  "uncertain t supplied identity old new stage ob fb = Inr env \<Longrightarrow> \<exists>e. env = Failure e \<and> ee_code e = UNCERTAIN \<and> ee_retry e = Some never_retry"
  unfolding uncertain_def by (rule edit_error_code)

section \<open>From the installation to the answer\<close>

definition commit_settled :: "commit \<Rightarrow> bool" where
  "commit_settled c \<longleftrightarrow> (\<forall>st. c = Some st \<longrightarrow> commit_installed st)"

lemma commit_mark_settled:
  "commit_settled (fst (commit_mark mark_installed c))"
  "commit_settled c \<Longrightarrow> commit_settled (fst (commit_mark mark_done c))"
  "snd (commit_mark mark_done c) \<Longrightarrow> fst (commit_mark mark_done c) \<in> {None, Some DONE}"
  by (cases c; cases "the c"; simp add: commit_settled_def commit_mark_def mark_installed_def mark_done_def commit_advance_def
      COMMIT_ORDER_def commit_installed_def)+

lemma finish_edit_cases:
  assumes "finish_edit lib t supplied identity document replacement old new changed v c = (effects, c', r)" and "commit_settled c"
  shows "commit_settled c' \<and> Rename \<notin> set effects \<and>
    (\<forall>env. r = Inr env \<longrightarrow> (\<exists>e. env = Failure e \<and> ee_code e = UNCERTAIN \<and> ee_retry e = Some never_retry) \<or>
       (\<exists>e n. env = Success e \<and> effects = [Notify n] \<and> c' \<in> {None, Some DONE}))"
proof (cases "from_bytes replacement")
  case (Inl e)
  with assms show ?thesis by (auto simp: finish_edit_def dest: uncertain_code)
next
  case (Inr s)
  show ?thesis
  proof (cases "ev_notify v")
    case (Notified n)
    obtain c1 ok where m: "commit_mark mark_done c = (c1, ok)" by fastforce
    then have c1: "commit_settled c1" "ok \<Longrightarrow> c1 \<in> {None, Some DONE}"
      using commit_mark_settled(2) [OF assms(2)] commit_mark_settled(3) [of c] by auto
    show ?thesis
      using assms(1) c1 by (cases ok) (auto simp: finish_edit_def Inr Notified m Let_def split: sum.splits)
  qed (use assms Inr in \<open>auto simp: finish_edit_def Let_def dest: uncertain_code\<close>)
qed

lemma install_trace_rename: "install_trace name mode content post effects \<Longrightarrow> Rename \<in> set effects \<and> count_list effects Rename = 1"
proof -
  assume a: "install_trace name mode content post effects"
  have "Rename \<notin> set (map WriteTemporary chunks)" for chunks by auto
  with a show ?thesis unfolding install_trace_def by (auto simp: count_list_0_iff)
qed

lemma install_trace_append: "install_trace name mode content post effects \<Longrightarrow> Rename \<notin> set extra \<Longrightarrow> install_trace name mode content (post @ extra) (effects @ extra)"
  by (auto simp: install_trace_def)

lemma install_edit_cases:
  assumes "install_edit lib t supplied identity document replacement current mode expected v c = (effects, c', r)"
  shows "Rename \<notin> set effects \<and> c' = c \<and> (\<forall>env. r = Inr env \<longrightarrow> \<not> answer_installed env) \<or>
    install_guard current (ev_atomic v) \<and> commit_settled c' \<and>
    (\<exists>post. install_trace (temporary_name t (av_token (ev_atomic v))) mode replacement post effects) \<and>
    (\<forall>env. r = Inr env \<longrightarrow> (\<exists>e. env = Failure e \<and> ee_code e = UNCERTAIN \<and> ee_retry e = Some never_retry) \<or>
       (\<exists>e. env = Success e \<and> notified_once effects \<and> c' \<in> {None, Some DONE}))"
proof -
  obtain e1 c1 r1 where a: "atomic_replace lib t replacement current mode (ev_atomic v) c = (e1, c1, r1)" by (metis prod_cases3)
  let ?name = "temporary_name t (av_token (ev_atomic v))"
  from atomic_replace_cases [OF a] show ?thesis
  proof (elim disjE conjE exE)
    assume no: "Rename \<notin> set e1" "c1 = c" and "r1 \<in> refused"
    then consider "r1 = Inl InvalidTarget" | "r1 = Inl AtomicOSError" | h where "r1 = Inl (ConcurrentChange h)" by auto
    then have "effects = e1 \<and> c' = c1 \<and> (\<forall>env. r = Inr env \<longrightarrow> \<not> answer_installed env)"
      using assms a by cases (auto simp: install_edit_def Let_def dest: refusals)
    with no show ?thesis by simp
  next
    fix post ra assume g: "install_guard current (ev_atomic v)"
      and t: "install_trace ?name mode replacement (post @ [UnlinkTemporary]) e1"
      and ar: "(Rename # post, c1, ra) = after_rename lib replacement (ev_atomic v) c"
      and r1: "r1 = (if av_unlink (ev_atomic v) = UnlinkFailed then Inl AtomicOSError else ra)"
    have set1: "commit_settled c1" and post: "post \<in> {[], [FlushDirectory]}" "\<forall>h. ra = Inr h \<longrightarrow> post = [FlushDirectory]"
      and ra: "ra \<notin> {Inl InvalidTarget} \<union> range (Inl \<circ> ConcurrentChange) \<union> {Inl AtomicOSError}"
      using after_rename_effects [OF ar [symmetric]] commit_mark_settled(1) by auto
    consider "r1 = Inl AtomicOSError" | "r1 = Inl AtomicCommitError" | st where "r1 = Inl (InstalledUncertain st)"
      | h where "r1 = Inr h" "ra = Inr h"
      using r1 ra by (cases ra; cases "projl ra") (auto split: if_splits)
    then show ?thesis
    proof cases
      case 4
      obtain e2 c2 r2 where f: "finish_edit lib t supplied identity document replacement (lb_sha256 lib current) (lb_sha256 lib replacement) h v c1 = (e2, c2, r2)"
        by (metis prod_cases3)
      with assms a 4 have e: "effects = e1 @ e2" "c' = c2" "r = r2" by (auto simp: install_edit_def Let_def)
      note fin = finish_edit_cases [OF f set1]
      have "FlushDirectory \<in> set e1 \<and> \<not> (\<exists>m. Notify m \<in> set e1)" using t post 4 by (auto simp: install_trace_def)
      then have "notified_once effects" if "e2 = [Notify n]" for n using that e(1) by (auto simp: notified_once_def)
      with fin g e install_trace_append [OF t, of e2] show ?thesis by blast
    qed (use assms a g t set1 in \<open>auto simp: install_edit_def Let_def dest: uncertain_code\<close>)
  qed
qed

definition edit_reaches ::
    "libraries \<Rightarrow> (text_cp \<Rightarrow> text_cp) \<Rightarrow> name_path_arg \<Rightarrow> text_cp \<Rightarrow> text_cp \<Rightarrow> text_cp \<Rightarrow> edit_env \<Rightarrow> authorized_edit \<Rightarrow> target_snapshot \<Rightarrow>
     file_snapshot \<Rightarrow> document_symbol_input \<Rightarrow> json \<times> int \<times> int \<times> document_navigation \<Rightarrow> target_snapshot \<Rightarrow> nat list \<Rightarrow> bool" where
  "edit_reaches lib as_uri np rel body h v t current snapshot supplied resolved confirmed replacement \<longleftrightarrow>
     ev_authorize v = Authorized t \<and> ae_relative_path t = rel \<and>
     read_target (ev_read v) = Some current \<and> lb_sha256 lib (ts_raw_bytes current) = lower_hash h \<and>
     from_bytes (ts_raw_bytes current) = Inr snapshot \<and> ev_resolve v = Resolved supplied \<and>
     resolve_unique_symbol lib as_uri t snapshot supplied np = Inr (Inr resolved) \<and>
     read_target (ev_confirm v) = Some confirmed \<and> ts_raw_bytes confirmed = ts_raw_bytes current \<and>
     replacement_bytes snapshot body (nat (fst (snd resolved))) (nat (fst (snd (snd resolved)))) = Some replacement"

abbreviation (input) untouched :: "commit \<Rightarrow> edit_result \<Rightarrow> bool" where
  "untouched c res \<equiv> Rename \<notin> set (fst res) \<and> fst (snd res) = c \<and> (\<forall>env. snd (snd res) = Inr env \<longrightarrow> \<not> answer_installed env)"

lemma resolve_failure:
  assumes "resolve_unique_symbol lib as_uri t snapshot supplied np = Inr (Inl env)" shows "\<not> answer_installed env"
proof -
  obtain d e where "find_symbol lib d np False False False 64000 None = Inr (Failure e)" "env = Failure e"
    using assms unfolding resolve_unique_symbol_def
    by (auto split: if_splits sum.splits tool_envelope.splits option.splits json.splits)
  with find_symbol_code show ?thesis by (force simp: answer_installed_def)
qed

lemma edit_resolved_cases:
  assumes "edit_resolved lib t supplied snapshot resolved body expected v c = res" and "resolved = (identity, start, stop, document)"
  shows "untouched c res \<or> (\<exists>confirmed replacement. read_target (ev_confirm v) = Some confirmed \<and>
     ts_raw_bytes confirmed = fs_raw_bytes snapshot \<and> replacement_bytes snapshot body (nat start) (nat stop) = Some replacement \<and>
     install_edit lib t supplied identity document replacement (fs_raw_bytes snapshot) (ts_mode confirmed) expected v c = res)"
proof (cases "read_target (ev_confirm v)")
  case None
  with assms show ?thesis by (auto simp: edit_resolved_def dest: refusals)
next
  case (Some confirmed)
  show ?thesis
  proof (cases "ts_raw_bytes confirmed = fs_raw_bytes snapshot")
    case False
    with assms Some show ?thesis by (auto simp: edit_resolved_def dest: refusals)
  next
    case True
    with assms Some show ?thesis
      by (cases "replacement_bytes snapshot body (nat start) (nat stop)") (auto simp: edit_resolved_def dest: refusals)
  qed
qed

lemma edit_current_cases:
  assumes "edit_current lib as_uri t current np body expected v c = res"
  shows "untouched c res \<or>
    (\<exists>snapshot supplied identity start stop document confirmed replacement.
       from_bytes (ts_raw_bytes current) = Inr snapshot \<and> ev_resolve v = Resolved supplied \<and>
       resolve_unique_symbol lib as_uri t snapshot supplied np = Inr (Inr (identity, start, stop, document)) \<and>
       read_target (ev_confirm v) = Some confirmed \<and> ts_raw_bytes confirmed = ts_raw_bytes current \<and>
       replacement_bytes snapshot body (nat start) (nat stop) = Some replacement \<and>
       install_edit lib t supplied identity document replacement (ts_raw_bytes current) (ts_mode confirmed) expected v c = res)"
proof (cases "\<exists>snapshot supplied resolved. from_bytes (ts_raw_bytes current) = Inr snapshot \<and> ev_resolve v = Resolved supplied \<and>
    resolve_unique_symbol lib as_uri t snapshot supplied np = Inr (Inr resolved)")
  case True
  then obtain snapshot supplied resolved where s: "from_bytes (ts_raw_bytes current) = Inr snapshot" "ev_resolve v = Resolved supplied"
    "resolve_unique_symbol lib as_uri t snapshot supplied np = Inr (Inr resolved)" by blast
  obtain identity start stop document where q: "resolved = (identity, start, stop, document)" by (metis prod_cases4)
  have "edit_resolved lib t supplied snapshot resolved body expected v c = res" using assms s by (simp add: edit_current_def)
  from edit_resolved_cases [OF this q] from_bytes_ok(2) [OF s(1)] s q show ?thesis by auto
next
  case False
  then show ?thesis
    using assms by (auto simp: edit_current_def Let_def split: sum.splits resolve_outcome.splits dest: refusals resolve_failure)
qed

lemma edit_cases:
  assumes "replace_symbol_body lib as_uri np rel body h v c = res"
  shows "untouched c res \<or>
    (\<exists>t current snapshot supplied identity start stop document confirmed replacement.
       edit_reaches lib as_uri np rel body h v t current snapshot supplied (identity, start, stop, document) confirmed replacement \<and>
       install_edit lib t supplied identity document replacement (ts_raw_bytes current) (ts_mode confirmed) (lower_hash h) v c = res)"
proof (cases "\<exists>t current. valid_name_path np \<and> rel \<noteq> [] \<and> 0 \<notin> set rel \<and> valid_hash h \<and> ev_authorize v = Authorized t \<and>
    ae_relative_path t = rel \<and> read_target (ev_read v) = Some current \<and> lb_sha256 lib (ts_raw_bytes current) = lower_hash h")
  case True
  then obtain t current where g: "valid_name_path np" "rel \<noteq> []" "0 \<notin> set rel" "valid_hash h" "ev_authorize v = Authorized t"
    "ae_relative_path t = rel" "read_target (ev_read v) = Some current" "lb_sha256 lib (ts_raw_bytes current) = lower_hash h" by blast
  have "edit_current lib as_uri t current np body (lower_hash h) v c = res" using assms g by (simp add: replace_symbol_body_def Let_def)
  from edit_current_cases [OF this] g show ?thesis unfolding edit_reaches_def by auto
next
  case False
  then show ?thesis
    using assms
    by (auto simp: replace_symbol_body_def Let_def split: if_splits option.splits authorize_outcome.splits dest: refusals)
qed

section \<open>The bytes of the symbol\<close>

lemma nav_keys_not_secret:
  "list_all (\<lambda>k. \<not> secret_key (lit k)) [''relative_path'', ''sha256'', ''symbol'', ''name'', ''name_path'', ''kind'', ''range'',
     ''start'', ''end'', ''line'', ''column'', ''text_offset'', ''byte_offset'']"
  by (simp add: secret_key_def SECRET_KEY_FRAGMENTS_def lit_simps lower_cp_def)

definition shown_symbol :: "symbol \<Rightarrow> public_position \<times> public_position \<Rightarrow> json" where
  "shown_symbol s ab = JObj [(lit ''name'', JStr (sy_name s)), (lit ''name_path'', JStr (name_path_text s)),
     (lit ''kind'', JInt (sy_kind s)), (lit ''range'', JObj [(lit ''start'', position_json (fst ab)), (lit ''end'', position_json (snd ab))])]"

abbreviation symbol_positions :: "document_navigation \<Rightarrow> symbol \<Rightarrow> position_error + public_position \<times> public_position" where
  "symbol_positions d s \<equiv> render_range (dn_mapper d) (lsp_position_of (rg_start (loc_range (sy_location s))))
     (lsp_position_of (rg_end (loc_range (sy_location s))))"

lemma symbol_data_plain:
  "symbol_data d s False False = Inr kvs \<longleftrightarrow> (\<exists>ab. symbol_positions d s = Inr ab \<and> JObj kvs = shown_symbol s ab)"
  by (auto simp: symbol_data_def source_range_def map_sum_Inr shown_symbol_def split: sum.splits)

lemma find_symbol_success:
  assumes "find_symbol lib d np False False False n k = Inr (Success e)"
  shows "\<exists>p s ab. parse_name_path np = Some p \<and> find_matches d p False = [s] \<and> symbol_positions d s = Inr ab \<and>
    obj_get ''symbol'' (se_data e) = Some (shown_symbol s ab)"
proof -
  obtain p where p: "parse_name_path np = Some p"
    using assms by (auto simp: find_symbol_def invalid_bounds_def split: option.splits dest: nav_error_code)
  have "\<exists>s. find_matches d p False = [s]"
  proof (rule ccontr)
    assume no: "\<nexists>s. find_matches d p False = [s]"
    have amb: "ambiguous_error d p ss b \<noteq> Inr (Success e)" for ss b
      by (auto simp: ambiguous_error_def name_path_error_def split: sum.splits prod.splits dest: nav_error_code)
    show False
      using assms no p amb unfolding find_symbol_def
      by (auto simp: nav_codes split: if_splits list.splits dest: nav_error_code)
  qed
  then obtain s where s: "find_matches d p False = [s]" ..
  obtain kvs where kvs: "symbol_data d s False False = Inr kvs"
    using assms p s by (auto simp: find_symbol_def invalid_bounds_def split: if_splits sum.splits dest: nav_error_code)
  obtain ab where ab: "symbol_positions d s = Inr ab" "JObj kvs = shown_symbol s ab" using kvs symbol_data_plain by blast
  let ?data = "JObj [(lit ''relative_path'', JStr (dn_relative_path d)), (lit ''sha256'', JStr (document_sha256 lib d)), (lit ''symbol'', JObj kvs)]"
  have "no_secret_keys ?data" unfolding ab(2) shown_symbol_def position_json_def
    using nav_keys_not_secret by (simp del: lit_simps)
  then have jv: "json_value (lit ''data'') (obj_of_json ?data) = Inr ?data" by (rule json_value_obj)
  have "nav_success ?data (dn_workspace d) (dn_adapter d) (dn_generations d) None = Inr (Success e)"
    using assms p s kvs by (auto simp: find_symbol_def invalid_bounds_def split: if_splits dest: nav_error_code)
  then have "se_data e = ?data" using jv by (auto simp: nav_success_def make_success_def simp del: obj_of_json.simps lit_simps)
  then have "obj_get ''symbol'' (se_data e) = Some (shown_symbol s ab)" using ab(2) by (simp add: obj_get_def lit_simps)
  with p s ab(1) show ?thesis by blast
qed

lemma resolved_symbol:
  assumes "resolve_unique_symbol lib as_uri t snapshot supplied np = Inr (Inr (identity, start, stop, document))"
  shows "from_input lib supplied = Inr document" "fs_raw_bytes (di_snapshot supplied) = fs_raw_bytes snapshot"
    "\<exists>p s a b. parse_name_path np = Some p \<and> find_matches document p False = [s] \<and> symbol_positions document s = Inr (a, b) \<and>
       start = int (pp_byte_offset a) \<and> stop = int (pp_byte_offset b) \<and>
       identity = JObj [(lit ''name'', JStr (sy_name s)), (lit ''name_path'', JStr (name_path_text s)), (lit ''kind'', JInt (sy_kind s))]"
proof -
  from assms obtain d e sym rr where e: "from_input lib supplied = Inr d" "find_symbol lib d np False False False 64000 None = Inr (Success e)"
    "obj_get ''symbol'' (se_data e) = Some (JObj sym)" "obj_get ''range'' (JObj sym) = Some (JObj rr)"
    "byte_offset (JObj rr) ''start'' = Some start" "byte_offset (JObj rr) ''end'' = Some stop" "document = d"
    "identity = JObj (map (\<lambda>k. (lit k, the (obj_get k (JObj sym)))) [''name'', ''name_path'', ''kind''])"
    and raw: "fs_raw_bytes (di_snapshot supplied) = fs_raw_bytes snapshot"
    unfolding resolve_unique_symbol_def
    by (auto simp del: lit_simps split: if_splits sum.splits tool_envelope.splits option.splits json.splits)
  show "from_input lib supplied = Inr document" "fs_raw_bytes (di_snapshot supplied) = fs_raw_bytes snapshot" using e raw by auto
  obtain p s ab where s: "parse_name_path np = Some p" "find_matches d p False = [s]" "symbol_positions d s = Inr ab"
    "JObj sym = shown_symbol s ab" using find_symbol_success [OF e(2)] e(3) by auto
  have "JObj rr = JObj [(lit ''start'', position_json (fst ab)), (lit ''end'', position_json (snd ab))]"
    using e(4) unfolding s(4) shown_symbol_def by (simp add: obj_get_def lit_simps)
  then have "start = int (pp_byte_offset (fst ab))" "stop = int (pp_byte_offset (snd ab))"
    using e(5,6) by (simp_all add: byte_offset_def obj_get_def position_json_def lit_simps)
  moreover have "identity = JObj [(lit ''name'', JStr (sy_name s)), (lit ''name_path'', JStr (name_path_text s)), (lit ''kind'', JInt (sy_kind s))]"
    unfolding e(8) s(4) shown_symbol_def by (simp add: obj_get_def lit_simps)
  ultimately show "\<exists>p s a b. parse_name_path np = Some p \<and> find_matches document p False = [s] \<and> symbol_positions document s = Inr (a, b) \<and>
       start = int (pp_byte_offset a) \<and> stop = int (pp_byte_offset b) \<and>
       identity = JObj [(lit ''name'', JStr (sy_name s)), (lit ''name_path'', JStr (name_path_text s)), (lit ''kind'', JInt (sy_kind s))]"
    using s e(7) by (metis prod.collapse)
qed

end
