(* ===== verification/EditedFile.thy ===== *)
theory EditedFile
  imports Editing
begin

text \<open>
  The file after an edit: its text, its byte order mark and its newline style, in terms of the
  text before it.
\<close>

section \<open>Newline styles\<close>

fun breaks :: "text_cp \<Rightarrow> text_cp list" where
  "breaks (c # d # s) = (if c = CR \<and> d = LF then [CR, LF] # breaks s
     else if c = LF \<or> c = CR then [c] # breaks (d # s) else breaks (d # s))"
| "breaks [c] = (if c = LF \<or> c = CR then [[c]] else [])"
| "breaks [] = []"

lemma breaks_Cons:
  "breaks (c # s) = (if c = CR \<and> s \<noteq> [] \<and> hd s = LF then [CR, LF] # breaks (tl s)
     else if c = LF \<or> c = CR then [c] # breaks s else breaks s)"
  by (cases s) auto

lemma scan_lines_breaks: "lt_endings (scan_lines tx i t) = lt_endings t @ breaks (drop i tx)"
proof (induction tx i t rule: scan_lines.induct)
  case (1 tx i t)
  show ?case
  proof (cases "i < length tx")
    case True
    then have d: "drop i tx = tx ! i # drop (Suc i) tx" by (simp add: Cons_nth_drop_Suc)
    have n: "drop (Suc i) tx \<noteq> [] \<and> hd (drop (Suc i) tx) = LF \<longleftrightarrow> Suc i < length tx \<and> tx ! Suc i = LF"
      by (auto simp: hd_drop_conv_nth)
    show ?thesis
    proof (cases "tx ! i = CR \<and> i + 1 < length tx \<and> tx ! (i + 1) = LF")
      case c: True
      with 1(1) [OF True c] True show ?thesis
        unfolding d breaks_Cons n [unfolded conj_assoc [symmetric]]
        by (simp add: scan_lines.simps [of tx i] end_line_def n tl_drop drop_Suc [symmetric])
    next
      case c: False
      show ?thesis
      proof (cases "tx ! i = LF \<or> tx ! i = CR")
        case nl: True
        with 1(2) [OF True c nl] True c show ?thesis
          unfolding d breaks_Cons by (auto simp: scan_lines.simps [of tx i] end_line_def hd_drop_conv_nth)
      next
        case nl: False
        with 1(3) [OF True c nl] True c show ?thesis
          unfolding d breaks_Cons by (auto simp: scan_lines.simps [of tx i] hd_drop_conv_nth)
      qed
    qed
  qed (simp add: scan_lines.simps [of tx i])
qed

lemma from_bytes_breaks: "from_bytes raw = Inr s \<Longrightarrow> fs_line_endings s = breaks (fs_text s)"
  by (auto simp: from_bytes_def Let_def scan_lines_breaks split: option.splits)

text \<open>A text in which every newline is \<open>nl\<close>: a text of line feeds, expanded.\<close>

definition expand :: "text_cp \<Rightarrow> text_cp \<Rightarrow> text_cp" where
  "expand nl u = concat (map (\<lambda>c. if c = LF then nl else [c]) u)"

lemma expand_simps [simp]: "expand nl [] = []" "expand nl (c # u) = (if c = LF then nl else [c]) @ expand nl u"
  "expand nl (u @ w) = expand nl u @ expand nl w"
  by (simp_all add: expand_def)

lemma expand_LF [simp]: "expand [LF] u = u"
  by (induction u) auto

lemma breaks_expand:
  assumes "CR \<notin> set u" and "nl \<in> {[LF], [CR, LF]}" shows "set (breaks (expand nl u)) \<subseteq> {nl}"
  using assms
proof (induction u)
  case (Cons c u)
  have ih: "set (breaks (expand nl u)) \<subseteq> {nl}" and c: "c \<noteq> CR" using Cons by simp_all
  show ?case
  proof (cases "c = LF")
    case True
    from Cons.prems(2) consider "nl = [LF]" | "nl = [CR, LF]" by auto
    then show ?thesis
    proof cases
      case 1
      with True ih show ?thesis by (simp add: breaks_Cons [of LF])
    next
      case 2
      with True ih show ?thesis by simp
    qed
  next
    case False
    with c ih show ?thesis by (simp add: breaks_Cons [of c])
  qed
qed simp

lemma expand_breaks:
  assumes "set (breaks tx) \<subseteq> {nl}" and "nl \<in> {[LF], [CR, LF]}" shows "\<exists>u. CR \<notin> set u \<and> tx = expand nl u"
  using assms(1)
proof (induction tx rule: breaks.induct)
  case (1 c d s)
  show ?case
  proof (cases "c = CR \<and> d = LF")
    case True
    with 1(4) have nl: "nl = [CR, LF]" and s: "set (breaks s) \<subseteq> {nl}" by simp_all
    obtain u where "CR \<notin> set u" "s = expand nl u" using 1(1) [OF True s] by blast
    with True nl show ?thesis by (intro exI [of _ "LF # u"]) simp
  next
    case False
    have ds: "set (breaks (d # s)) \<subseteq> {nl}" using 1(4) False by (auto simp del: breaks.simps simp: breaks.simps(1) [of c] split: if_split_asm)
    have c: "c \<noteq> CR \<and> (c = LF \<longrightarrow> nl = [LF])"
      using 1(4) False assms(2) by (auto simp del: breaks.simps simp: breaks.simps(1) [of c] split: if_split_asm)
    obtain u where u: "CR \<notin> set u" "d # s = expand nl u" using 1(2) [OF False _ ds] 1(3) [OF False _ ds] by blast
    have "c # d # s = expand nl (c # u)" using c u(2) by simp
    with c u(1) show ?thesis by (intro exI [of _ "c # u"]) (simp del: expand_simps)
  qed
next
  case (2 c)
  then have "c \<noteq> CR \<and> (c = LF \<longrightarrow> nl = [LF])" using assms(2) by (auto split: if_splits)
  then show ?case by (intro exI [of _ "[c]"]) simp
next
  case 3
  show ?case by (intro exI [of _ "[]"]) simp
qed

text \<open>Cutting such a text anywhere but inside a pair.\<close>

definition inside_pair :: "text_cp \<Rightarrow> nat \<Rightarrow> bool" where
  "inside_pair tx i \<longleftrightarrow> 0 < i \<and> i < length tx \<and> tx ! (i - 1) = CR \<and> tx ! i = LF"

lemma expand_cut:
  assumes "tx = expand nl u" and "nl \<in> {[LF], [CR, LF]}" and "\<not> inside_pair tx i"
  shows "\<exists>k. take i tx = expand nl (take k u) \<and> drop i tx = expand nl (drop k u)"
  using assms
proof (induction u arbitrary: tx i)
  case Nil
  then show ?case by simp
next
  case (Cons c u)
  let ?h = "if c = LF then nl else [c]"
  show ?case
  proof (cases "length ?h \<le> i")
    case True
    have "\<not> inside_pair (expand nl u) (i - length ?h)"
    proof
      assume "inside_pair (expand nl u) (i - length ?h)"
      with Cons.prems True show False
        by (auto simp: inside_pair_def nth_append Suc_diff_le split: if_splits)
    qed
    from Cons.IH [OF refl Cons.prems(2) this] obtain k where
      "take (i - length ?h) (expand nl u) = expand nl (take k u)" "drop (i - length ?h) (expand nl u) = expand nl (drop k u)" by blast
    with Cons.prems(1) True show ?thesis by (intro exI [of _ "Suc k"]) simp
  next
    case False
    then have "i = 0 \<or> (i = 1 \<and> ?h = [CR, LF])" using Cons.prems(2) by (auto split: if_splits)
    with Cons.prems show ?thesis by (auto simp: inside_pair_def intro: exI [of _ 0] split: if_splits)
  qed
qed

lemma normalized_body_expand: "\<exists>u. CR \<notin> set u \<and> normalized_body nl body = expand nl u"
  unfolding normalized_body_def expand_def by (rule exI, rule conjI [rotated], rule refl) auto

section \<open>The text after an edit\<close>

lemma offset_not_inside_pair:
  assumes ok: "snapshot_ok (pm_snapshot m)" and ofs: "lsp_to_text_offset m p = Inr i"
  shows "\<not> inside_pair (fs_text (pm_snapshot m)) i"
proof
  assume pair: "inside_pair (fs_text (pm_snapshot m)) i"
  let ?s = "pm_snapshot m" and ?n = "nat (lsp_line p)"
  have n: "?n \<le> length (fs_line_endings ?s)" "fs_line_starts ?s ! ?n \<le> i" "i \<le> fs_line_content_ends ?s ! ?n"
    using ofs lsp_to_text_offset_iff [OF ok] by auto
  have start: "fs_line_starts ?s ! ?n = i"
  proof (rule ccontr)
    assume "fs_line_starts ?s ! ?n \<noteq> i"
    with n have "fs_line_starts ?s ! ?n \<le> i - 1" "i - 1 < fs_line_content_ends ?s ! ?n" using pair by (auto simp: inside_pair_def)
    with snapshot_lines(6) [OF ok n(1)] have "\<not> newline (fs_text ?s ! (i - 1))" by (simp add: line_row_def)
    with pair show False by (simp add: inside_pair_def newline_def)
  qed
  have "?n \<noteq> 0"
  proof
    assume "?n = 0"
    with start snapshot_lines(3) [OF ok] have "i = 0" by simp
    with pair show False by (simp add: inside_pair_def)
  qed
  then obtain k where k: "?n = Suc k" using not0_implies_Suc by blast
  with n(1) start snapshot_lines(4,5) [OF ok, of k]
  have "terminator (fs_text ?s) (fs_line_content_ends ?s ! k) i (fs_line_endings ?s ! k)" by simp
  with pair show False by (auto simp: inside_pair_def terminator_def)
qed

lemma from_bytes_encoded:
  assumes "list_all valid_cp cs" and "bom = BOM \<or> bom = [] \<and> (cs = [] \<or> hd cs \<noteq> 65279)"
  shows "\<exists>s. from_bytes (bom @ utf8_encode cs) = Inr s \<and> fs_text s = cs \<and> fs_bom s = bom"
proof (cases "bom = BOM")
  case True
  with decode_encode [OF assms(1)] show ?thesis by (simp add: from_bytes_def BOM_def Let_def)
next
  case False
  with assms utf8_bom_first [OF assms(1)] have "bom = []" "take 3 (utf8_encode cs) \<noteq> BOM" by auto
  with decode_encode [OF assms(1)] show ?thesis by (simp add: from_bytes_def Let_def)
qed

lemma cut_bytes:
  assumes "snapshot_ok s" and "i \<le> length (fs_text s)"
  shows "take (fs_text_to_byte s ! i) (fs_raw_bytes s) = fs_bom s @ utf8_encode (take i (fs_text s))"
    and "drop (fs_text_to_byte s ! i) (fs_raw_bytes s) = utf8_encode (drop i (fs_text s))"
proof -
  have "utf8_encode (fs_text s) = utf8_encode (take i (fs_text s)) @ utf8_encode (drop i (fs_text s))"
    by (metis append_take_drop_id utf8_encode_simps(3))
  then have "fs_raw_bytes s = (fs_bom s @ utf8_encode (take i (fs_text s))) @ utf8_encode (drop i (fs_text s))"
    using assms(1) by (simp add: snapshot_ok_def Let_def)
  moreover have "fs_text_to_byte s ! i = length (fs_bom s @ utf8_encode (take i (fs_text s)))"
    using snapshot_byte(1) [OF assms] by simp
  ultimately show "take (fs_text_to_byte s ! i) (fs_raw_bytes s) = fs_bom s @ utf8_encode (take i (fs_text s))"
    "drop (fs_text_to_byte s ! i) (fs_raw_bytes s) = utf8_encode (drop i (fs_text s))" by simp_all
qed

lemma newline_contract_style:
  assumes "newline_contract s = Some nl" shows "nl \<in> {[LF], [CR, LF]} \<and> set (fs_line_endings s) \<subseteq> {nl}"
  using assms by (auto simp: newline_contract_def Let_def split: if_splits)

definition edited_text :: "text_cp \<Rightarrow> nat \<Rightarrow> nat \<Rightarrow> text_cp \<Rightarrow> text_cp" where
  "edited_text tx i j new = take i tx @ new @ drop j tx"

lemma edited_newlines:
  assumes "from_bytes raw = Inr s" and "newline_contract s = Some nl"
    and "\<not> inside_pair (fs_text s) i" "\<not> inside_pair (fs_text s) j"
  shows "set (breaks (edited_text (fs_text s) i j (normalized_body nl body))) \<subseteq> {nl}"
proof -
  have nl: "nl \<in> {[LF], [CR, LF]}" "set (breaks (fs_text s)) \<subseteq> {nl}"
    using newline_contract_style [OF assms(2)] from_bytes_breaks [OF assms(1)] by auto
  obtain u where u: "CR \<notin> set u" "fs_text s = expand nl u" using expand_breaks [OF nl(2,1)] by blast
  obtain k where k: "take i (fs_text s) = expand nl (take k u)" using expand_cut [OF u(2) nl(1) assms(3)] by blast
  obtain l where l: "drop j (fs_text s) = expand nl (drop l u)" using expand_cut [OF u(2) nl(1) assms(4)] by blast
  obtain w where w: "CR \<notin> set w" "normalized_body nl body = expand nl w" using normalized_body_expand by blast
  have "edited_text (fs_text s) i j (normalized_body nl body) = expand nl (take k u @ w @ drop l u)"
    by (simp add: edited_text_def k l w(2))
  moreover have "CR \<notin> set (take k u @ w @ drop l u)" using u(1) w(1) by (auto dest: in_set_takeD in_set_dropD)
  ultimately show ?thesis using breaks_expand nl(1) by metis
qed

lemma symbol_offsets:
  assumes ok: "snapshot_ok s" and m: "dn_mapper d = \<lparr>pm_snapshot = s, pm_encoding = e\<rparr>" and r: "render_range (dn_mapper d) p q = Inr (a, b)"
  shows "\<exists>i j. lsp_to_text_offset (dn_mapper d) p = Inr i \<and> lsp_to_text_offset (dn_mapper d) q = Inr j \<and> i \<le> length (fs_text s) \<and>
    j \<le> length (fs_text s) \<and> pp_byte_offset a = fs_text_to_byte s ! i \<and> pp_byte_offset b = fs_text_to_byte s ! j"
  using r m by (auto simp: render_range_def render_position_def text_offset_to_byte_offset_def check_text_offset_def
      split: sum.splits if_splits)

lemma from_bytes_same: "from_bytes raw = Inr s \<Longrightarrow> from_bytes raw' = Inr s' \<Longrightarrow> fs_raw_bytes s' = fs_raw_bytes s \<Longrightarrow> s' = s"
  using from_bytes_ok(2) by (metis sum.inject(2))

text \<open>
  C3: A file is replaced only under its guard.  If the rename happens, it happens once; the
  authorised target is the path asked for; the bytes read at the start hash to the expected
  hash, were still there when read again before the temporary file was made and once more
  just before the rename, with the parent directory the same around that read; the name path
  matches one symbol only; and the temporary file, created under a hidden name beside the target,
  received exactly the bytes before the symbol, the new body and the bytes after it, got the
  target's mode and was flushed, before the rename.
\<close>

theorem edit_install_guarded:
  assumes "replace_symbol_body lib as_uri np rel body h v c = (effects, c', r)" and "Rename \<in> set effects"
  shows "count_list effects Rename = 1 \<and>
    (\<exists>t current confirmed supplied snapshot d p s a b nl content post.
       ev_authorize v = Authorized t \<and> ae_relative_path t = rel \<and>
       read_target (ev_read v) = Some current \<and> lb_sha256 lib (ts_raw_bytes current) = lower_hash h \<and>
       read_target (ev_confirm v) = Some confirmed \<and> ts_raw_bytes confirmed = ts_raw_bytes current \<and>
       install_guard (ts_raw_bytes current) (ev_atomic v) \<and>
       from_bytes (ts_raw_bytes current) = Inr snapshot \<and> ev_resolve v = Resolved supplied \<and> from_input lib supplied = Inr d \<and>
       parse_name_path np = Some p \<and> find_matches d p False = [s] \<and> symbol_positions d s = Inr (a, b) \<and>
       newline_contract snapshot = Some nl \<and>
       content = take (pp_byte_offset a) (ts_raw_bytes current) @ utf8_encode (normalized_body nl body) @
         drop (pp_byte_offset b) (ts_raw_bytes current) \<and>
       install_trace (temporary_name t (av_token (ev_atomic v))) (ts_mode confirmed) content post effects)"
proof -
  obtain t current snapshot supplied identity start stop d confirmed content where
    e: "edit_reaches lib as_uri np rel body h v t current snapshot supplied (identity, start, stop, d) confirmed content"
    "install_edit lib t supplied identity d content (ts_raw_bytes current) (ts_mode confirmed) (lower_hash h) v c = (effects, c', r)"
    using edit_cases [OF assms(1)] assms(2) by auto
  note g = e(1) [unfolded edit_reaches_def fst_conv snd_conv]
  obtain post where i: "install_guard (ts_raw_bytes current) (ev_atomic v)"
    "install_trace (temporary_name t (av_token (ev_atomic v))) (ts_mode confirmed) content post effects"
    using install_edit_cases [OF e(2)] assms(2) by blast
  have res: "resolve_unique_symbol lib as_uri t snapshot supplied np = Inr (Inr (identity, start, stop, d))" using g by blast
  obtain p s a b where s: "parse_name_path np = Some p" "find_matches d p False = [s]" "symbol_positions d s = Inr (a, b)"
    "start = int (pp_byte_offset a)" "stop = int (pp_byte_offset b)" using resolved_symbol(3) [OF res] by blast
  have raw: "fs_raw_bytes snapshot = ts_raw_bytes current" using g from_bytes_ok(2) by blast
  have rb: "replacement_bytes snapshot body (pp_byte_offset a) (pp_byte_offset b) = Some content" using g s(4,5) by simp
  then obtain nl where nl: "newline_contract snapshot = Some nl" "content = take (pp_byte_offset a) (ts_raw_bytes current) @
      utf8_encode (normalized_body nl body) @ drop (pp_byte_offset b) (ts_raw_bytes current)"
    using raw by (auto simp: replacement_bytes_def Let_def split: option.splits if_splits)
  show ?thesis
  proof (intro conjI exI)
    show "count_list effects Rename = 1" using install_trace_rename [OF i(2)] by blast
  qed (use g i s nl resolved_symbol(1) [OF res] in \<open>blast\<close>)+
qed

text \<open>
  C4: The answer tells whether the file changed.  When an edit answers, the rename has happened
  exactly if the answer is a success or the error \<open>UNCERTAIN\<close>, which is never retryable: every
  other error leaves the file and the commit state as they were.  After a rename the commit
  state is installed or done; a success is given only after the directory was flushed and one
  notification, the last effect, was sent, and with the commit done.
\<close>

theorem edit_answer_tells_install:
  assumes "replace_symbol_body lib as_uri np rel body h v c = (effects, c', Inr env)"
  shows "(Rename \<in> set effects \<longleftrightarrow> answer_installed env) \<and>
    (if Rename \<in> set effects then commit_settled c' else c' = c) \<and>
    (case env of Success _ \<Rightarrow> notified_once effects \<and> c' \<in> {None, Some DONE}
       | Failure e \<Rightarrow> ee_code e = UNCERTAIN \<longrightarrow> ee_retry e = Some never_retry)"
proof -
  from edit_cases [OF assms] consider (no) "Rename \<notin> set effects" "c' = c" "\<not> answer_installed env"
    | (yes) t supplied identity document content raw mode where
        "install_edit lib t supplied identity document content raw mode (lower_hash h) v c = (effects, c', Inr env)"
    by auto
  then show ?thesis
  proof cases
    case no
    then show ?thesis by (auto simp: answer_installed_def split: tool_envelope.splits)
  next
    case yes
    from install_edit_cases [OF yes] show ?thesis
      by (auto simp: answer_installed_def dest: install_trace_rename split: tool_envelope.splits)
  qed
qed

text \<open>
  C10: An edit changes the text of one symbol and nothing else.  Let the provider's snapshot be one
  built from bytes, and the replacement computed for a resolved symbol.  Then the new file
  decodes to the old text with the characters of the symbol's range replaced by the body,
  whose newlines were made those of the file; the byte order mark is kept and every newline
  of the new file is again in the file's style.  (Only a file without a mark whose new text starts with
  U+FEFF would read back differently.)
\<close>

theorem edited_file_text:
  assumes "from_bytes raw = Inr s" and "from_bytes raw' = Inr (di_snapshot supplied)"
    and "resolve_unique_symbol lib as_uri t s supplied np = Inr (Inr (identity, start, stop, d))"
    and "replacement_bytes s body (nat start) (nat stop) = Some content"
  shows "\<exists>p sym i j nl. parse_name_path np = Some p \<and> find_matches d p False = [sym] \<and>
    lsp_to_text_offset (dn_mapper d) (lsp_position_of (rg_start (loc_range (sy_location sym)))) = Inr i \<and>
    lsp_to_text_offset (dn_mapper d) (lsp_position_of (rg_end (loc_range (sy_location sym)))) = Inr j \<and>
    newline_contract s = Some nl \<and>
    (fs_bom s = BOM \<or> take 1 (edited_text (fs_text s) i j (normalized_body nl body)) \<noteq> [65279] \<longrightarrow>
      (\<exists>s'. from_bytes content = Inr s' \<and> fs_text s' = edited_text (fs_text s) i j (normalized_body nl body) \<and>
         fs_bom s' = fs_bom s \<and> set (fs_line_endings s') \<subseteq> {nl}))"
proof -
  note res = resolved_symbol [OF assms(3)]
  have ok: "snapshot_ok s" and same: "di_snapshot supplied = s" using from_bytes_ok(1) assms(1) from_bytes_same [OF assms(1,2) res(2)] by auto
  have m: "dn_mapper d = \<lparr>pm_snapshot = s, pm_encoding = di_encoding supplied\<rparr>"
    using res(1) same by (auto simp: from_input_def split: sum.splits)
  obtain p sym a b where sym: "parse_name_path np = Some p" "find_matches d p False = [sym]" "symbol_positions d sym = Inr (a, b)"
    "start = int (pp_byte_offset a)" "stop = int (pp_byte_offset b)" using res(3) by blast
  obtain i j where ij: "lsp_to_text_offset (dn_mapper d) (lsp_position_of (rg_start (loc_range (sy_location sym)))) = Inr i"
    "lsp_to_text_offset (dn_mapper d) (lsp_position_of (rg_end (loc_range (sy_location sym)))) = Inr j"
    "i \<le> length (fs_text s)" "j \<le> length (fs_text s)" "pp_byte_offset a = fs_text_to_byte s ! i" "pp_byte_offset b = fs_text_to_byte s ! j"
    using symbol_offsets [OF ok m sym(3)] by blast
  obtain nl where nl: "newline_contract s = Some nl" "list_all valid_cp (normalized_body nl body)"
    "content = take (fs_text_to_byte s ! i) (fs_raw_bytes s) @ utf8_encode (normalized_body nl body) @ drop (fs_text_to_byte s ! j) (fs_raw_bytes s)"
    using assms(4) sym(4,5) ij(5,6) by (auto simp: replacement_bytes_def Let_def split: option.splits if_splits)
  let ?new = "edited_text (fs_text s) i j (normalized_body nl body)"
  have content: "content = fs_bom s @ utf8_encode ?new" using cut_bytes [OF ok] ij(3,4) nl(3) by (simp add: edited_text_def)
  have mark: "fs_bom s = [] \<or> fs_bom s = BOM" and chars: "list_all valid_cp (fs_text s)" using ok by (simp_all add: snapshot_ok_def Let_def)
  have valid: "list_all valid_cp ?new" using chars nl(2) by (auto simp: edited_text_def list_all_iff dest: in_set_takeD in_set_dropD)
  have pairs: "\<not> inside_pair (fs_text s) i" "\<not> inside_pair (fs_text s) j"
    using offset_not_inside_pair [of "dn_mapper d"] ij(1,2) m ok by auto
  have "\<exists>s'. from_bytes content = Inr s' \<and> fs_text s' = ?new \<and> fs_bom s' = fs_bom s \<and> set (fs_line_endings s') \<subseteq> {nl}"
    if c: "fs_bom s = BOM \<or> take 1 ?new \<noteq> [65279]"
  proof -
    have "?new = [] \<or> hd ?new \<noteq> 65279" if "fs_bom s \<noteq> BOM" using c that by (cases "?new") auto
    then have "fs_bom s = BOM \<or> fs_bom s = [] \<and> (?new = [] \<or> hd ?new \<noteq> 65279)" using mark by blast
    from from_bytes_encoded [OF valid this] content obtain s' where
      s': "from_bytes content = Inr s'" "fs_text s' = ?new" "fs_bom s' = fs_bom s" by auto
    with edited_newlines [OF assms(1) nl(1) pairs] from_bytes_breaks [OF s'(1)] show ?thesis by auto
  qed
  with sym(1,2) ij(1,2) nl(1) show ?thesis by blast
qed

section \<open>A run\<close>

text \<open>The file of the snapshot example, with one symbol over its first character.\<close>

definition run_raw :: json where
  "run_raw = JObj [(lit ''name'', JStr (lit ''f'')), (lit ''kind'', JInt 12), (lit ''range'', JObj
     [(lit ''start'', JObj [(lit ''line'', JInt 0), (lit ''character'', JInt 0)]),
      (lit ''end'', JObj [(lit ''line'', JInt 0), (lit ''character'', JInt 1)])])]"

definition run_symbol :: symbol where
  "run_symbol = Symbol (lit ''f'') (lit ''f'') [lit ''f''] 12
     \<lparr>loc_uri = lit ''u'', loc_range = \<lparr>rg_start = (0, 0), rg_end = (0, 1)\<rparr>, loc_path = None\<rparr> \<lparr>rg_start = (0, 0), rg_end = (0, 1)\<rparr> None [] None"

definition run_lib :: libraries where
  "run_lib = \<lparr>lb_sha256 = (\<lambda>_. replicate 64 97), lb_uri_path = (\<lambda>_. None), lb_other_str = (\<lambda>_. [])\<rparr>"

definition run_input :: document_symbol_input where
  "run_input = \<lparr>di_relative_path = lit ''a.py'', di_uri = lit ''u'', di_snapshot = demo_snapshot, di_raw_symbols = Some [run_raw],
     di_encoding = UTF16, di_workspace = None, di_adapter = None, di_generations = None, di_completeness = None\<rparr>"

definition run_document :: document_navigation where
  "run_document = \<lparr>dn_relative_path = lit ''a.py'', dn_uri = lit ''u'', dn_snapshot = demo_snapshot,
     dn_mapper = \<lparr>pm_snapshot = demo_snapshot, pm_encoding = UTF16\<rparr>, dn_symbols = [run_symbol],
     dn_workspace = None, dn_adapter = None, dn_generations = None\<rparr>"

lemma run_from_input: "from_input run_lib run_input = Inr run_document"
  by (simp add: from_input_def run_lib_def run_input_def run_document_def normalize_document_symbols_def run_raw_def run_symbol_def
    normalize_siblings.simps normalize_rest.simps symbol_location_def symbol_selection_def symbol_kind_value_def child_mappings_def
    symbol_detail_def raw_get_def is_mapping_def lsp_raw_range_def lsp_raw_position_def make_range_def segment_def Let_def lit_simps)

lemma run_positions:
  "symbol_positions run_document run_symbol =
     Inr (\<lparr>pp_line = 0, pp_column = 0, pp_text_offset = 0, pp_byte_offset = 3\<rparr>,
          \<lparr>pp_line = 0, pp_column = 1, pp_text_offset = 1, pp_byte_offset = 4\<rparr>)"
  by (simp add: run_document_def run_symbol_def render_range_def render_position_def lsp_position_of_def position_eval Let_def)

lemma run_matches: "parse_name_path (NPText (lit ''/f'')) = Some \<lparr>np_components = [lit ''f''], np_absolute = True\<rparr>"
  "find_matches run_document \<lparr>np_components = [lit ''f''], np_absolute = True\<rparr> False = [run_symbol]"
  by (simp_all add: parse_name_path_def strip_slashes_def Let_def find_matches_def run_document_def run_symbol_def matches_name_path_def lit_simps)

definition run_shown :: json where
  "run_shown = JObj [(lit ''name'', JStr (lit ''f'')), (lit ''name_path'', JStr (lit ''f'')), (lit ''kind'', JInt 12),
     (lit ''range'', JObj [(lit ''start'', JObj [(lit ''line'', JInt 0), (lit ''column'', JInt 0), (lit ''text_offset'', JInt 0), (lit ''byte_offset'', JInt 3)]),
        (lit ''end'', JObj [(lit ''line'', JInt 0), (lit ''column'', JInt 1), (lit ''text_offset'', JInt 1), (lit ''byte_offset'', JInt 4)])])]"

lemma run_size: "length (sorted_json run_shown) < 300"
  by code_simp

lemma run_symbol_data: "\<exists>kvs. symbol_data run_document run_symbol False False = Inr kvs \<and> JObj kvs = run_shown"
proof -
  have "shown_symbol run_symbol (\<lparr>pp_line = 0, pp_column = 0, pp_text_offset = 0, pp_byte_offset = 3\<rparr>,
      \<lparr>pp_line = 0, pp_column = 1, pp_text_offset = 1, pp_byte_offset = 4\<rparr>) = run_shown"
    by (simp add: shown_symbol_def run_shown_def run_symbol_def position_json_def name_path_text_def)
  with run_positions show ?thesis unfolding symbol_data_plain
    by (metis run_shown_def)
qed

lemma run_find: "\<exists>e. find_symbol run_lib run_document (NPText (lit ''/f'')) False False False 64000 None = Inr (Success e) \<and>
    obj_get ''symbol'' (se_data e) = Some run_shown"
proof -
  obtain kvs where kvs: "symbol_data run_document run_symbol False False = Inr kvs" "JObj kvs = run_shown" using run_symbol_data by blast
  let ?data = "JObj [(lit ''relative_path'', JStr (dn_relative_path run_document)), (lit ''sha256'', JStr (document_sha256 run_lib run_document)),
    (lit ''symbol'', run_shown)]"
  have "no_secret_keys ?data" unfolding run_shown_def using nav_keys_not_secret by (simp del: lit_simps)
  then have "json_value (lit ''data'') (obj_of_json ?data) = Inr ?data" by (rule json_value_obj)
  then obtain e where e: "nav_success ?data (dn_workspace run_document) (dn_adapter run_document) (dn_generations run_document) None = Inr (Success e)"
    "se_data e = ?data" by (auto simp: nav_success_def make_success_def simp del: obj_of_json.simps lit_simps)
  have "\<not> int (length (sorted_json run_shown)) > 64000" using run_size by simp
  then have "find_symbol run_lib run_document (NPText (lit ''/f'')) False False False 64000 None = Inr (Success e)"
    using e(1) kvs by (simp add: find_symbol_def run_matches)
  moreover have "obj_get ''symbol'' (se_data e) = Some run_shown" unfolding e(2) by (simp add: obj_get_def lit_simps)
  ultimately show ?thesis by blast
qed

definition run_target :: authorized_edit where
  "run_target = \<lparr>ae_path = lit ''/w/a.py'', ae_relative_path = lit ''a.py'', ae_workspace = None, ae_root = Some (lit ''/w'')\<rparr>"

definition run_identity :: json where
  "run_identity = JObj [(lit ''name'', JStr (lit ''f'')), (lit ''name_path'', JStr (lit ''f'')), (lit ''kind'', JInt 12)]"

lemma run_resolve:
  "resolve_unique_symbol run_lib (\<lambda>_. lit ''u'') run_target demo_snapshot run_input (NPText (lit ''/f'')) =
     Inr (Inr (run_identity, 3, 4, run_document))"
proof -
  obtain e where e: "find_symbol run_lib run_document (NPText (lit ''/f'')) False False False 64000 None = Inr (Success e)"
    "obj_get ''symbol'' (se_data e) = Some run_shown" using run_find by blast
  obtain sym rr where sym: "run_shown = JObj sym" "obj_get ''range'' (JObj sym) = Some (JObj rr)"
    "byte_offset (JObj rr) ''start'' = Some 3" "byte_offset (JObj rr) ''end'' = Some 4"
    "map (\<lambda>k. (lit k, the (obj_get k (JObj sym)))) [''name'', ''name_path'', ''kind''] =
       [(lit ''name'', JStr (lit ''f'')), (lit ''name_path'', JStr (lit ''f'')), (lit ''kind'', JInt 12)]"
    unfolding run_shown_def by (simp add: obj_get_def byte_offset_def lit_simps)
  have g: "di_relative_path run_input = ae_relative_path run_target" "di_uri run_input = lit ''u''"
    "fs_raw_bytes (di_snapshot run_input) = fs_raw_bytes demo_snapshot"
    by (simp_all add: run_input_def run_target_def)
  show ?thesis
    unfolding resolve_unique_symbol_def run_identity_def sym(5) [symmetric]
    by (simp add: g run_from_input e sym(1-4) del: list.map lit_simps)
qed

lemma run_replacement:
  "replacement_bytes demo_snapshot [120, 10] 3 4 = Some [239, 187, 191, 120, 13, 10, 240, 159, 152, 128, 13, 10, 98]"
  by (simp add: replacement_bytes_def newline_contract_def demo_snapshot_def demo_raw_def normalized_body_def valid_cp_def
      utf8_encode_def encode_cp_def)

definition run_stat :: file_stat where
  "run_stat = \<lparr>st_dev = 8, st_ino = 7, st_size = 11, st_mtime_ns = 5, st_ctime_ns = 5, st_mode = 33188\<rparr>"

definition run_read :: file_read where
  "run_read = Opened (Some run_stat) (Some [demo_raw]) (Some run_stat) (Some run_stat)"

definition run_env :: edit_env where
  "run_env = \<lparr>ev_authorize = Authorized run_target, ev_read = DirectoryOpened run_read, ev_resolve = Resolved run_input,
     ev_confirm = DirectoryOpened run_read,
     ev_atomic = \<lparr>av_directory = True, av_token = lit ''0f'', av_create = True, av_writes = [6, 7], av_chmod = True, av_flush = True,
       av_close = True, av_parent1 = ParentStats (Some run_stat) (Some run_stat), av_read = run_read,
       av_parent2 = ParentStats (Some run_stat) (Some run_stat), av_replace = True,
       av_parent3 = ParentStats (Some run_stat) (Some run_stat), av_directory_flush = True, av_unlink = UnlinkMissing\<rparr>,
     ev_reread = DirectoryFailed, ev_notify = Notified \<lparr>nr_state = lit ''synced'', nr_file_generation = 2, nr_generations = None\<rparr>\<rparr>"

abbreviation run_edit :: edit_result where
  "run_edit \<equiv> replace_symbol_body run_lib (\<lambda>_. lit ''u'') (NPText (lit ''/f'')) (lit ''a.py'') [120, 10] (replicate 64 65) run_env (Some RUNNING)"

lemma run_read_target: "read_target_in_directory run_read = Some \<lparr>ts_raw_bytes = demo_raw, ts_mode = 420\<rparr>"
  "current_lexical_parent (ParentStats (Some run_stat) (Some run_stat))"
  by (simp_all add: read_target_in_directory_def run_read_def run_stat_def s_isreg_def s_imode_def stat_identity_def current_lexical_parent_def)

lemma run_guards: "valid_name_path (NPText (lit ''/f''))" "lit ''a.py'' \<noteq> []" "0 \<notin> set (lit ''a.py'')" "valid_hash (replicate 64 65)"
  "lower_hash (replicate 64 65) = replicate 64 97"
  by (simp_all add: valid_name_path_def strip_slashes_def valid_hash_def lower_hash_def lit_simps list_all_iff)

lemma run_atomic:
  "\<exists>effects. atomic_replace run_lib run_target [239, 187, 191, 120, 13, 10, 240, 159, 152, 128, 13, 10, 98] demo_raw 420 (ev_atomic run_env)
     (Some RUNNING) = (effects, Some INSTALLED, Inr (replicate 64 97)) \<and> Rename \<in> set effects"
  by (simp add: atomic_replace_def atomic_body_def install_checked_def after_rename_def run_env_def run_read_target commit_mark_def
      mark_installed_def commit_advance_def COMMIT_ORDER_def run_lib_def del: replicate.simps)

abbreviation run_content :: "nat list" where
  "run_content \<equiv> [239, 187, 191, 120, 13, 10, 240, 159, 152, 128, 13, 10, 98]"

lemma run_new_snapshot: "\<exists>s. from_bytes run_content = Inr s"
proof -
  have "utf8_decode [120, 13, 10, 240, 159, 152, 128, 13, 10, 98] = Some [120, 13, 10, 128512, 13, 10, 98]"
    by (simp add: utf8_decode.simps decode_step_def cont_def valid_cp_def)
  then show ?thesis by (simp add: from_bytes_def BOM_def Let_def)
qed

lemma run_finish:
  "\<exists>effects e. finish_edit run_lib run_target run_input run_identity run_document run_content (replicate 64 97) (replicate 64 97) (replicate 64 97)
     run_env (Some INSTALLED) = (effects, Some DONE, Inr (Success e))"
proof -
  obtain s where s: "from_bytes run_content = Inr s" using run_new_snapshot by blast
  let ?data = "JObj [(lit ''relative_path'', JStr (ae_relative_path run_target)), (lit ''old_hash'', JStr (replicate 64 97)),
    (lit ''new_hash'', JStr (replicate 64 97)), (lit ''symbol'', run_identity), (lit ''file_generation'', JInt 2),
    (lit ''notification_state'', JStr (lit ''synced''))]"
  have "no_secret_keys ?data"
    by (simp add: run_identity_def secret_key_def SECRET_KEY_FRAGMENTS_def lower_cp_def lit_simps del: replicate.simps)
  then have "json_value (lit ''data'') (obj_of_json ?data) = Inr ?data" by (rule json_value_obj)
  then have ms: "\<exists>e. make_success (obj_of_json ?data) w a g None = Inr e" for w a g
    by (simp add: make_success_def del: obj_of_json.simps lit_simps replicate.simps)
  have n: "ev_notify run_env = Notified \<lparr>nr_state = lit ''synced'', nr_file_generation = 2, nr_generations = None\<rparr>" by (simp add: run_env_def)
  have m: "commit_mark mark_done (Some INSTALLED) = (Some DONE, True)"
    by (simp add: commit_mark_def mark_done_def commit_advance_def COMMIT_ORDER_def)
  show ?thesis
    using ms [of "ae_workspace run_target" "di_adapter run_input" "di_generations run_input"]
    by (auto simp: finish_edit_def s n m Let_def simp del: obj_of_json.simps lit_simps replicate.simps)
qed

lemma run_edit_eq: "\<exists>effects e. run_edit = (effects, Some DONE, Inr (Success e)) \<and> Rename \<in> set effects"
proof -
  obtain effects where a: "atomic_replace run_lib run_target run_content demo_raw 420
      (ev_atomic run_env) (Some RUNNING) = (effects, Some INSTALLED, Inr (replicate 64 97))" "Rename \<in> set effects"
    using run_atomic by blast
  obtain sent e where f: "finish_edit run_lib run_target run_input run_identity run_document run_content (replicate 64 97) (replicate 64 97)
      (replicate 64 97) run_env (Some INSTALLED) = (sent, Some DONE, Inr (Success e))" using run_finish by blast
  have sha: "lb_sha256 run_lib xs = replicate 64 97" for xs by (simp add: run_lib_def)
  have "install_edit run_lib run_target run_input run_identity run_document run_content demo_raw 420 (replicate 64 97) run_env (Some RUNNING) =
      (effects @ sent, Some DONE, Inr (Success e))" by (simp add: install_edit_def sha a f Let_def)
  moreover have v: "ev_authorize run_env = Authorized run_target" "ev_read run_env = DirectoryOpened run_read"
    "ev_resolve run_env = Resolved run_input" "ev_confirm run_env = DirectoryOpened run_read" "ae_relative_path run_target = lit ''a.py''"
    "fs_raw_bytes demo_snapshot = demo_raw" by (simp_all add: run_env_def run_target_def demo_snapshot_def)
  ultimately have "run_edit = (effects @ sent, Some DONE, Inr (Success e))"
    by (simp add: replace_symbol_body_def edit_current_def edit_resolved_def run_guards read_target_def run_read_target sha demo_from_bytes
        run_resolve run_replacement del: lit_simps replicate.simps)
  with a(2) show ?thesis by simp
qed

theorem edit_install_guarded_witness:
  "\<exists>effects c r. run_edit = (effects, c, r) \<and> Rename \<in> set effects \<and> count_list effects Rename = 1"
proof -
  obtain effects e where run: "run_edit = (effects, Some DONE, Inr (Success e))" "Rename \<in> set effects" using run_edit_eq by blast
  from edit_install_guarded [OF run] run show ?thesis by blast
qed

theorem edit_answer_tells_install_witness:
  "\<exists>effects e. run_edit = (effects, Some DONE, Inr (Success e)) \<and> Rename \<in> set effects \<and> notified_once effects"
proof -
  obtain effects e where run: "run_edit = (effects, Some DONE, Inr (Success e))" "Rename \<in> set effects" using run_edit_eq by blast
  from edit_answer_tells_install [OF run(1)] run show ?thesis by auto
qed

theorem edited_file_text_witness:
  "\<exists>s'. from_bytes run_content = Inr s' \<and> fs_bom s' = BOM \<and> set (fs_line_endings s') \<subseteq> {[CR, LF]}"
proof -
  have m: "fs_bom demo_snapshot = BOM" "newline_contract demo_snapshot = Some [CR, LF]" by (simp_all add: demo_snapshot_def newline_contract_def)
  have i: "from_bytes demo_raw = Inr (di_snapshot run_input)" using demo_from_bytes by (simp add: run_input_def)
  have r: "replacement_bytes demo_snapshot [120, 10] (nat 3) (nat 4) = Some run_content" using run_replacement by simp
  from edited_file_text [OF demo_from_bytes i run_resolve r] m show ?thesis by auto
qed

end
