(* ===== verification/References.thy ===== *)
theory References
  imports Navigation
begin

text \<open>
  References to a symbol (\<open>tools/references.py\<close>): the locations an adapter returned are
  classified, deduplicated, put in order, located in the symbols of their files and cut to the
  answer's size.  The adapter, the classifier and the document provider are arguments.
\<close>

section \<open>Data\<close>

record reference_request =
  rq_relative_path :: text_cp
  rq_position :: position
  rq_workspace :: "workspace_md option"
  rq_adapter :: "adapter_md option"
  rq_generations :: "generation_md option"

record reference_coverage =
  rc_adapter :: text_cp
  rc_language :: text_cp
  rc_scope_kind :: text_cp
  rc_configured_files :: int
  rc_configured_digest :: text_cp
  rc_trusted_files :: int
  rc_trusted_digest :: text_cp
  rc_uncovered_files :: int
  rc_uncovered_digest :: text_cp
  rc_sample :: "text_cp list"
  rc_total :: int
  rc_omitted :: int

definition reference_coverage_ok :: "reference_coverage \<Rightarrow> bool" where
  "reference_coverage_ok c \<longleftrightarrow> rc_adapter c \<noteq> [] \<and> rc_language c \<noteq> [] \<and> rc_scope_kind c \<noteq> [] \<and>
     0 \<le> rc_configured_files c \<and> 0 \<le> rc_trusted_files c \<and> 0 \<le> rc_uncovered_files c \<and> 0 \<le> rc_total c \<and> 0 \<le> rc_omitted c \<and>
     rc_total c = rc_uncovered_files c \<and> rc_omitted c = rc_total c - int (length (rc_sample c)) \<and>
     sort (rc_sample c) = rc_sample c \<and> card (set (rc_sample c)) = length (rc_sample c)"

definition coverage_dict :: "reference_coverage \<Rightarrow> json" where
  "coverage_dict c = JObj
     [(lit ''adapter'', JStr (rc_adapter c)), (lit ''language'', JStr (rc_language c)), (lit ''scope_kind'', JStr (rc_scope_kind c)),
      (lit ''configured_program_files'', JInt (rc_configured_files c)), (lit ''configured_program_digest'', JStr (rc_configured_digest c)),
      (lit ''trusted_language_files'', JInt (rc_trusted_files c)), (lit ''trusted_language_digest'', JStr (rc_trusted_digest c)),
      (lit ''uncovered_files'', JInt (rc_uncovered_files c)),
      (lit ''uncovered_sample'', JObj [(lit ''total'', JInt (rc_total c)), (lit ''items'', JArr (map JStr (rc_sample c))),
         (lit ''digest'', JStr (rc_uncovered_digest c)), (lit ''omitted'', JInt (rc_omitted c))])]"

record reference_target =
  rt_location :: location
  rt_key :: text_cp
  rt_display_path :: text_cp
  rt_external :: bool

definition reference_target_ok :: "reference_target \<Rightarrow> bool" where
  "reference_target_ok t \<longleftrightarrow> rt_key t \<noteq> [] \<and> rt_display_path t \<noteq> []"

record reference_document =
  rd_uri :: text_cp
  rd_snapshot :: file_snapshot
  rd_raw_symbols :: "json list option"
  rd_encoding :: position_encoding
  rd_recover :: "(symbol list \<Rightarrow> symbol list) option"

text \<open>What the provider answers for one file; \<open>LoadedInvalid\<close> is a value of another type.\<close>

datatype loaded_reference =
    LoadedError error_envelope
  | LoadedRaw text_cp position_encoding
  | LoadedDocument reference_document
  | LoadedInvalid

datatype reference_query =
    QueryError error_envelope
  | QueryInvalid
  | QueryResult "location option list" reference_coverage

record document_tree =
  dt_uri :: text_cp
  dt_mapper :: "position_mapper option"
  dt_encoding :: position_encoding
  dt_symbols :: "symbol list"

text \<open>A symbol tree that cannot be normalised leaves the snapshot usable, without symbols.\<close>

definition tree_from_input :: "libraries \<Rightarrow> reference_document \<Rightarrow> document_tree" where
  "tree_from_input lib d = \<lparr>dt_uri = rd_uri d,
     dt_mapper = Some \<lparr>pm_snapshot = rd_snapshot d, pm_encoding = rd_encoding d\<rparr>, dt_encoding = rd_encoding d,
     dt_symbols = (case normalize_document_symbols \<lparr>nz_uri_path = lb_uri_path lib, nz_name_fn = id, nz_completeness = None,
         nz_other_str = lb_other_str lib, nz_document_uri = rd_uri d\<rparr> (rd_recover d) (rd_raw_symbols d) of Inl _ \<Rightarrow> [] | Inr ss \<Rightarrow> ss)\<rparr>"

definition tree_unavailable :: "text_cp \<Rightarrow> position_encoding \<Rightarrow> document_tree" where
  "tree_unavailable uri e = \<lparr>dt_uri = uri, dt_mapper = None, dt_encoding = e, dt_symbols = []\<rparr>"

section \<open>Snippets\<close>

text \<open>\<open>str.rfind(c, 0, n)\<close> and \<open>str.find(c, n)\<close> for one character.\<close>

definition rfind_char :: "nat \<Rightarrow> text_cp \<Rightarrow> nat \<Rightarrow> int" where
  "rfind_char c s n = (case filter (\<lambda>k. s ! k = c) [0..<min n (length s)] of [] \<Rightarrow> -1 | ks \<Rightarrow> int (last ks))"

definition find_char :: "nat \<Rightarrow> text_cp \<Rightarrow> nat \<Rightarrow> int" where
  "find_char c s n = (case filter (\<lambda>k. s ! k = c) [n..<length s] of [] \<Rightarrow> -1 | k # _ \<Rightarrow> int k)"

definition line_start_offset :: "text_cp \<Rightarrow> nat \<Rightarrow> int" where
  "line_start_offset s offset = max (rfind_char LF s offset) (rfind_char CR s offset) + 1"

definition line_end_offset :: "text_cp \<Rightarrow> nat \<Rightarrow> int" where
  "line_end_offset s offset = (let endings = filter (\<lambda>i. 0 \<le> i) [find_char CR s offset, find_char LF s offset]
     in if endings = [] then int (length s) else min_list endings)"

abbreviation ELLIPSIS :: nat where "ELLIPSIS \<equiv> 8230"

text \<open>The window of \<open>n\<close> characters around an offset of a line.\<close>

definition window_left :: "text_cp \<Rightarrow> int \<Rightarrow> int \<Rightarrow> int" where
  "window_left line offset n = max 0 (min (offset - n div 2) (int (length line) - n))"

definition mark :: "bool \<Rightarrow> text_cp" where
  "mark b = (if b then [ELLIPSIS] else [])"

definition snippet_line :: "text_cp \<Rightarrow> int \<Rightarrow> int \<Rightarrow> text_cp \<times> bool" where
  "snippet_line line offset limit =
     (if int (length line) \<le> limit then (line, False)
      else let left = window_left line offset limit; right = left + limit;
               interior = limit - int (length (mark (left \<noteq> 0))) - int (length (mark (right < int (length line)))) in
           if interior \<le> 0 then (take (nat limit) [ELLIPSIS], True)
           else let left' = window_left line offset interior; right' = left' + interior in
                (mark (left' \<noteq> 0) @ slice (nat left') (nat right') line @ mark (right' < int (length line)), True))"

definition snippet :: "document_tree \<Rightarrow> location \<Rightarrow> int \<Rightarrow> (text_cp \<times> bool) option" where
  "snippet d l limit = (case dt_mapper d of
       None \<Rightarrow> None
     | Some m \<Rightarrow> (case lsp_to_text_offset m (lsp_position_of (rg_start (loc_range l))) of
           Inl _ \<Rightarrow> None
         | Inr offset \<Rightarrow>
             let s = fs_text (pm_snapshot m); start = line_start_offset s offset; stop = line_end_offset s offset in
             Some (snippet_line (slice (nat start) (nat stop) s) (int offset - start) limit)))"

section \<open>One reference\<close>

definition lsp_position_json :: "lsp_position \<Rightarrow> json" where
  "lsp_position_json p = JObj [(lit ''line'', JInt (lsp_line p)), (lit ''character'', JInt (lsp_character p))]"

definition raw_range_json :: "raw_range \<Rightarrow> json" where
  "raw_range_json r = JObj [(lit ''basis'', JStr (lit (rr_basis r))), (lit ''start'', lsp_position_json (rr_start r)),
     (lit ''end'', lsp_position_json (rr_end r))]"

definition raw_location_data :: "location \<Rightarrow> position_encoding \<Rightarrow> json" where
  "raw_location_data l e = raw_range_json (raw_lsp_range (lsp_position_of (rg_start (loc_range l))) (lsp_position_of (rg_end (loc_range l))) e)"

definition container_data :: "symbol option \<Rightarrow> json" where
  "container_data s = (case s of
       None \<Rightarrow> JObj [(lit ''kind'', JStr (lit ''file'')), (lit ''name_path'', JStr (lit ''<file>''))]
     | Some s \<Rightarrow> JObj [(lit ''kind'', JStr (lit ''symbol'')), (lit ''name_path'', JStr (join_slash (sy_path s))),
         (lit ''symbol_kind'', JInt (sy_kind s))])"

definition reference_entry :: "reference_target \<Rightarrow> json \<Rightarrow> symbol option \<Rightarrow> (text_cp \<times> bool) option \<Rightarrow> json" where
  "reference_entry t location_data container snip = JObj
     ([(lit ''path'', JStr (rt_display_path t)), (lit ''read_only_external'', JBool (rt_external t)), (lit ''location'', location_data),
       (lit ''container'', container_data container)] @
      (case snip of None \<Rightarrow> [] | Some (s, truncated) \<Rightarrow> [(lit ''snippet'', JStr s), (lit ''snippet_truncated'', JBool truncated)]))"

text \<open>\<open>None\<close> is a \<open>PositionError\<close>.\<close>

definition reference_data :: "reference_target \<Rightarrow> document_tree \<Rightarrow> int \<Rightarrow> json option" where
  "reference_data t d max_snippet = (let l = rt_location t in
     case dt_mapper d of
       None \<Rightarrow> if rt_external t then Some (reference_entry t (raw_location_data l (dt_encoding d)) None None) else None
     | Some m \<Rightarrow>
         if dt_uri d \<noteq> loc_uri l then None
         else (case source_range m (loc_range l) of
                 Inl _ \<Rightarrow> None
               | Inr rng \<Rightarrow> Some (reference_entry t rng (containing_symbol (dt_symbols d) l)
                   (if 0 < max_snippet then snippet d l max_snippet else None))))"

section \<open>Order and files\<close>

definition target_identity_key :: "reference_target \<Rightarrow> text_cp \<times> text_cp \<times> position \<times> position" where
  "target_identity_key t = (rt_key t, loc_uri (rt_location t), rg_start (loc_range (rt_location t)), rg_end (loc_range (rt_location t)))"

definition target_order_key :: "reference_target \<Rightarrow> text_cp \<times> text_cp \<times> position \<times> position" where
  "target_order_key t = (rt_display_path t, loc_uri (rt_location t), rg_start (loc_range (rt_location t)), rg_end (loc_range (rt_location t)))"

definition deduplicated :: "reference_target list \<Rightarrow> ((text_cp \<times> text_cp \<times> position \<times> position) \<times> reference_target) list" where
  "deduplicated ts = fold (\<lambda>t d. AList.update (target_identity_key t) t d) ts []"

definition unique_targets :: "reference_target list \<Rightarrow> reference_target list" where
  "unique_targets ts = sort_key target_order_key (map snd (deduplicated ts))"

text \<open>\<open>dict.setdefault\<close>\<close>

definition dict_setdefault :: "'k \<Rightarrow> 'v \<Rightarrow> ('k \<times> 'v) list \<Rightarrow> ('k \<times> 'v) list" where
  "dict_setdefault k v d = (if map_of d k = None then d @ [(k, v)] else d)"

definition targets_by_file :: "reference_target list \<Rightarrow> (text_cp \<times> reference_target) list" where
  "targets_by_file ts = sort_key fst (fold (\<lambda>t. dict_setdefault (rt_key t) t) ts [])"

definition bound_references :: "(json list \<Rightarrow> json) \<Rightarrow> json list \<Rightarrow> int \<Rightarrow> json list" where
  "bound_references data references max_chars =
     keep_while (\<lambda>xs. int (length (sorted_json (data xs))) \<le> max_chars) [] references"

section \<open>The service\<close>

definition retry_hint :: retry_md where
  "retry_hint = \<lparr>rm_retryable = True, rm_retry_after = None, rm_waited = None, rm_timeout = None, rm_target = None, rm_observed = None\<rparr>"

definition reference_not_ready :: "reference_request \<Rightarrow> string \<Rightarrow> reference_target \<Rightarrow> text_cp option \<Rightarrow> nav_exn + tool_envelope" where
  "reference_not_ready rq reason t document_uri =
     (case env_error NOT_READY (Some retry_hint) (Some (obj_of_json (JObj
        ([(lit ''reason'', JStr (lit reason)), (lit ''path'', JStr (rt_display_path t))] @
         (case document_uri of None \<Rightarrow> [] | Some u \<Rightarrow> [(lit ''location_uri'', JStr (loc_uri (rt_location t))), (lit ''document_uri'', JStr u)])))))
        (rq_workspace rq) (rq_adapter rq) (rq_generations rq) of
       Inl e \<Rightarrow> Inl (NavEnvelope e) | Inr e \<Rightarrow> Inr (Failure e))"

text \<open>
  The files are loaded one after the other; \<open>Inl\<close> is the answer that ends the call.  The handler
  around \<open>_DocumentTree.from_input\<close> has no case: the mapper it builds is a plain record, and
  every failure of the normalisation is caught inside.
\<close>

fun load_trees ::
    "libraries \<Rightarrow> (reference_target \<Rightarrow> loaded_reference) \<Rightarrow> reference_request \<Rightarrow> (text_cp \<times> reference_target) list \<Rightarrow>
     (nav_exn + tool_envelope) + (text_cp \<times> document_tree) list" where
  "load_trees lib documents rq [] = Inr []"
| "load_trees lib documents rq ((key, t) # rest) = (case documents t of
     LoadedError e \<Rightarrow> Inl (Inr (Failure e))
   | LoadedRaw uri enc \<Rightarrow>
       if \<not> rt_external t then Inl (reference_not_ready rq ''workspace_reference_snapshot_unavailable'' t None)
       else map_sum id (Cons (key, tree_unavailable uri enc)) (load_trees lib documents rq rest)
   | LoadedInvalid \<Rightarrow> Inl (reference_not_ready rq ''workspace_reference_document_invalid'' t None)
   | LoadedDocument d \<Rightarrow>
       if rd_uri d \<noteq> loc_uri (rt_location t)
       then Inl (reference_not_ready rq ''workspace_reference_uri_mismatch'' t (Some (rd_uri d)))
       else map_sum id (Cons (key, tree_from_input lib d)) (load_trees lib documents rq rest))"

fun render_targets ::
    "reference_request \<Rightarrow> (text_cp \<times> document_tree) list \<Rightarrow> int \<Rightarrow> reference_target list \<Rightarrow> (nav_exn + tool_envelope) + json list" where
  "render_targets rq trees max_snippet [] = Inr []"
| "render_targets rq trees max_snippet (t # ts) = (case reference_data t (the (map_of trees (rt_key t))) max_snippet of
     None \<Rightarrow> Inl (reference_not_ready rq ''workspace_reference_snapshot_range_mismatch'' t None)
   | Some j \<Rightarrow> map_sum id (Cons j) (render_targets rq trees max_snippet ts))"

definition references_json :: "reference_request \<Rightarrow> reference_coverage \<Rightarrow> json list \<Rightarrow> json" where
  "references_json rq c references = JObj [(lit ''relative_path'', JStr (rq_relative_path rq)),
     (lit ''reference_count'', JInt (int (length references))), (lit ''references'', JArr references), (lit ''coverage'', coverage_dict c)]"

definition render_references ::
    "libraries \<Rightarrow> (reference_target \<Rightarrow> loaded_reference) \<Rightarrow> reference_request \<Rightarrow> reference_coverage \<Rightarrow> reference_target list \<Rightarrow>
     int \<Rightarrow> int \<Rightarrow> nav_exn + tool_envelope" where
  "render_references lib documents rq c targets max_snippet max_chars =
     (let unique = unique_targets targets in
      case load_trees lib documents rq (targets_by_file unique) of
        Inl r \<Rightarrow> r
      | Inr trees \<Rightarrow>
          (case render_targets rq trees max_snippet unique of
             Inl r \<Rightarrow> r
           | Inr rendered \<Rightarrow>
               let kept = bound_references (references_json rq c) rendered max_chars in
               nav_success (references_json rq c kept) (rq_workspace rq) (rq_adapter rq) (rq_generations rq)
                 (Some (truncation (length rendered - length kept)))))"

definition valid_request :: "reference_request \<Rightarrow> bool" where
  "valid_request rq \<longleftrightarrow> valid_relative_path (rq_relative_path rq) \<and> 0 \<le> fst (rq_position rq) \<and> 0 \<le> snd (rq_position rq)"

definition request_error :: "reference_request \<Rightarrow> string \<Rightarrow> nav_exn + tool_envelope" where
  "request_error rq field = nav_error INVALID_INPUT (JObj [(lit ''field'', JStr (lit field))]) (rq_workspace rq) (rq_adapter rq) (rq_generations rq)"

fun classify_all ::
    "(location \<Rightarrow> error_envelope + reference_target) \<Rightarrow> reference_request \<Rightarrow> location option list \<Rightarrow>
     (nav_exn + tool_envelope) + reference_target list" where
  "classify_all classify rq [] = Inr []"
| "classify_all classify rq (l # ls) = (case l of
     None \<Rightarrow> Inl (request_error rq ''normalized_reference_locations'')
   | Some loc \<Rightarrow> (case classify loc of
       Inl e \<Rightarrow> Inl (Inr (Failure e))
     | Inr t \<Rightarrow> map_sum id (Cons t) (classify_all classify rq ls)))"

definition service_find_referencing_symbols ::
    "libraries \<Rightarrow> (reference_request \<Rightarrow> reference_query) \<Rightarrow> (location \<Rightarrow> error_envelope + reference_target) \<Rightarrow>
     (reference_target \<Rightarrow> loaded_reference) \<Rightarrow> reference_request \<Rightarrow> int \<Rightarrow> int \<Rightarrow> nav_exn + tool_envelope" where
  "service_find_referencing_symbols lib locations classify documents rq max_snippet max_chars =
     (if \<not> valid_request rq \<or> max_snippet < 0 \<or> max_chars \<le> 0
      then request_error rq ''relative_path, position, max_snippet_chars, or max_answer_chars''
      else case locations rq of
             QueryError e \<Rightarrow> Inr (Failure e)
           | QueryInvalid \<Rightarrow> request_error rq ''reference_query_result''
           | QueryResult ls c \<Rightarrow>
               (case classify_all classify rq ls of
                  Inl r \<Rightarrow> r
                | Inr targets \<Rightarrow> render_references lib documents rq c targets max_snippet max_chars))"

definition find_referencing_symbols ::
    "libraries \<Rightarrow> reference_request \<Rightarrow> location option list \<Rightarrow> (location \<Rightarrow> error_envelope + reference_target) \<Rightarrow>
     (reference_target \<Rightarrow> loaded_reference) \<Rightarrow> reference_coverage \<Rightarrow> int \<Rightarrow> int \<Rightarrow> nav_exn + tool_envelope" where
  "find_referencing_symbols lib rq ls classify documents c =
     service_find_referencing_symbols lib (\<lambda>_. QueryResult ls c) classify documents rq"

section \<open>Snippets\<close>

lemma window_left_bounds:
  assumes "0 \<le> n" and "n \<le> int (length line)"
  shows "0 \<le> window_left line offset n" and "window_left line offset n + n \<le> int (length line)"
  using assms by (auto simp: window_left_def)

lemma window_left_around:
  assumes "0 < n" and "n \<le> int (length line)" and "0 \<le> offset" and "offset < int (length line)"
  shows "window_left line offset n \<le> offset \<and> offset < window_left line offset n + n"
  using assms by (auto simp: window_left_def)

lemma mark_length: "length (mark b) \<le> 1"
  by (simp add: mark_def)

lemma window_text:
  assumes "0 \<le> l" and "l + n \<le> int (length line)" and "0 \<le> n"
  shows "int (length (slice (nat l) (nat (l + n)) line)) = n"
  using assms by (simp add: slice_length nat_le_iff nat_add_distrib)

lemma interior_width:
  fixes line :: text_cp and offset limit :: int
  defines "l \<equiv> window_left line offset limit"
  defines "n \<equiv> limit - int (length (mark (l \<noteq> 0))) - int (length (mark (l + limit < int (length line))))"
  assumes "0 < limit" "0 \<le> offset" "offset < int (length line)" "limit < int (length line)"
  shows "n < limit" "limit - 2 \<le> n" "n \<le> 0 \<longleftrightarrow> limit = 1 \<or> limit = 2 \<and> 2 \<le> offset \<and> offset + 1 < int (length line)"
proof -
  have marked: "l \<noteq> 0 \<or> l + limit < int (length line)" using assms(6) by auto
  then show "n < limit" "limit - 2 \<le> n" by (auto simp: n_def mark_def)
  have two: "l \<noteq> 0 \<and> l + limit < int (length line) \<longleftrightarrow> 2 \<le> offset \<and> offset + 1 < int (length line)" if "limit = 2"
    using that assms(4-6) by (auto simp: l_def window_left_def)
  show "n \<le> 0 \<longleftrightarrow> limit = 1 \<or> limit = 2 \<and> 2 \<le> offset \<and> offset + 1 < int (length line)"
  proof (cases "limit = 2")
    case True
    with two show ?thesis using marked by (auto simp: n_def mark_def)
  qed (use marked assms(3) in \<open>auto simp: n_def mark_def\<close>)
qed

lemma snippet_cut:
  assumes "0 < limit" "0 \<le> offset" "offset < int (length line)" "\<not> int (length line) \<le> limit"
  shows "snd (snippet_line line offset limit) \<and> int (length (fst (snippet_line line offset limit))) \<le> limit + 1 \<and>
    (if limit = 1 \<or> limit = 2 \<and> 2 \<le> offset \<and> offset + 1 < int (length line) then fst (snippet_line line offset limit) = [ELLIPSIS]
     else (\<exists>l r. 0 \<le> l \<and> l \<le> offset \<and> offset < r \<and> r \<le> int (length line) \<and> limit - 2 \<le> r - l \<and>
       fst (snippet_line line offset limit) = mark (l \<noteq> 0) @ slice (nat l) (nat r) line @ mark (r < int (length line))))"
proof -
  let ?res = "snippet_line line offset limit"
  define l1 where "l1 = window_left line offset limit"
  define n where "n = limit - int (length (mark (l1 \<noteq> 0))) - int (length (mark (l1 + limit < int (length line))))"
  have w: "n < limit" "limit - 2 \<le> n" "n \<le> 0 \<longleftrightarrow> limit = 1 \<or> limit = 2 \<and> 2 \<le> offset \<and> offset + 1 < int (length line)"
    using interior_width [OF assms(1-3)] assms(4) unfolding n_def l1_def by auto
  have res: "?res = (if n \<le> 0 then (take (nat limit) [ELLIPSIS], True)
      else let l = window_left line offset n; r = l + n in (mark (l \<noteq> 0) @ slice (nat l) (nat r) line @ mark (r < int (length line)), True))"
    using assms(4) by (simp add: snippet_line_def l1_def n_def Let_def)
  show ?thesis
  proof (cases "n \<le> 0")
    case True
    with res assms(1) have "?res = ([ELLIPSIS], True)" by (cases "nat limit") simp_all
    with w(3) True assms(1) show ?thesis by simp
  next
    case pos: False
    let ?l = "window_left line offset n"
    have b: "0 \<le> ?l" "?l + n \<le> int (length line)" "?l \<le> offset" "offset < ?l + n"
      using window_left_bounds [of n line offset] window_left_around [of n line offset] pos w(1) assms by auto
    have t: "int (length (slice (nat ?l) (nat (?l + n)) line)) = n" using window_text [OF b(1,2)] pos by simp
    have e: "?res = (mark (?l \<noteq> 0) @ slice (nat ?l) (nat (?l + n)) line @ mark (?l + n < int (length line)), True)"
      using res pos by (simp add: Let_def)
    have "int (length (fst ?res)) \<le> limit + 1"
      using t w(1) mark_length [of "?l \<noteq> 0"] mark_length [of "?l + n < int (length line)"] unfolding e by simp
    moreover have "\<exists>l r. 0 \<le> l \<and> l \<le> offset \<and> offset < r \<and> r \<le> int (length line) \<and> limit - 2 \<le> r - l \<and>
        fst ?res = mark (l \<noteq> 0) @ slice (nat l) (nat r) line @ mark (r < int (length line))"
      using e b w(2) by (intro exI [of _ ?l] exI [of _ "?l + n"]) simp
    ultimately show ?thesis using e w(3) pos by auto
  qed
qed

text \<open>
  C40: A snippet is a window of the line around the reference.  A line within the limit is shown
  whole.  A longer one is cut: with a limit of one character, or of two for a reference
  inside the line, only the mark of missing text remains; otherwise the snippet is a
  part of the line that contains the referenced character and at least \<open>limit - 2\<close>
  characters, marked on each side where text is missing.  It is at most one character longer than
  the limit, and that one character too many does occur: the marks are counted for a first
  window and drawn for a second one, so four characters asked for around the third of ten give
  five.
\<close>

theorem snippet_window:
  "(\<forall>line offset limit. 0 < limit \<longrightarrow> 0 \<le> offset \<longrightarrow> offset < int (length line) \<longrightarrow>
      (if int (length line) \<le> limit then snippet_line line offset limit = (line, False)
       else snd (snippet_line line offset limit) \<and> int (length (fst (snippet_line line offset limit))) \<le> limit + 1 \<and>
         (if limit = 1 \<or> limit = 2 \<and> 2 \<le> offset \<and> offset + 1 < int (length line)
          then fst (snippet_line line offset limit) = [ELLIPSIS]
          else (\<exists>l r. 0 \<le> l \<and> l \<le> offset \<and> offset < r \<and> r \<le> int (length line) \<and> limit - 2 \<le> r - l \<and>
             fst (snippet_line line offset limit) = mark (l \<noteq> 0) @ slice (nat l) (nat r) line @ mark (r < int (length line)))))) \<and>
   int (length (fst (snippet_line (lit ''abcdefghij'') 2 4))) = 5"
proof (intro conjI allI impI)
  fix line :: text_cp and offset limit :: int
  assume lim: "0 < limit" and off: "0 \<le> offset" "offset < int (length line)"
  let ?res = "snippet_line line offset limit"
  show "if int (length line) \<le> limit then ?res = (line, False)
    else snd ?res \<and> int (length (fst ?res)) \<le> limit + 1 \<and>
      (if limit = 1 \<or> limit = 2 \<and> 2 \<le> offset \<and> offset + 1 < int (length line) then fst ?res = [ELLIPSIS]
       else (\<exists>l r. 0 \<le> l \<and> l \<le> offset \<and> offset < r \<and> r \<le> int (length line) \<and> limit - 2 \<le> r - l \<and>
         fst ?res = mark (l \<noteq> 0) @ slice (nat l) (nat r) line @ mark (r < int (length line))))"
  proof (cases "int (length line) \<le> limit")
    case False
    then show ?thesis unfolding if_not_P [OF False] by (rule snippet_cut [OF lim off])
  qed (simp add: snippet_line_def)
next
  show "int (length (fst (snippet_line (lit ''abcdefghij'') 2 4))) = 5"
    by (simp add: snippet_line_def window_left_def mark_def slice_def Let_def lit_simps)
qed

theorem snippet_window_witness:
  "snd (snippet_line (lit ''abcdefghij'') 2 4) \<and> int (length (fst (snippet_line (lit ''abcdefghij'') 2 4))) \<le> 5 \<and>
   (\<exists>l r. l \<le> 2 \<and> 2 < r \<and> fst (snippet_line (lit ''abcdefghij'') 2 4) =
      mark (l \<noteq> 0) @ slice (nat l) (nat r) (lit ''abcdefghij'') @ mark (r < int (length (lit ''abcdefghij''))))"
proof -
  have p: "0 < (4::int)" "0 \<le> (2::int)" "2 < int (length (lit ''abcdefghij''))" "\<not> int (length (lit ''abcdefghij'')) \<le> 4"
    by (simp_all add: lit_simps)
  from snippet_window [THEN conjunct1, rule_format, OF p(1-3)] p(4) show ?thesis by auto
qed

section \<open>Dictionaries filled in a loop\<close>

lemma dict_of_keys:
  "distinct (map fst d) \<Longrightarrow> \<forall>(a, t)\<in>set d. a = k t \<Longrightarrow>
   distinct (map fst (fold (\<lambda>t. AList.update (k t) t) ts d)) \<and> (\<forall>(a, t)\<in>set (fold (\<lambda>t. AList.update (k t) t) ts d). a = k t) \<and>
   fst ` set (fold (\<lambda>t. AList.update (k t) t) ts d) = fst ` set d \<union> k ` set ts \<and>
   snd ` set (fold (\<lambda>t. AList.update (k t) t) ts d) \<subseteq> snd ` set d \<union> set ts"
proof (induction ts arbitrary: d)
  case (Cons x ts)
  let ?d = "AList.update (k x) x d"
  have up: "set ?d \<subseteq> set d \<union> {(k x, x)}" by (induction d) auto
  have 1: "distinct (map fst ?d)" using Cons.prems(1) by simp
  have 2: "\<forall>(a, t)\<in>set ?d. a = k t" using Cons.prems(2) up by fastforce
  have 3: "fst ` set ?d = insert (k x) (fst ` set d)" by (induction d) auto
  have 4: "snd ` set ?d \<subseteq> insert x (snd ` set d)" using up by fastforce
  from Cons.IH [OF 1 2] 3 4 show ?case by (simp only: fold_simps list.set image_insert) blast
qed simp

lemma distinct_sort_key:
  assumes "distinct (map g xs)" shows "distinct (map g (sort_key f xs))"
  using assms by (simp add: distinct_map)

lemma setdefault_keys: "fst ` set (dict_setdefault k v d) = insert k (fst ` set d)"
  by (auto simp: dict_setdefault_def map_of_eq_None_iff split: if_splits)

lemma setdefault_ok: "dict_ok d \<Longrightarrow> dict_ok (dict_setdefault k v d)"
  by (auto simp: dict_setdefault_def map_of_eq_None_iff)

lemma setdefault_fold:
  "dict_ok d \<Longrightarrow> dict_ok (fold (\<lambda>t. dict_setdefault (k t) t) ts d) \<and>
   fst ` set (fold (\<lambda>t. dict_setdefault (k t) t) ts d) = fst ` set d \<union> k ` set ts"
proof (induction ts arbitrary: d)
  case (Cons x ts)
  from Cons.IH [OF setdefault_ok [OF Cons.prems]] show ?case by (simp add: setdefault_keys)
qed simp

section \<open>Loops that keep what fits\<close>

lemma keep_while_prefix:
  "\<exists>n\<le>length xs. keep_while fits kept xs = kept @ take n xs \<and> (0 < n \<longrightarrow> fits (kept @ take n xs)) \<and>
     (n < length xs \<longrightarrow> \<not> fits (kept @ take (Suc n) xs))"
proof (induction xs arbitrary: kept)
  case (Cons x xs)
  show ?case
  proof (cases "fits (kept @ [x])")
    case True
    obtain n where n: "n \<le> length xs" "keep_while fits (kept @ [x]) xs = (kept @ [x]) @ take n xs"
      "0 < n \<longrightarrow> fits ((kept @ [x]) @ take n xs)" "n < length xs \<longrightarrow> \<not> fits ((kept @ [x]) @ take (Suc n) xs)"
      using Cons [of "kept @ [x]"] by blast
    with True show ?thesis by (intro exI [of _ "Suc n"]) (cases n; auto)
  qed (auto intro: exI [of _ 0])
qed simp

lemma keep_while_longest:
  assumes "keep_while fits [] xs = kept"
  shows "kept = take (length kept) xs" and "kept \<noteq> [] \<Longrightarrow> fits kept"
    and "length kept < length xs \<Longrightarrow> \<not> fits (take (Suc (length kept)) xs)"
proof -
  obtain n where n: "n \<le> length xs" "kept = take n xs" "0 < n \<longrightarrow> fits (take n xs)" "n < length xs \<longrightarrow> \<not> fits (take (Suc n) xs)"
    using keep_while_prefix [of xs fits "[]"] assms by auto
  then show "kept = take (length kept) xs" "kept \<noteq> [] \<Longrightarrow> fits kept"
    "length kept < length xs \<Longrightarrow> \<not> fits (take (Suc (length kept)) xs)" by (auto simp: min_def)
qed

section \<open>Sizes of printed values\<close>

lemma join_comma_length: "length (join_comma xs) = sum_list (map length xs) + (length xs - 1)"
  by (induction xs rule: join_comma.induct) auto

lemma object_length:
  "length (dumps (JObj kvs)) = 2 + sum_list (map (\<lambda>p. length (quote (fst p)) + 1 + length (dumps (snd p))) kvs) + (length kvs - 1)"
proof -
  have "sum_list (map length (map (\<lambda>(k, v). quote k @ 58 # dumps v) kvs)) =
      sum_list (map (\<lambda>p. length (quote (fst p)) + 1 + length (dumps (snd p))) kvs)" by (induction kvs) auto
  then show ?thesis by (simp add: join_comma_length)
qed

lemma array_length: "length (dumps (JArr xs)) = 2 + sum_list (map (\<lambda>x. length (dumps x)) xs) + (length xs - 1)"
  by (simp add: join_comma_length comp_def)

lemma sum_insort_key: "sum_list (map (f :: _ \<Rightarrow> nat) (insort_key k x xs)) = f x + sum_list (map f xs)"
  by (induction xs) auto

lemma sum_sort_key: "sum_list (map (f :: _ \<Rightarrow> nat) (sort_key k xs)) = sum_list (map f xs)"
  by (induction xs) (auto simp: sum_insort_key)

lemma sort_keys_length: "length (dumps (sort_keys j)) = length (dumps j)"
proof (induction j rule: sort_keys.induct)
  case (1 kvs)
  let ?w = "\<lambda>p. length (quote (fst p)) + 1 + length (dumps (snd p))"
  have "sum_list (map (?w \<circ> (\<lambda>(k, v). (k, sort_keys v))) kvs) = sum_list (map ?w kvs)"
    using 1 by (intro arg_cong [of _ _ sum_list] map_cong) auto
  then show ?case by (simp only: sort_keys.simps object_length sum_sort_key map_map) simp
next
  case (2 xs)
  then have "map (\<lambda>x. length (dumps (sort_keys x))) xs = map (\<lambda>x. length (dumps x)) xs" by simp
  then show ?case by (simp only: sort_keys.simps array_length map_map comp_def length_map)
qed simp_all

lemma sorted_json_length: "length (sorted_json j) = length (dumps j)"
  by (simp add: sorted_json_def sort_keys_length)

section \<open>What an envelope carries\<close>

lemma json_value_id: "json_value field (obj_of_json j) = Inr j' \<Longrightarrow> j' = j"
proof -
  assume a: "json_value field (obj_of_json j) = Inr j'"
  have "no_secret_keys j" using a
  proof (induction j arbitrary: field j' rule: obj_of_json.induct)
    case (6 xs)
    then obtain ys where ys: "seq_sum (map (json_value field \<circ> obj_of_json) xs) = Inr ys" by (auto simp: map_sum_Inr)
    have "no_secret_keys x" if x: "x \<in> set xs" for x
    proof -
      have "\<exists>y. json_value field (obj_of_json x) = Inr y" using ys x
        by (induction xs arbitrary: ys) (auto split: sum.splits)
      with 6(1) [OF x] show ?thesis by blast
    qed
    then show ?case by (simp add: list_all_iff)
  next
    case (7 kvs)
    let ?f = "\<lambda>(k, v). case k of None \<Rightarrow> Inl (EnvTypeError (field @ lit '' mapping keys must be strings''))
      | Some key \<Rightarrow> if secret_key key then Inl (EnvValueError (field @ lit '' must not contain secret-bearing keys''))
          else map_sum id (Pair key) (json_value (field @ [46] @ key) v)"
    from 7(2) obtain ys where ys: "seq_sum (map (?f \<circ> (\<lambda>(k, v). (Some k, obj_of_json v))) kvs) = Inr ys" by (auto simp: map_sum_Inr)
    have "\<not> secret_key k \<and> no_secret_keys v" if x: "(k, v) \<in> set kvs" for k v
    proof -
      have "\<exists>y. (?f \<circ> (\<lambda>(k, v). (Some k, obj_of_json v))) (k, v) = Inr y" using ys x
        by (induction kvs arbitrary: ys) (auto split: sum.splits simp del: comp_apply)
      then have "\<not> secret_key k \<and> (\<exists>y. json_value (field @ [46] @ k) (obj_of_json v) = Inr y)"
        by (auto simp: map_sum_Inr split: if_splits)
      with 7(1) [OF x refl] show ?thesis by blast
    qed
    then show ?case by (auto simp: list_all_iff)
  qed simp_all
  with json_value_obj [of j field] a show ?thesis by simp
qed

lemma nav_success_data:
  "nav_success data w a g t = Inr (Success e) \<Longrightarrow> se_data e = data \<and> se_truncation e = t \<and> se_workspace e = w"
  by (auto simp: nav_success_def make_success_def map_sum_Inr dest: json_value_id split: sum.splits)

section \<open>The answer\<close>

lemma unique_targets_spec:
  "distinct (map target_identity_key (unique_targets ts)) \<and> target_identity_key ` set (unique_targets ts) = target_identity_key ` set ts \<and>
   set (unique_targets ts) \<subseteq> set ts \<and> sorted (map target_order_key (unique_targets ts))"
proof -
  let ?d = "deduplicated ts"
  have d: "distinct (map fst ?d)" "\<forall>(a, t)\<in>set ?d. a = target_identity_key t" "fst ` set ?d = target_identity_key ` set ts"
    "snd ` set ?d \<subseteq> set ts"
    using dict_of_keys [of "[]" target_identity_key ts] by (auto simp: deduplicated_def)
  have keys: "map target_identity_key (map snd ?d) = map fst ?d" using d(2) by auto
  then have "distinct (map target_identity_key (map snd ?d))" using d(1) by (simp only: keys)
  moreover have "target_identity_key ` set (map snd ?d) = fst ` set ?d" using keys by (metis list.set_map)
  ultimately show ?thesis using d(3,4) unfolding unique_targets_def by (simp add: distinct_sort_key del: map_map)
qed

lemma targets_by_file_spec:
  "distinct (map fst (targets_by_file ts)) \<and> sorted (map fst (targets_by_file ts)) \<and> set (map fst (targets_by_file ts)) = rt_key ` set ts"
  using setdefault_fold [of "[]" rt_key ts] by (simp add: targets_by_file_def distinct_sort_key)

lemma load_trees_keys: "load_trees lib documents rq fs = Inr trees \<Longrightarrow> map fst trees = map fst fs"
  by (induction fs arbitrary: trees)
    (auto simp: map_sum_Inr split: loaded_reference.splits if_splits)

lemma render_targets_all:
  "render_targets rq trees ms ts = Inr rs \<Longrightarrow> list_all2 (\<lambda>t j. reference_data t (the (map_of trees (rt_key t))) ms = Some j) ts rs"
  by (induction ts arbitrary: rs) (auto simp: map_sum_Inr split: option.splits)

lemma reference_not_ready_code: "reference_not_ready rq reason t u \<noteq> Inr (Success e)"
  by (auto simp: reference_not_ready_def split: sum.splits)

lemma load_trees_error: "load_trees lib documents rq fs \<noteq> Inl (Inr (Success e))"
  by (induction fs) (auto simp: map_sum_def reference_not_ready_code split: loaded_reference.splits if_splits sum.splits)

lemma render_targets_error: "render_targets rq trees ms ts \<noteq> Inl (Inr (Success e))"
  by (induction ts) (auto simp: map_sum_def reference_not_ready_code split: option.splits sum.splits)

text \<open>What was loaded for a target, as the tree its file is rendered with.\<close>

definition loaded_as :: "libraries \<Rightarrow> (reference_target \<Rightarrow> loaded_reference) \<Rightarrow> reference_target \<Rightarrow> document_tree \<Rightarrow> bool" where
  "loaded_as lib documents t tree \<longleftrightarrow>
     (\<exists>d. documents t = LoadedDocument d \<and> rd_uri d = loc_uri (rt_location t) \<and> tree = tree_from_input lib d) \<or>
     (\<exists>uri enc. documents t = LoadedRaw uri enc \<and> rt_external t \<and> tree = tree_unavailable uri enc)"

lemma load_trees_loaded:
  "load_trees lib documents rq fs = Inr trees \<Longrightarrow> list_all2 (\<lambda>f x. fst x = fst f \<and> loaded_as lib documents (snd f) (snd x)) fs trees"
  by (induction fs arbitrary: trees) (auto simp: map_sum_Inr loaded_as_def split: loaded_reference.splits if_splits)

lemma setdefault_first:
  "map_of (fold (\<lambda>t. dict_setdefault (k t) t) ts d) key = (case map_of d key of Some t \<Rightarrow> Some t | None \<Rightarrow> find (\<lambda>t. k t = key) ts)"
proof (induction ts arbitrary: d)
  case (Cons x ts)
  show ?case using Cons [of "dict_setdefault (k x) x d"]
    by (auto simp: dict_setdefault_def map_add_def split: option.splits)
qed (simp split: option.splits)

lemma targets_by_file_first: "(key, t) \<in> set (targets_by_file ts) \<Longrightarrow> find (\<lambda>t. rt_key t = key) ts = Some t"
proof -
  assume m: "(key, t) \<in> set (targets_by_file ts)"
  have ok: "dict_ok (fold (\<lambda>t. dict_setdefault (rt_key t) t) ts [])" using setdefault_fold [of "[]" rt_key ts] by simp
  from m have "map_of (fold (\<lambda>t. dict_setdefault (rt_key t) t) ts []) key = Some t"
    using ok by (simp add: targets_by_file_def)
  then show ?thesis by (simp add: setdefault_first)
qed

lemma loaded_trees_first:
  assumes "load_trees lib documents rq (targets_by_file us) = Inr trees" and "(key, tree) \<in> set trees"
  shows "\<exists>t. find (\<lambda>t. rt_key t = key) us = Some t \<and> loaded_as lib documents t tree"
proof -
  from assms(2) obtain i where i: "i < length trees" "trees ! i = (key, tree)" by (auto simp: in_set_conv_nth)
  from load_trees_loaded [OF assms(1)] i have "i < length (targets_by_file us)" "fst (targets_by_file us ! i) = key"
    "loaded_as lib documents (snd (targets_by_file us ! i)) tree" by (auto simp: list_all2_conv_all_nth)
  with targets_by_file_first [of key "snd (targets_by_file us ! i)" us] show ?thesis by (metis nth_mem prod.collapse)
qed

lemma classified_all:
  "classify_all classify rq ls = Inr ts \<Longrightarrow> list_all2 (\<lambda>l t. \<exists>loc. l = Some loc \<and> classify loc = Inr t) ls ts"
  by (induction ls arbitrary: ts) (auto simp: map_sum_Inr split: option.splits sum.splits)

lemma request_error_fails: "request_error rq field \<noteq> Inr (Success e)"
  by (auto simp: request_error_def nav_error_def split: sum.splits)

lemma classify_all_fails: "classify_all classify rq ls \<noteq> Inl (Inr (Success e))"
  by (induction ls) (auto simp: request_error_fails map_sum_def split: option.splits sum.splits)

lemma service_success:
  assumes "service_find_referencing_symbols lib locations classify documents rq ms max_chars = Inr (Success e)"
  shows "\<exists>ls c ts. locations rq = QueryResult ls c \<and> classify_all classify rq ls = Inr ts \<and>
    render_references lib documents rq c ts ms max_chars = Inr (Success e)"
  using assms request_error_fails classify_all_fails
  by (auto simp: service_find_referencing_symbols_def split: if_splits reference_query.splits sum.splits)

lemma render_references_success:
  assumes "render_references lib documents rq c ts ms max_chars = Inr (Success e)"
  shows "\<exists>trees rendered n. load_trees lib documents rq (targets_by_file (unique_targets ts)) = Inr trees \<and>
    render_targets rq trees ms (unique_targets ts) = Inr rendered \<and>
    n \<le> length rendered \<and> se_data e = references_json rq c (take n rendered) \<and>
    (0 < n \<longrightarrow> int (length (sorted_json (references_json rq c (take n rendered)))) \<le> max_chars) \<and>
    (n < length rendered \<longrightarrow> int (length (sorted_json (references_json rq c (take (Suc n) rendered)))) > max_chars) \<and>
    se_truncation e = Some (truncation (length rendered - n))"
proof -
  obtain trees rendered where l: "load_trees lib documents rq (targets_by_file (unique_targets ts)) = Inr trees"
    and r: "render_targets rq trees ms (unique_targets ts) = Inr rendered"
    using assms load_trees_error render_targets_error unfolding render_references_def Let_def by (auto split: sum.splits)
  define kept where "kept = bound_references (references_json rq c) rendered max_chars"
  have s: "nav_success (references_json rq c kept) (rq_workspace rq) (rq_adapter rq) (rq_generations rq)
      (Some (truncation (length rendered - length kept))) = Inr (Success e)"
    using assms l r by (simp add: render_references_def kept_def Let_def)
  note kw = keep_while_longest [of "\<lambda>xs. int (length (sorted_json (references_json rq c xs))) \<le> max_chars" rendered kept,
    OF kept_def [unfolded bound_references_def, symmetric]]
  have "length kept \<le> length rendered" using kw(1) by (metis length_take min.cobounded1)
  with l r kw nav_success_data [OF s] show ?thesis
    by (intro exI [of _ trees] exI [of _ rendered] exI [of _ "length kept"]) auto
qed

text \<open>
  C17: What an answer to a reference query shows.  Every location the server returned was
  classified; the targets are taken without repetition (by file, URI and range), none is lost,
  and they come in the order of their paths and positions.  There is one tree per file: it is
  the document the provider returned for the first target of that file, whose URI is that
  target's, or for a read-only file outside the workspace a place holder without text.  Each
  reference is rendered with the tree of its own file, and the answer shows the longest prefix
  that fits its budget and counts the rest.
\<close>

theorem references_answer_exact:
  assumes "service_find_referencing_symbols lib locations classify documents rq ms max_chars = Inr (Success e)"
  shows "\<exists>ls c ts us trees rendered n.
    locations rq = QueryResult ls c \<and> list_all2 (\<lambda>l t. \<exists>loc. l = Some loc \<and> classify loc = Inr t) ls ts \<and>
    distinct (map target_identity_key us) \<and> target_identity_key ` set us = target_identity_key ` set ts \<and> set us \<subseteq> set ts \<and>
    sorted (map target_order_key us) \<and>
    distinct (map fst trees) \<and> fst ` set trees = rt_key ` set ts \<and>
    (\<forall>(key, tree) \<in> set trees. \<exists>t. find (\<lambda>t. rt_key t = key) us = Some t \<and>
       ((\<exists>d. documents t = LoadedDocument d \<and> rd_uri d = loc_uri (rt_location t) \<and> tree = tree_from_input lib d) \<or>
        (\<exists>uri enc. documents t = LoadedRaw uri enc \<and> rt_external t \<and> tree = tree_unavailable uri enc))) \<and>
    list_all2 (\<lambda>t j. \<exists>tree. map_of trees (rt_key t) = Some tree \<and> reference_data t tree ms = Some j) us rendered \<and>
    n \<le> length rendered \<and> se_data e = references_json rq c (take n rendered) \<and>
    (0 < n \<longrightarrow> int (length (sorted_json (references_json rq c (take n rendered)))) \<le> max_chars) \<and>
    (n < length rendered \<longrightarrow> int (length (sorted_json (references_json rq c (take (Suc n) rendered)))) > max_chars) \<and>
    se_truncation e = Some (truncation (length rendered - n))"
proof -
  from service_success [OF assms] obtain ls c ts where q: "locations rq = QueryResult ls c" "classify_all classify rq ls = Inr ts"
    and run: "render_references lib documents rq c ts ms max_chars = Inr (Success e)" by blast
  let ?us = "unique_targets ts"
  from render_references_success [OF run] obtain trees rendered n where
    l: "load_trees lib documents rq (targets_by_file ?us) = Inr trees" and r: "render_targets rq trees ms ?us = Inr rendered"
    and n: "n \<le> length rendered" "se_data e = references_json rq c (take n rendered)"
      "0 < n \<longrightarrow> int (length (sorted_json (references_json rq c (take n rendered)))) \<le> max_chars"
      "n < length rendered \<longrightarrow> int (length (sorted_json (references_json rq c (take (Suc n) rendered)))) > max_chars"
      "se_truncation e = Some (truncation (length rendered - n))" by blast
  note u = unique_targets_spec [of ts] and f = targets_by_file_spec [of ?us] and k = load_trees_keys [OF l]
  have "fst ` target_identity_key ` set ?us = fst ` target_identity_key ` set ts" using u by simp
  then have "rt_key ` set ?us = rt_key ` set ts" by (simp add: image_image target_identity_key_def)
  then have keys: "fst ` set trees = rt_key ` set ts" using f k by (metis list.set_map)
  have look: "map_of trees (rt_key t) = Some (the (map_of trees (rt_key t)))" if "t \<in> set ?us" for t
  proof -
    have "rt_key t \<in> fst ` set trees" using that u keys by auto
    then show ?thesis by (metis map_of_eq_None_iff option.exhaust_sel)
  qed
  have all: "list_all2 (\<lambda>t j. \<exists>tree. map_of trees (rt_key t) = Some tree \<and> reference_data t tree ms = Some j) ?us rendered"
    using render_targets_all [OF r] look unfolding list_all2_conv_all_nth by (metis nth_mem)
  have tr: "\<forall>(key, tree) \<in> set trees. \<exists>t. find (\<lambda>t. rt_key t = key) ?us = Some t \<and>
       ((\<exists>d. documents t = LoadedDocument d \<and> rd_uri d = loc_uri (rt_location t) \<and> tree = tree_from_input lib d) \<or>
        (\<exists>uri enc. documents t = LoadedRaw uri enc \<and> rt_external t \<and> tree = tree_unavailable uri enc))"
    using loaded_trees_first [OF l] unfolding loaded_as_def by blast
  show ?thesis using q(1) classified_all [OF q(2)] u f k keys tr all n
    by (intro exI [of _ ls] exI [of _ c] exI [of _ ts] exI [of _ ?us] exI [of _ trees] exI [of _ rendered] exI [of _ n]) simp
qed

definition ref_request :: reference_request where
  "ref_request = \<lparr>rq_relative_path = lit ''a.py'', rq_position = (0, 0), rq_workspace = None, rq_adapter = None, rq_generations = None\<rparr>"

definition ref_coverage :: reference_coverage where
  "ref_coverage = \<lparr>rc_adapter = lit ''p'', rc_language = lit ''p'', rc_scope_kind = lit ''k'', rc_configured_files = 1, rc_configured_digest = [],
     rc_trusted_files = 1, rc_trusted_digest = [], rc_uncovered_files = 0, rc_uncovered_digest = [], rc_sample = [], rc_total = 0, rc_omitted = 0\<rparr>"

definition ref_target :: reference_target where
  "ref_target = \<lparr>rt_location = \<lparr>loc_uri = lit ''u'', loc_range = \<lparr>rg_start = (0, 0), rg_end = (0, 1)\<rparr>, loc_path = None\<rparr>, rt_key = lit ''k'',
     rt_display_path = lit ''x.py'', rt_external = True\<rparr>"

lemma ref_keys_not_secret:
  "list_all (\<lambda>k. \<not> secret_key (lit k)) [''relative_path'', ''reference_count'', ''references'', ''coverage'', ''adapter'', ''language'', ''scope_kind'',
     ''configured_program_files'', ''configured_program_digest'', ''trusted_language_files'', ''trusted_language_digest'', ''uncovered_files'',
     ''uncovered_sample'', ''total'', ''items'', ''digest'', ''omitted'', ''path'', ''read_only_external'', ''location'', ''container'', ''kind'',
     ''name_path'', ''basis'', ''start'', ''end'', ''line'', ''character'']"
  by (simp add: secret_key_def SECRET_KEY_FRAGMENTS_def lit_simps lower_cp_def)

lemma ref_runs:
  "\<exists>e. render_references nav_lib (\<lambda>_. LoadedRaw (lit ''u'') UTF16) ref_request ref_coverage [ref_target, ref_target] 0 5 = Inr (Success e)"
proof -
  let ?tree = "tree_unavailable (lit ''u'') UTF16"
  let ?ts = "[ref_target, ref_target]"
  have d: "deduplicated ?ts = [(target_identity_key ref_target, ref_target)]" by (simp add: deduplicated_def)
  then have u: "unique_targets ?ts = [ref_target]" by (simp add: unique_targets_def)
  have f: "targets_by_file [ref_target] = [(lit ''k'', ref_target)]" by (simp add: targets_by_file_def dict_setdefault_def ref_target_def)
  have x: "rt_external ref_target" "rt_key ref_target = lit ''k''" by (simp_all add: ref_target_def)
  define j where "j = reference_entry ref_target (raw_location_data (rt_location ref_target) UTF16) None None"
  have j: "reference_data ref_target ?tree 0 = Some j" using x by (simp add: reference_data_def tree_unavailable_def j_def)
  have nj: "no_secret_keys j" unfolding j_def reference_entry_def raw_location_data_def raw_range_json_def lsp_position_json_def container_data_def
    using ref_keys_not_secret by (simp del: lit_simps)
  have ns: "no_secret_keys (references_json ref_request ref_coverage xs)" if "set xs \<subseteq> {j}" for xs
    unfolding references_json_def coverage_dict_def using ref_keys_not_secret that nj by (auto simp: list_all_iff simp del: lit_simps)
  let ?kept = "bound_references (references_json ref_request ref_coverage) [j] 5"
  have k: "set ?kept \<subseteq> {j}" by (auto simp: bound_references_def split: if_splits)
  have "json_value (lit ''data'') (obj_of_json (references_json ref_request ref_coverage ?kept)) = Inr (references_json ref_request ref_coverage ?kept)"
    using json_value_obj ns [OF k] by blast
  then have "\<exists>e. nav_success (references_json ref_request ref_coverage ?kept) w a g t = Inr (Success e)" for w a g t
    by (simp add: nav_success_def make_success_def)
  with x j show ?thesis by (simp add: render_references_def u f Let_def)
qed

lemma ref_service_runs:
  "\<exists>e. service_find_referencing_symbols nav_lib (\<lambda>_. QueryResult [Some (rt_location ref_target), Some (rt_location ref_target)] ref_coverage)
     (\<lambda>_. Inr ref_target) (\<lambda>_. LoadedRaw (lit ''u'') UTF16) ref_request 0 5 = Inr (Success e)"
  using ref_runs by (simp add: service_find_referencing_symbols_def valid_request_def ref_request_def valid_relative_path_def lit_simps)

theorem references_answer_exact_witness:
  "\<exists>e us tree. service_find_referencing_symbols nav_lib (\<lambda>_. QueryResult [Some (rt_location ref_target), Some (rt_location ref_target)] ref_coverage)
     (\<lambda>_. Inr ref_target) (\<lambda>_. LoadedRaw (lit ''u'') UTF16) ref_request 0 5 = Inr (Success e) \<and>
     us = [ref_target] \<and> tree = tree_unavailable (lit ''u'') UTF16 \<and> (\<exists>j. reference_data ref_target tree 0 = Some j)"
proof -
  obtain e where e: "service_find_referencing_symbols nav_lib (\<lambda>_. QueryResult [Some (rt_location ref_target), Some (rt_location ref_target)] ref_coverage)
     (\<lambda>_. Inr ref_target) (\<lambda>_. LoadedRaw (lit ''u'') UTF16) ref_request 0 5 = Inr (Success e)" using ref_service_runs by blast
  from references_answer_exact [OF e] obtain ts us trees rendered where
    ts: "list_all2 (\<lambda>l t. \<exists>loc. l = Some loc \<and> Inr ref_target = (Inr t :: error_envelope + reference_target))
      [Some (rt_location ref_target), Some (rt_location ref_target)] ts"
    and us: "distinct (map target_identity_key us)" "target_identity_key ` set us = target_identity_key ` set ts" "set us \<subseteq> set ts"
    and tr: "\<forall>(key, tree) \<in> set trees. tree = tree_unavailable (lit ''u'') UTF16"
    and all: "list_all2 (\<lambda>t j. \<exists>tree. map_of trees (rt_key t) = Some tree \<and> reference_data t tree 0 = Some j) us rendered" by fastforce
  from ts have t: "ts = [ref_target, ref_target]" by (auto simp: list_all2_Cons1)
  have "us \<noteq> []" using us(2) t by auto
  moreover have "set us \<subseteq> {ref_target}" using us(3) t by simp
  moreover have "distinct us" using us(1) by (simp add: distinct_map)
  ultimately have u: "us = [ref_target]" by (cases us; cases "tl us") auto
  with all obtain tree j where "map_of trees (rt_key ref_target) = Some tree" "reference_data ref_target tree 0 = Some j"
    by (auto simp: list_all2_Cons1)
  moreover from this tr have "tree = tree_unavailable (lit ''u'') UTF16" by (auto dest!: map_of_SomeD)
  ultimately show ?thesis using e by blast
qed

end
