(* ===== verification/Declarations.thy ===== *)
theory Declarations
  imports References
begin

text \<open>
  Declarations and implementations (\<open>tools/declarations.py\<close>): selection of one occurrence by a
  regular expression or of one symbol by its name path, the capability gates, and the rendering
  and bounding of the locations an adapter returns.  The regular-expression library and the
  adapter are arguments, as is \<open>digit\<close>, the character test of \<open>str.isdigit\<close>.
\<close>

section \<open>Capabilities\<close>

record raw_lsp_providers =
  rp_definition :: bool
  rp_declaration :: bool
  rp_implementation :: bool
  rp_references :: bool
  rp_document_symbols :: bool
  rp_workspace_symbols :: bool

definition provider_enabled :: "json option \<Rightarrow> bool" where
  "provider_enabled v = (case v of Some (JBool b) \<Rightarrow> b | Some (JObj _) \<Rightarrow> True | _ \<Rightarrow> False)"

definition from_initialize_result :: "json \<Rightarrow> raw_lsp_providers" where
  "from_initialize_result r = (let values = (case obj_get ''capabilities'' r of Some (JObj kvs) \<Rightarrow> JObj kvs | _ \<Rightarrow> JObj []) in
     \<lparr>rp_definition = provider_enabled (obj_get ''definitionProvider'' values),
      rp_declaration = provider_enabled (obj_get ''declarationProvider'' values),
      rp_implementation = provider_enabled (obj_get ''implementationProvider'' values),
      rp_references = provider_enabled (obj_get ''referencesProvider'' values),
      rp_document_symbols = provider_enabled (obj_get ''documentSymbolProvider'' values),
      rp_workspace_symbols = provider_enabled (obj_get ''workspaceSymbolProvider'' values)\<rparr>)"

record derived_tools =
  dv_find_declaration :: bool
  dv_find_implementations :: bool
  dv_find_referencing_symbols :: bool
  dv_get_symbols_overview :: bool
  dv_global_find_symbol :: bool

definition derived_from_raw :: "raw_lsp_providers \<Rightarrow> derived_tools" where
  "derived_from_raw r = \<lparr>dv_find_declaration = rp_definition r, dv_find_implementations = rp_implementation r,
     dv_find_referencing_symbols = rp_references r, dv_get_symbols_overview = rp_document_symbols r,
     dv_global_find_symbol = rp_workspace_symbols r\<rparr>"

record capability_matrix =
  cm_raw :: raw_lsp_providers
  cm_derived :: derived_tools

definition capability_from_raw :: "raw_lsp_providers \<Rightarrow> capability_matrix" where
  "capability_from_raw r = \<lparr>cm_raw = r, cm_derived = derived_from_raw r\<rparr>"

definition capability_dict :: "capability_matrix \<Rightarrow> json" where
  "capability_dict c = JObj
     [(lit ''raw'', JObj [(lit ''definitionProvider'', JBool (rp_definition (cm_raw c))),
         (lit ''declarationProvider'', JBool (rp_declaration (cm_raw c))),
         (lit ''implementationProvider'', JBool (rp_implementation (cm_raw c))),
         (lit ''referencesProvider'', JBool (rp_references (cm_raw c))),
         (lit ''documentSymbolProvider'', JBool (rp_document_symbols (cm_raw c))),
         (lit ''workspaceSymbolProvider'', JBool (rp_workspace_symbols (cm_raw c)))]),
      (lit ''derived'', JObj [(lit ''find_declaration'', JBool (dv_find_declaration (cm_derived c))),
         (lit ''find_implementations'', JBool (dv_find_implementations (cm_derived c))),
         (lit ''find_referencing_symbols'', JBool (dv_find_referencing_symbols (cm_derived c))),
         (lit ''get_symbols_overview'', JBool (dv_get_symbols_overview (cm_derived c))),
         (lit ''global_find_symbol'', JBool (dv_global_find_symbol (cm_derived c)))])]"

section \<open>Locations\<close>

type_synonym fields = "(text_cp \<times> json) list"

record classified_location =
  cl_metadata :: fields
  cl_range :: "lsp_range option"
  cl_snapshot :: "file_snapshot option"
  cl_encoding :: position_encoding
  cl_info :: "fields option"

definition has_key :: "string list \<Rightarrow> fields \<Rightarrow> bool" where
  "has_key ks fs \<longleftrightarrow> list_ex (\<lambda>k. map_of fs (lit k) \<noteq> None) ks"

definition classified_location_ok :: "classified_location \<Rightarrow> bool" where
  "classified_location_ok l \<longleftrightarrow> \<not> has_key [''range'', ''raw_lsp_range'', ''body'', ''info''] (cl_metadata l) \<and>
     \<not> (cl_snapshot l \<noteq> None \<and> cl_range l = None) \<and>
     (case cl_info l of None \<Rightarrow> True
      | Some i \<Rightarrow> \<not> has_key [''range'', ''raw_lsp_range'', ''selection_range'', ''selectionRange'', ''body''] i)"

definition classified_verified :: "fields \<Rightarrow> lsp_range \<Rightarrow> file_snapshot \<Rightarrow> position_encoding \<Rightarrow> fields option \<Rightarrow> classified_location" where
  "classified_verified m r s e i = \<lparr>cl_metadata = m, cl_range = Some r, cl_snapshot = Some s, cl_encoding = e, cl_info = i\<rparr>"

definition classified_raw :: "fields \<Rightarrow> lsp_range \<Rightarrow> position_encoding \<Rightarrow> classified_location" where
  "classified_raw m r e = \<lparr>cl_metadata = m, cl_range = Some r, cl_snapshot = None, cl_encoding = e, cl_info = None\<rparr>"

text \<open>\<open>Inl e\<close> a \<open>PositionError\<close>, \<open>Inr None\<close> content that was asked for without a snapshot.\<close>

definition render_classified_location :: "libraries \<Rightarrow> classified_location \<Rightarrow> bool \<Rightarrow> bool \<Rightarrow> position_error + fields option" where
  "render_classified_location lib l include_body include_info = (case cl_range l of
       None \<Rightarrow> Inr (Some (cl_metadata l))
     | Some r \<Rightarrow> (case cl_snapshot l of
         None \<Rightarrow>
           if include_body \<or> include_info then Inr None
           else Inr (Some (AList.update (lit ''raw_lsp_range'')
                  (raw_range_json (raw_lsp_range (lsp_position_of (rg_start r)) (lsp_position_of (rg_end r)) (cl_encoding l))) (cl_metadata l)))
       | Some s \<Rightarrow>
           let m = \<lparr>pm_snapshot = s, pm_encoding = cl_encoding l\<rparr> in
           (case source_range m r of
              Inl e \<Rightarrow> Inl e
            | Inr rng \<Rightarrow>
                let ranged = AList.update (lit ''range'') rng (cl_metadata l) in
                (case (if include_body
                       then map_sum id (\<lambda>b. AList.update (lit ''sha256'') (JStr (lb_sha256 lib (fs_raw_bytes s)))
                                             (AList.update (lit ''body'') (JStr b) ranged)) (source_body m r)
                       else Inr ranged) of
                   Inl e \<Rightarrow> Inl e
                 | Inr bodied \<Rightarrow> Inr (Some (case cl_info l of
                       Some (i # is) \<Rightarrow> if include_info then AList.update (lit ''info'') (JObj (i # is)) bodied else bodied
                     | _ \<Rightarrow> bodied))))))"

datatype normalized_location = Classified classified_location | RawMapping fields | NotAMapping

section \<open>The adapter and the regular expressions\<close>

record semantic_document =
  sd_document :: document_symbol_input
  sd_capabilities :: capability_matrix

record 'raw declaration_seam =
  sm_load :: "text_cp \<Rightarrow> error_envelope + semantic_document"
  sm_request :: "string \<Rightarrow> text_cp \<Rightarrow> lsp_position \<Rightarrow> bool \<Rightarrow> 'raw"
  sm_normalize :: "'raw \<Rightarrow> bool \<Rightarrow> bool \<Rightarrow> error_envelope + normalized_location list"

text \<open>A compiled pattern: its number of groups, and the starts of group 1 in the matches (-1: not matched).\<close>

record regex =
  rx_groups :: nat
  rx_starts :: "text_cp \<Rightarrow> int list"

definition DEFINITION_METHOD :: string where "DEFINITION_METHOD = ''textDocument/definition''"
definition IMPLEMENTATION_METHOD :: string where "IMPLEMENTATION_METHOD = ''textDocument/implementation''"

definition compile_locator :: "(text_cp \<Rightarrow> regex option) \<Rightarrow> text_cp option \<Rightarrow> string + regex" where
  "compile_locator re v = (case v of
       None \<Rightarrow> Inl ''expected_string''
     | Some s \<Rightarrow> (case re s of
         None \<Rightarrow> Inl ''invalid_python_regex''
       | Some p \<Rightarrow>
           if rx_groups p = 0 then Inl ''expected_exactly_one_capture_group_got_zero''
           else if rx_groups p > 1 then Inl (''expected_exactly_one_capture_group_got_'' @ show_nat (rx_groups p))
           else Inr p))"

datatype kinds_arg = KindsNone | KindsSequence "int option list" | KindsOther

definition parse_kinds :: "kinds_arg \<Rightarrow> int list option" where
  "parse_kinds v = (case v of
       KindsNone \<Rightarrow> Some []
     | KindsOther \<Rightarrow> None
     | KindsSequence ks \<Rightarrow>
         if list_all (\<lambda>k. case k of None \<Rightarrow> False | Some i \<Rightarrow> 1 \<le> i \<and> i \<le> 26) ks then Some (remdups (map the ks)) else None)"

section \<open>Errors\<close>

definition document_error :: "error_code \<Rightarrow> document_navigation \<Rightarrow> fields \<Rightarrow> nav_exn + tool_envelope" where
  "document_error code d details = nav_error code (JObj details) (dn_workspace d) (dn_adapter d) (dn_generations d)"

definition missing :: "document_navigation \<Rightarrow> fields \<Rightarrow> nav_exn + tool_envelope" where
  "missing d details = document_error SYMBOL_NOT_FOUND d details"

definition ambiguous :: "document_navigation \<Rightarrow> fields \<Rightarrow> nav_exn + tool_envelope" where
  "ambiguous d details = document_error AMBIGUOUS_SYMBOL d details"

definition invalid :: "document_navigation \<Rightarrow> string \<Rightarrow> string option \<Rightarrow> int option \<Rightarrow> nav_exn + tool_envelope" where
  "invalid d field reason minimum_required = document_error INVALID_INPUT d ([(lit ''field'', JStr (lit field))] @
     (case reason of None \<Rightarrow> [] | Some r \<Rightarrow> [(lit ''reason'', JStr (lit r))]) @
     (case minimum_required of None \<Rightarrow> [] | Some n \<Rightarrow> [(lit ''minimum_required'', JInt n)]))"

definition invalid_adapter_result :: "document_navigation \<Rightarrow> string \<Rightarrow> nav_exn + tool_envelope" where
  "invalid_adapter_result d field = invalid d field (Some ''adapter_result_is_invalid'') None"

definition unmapped_requested_content :: "document_navigation \<Rightarrow> nav_exn + tool_envelope" where
  "unmapped_requested_content d = document_error UNSUPPORTED d
     [(lit ''operation'', JStr (lit ''render_semantic_location_content'')), (lit ''reason'', JStr (lit ''verified_target_snapshot_unavailable''))]"

definition unsupported :: "document_navigation \<Rightarrow> capability_matrix \<Rightarrow> string \<Rightarrow> string \<Rightarrow> nav_exn + tool_envelope" where
  "unsupported d c operation meth = document_error UNSUPPORTED d
     ([(lit ''operation'', JStr (lit operation)), (lit ''method'', JStr (lit meth)), (lit ''capabilities'', capability_dict c)] @
      (if operation = ''find_implementations'' \<and> \<not> rp_implementation (cm_raw c)
       then [(lit ''reason'', JStr (lit ''implementation_provider_unavailable'')), (lit ''next_action'', JStr (lit ''find_referencing_symbols''))]
       else []))"

section \<open>Symbols by name path\<close>

text \<open>An unindexed segment also matches the indexed ones of its overloads.\<close>

definition segment_matches :: "(nat \<Rightarrow> bool) \<Rightarrow> text_cp \<Rightarrow> text_cp \<Rightarrow> bool" where
  "segment_matches digit actual expected \<longleftrightarrow> actual = expected \<or>
     (let pre = expected @ [91] in
      take (length pre) actual = pre \<and> actual \<noteq> [] \<and> last actual = 93 \<and>
      (let inner = slice (length pre) (length actual - 1) actual in inner \<noteq> [] \<and> list_all digit inner))"

definition path_matches :: "(nat \<Rightarrow> bool) \<Rightarrow> symbol \<Rightarrow> text_cp list \<Rightarrow> bool \<Rightarrow> bool" where
  "path_matches digit s components absolute =
     (let path = sy_path s; n = length components in
      if length path < n \<or> (absolute \<and> length path \<noteq> n) then False
      else list_all (\<lambda>(a, e). segment_matches digit a e) (zip (drop (length path - n) path) components))"

definition decl_valid_name_path :: "text_cp \<Rightarrow> bool" where
  "decl_valid_name_path v \<longleftrightarrow> v \<noteq> [] \<and> [] \<notin> set (split_slash (strip_slashes v))"

definition path_candidates :: "(nat \<Rightarrow> bool) \<Rightarrow> document_navigation \<Rightarrow> text_cp \<Rightarrow> symbol list" where
  "path_candidates digit d name_path = sort_key symbol_order_key
     (filter (\<lambda>s. path_matches digit s (split_slash (strip_slashes name_path)) (take 1 name_path = [47]))
        (concat (map iter_depth_first (dn_symbols d))))"

definition resolve_symbol :: "(nat \<Rightarrow> bool) \<Rightarrow> document_navigation \<Rightarrow> text_cp \<Rightarrow> (nav_exn + tool_envelope) + symbol" where
  "resolve_symbol digit d name_path = (case path_candidates digit d name_path of
       [] \<Rightarrow> Inl (missing d [(lit ''relative_path'', JStr (dn_relative_path d)), (lit ''name_path'', JStr name_path)])
     | [s] \<Rightarrow> Inr s
     | ss \<Rightarrow> Inl (ambiguous d [(lit ''relative_path'', JStr (dn_relative_path d)), (lit ''name_path'', JStr name_path),
               (lit ''candidates'', JArr (map (\<lambda>s. JStr (name_path_text s)) ss))]))"

section \<open>The service\<close>

definition decl_load ::
    "libraries \<Rightarrow> 'raw declaration_seam \<Rightarrow> text_cp \<Rightarrow> (nav_exn + tool_envelope) + document_navigation \<times> capability_matrix" where
  "decl_load lib seam relative_path = (case sm_load seam relative_path of
       Inl e \<Rightarrow> Inl (Inr (Failure e))
     | Inr loaded \<Rightarrow>
         if di_relative_path (sd_document loaded) \<noteq> relative_path
         then Inl (nav_error INVALID_PATH (JObj [(lit ''path'', JStr relative_path)]) None None None)
         else (case from_input lib (sd_document loaded) of
                 Inl _ \<Rightarrow> Inl (nav_error INVALID_INPUT (JObj [(lit ''path'', JStr relative_path)]) None None None)
               | Inr d \<Rightarrow> Inr (d, sd_capabilities loaded)))"

fun normalize_locations ::
    "libraries \<Rightarrow> document_navigation \<Rightarrow> bool \<Rightarrow> bool \<Rightarrow> normalized_location list \<Rightarrow> (nav_exn + tool_envelope) + fields list" where
  "normalize_locations lib d include_body include_info [] = Inr []"
| "normalize_locations lib d include_body include_info (l # ls) = (case l of
     Classified c \<Rightarrow> (case render_classified_location lib c include_body include_info of
         Inl _ \<Rightarrow> Inl (invalid_adapter_result d ''normalized_locations'')
       | Inr None \<Rightarrow> Inl (unmapped_requested_content d)
       | Inr (Some fs) \<Rightarrow> map_sum id (Cons fs) (normalize_locations lib d include_body include_info ls))
   | NotAMapping \<Rightarrow> Inl (invalid_adapter_result d ''normalized_locations'')
   | RawMapping fs \<Rightarrow>
       if has_key [''range'', ''raw_lsp_range'', ''body'', ''info''] fs then Inl (invalid_adapter_result d ''normalized_locations'')
       else map_sum id (Cons fs) (normalize_locations lib d include_body include_info ls))"

abbreviation fields_text :: "fields \<Rightarrow> text_cp" where
  "fields_text fs \<equiv> sorted_json (JObj fs)"

definition decl_normalize ::
    "libraries \<Rightarrow> 'raw declaration_seam \<Rightarrow> document_navigation \<Rightarrow> 'raw \<Rightarrow> bool \<Rightarrow> bool \<Rightarrow> (nav_exn + tool_envelope) + fields list" where
  "decl_normalize lib seam d raw include_body include_info = (case sm_normalize seam raw include_body include_info of
       Inl e \<Rightarrow> Inl (Inr (Failure e))
     | Inr ls \<Rightarrow> map_sum id (sort_key fields_text) (normalize_locations lib d include_body include_info ls))"

text \<open>The part of the text to search: all of it, or that of the containing symbol.\<close>

definition search_bounds ::
    "(nat \<Rightarrow> bool) \<Rightarrow> document_navigation \<Rightarrow> text_cp option \<Rightarrow> (nav_exn + tool_envelope) + nat \<times> nat" where
  "search_bounds digit d container = (case container of
       None \<Rightarrow> Inr (0, length (fs_text (dn_snapshot d)))
     | Some np \<Rightarrow> (case resolve_symbol digit d np of
         Inl r \<Rightarrow> Inl r
       | Inr s \<Rightarrow> (case lsp_to_text_offset (dn_mapper d) (lsp_position_of (rg_start (loc_range (sy_location s)))) of
           Inl _ \<Rightarrow> Inl (invalid_adapter_result d ''containing_symbol_name_path'')
         | Inr i \<Rightarrow> (case lsp_to_text_offset (dn_mapper d) (lsp_position_of (rg_end (loc_range (sy_location s)))) of
             Inl _ \<Rightarrow> Inl (invalid_adapter_result d ''containing_symbol_name_path'')
           | Inr j \<Rightarrow> Inr (i, j)))))"

text \<open>The one occurrence of the captured text.\<close>

definition select_occurrence ::
    "document_navigation \<Rightarrow> text_cp \<Rightarrow> text_cp \<Rightarrow> regex \<Rightarrow> nat \<times> nat \<Rightarrow> (nav_exn + tool_envelope) + lsp_position" where
  "select_occurrence d relative_path source p bounds = (case bounds of (start, stop) \<Rightarrow>
     (let starts = rx_starts p (slice start stop (fs_text (dn_snapshot d)));
          request = [(lit ''relative_path'', JStr relative_path), (lit ''regex'', JStr source)] in
      if list_ex (\<lambda>i. i < 0) starts then Inl (invalid d ''regex'' (Some ''capture_group_did_not_participate'') None)
      else (case starts of
              [] \<Rightarrow> Inl (missing d request)
            | [i] \<Rightarrow> (case text_offset_to_lsp (dn_mapper d) (int start + i) of
                 Inl _ \<Rightarrow> Inl (invalid d ''regex'' (Some ''capture_is_not_an_lsp_position'') None)
               | Inr pos \<Rightarrow> Inr pos)
            | _ \<Rightarrow> Inl (ambiguous d (request @ [(lit ''occurrence_count'', JInt (int (length starts)))])))))"

definition declaration_json :: "text_cp \<Rightarrow> capability_matrix \<Rightarrow> fields list \<Rightarrow> json" where
  "declaration_json relative_path c ls = JObj [(lit ''relative_path'', JStr relative_path), (lit ''capabilities'', capability_dict c),
     (lit ''locations'', JArr (map JObj ls))]"

definition find_declaration ::
    "libraries \<Rightarrow> (nat \<Rightarrow> bool) \<Rightarrow> (text_cp \<Rightarrow> regex option) \<Rightarrow> 'raw declaration_seam \<Rightarrow> text_cp \<Rightarrow> text_cp option \<Rightarrow> text_cp option \<Rightarrow>
     bool \<Rightarrow> bool \<Rightarrow> nav_exn + tool_envelope" where
  "find_declaration lib digit re seam relative_path regex container include_body include_info =
     (if \<not> valid_relative_path relative_path
      then nav_error INVALID_INPUT (JObj [(lit ''field'', JStr (lit ''relative_path'')),
             (lit ''reason'', JStr (lit ''expected_normalized_relative_file_path''))]) None None None
      else case compile_locator re regex of
        Inl reason \<Rightarrow> nav_error INVALID_INPUT (JObj [(lit ''field'', JStr (lit ''regex'')), (lit ''reason'', JStr (lit reason))]) None None None
      | Inr p \<Rightarrow>
          if (\<exists>np. container = Some np \<and> \<not> decl_valid_name_path np)
          then nav_error INVALID_INPUT (JObj [(lit ''field'', JStr (lit ''containing_symbol_name_path''))]) None None None
          else (case decl_load lib seam relative_path of
            Inl r \<Rightarrow> r
          | Inr (d, c) \<Rightarrow>
              if \<not> rp_definition (cm_raw c) then unsupported d c ''find_declaration'' DEFINITION_METHOD
              else (case search_bounds digit d container of
                Inl r \<Rightarrow> r
              | Inr bounds \<Rightarrow> (case select_occurrence d relative_path (the regex) p bounds of
                  Inl r \<Rightarrow> r
                | Inr pos \<Rightarrow>
                    (case decl_normalize lib seam d (sm_request seam DEFINITION_METHOD (dn_uri d) pos include_info) include_body include_info of
                       Inl r \<Rightarrow> r
                     | Inr [] \<Rightarrow> missing d [(lit ''relative_path'', JStr relative_path), (lit ''regex'', JStr (the regex)),
                                   (lit ''method'', JStr (lit DEFINITION_METHOD))]
                     | Inr ls \<Rightarrow> nav_success (declaration_json relative_path c ls) (dn_workspace d) (dn_adapter d) (dn_generations d) None)))))"

text \<open>The kind filters of \<open>find_implementations\<close>: kept locations and the number left out.\<close>

fun filter_kinds :: "int list \<Rightarrow> int list \<Rightarrow> fields list \<Rightarrow> (fields list \<times> nat) option" where
  "filter_kinds included excluded [] = Some ([], 0)"
| "filter_kinds included excluded (fs # ls) =
     (case map_of fs (lit ''kind'') of
        None \<Rightarrow>
          if included = [] then map_option (\<lambda>(ks, n). (fs # ks, n)) (filter_kinds included excluded ls)
          else map_option (\<lambda>(ks, n). (ks, Suc n)) (filter_kinds included excluded ls)
      | Some (JInt k) \<Rightarrow>
          if (included \<noteq> [] \<and> k \<notin> set included) \<or> k \<in> set excluded
          then map_option (\<lambda>(ks, n). (ks, Suc n)) (filter_kinds included excluded ls)
          else map_option (\<lambda>(ks, n). (fs # ks, n)) (filter_kinds included excluded ls)
      | Some _ \<Rightarrow> None)"

definition implementation_json :: "text_cp \<Rightarrow> text_cp \<Rightarrow> capability_matrix \<Rightarrow> fields list \<Rightarrow> json" where
  "implementation_json relative_path name_path c ls = JObj [(lit ''relative_path'', JStr relative_path), (lit ''name_path'', JStr name_path),
     (lit ''capabilities'', capability_dict c), (lit ''locations'', JArr (map JObj ls))]"

definition bound_implementations :: "document_navigation \<Rightarrow> (fields list \<Rightarrow> json) \<Rightarrow> fields list \<Rightarrow> nat \<Rightarrow> int \<Rightarrow> nav_exn + tool_envelope" where
  "bound_implementations d data found kind_omitted max_chars =
     (let fits = (\<lambda>ls. int (length (sorted_json (data ls))) \<le> max_chars); kept = keep_while fits [] found in
      if \<not> fits [] then invalid d ''max_answer_chars'' None (Some (int (length (sorted_json (data [])))))
      else nav_success (data kept) (dn_workspace d) (dn_adapter d) (dn_generations d)
             (Some (truncation (kind_omitted + length found - length kept))))"

definition find_implementations ::
    "libraries \<Rightarrow> (nat \<Rightarrow> bool) \<Rightarrow> 'raw declaration_seam \<Rightarrow> text_cp \<Rightarrow> text_cp \<Rightarrow> bool \<Rightarrow> kinds_arg \<Rightarrow> kinds_arg \<Rightarrow> int option \<Rightarrow>
     nav_exn + tool_envelope" where
  "find_implementations lib digit seam name_path relative_path include_info include_kinds exclude_kinds max_answer_chars =
     (case (parse_kinds include_kinds, parse_kinds exclude_kinds, max_answer_chars) of
        (Some included, Some excluded, Some max_chars) \<Rightarrow>
          if \<not> valid_relative_path relative_path \<or> \<not> decl_valid_name_path name_path \<or> max_chars \<le> 0
          then nav_error INVALID_INPUT (JObj [(lit ''field'', JStr (lit
                 ''name_path, relative_path, include_kinds, exclude_kinds, or max_answer_chars''))]) None None None
          else (case decl_load lib seam relative_path of
            Inl r \<Rightarrow> r
          | Inr (d, c) \<Rightarrow>
              if \<not> rp_implementation (cm_raw c) then unsupported d c ''find_implementations'' IMPLEMENTATION_METHOD
              else (case resolve_symbol digit d name_path of
                Inl r \<Rightarrow> r
              | Inr s \<Rightarrow>
                  (case decl_normalize lib seam d (sm_request seam IMPLEMENTATION_METHOD (dn_uri d) (lsp_position_of (rg_start (sy_selection s)))
                          (include_info \<or> included \<noteq> [] \<or> excluded \<noteq> [])) False include_info of
                     Inl r \<Rightarrow> r
                   | Inr ls \<Rightarrow> (case filter_kinds included excluded ls of
                       None \<Rightarrow> invalid_adapter_result d ''normalized_locations.kind''
                     | Some (kept, omitted) \<Rightarrow>
                         bound_implementations d (implementation_json relative_path name_path c) (sort_key fields_text kept) omitted max_chars))))
      | _ \<Rightarrow> nav_error INVALID_INPUT (JObj [(lit ''field'', JStr (lit
                 ''name_path, relative_path, include_kinds, exclude_kinds, or max_answer_chars''))]) None None None)"

section \<open>Overloads\<close>

abbreviation decimal :: "(nat \<Rightarrow> bool) \<Rightarrow> bool" where
  "decimal digit \<equiv> (\<forall>c. 48 \<le> c \<and> c \<le> 57 \<longrightarrow> digit c)"

lemma number_digits: "decimal digit \<Longrightarrow> list_all digit (lit (show_nat k)) \<and> lit (show_nat k) \<noteq> []"
proof -
  assume d: "decimal digit"
  have "list_all digit (lit s)" if "list_all is_digit s" for s
    using that d by (induction s) (auto simp: lit_simps is_digit_def)
  then have "list_all digit (lit (show_nat k))" using show_nat_digits by blast
  moreover have "lit (show_nat k) \<noteq> []" using show_nat_nonempty [of k] by (cases "show_nat k") (auto simp: lit_simps)
  ultimately show ?thesis by blast
qed

lemma segment_matches_name: "decimal digit \<Longrightarrow> segment_matches digit (segment names n k) n"
proof (cases "1 < count_list names n")
  case True
  assume d: "decimal digit"
  let ?num = "lit (show_nat k)"
  have e: "segment names n k = (n @ [91]) @ ?num @ [93]" using True by (simp add: segment_def lit_simps)
  have "slice (length (n @ [91])) (length ((n @ [91]) @ ?num @ [93]) - 1) ((n @ [91]) @ ?num @ [93]) = ?num"
    by (simp add: slice_def)
  with number_digits [OF d, of k] show ?thesis unfolding segment_matches_def e Let_def by simp
qed (simp add: segment_matches_def segment_def)

lemma rest_segments:
  "normalize_rest nz parent names seen ps = Inr ss \<Longrightarrow>
   map sy_name ss = map snd ps \<and> (\<forall>s\<in>set ss. \<exists>k. sy_path s = parent @ [segment names (sy_name s) k])"
proof (induction ps arbitrary: seen ss)
  case (Cons p ps)
  obtain raw name where p: "p = (raw, name)" by fastforce
  obtain loc sel kind ms cs symbols where "normalize_rest nz parent names (seen @ [name]) ps = Inr symbols"
    and "ss = Symbol name (segment names name (count_list seen name)) (parent @ [segment names name (count_list seen name)]) kind loc sel
           (symbol_detail nz raw) cs (case nz_completeness nz of None \<Rightarrow> None | Some f \<Rightarrow> f raw) # symbols"
    using Cons.prems by (auto simp: p normalize_rest.simps Let_def split: sum.splits)
  with Cons.IH [of "seen @ [name]" symbols] show ?case by (auto simp: p)
qed (simp add: normalize_rest.simps)

lemma document_segments:
  assumes "from_input lib i = Inr d" and "s \<in> set (dn_symbols d)"
  shows "\<exists>names k. sy_path s = [segment names (sy_name s) k]"
proof -
  obtain nz where n: "normalize_document_symbols nz None (di_raw_symbols i) = Inr (dn_symbols d)"
    using assms(1) by (auto simp: from_input_def split: sum.splits)
  with assms(2) obtain raws where "normalize_siblings nz [] raws = Inr (dn_symbols d)"
    by (auto simp: normalize_document_symbols_def split: option.splits list.splits sum.splits)
  then obtain names where "normalize_rest nz [] names [] (zip raws names) = Inr (dn_symbols d)"
    by (auto simp: normalize_siblings.simps split: sum.splits)
  from rest_segments [OF this] assms(2) show ?thesis by fastforce
qed

lemma filter_length_mono: "(\<And>x. x \<in> set xs \<Longrightarrow> P x \<Longrightarrow> Q x) \<Longrightarrow> length (filter P xs) \<le> length (filter Q xs)"
  by (induction xs) (auto simp: le_SucI)

lemma roots_iterated: "length (filter P ss) \<le> length (filter P (concat (map iter_depth_first ss)))"
proof (induction ss)
  case (Cons s ss)
  have "\<exists>rest. iter_depth_first s = s # rest" by (cases s) simp
  with Cons show ?case by auto
qed simp

lemma single_name_path:
  assumes "n \<noteq> []" and "47 \<notin> set n"
  shows "split_slash (strip_slashes n) = [n]" and "take 1 n \<noteq> [47]"
proof -
  have c: "clean_path [n]" using assms by simp
  have "strip_slashes (47 # n) = n" using strip_join [OF c] by simp
  moreover have "strip_slashes (47 # n) = strip_slashes n" by (simp add: strip_slashes_def)
  ultimately have "strip_slashes n = n" by simp
  moreover have "split_slash n = [n]" using split_join [of "[n]"] assms by simp
  ultimately show "split_slash (strip_slashes n) = [n]" by simp
  show "take 1 n \<noteq> [47]" using assms by (cases n) auto
qed

text \<open>
  C38: An unindexed name never picks one of several overloads.  If two or more top-level symbols
  of a document share a name, a query by that bare name is answered as ambiguous and lists
  them all, although each of them is stored under an indexed path.
\<close>

theorem overloads_are_ambiguous:
  assumes "from_input lib i = Inr d" and "decimal digit" and "n \<noteq> []" and "47 \<notin> set n"
    and "1 < count_list (map sy_name (dn_symbols d)) n"
  shows "\<exists>ss. 1 < length ss \<and> {s \<in> set (dn_symbols d). sy_name s = n} \<subseteq> set ss \<and>
    resolve_symbol digit d n = Inl (ambiguous d [(lit ''relative_path'', JStr (dn_relative_path d)), (lit ''name_path'', JStr n),
      (lit ''candidates'', JArr (map (\<lambda>s. JStr (name_path_text s)) ss))])"
proof -
  let ?ss = "path_candidates digit d n"
  let ?P = "\<lambda>s. path_matches digit s [n] False"
  note np = single_name_path [OF assms(3,4)]
  have cand: "?ss = sort_key symbol_order_key (filter ?P (concat (map iter_depth_first (dn_symbols d))))"
    using np by (simp add: path_candidates_def)
  have match: "?P s" if "s \<in> set (dn_symbols d)" "sy_name s = n" for s
    using document_segments [OF assms(1) that(1)] that(2) segment_matches_name [OF assms(2)]
    by (auto simp: path_matches_def Let_def)
  have "count_list (map sy_name xs) n = length (filter (\<lambda>s. sy_name s = n) xs)" for xs
    by (induction xs) auto
  with assms(5) have "1 < length (filter (\<lambda>s. sy_name s = n) (dn_symbols d))" by simp
  also have "\<dots> \<le> length (filter ?P (dn_symbols d))"
    using match by (rule filter_length_mono)
  also have "\<dots> \<le> length ?ss" using roots_iterated [of ?P "dn_symbols d"] by (simp add: cand)
  finally have len: "1 < length ?ss" .
  have self: "s \<in> set (iter_depth_first s)" for s by (cases s) simp
  have sub: "{s \<in> set (dn_symbols d). sy_name s = n} \<subseteq> set ?ss" using match self by (auto simp: cand)
  obtain a b rest where "?ss = a # b # rest" using len by (cases ?ss rule: remdups_adj.cases) auto
  then have "resolve_symbol digit d n = Inl (ambiguous d [(lit ''relative_path'', JStr (dn_relative_path d)), (lit ''name_path'', JStr n),
      (lit ''candidates'', JArr (map (\<lambda>s. JStr (name_path_text s)) ?ss))])" by (simp add: resolve_symbol_def)
  with len sub show ?thesis by blast
qed

theorem overloads_are_ambiguous_witness:
  "\<exists>d ss. from_input nav_lib nav_input = Inr d \<and> 1 < length ss \<and>
     resolve_symbol (\<lambda>c. 48 \<le> c \<and> c \<le> 57) d (lit ''f'') = Inl (ambiguous d [(lit ''relative_path'', JStr (dn_relative_path d)),
       (lit ''name_path'', JStr (lit ''f'')), (lit ''candidates'', JArr (map (\<lambda>s. JStr (name_path_text s)) ss))])"
proof -
  obtain d where d: "from_input nav_lib nav_input = Inr d" "dn_symbols d = [wit_symbol (lit ''f[0]''), wit_symbol (lit ''f[1]'')]"
    using nav_document by blast
  have "lit ''f'' \<noteq> []" "47 \<notin> set (lit ''f'')" "1 < count_list (map sy_name (dn_symbols d)) (lit ''f'')"
    by (simp_all add: d(2) wit_symbol_def lit_simps)
  from overloads_are_ambiguous [OF d(1) _ this, of "\<lambda>c. 48 \<le> c \<and> c \<le> 57"] d(1) show ?thesis by blast
qed

section \<open>Implementations\<close>

text \<open>What the filters keep: without a kind only if nothing need be included, else by the two sets.\<close>

definition kind_kept :: "int list \<Rightarrow> int list \<Rightarrow> fields \<Rightarrow> bool" where
  "kind_kept included excluded fs = (case map_of fs (lit ''kind'') of
       None \<Rightarrow> included = [] | Some (JInt k) \<Rightarrow> (included = [] \<or> k \<in> set included) \<and> k \<notin> set excluded | _ \<Rightarrow> False)"

lemma filter_kinds_filter:
  "filter_kinds included excluded ls = Some (kept, omitted) \<Longrightarrow>
     kept = filter (kind_kept included excluded) ls \<and> omitted + length kept = length ls"
proof (induction ls arbitrary: kept omitted)
  case (Cons fs ls)
  let ?step = "if kind_kept included excluded fs then map_option (\<lambda>(ks, n). (fs # ks, n)) (filter_kinds included excluded ls)
    else map_option (\<lambda>(ks, n). (ks, Suc n)) (filter_kinds included excluded ls)"
  have "filter_kinds included excluded (fs # ls) = ?step"
  proof (cases "map_of fs (lit ''kind'')")
    case (Some j)
    have "\<exists>k. j = JInt k" using Cons.prems Some by (cases j) simp_all
    with Some show ?thesis by (auto simp: kind_kept_def)
  qed (simp add: kind_kept_def)
  with Cons.prems have step: "?step = Some (kept, omitted)" by simp
  then obtain ks n where r: "filter_kinds included excluded ls = Some (ks, n)" by (cases "filter_kinds included excluded ls") (auto split: if_splits)
  from Cons.IH [OF r] step r show ?case by (cases "kind_kept included excluded fs") auto
qed simp

lemma nav_error_fails: "nav_error code details w a g \<noteq> Inr (Success e)"
  by (auto simp: nav_error_def split: sum.splits)

lemmas decl_errors = missing_def ambiguous_def invalid_def invalid_adapter_result_def unmapped_requested_content_def
  unsupported_def document_error_def nav_error_fails

lemma decl_load_fails: "decl_load lib seam p \<noteq> Inl (Inr (Success e))"
  by (auto simp: decl_load_def decl_errors split: sum.splits if_splits)

lemma resolve_fails: "resolve_symbol digit d np \<noteq> Inl (Inr (Success e))"
  by (auto simp: resolve_symbol_def decl_errors split: list.splits)

lemma normalize_locations_fails: "normalize_locations lib d b i ls \<noteq> Inl (Inr (Success e))"
  by (induction ls)
    (auto simp: map_sum_def decl_errors split: normalized_location.splits sum.splits option.splits if_splits)

lemma decl_normalize_fails: "decl_normalize lib seam d raw b i \<noteq> Inl (Inr (Success e))"
  using normalize_locations_fails by (auto simp: decl_normalize_def map_sum_def split: sum.splits)

lemma bound_implementations_success:
  assumes "bound_implementations d data found omitted max_chars = Inr (Success e)"
  shows "\<exists>n\<le>length found. se_data e = data (take n found) \<and> int (length (sorted_json (data (take n found)))) \<le> max_chars \<and>
    (n < length found \<longrightarrow> int (length (sorted_json (data (take (Suc n) found)))) > max_chars) \<and>
    se_truncation e = Some (truncation (omitted + length found - n))"
proof -
  let ?fits = "\<lambda>ls. int (length (sorted_json (data ls))) \<le> max_chars"
  define kept where "kept = keep_while ?fits [] found"
  have f: "?fits []" and s: "nav_success (data kept) (dn_workspace d) (dn_adapter d) (dn_generations d)
      (Some (truncation (omitted + length found - length kept))) = Inr (Success e)"
    using assms by (auto simp: bound_implementations_def kept_def Let_def decl_errors split: if_splits)
  note k = keep_while_longest [of ?fits found kept, OF kept_def [symmetric]]
  have "length kept \<le> length found" using k(1) by (metis length_take min.cobounded1)
  moreover have "?fits (take (length kept) found)" using f k(1,2) by (cases "kept = []") auto
  ultimately show ?thesis using k nav_success_data [OF s] by (intro exI [of _ "length kept"]) auto
qed

lemma find_implementations_success:
  assumes "find_implementations lib digit seam np rel info inc exc budget = Inr (Success e)"
  shows "\<exists>included excluded m d c s ls kept omitted. parse_kinds inc = Some included \<and> parse_kinds exc = Some excluded \<and> budget = Some m \<and>
    decl_load lib seam rel = Inr (d, c) \<and> rp_implementation (cm_raw c) \<and> resolve_symbol digit d np = Inr s \<and>
    decl_normalize lib seam d (sm_request seam IMPLEMENTATION_METHOD (dn_uri d) (lsp_position_of (rg_start (sy_selection s)))
      (info \<or> included \<noteq> [] \<or> excluded \<noteq> [])) False info = Inr ls \<and>
    filter_kinds included excluded ls = Some (kept, omitted) \<and>
    bound_implementations d (implementation_json rel np c) (sort_key fields_text kept) omitted m = Inr (Success e)"
proof -
  obtain included excluded m where k: "parse_kinds inc = Some included" "parse_kinds exc = Some excluded" "budget = Some m"
    using assms by (auto simp: find_implementations_def nav_error_fails split: option.splits)
  note run = assms [unfolded find_implementations_def k prod.case option.case]
  obtain d c where l: "decl_load lib seam rel = Inr (d, c)"
    using run decl_load_fails by (auto simp: nav_error_fails split: if_splits sum.splits)
  have cap: "rp_implementation (cm_raw c)" using run l by (auto simp: decl_errors split: if_splits)
  obtain s where s: "resolve_symbol digit d np = Inr s"
    using run l cap resolve_fails by (auto simp: nav_error_fails split: if_splits sum.splits)
  obtain ls where ls: "decl_normalize lib seam d (sm_request seam IMPLEMENTATION_METHOD (dn_uri d) (lsp_position_of (rg_start (sy_selection s)))
      (info \<or> included \<noteq> [] \<or> excluded \<noteq> [])) False info = Inr ls"
    using run l cap s decl_normalize_fails [of lib seam] by (auto simp: nav_error_fails split: if_splits sum.splits)
  obtain kept omitted where f: "filter_kinds included excluded ls = Some (kept, omitted)"
    using run l cap s ls by (auto simp: decl_errors split: if_splits option.splits)
  have "bound_implementations d (implementation_json rel np c) (sort_key fields_text kept) omitted m = Inr (Success e)"
    using run l cap s ls f by (auto simp: nav_error_fails split: if_splits)
  with k l cap s ls f show ?thesis by blast
qed

lemma decl_load_success:
  "decl_load lib seam rel = Inr (d, c) \<Longrightarrow> \<exists>loaded. sm_load seam rel = Inr loaded \<and> di_relative_path (sd_document loaded) = rel \<and>
     from_input lib (sd_document loaded) = Inr d \<and> c = sd_capabilities loaded"
  by (auto simp: decl_load_def split: sum.splits if_splits)

lemma sort_singleton: "sort_key k xs = [s] \<Longrightarrow> xs = [s]"
proof -
  assume srt: "sort_key k xs = [s]"
  have "length xs = 1" using arg_cong [OF srt, of length] by simp
  then obtain y where "xs = [y]" by (auto simp: length_Suc_conv)
  with srt show ?thesis by simp
qed

lemma resolve_symbol_unique:
  assumes "resolve_symbol digit d np = Inr s"
  shows "filter (\<lambda>s. path_matches digit s (split_slash (strip_slashes np)) (take 1 np = [47])) (forest (dn_symbols d)) = [s]"
proof -
  have "path_candidates digit d np = [s]" using assms by (auto simp: resolve_symbol_def split: list.splits)
  then have "sort_key symbol_order_key (filter (\<lambda>s. path_matches digit s (split_slash (strip_slashes np)) (take 1 np = [47]))
      (forest (dn_symbols d))) = [s]" (is "sort_key _ ?xs = _") by (simp add: path_candidates_def forest_def)
  then show ?thesis by (rule sort_singleton)
qed

text \<open>A location as the adapter returned it, with the fields shown for it.\<close>

definition shown_as :: "libraries \<Rightarrow> bool \<Rightarrow> bool \<Rightarrow> normalized_location \<Rightarrow> fields \<Rightarrow> bool" where
  "shown_as lib include_body include_info l fs \<longleftrightarrow> (case l of
       Classified c \<Rightarrow> render_classified_location lib c include_body include_info = Inr (Some fs)
     | NotAMapping \<Rightarrow> False
     | RawMapping kvs \<Rightarrow> fs = kvs \<and> \<not> has_key [''range'', ''raw_lsp_range'', ''body'', ''info''] kvs)"

lemma normalize_locations_shown: "normalize_locations lib d b i ns = Inr ls \<Longrightarrow> list_all2 (shown_as lib b i) ns ls"
  by (induction ns arbitrary: ls) (auto simp: shown_as_def map_sum_Inr split: normalized_location.splits sum.splits option.splits if_splits)

lemma decl_normalize_success:
  assumes "decl_normalize lib seam d raw b i = Inr ls"
  shows "\<exists>ns us. sm_normalize seam raw b i = Inr ns \<and> list_all2 (shown_as lib b i) ns us \<and> ls = sort_key fields_text us"
  using assms by (auto simp: decl_normalize_def map_sum_Inr intro: normalize_locations_shown split: sum.splits)

lemma sort_filter_sort: "sort_key k (filter P (sort_key k xs)) = sort_key k (filter P xs)"
  by (metis filter_sort sort_key_id_if_sorted sorted_sort_key)

text \<open>
  C18: Every implementation the adapter returned is shown or counted.  A successful answer was given
  only for the file that was asked for, if the capabilities loaded with it include
  implementations, and if exactly one symbol of the document matches the name path; the adapter
  was asked at that symbol.  Each location it returned is rendered; the answer shows, in
  canonical order, the longest prefix within the budget of those the kind filters keep, and
  the reported omissions are exactly the locations returned and not shown.
\<close>

theorem implementations_shown_or_counted:
  assumes "find_implementations lib digit seam np rel info inc exc budget = Inr (Success e)"
  shows "\<exists>included excluded m loaded d s ns us found n.
    parse_kinds inc = Some included \<and> parse_kinds exc = Some excluded \<and> budget = Some m \<and>
    sm_load seam rel = Inr loaded \<and> di_relative_path (sd_document loaded) = rel \<and> from_input lib (sd_document loaded) = Inr d \<and>
    rp_implementation (cm_raw (sd_capabilities loaded)) \<and>
    filter (\<lambda>s. path_matches digit s (split_slash (strip_slashes np)) (take 1 np = [47])) (forest (dn_symbols d)) = [s] \<and>
    sm_normalize seam (sm_request seam IMPLEMENTATION_METHOD (dn_uri d) (lsp_position_of (rg_start (sy_selection s)))
      (info \<or> included \<noteq> [] \<or> excluded \<noteq> [])) False info = Inr ns \<and> list_all2 (shown_as lib False info) ns us \<and>
    found = sort_key fields_text (filter (kind_kept included excluded) us) \<and> n \<le> length found \<and>
    se_data e = implementation_json rel np (sd_capabilities loaded) (take n found) \<and> int (length (sorted_json (se_data e))) \<le> m \<and>
    (n < length found \<longrightarrow> int (length (sorted_json (implementation_json rel np (sd_capabilities loaded) (take (Suc n) found)))) > m) \<and>
    se_truncation e = Some (truncation (length ns - n))"
proof -
  obtain included excluded m d c s ls kept omitted where k: "parse_kinds inc = Some included" "parse_kinds exc = Some excluded" "budget = Some m"
    and l: "decl_load lib seam rel = Inr (d, c)" and cap: "rp_implementation (cm_raw c)" and s: "resolve_symbol digit d np = Inr s"
    and norm: "decl_normalize lib seam d (sm_request seam IMPLEMENTATION_METHOD (dn_uri d) (lsp_position_of (rg_start (sy_selection s)))
      (info \<or> included \<noteq> [] \<or> excluded \<noteq> [])) False info = Inr ls"
    and filt: "filter_kinds included excluded ls = Some (kept, omitted)"
    and bnd: "bound_implementations d (implementation_json rel np c) (sort_key fields_text kept) omitted m = Inr (Success e)"
    using find_implementations_success [OF assms] by blast
  obtain loaded where ld: "sm_load seam rel = Inr loaded" "di_relative_path (sd_document loaded) = rel" "from_input lib (sd_document loaded) = Inr d"
    "c = sd_capabilities loaded" using decl_load_success [OF l] by blast
  obtain ns us where n: "sm_normalize seam (sm_request seam IMPLEMENTATION_METHOD (dn_uri d) (lsp_position_of (rg_start (sy_selection s)))
      (info \<or> included \<noteq> [] \<or> excluded \<noteq> [])) False info = Inr ns" "list_all2 (shown_as lib False info) ns us" "ls = sort_key fields_text us"
    using decl_normalize_success [OF norm] by blast
  have f: "kept = filter (kind_kept included excluded) ls" "omitted + length kept = length ls" using filter_kinds_filter [OF filt] by auto
  let ?found = "sort_key fields_text kept"
  have fd: "?found = sort_key fields_text (filter (kind_kept included excluded) us)" using f(1) n(3) by (simp add: sort_filter_sort)
  have len: "length ls = length ns" using n(2,3) by (simp add: list_all2_lengthD)
  obtain i where i: "i \<le> length ?found" "se_data e = implementation_json rel np c (take i ?found)"
    "int (length (sorted_json (implementation_json rel np c (take i ?found)))) \<le> m"
    "i < length ?found \<longrightarrow> int (length (sorted_json (implementation_json rel np c (take (Suc i) ?found)))) > m"
    "se_truncation e = Some (truncation (omitted + length ?found - i))"
    using bound_implementations_success [OF bnd] by blast
  have t: "se_truncation e = Some (truncation (length ns - i))" using i(5) f(2) len by simp
  show ?thesis using k ld cap resolve_symbol_unique [OF s] n(1,2) fd i(1-4) t
    by (intro exI [of _ included] exI [of _ excluded] exI [of _ m] exI [of _ loaded] exI [of _ d] exI [of _ s] exI [of _ ns] exI [of _ us]
        exI [of _ ?found] exI [of _ i]) simp
qed

definition impl_seam :: "unit declaration_seam" where
  "impl_seam = \<lparr>sm_load = (\<lambda>_. Inr \<lparr>sd_document = nav_input, sd_capabilities = capability_from_raw \<lparr>rp_definition = True, rp_declaration = True,
       rp_implementation = True, rp_references = True, rp_document_symbols = True, rp_workspace_symbols = True\<rparr>\<rparr>),
     sm_request = (\<lambda>_ _ _ _. ()), sm_normalize = (\<lambda>_ _ _. Inr [RawMapping [(lit ''kind'', JInt 5)], RawMapping [(lit ''kind'', JInt 12)]])\<rparr>"

lemma impl_keys_not_secret:
  "list_all (\<lambda>k. \<not> secret_key (lit k)) [''relative_path'', ''name_path'', ''capabilities'', ''locations'', ''raw'', ''derived'', ''kind'',
     ''definitionProvider'', ''declarationProvider'', ''implementationProvider'', ''referencesProvider'', ''documentSymbolProvider'',
     ''workspaceSymbolProvider'', ''find_declaration'', ''find_implementations'', ''find_referencing_symbols'', ''get_symbols_overview'',
     ''global_find_symbol'']"
  by (simp add: secret_key_def SECRET_KEY_FRAGMENTS_def lit_simps lower_cp_def)

definition impl_capabilities :: capability_matrix where
  "impl_capabilities = capability_from_raw \<lparr>rp_definition = True, rp_declaration = True, rp_implementation = True, rp_references = True,
     rp_document_symbols = True, rp_workspace_symbols = True\<rparr>"

lemma impl_json_clean: "no_secret_keys (implementation_json rel np impl_capabilities (take n [[(lit ''kind'', JInt 12)]]))"
  unfolding implementation_json_def capability_dict_def
  using impl_keys_not_secret by (cases n) (simp_all del: lit_simps)

lemma impl_size: "length (sorted_json (implementation_json (lit ''a.py'') (lit ''/f[1]'') impl_capabilities [])) < 700"
  by code_simp

lemma impl_runs:
  "\<exists>e. find_implementations nav_lib (\<lambda>c. 48 \<le> c \<and> c \<le> 57) impl_seam (lit ''/f[1]'') (lit ''a.py'') False
     (KindsSequence [Some 12]) KindsNone (Some 700) = Inr (Success e)"
proof -
  obtain d where d: "from_input nav_lib nav_input = Inr d" "dn_symbols d = [wit_symbol (lit ''f[0]''), wit_symbol (lit ''f[1]'')]"
    using nav_document by blast
  have l: "decl_load nav_lib impl_seam (lit ''a.py'') = Inr (d, impl_capabilities)"
    using d(1) by (simp add: decl_load_def impl_seam_def impl_capabilities_def nav_input_def)
  have v: "valid_relative_path (lit ''a.py'')" "decl_valid_name_path (lit ''/f[1]'')"
    by (simp_all add: valid_relative_path_def decl_valid_name_path_def strip_slashes_def lit_simps)
  have s: "resolve_symbol (\<lambda>c. 48 \<le> c \<and> c \<le> 57) d (lit ''/f[1]'') = Inr (wit_symbol (lit ''f[1]''))"
    by (simp add: resolve_symbol_def path_candidates_def d(2) wit_symbol_def path_matches_def segment_matches_def strip_slashes_def Let_def lit_simps)
  have n: "decl_normalize nav_lib impl_seam d x False False = Inr (sort_key fields_text [[(lit ''kind'', JInt 5)], [(lit ''kind'', JInt 12)]])" for x
    by (simp add: decl_normalize_def impl_seam_def has_key_def lit_simps)
  have srt: "sort_key fields_text [[(lit ''kind'', JInt 5)], [(lit ''kind'', JInt 12)]] = [[(lit ''kind'', JInt 12)], [(lit ''kind'', JInt 5)]]"
    by code_simp
  have f: "filter_kinds [12] [] [[(lit ''kind'', JInt 12)], [(lit ''kind'', JInt 5)]] = Some ([[(lit ''kind'', JInt 12)]], 1)" by simp
  have k: "parse_kinds (KindsSequence [Some 12]) = Some [12]" "parse_kinds KindsNone = Some []" by (simp_all add: parse_kinds_def)
  have ok: "\<exists>e. nav_success (implementation_json (lit ''a.py'') (lit ''/f[1]'') impl_capabilities (take n [[(lit ''kind'', JInt 12)]])) w a g t =
      Inr (Success e)" for n w a g t
    using json_value_obj [OF impl_json_clean] by (simp add: nav_success_def make_success_def)
  define kept where "kept = keep_while (\<lambda>ls. int (length (sorted_json (implementation_json (lit ''a.py'') (lit ''/f[1]'') impl_capabilities ls))) \<le> 700)
    [] [[(lit ''kind'', JInt 12)]]"
  have "kept = take (length kept) [[(lit ''kind'', JInt 12)]]" using keep_while_longest(1) kept_def by metis
  with ok have "\<exists>e. nav_success (implementation_json (lit ''a.py'') (lit ''/f[1]'') impl_capabilities kept) w a g t = Inr (Success e)" for w a g t
    by metis
  then have "\<exists>e. bound_implementations d (implementation_json (lit ''a.py'') (lit ''/f[1]'') impl_capabilities) [[(lit ''kind'', JInt 12)]] 1 700 =
      Inr (Success e)"
    using impl_size by (simp add: bound_implementations_def kept_def Let_def)
  moreover have "rp_implementation (cm_raw impl_capabilities)" by (simp add: impl_capabilities_def capability_from_raw_def)
  ultimately show ?thesis using l v s n srt f k by (simp add: find_implementations_def del: lit_simps)
qed

theorem implementations_shown_or_counted_witness:
  "\<exists>e n. find_implementations nav_lib (\<lambda>c. 48 \<le> c \<and> c \<le> 57) impl_seam (lit ''/f[1]'') (lit ''a.py'') False
     (KindsSequence [Some 12]) KindsNone (Some 700) = Inr (Success e) \<and> int (length (sorted_json (se_data e))) \<le> 700 \<and>
     n \<le> 1 \<and> se_truncation e = Some (truncation (2 - n))"
proof -
  obtain e where e: "find_implementations nav_lib (\<lambda>c. 48 \<le> c \<and> c \<le> 57) impl_seam (lit ''/f[1]'') (lit ''a.py'') False
     (KindsSequence [Some 12]) KindsNone (Some 700) = Inr (Success e)" using impl_runs by blast
  from implementations_shown_or_counted [OF e] obtain included excluded m and d :: document_navigation and s ns us found n where
    r: "parse_kinds (KindsSequence [Some 12]) = Some included" "parse_kinds KindsNone = Some excluded" "Some 700 = Some m"
      "sm_normalize impl_seam (sm_request impl_seam IMPLEMENTATION_METHOD (dn_uri d) (lsp_position_of (rg_start (sy_selection s)))
        (False \<or> included \<noteq> [] \<or> excluded \<noteq> [])) False False = Inr ns" "list_all2 (shown_as nav_lib False False) ns us"
      "found = sort_key fields_text (filter (kind_kept included excluded) us)" "n \<le> length found"
      "int (length (sorted_json (se_data e))) \<le> m" "se_truncation e = Some (truncation (length ns - n))"
    by blast
  from r(4) have ns: "ns = [RawMapping [(lit ''kind'', JInt 5)], RawMapping [(lit ''kind'', JInt 12)]]" by (simp add: impl_seam_def)
  with r(5) have "us = [[(lit ''kind'', JInt 5)], [(lit ''kind'', JInt 12)]]" by (auto simp: list_all2_Cons1 shown_as_def)
  moreover have "included = [12]" "excluded = []" using r(1,2) by (simp_all add: parse_kinds_def)
  ultimately have "length found = 1" using r(6) by (simp add: kind_kept_def)
  with e r(3,7-9) ns show ?thesis by (intro exI [of _ e] exI [of _ n]) (simp add: numeral_2_eq_2)
qed

end
