(* ===== verification/Diagnostics.thy ===== *)
theory Diagnostics
  imports Declarations LspState
begin

text \<open>
  Diagnostics of one file or one symbol (\<open>tools/diagnostics.py\<close>), rendered from the publication the
  state of the language server returned for the requested generation.
\<close>

section \<open>Data\<close>

datatype diagnostics_readiness = READY | NOTREADY | TIMEDOUT

record external_root =
  xr_kind :: text_cp
  xr_path :: text_cp

definition external_root_ok :: "external_root \<Rightarrow> bool" where
  "external_root_ok r \<longleftrightarrow> xr_kind r \<noteq> [] \<and> take 1 (xr_path r) = [47]"

definition external_root_dict :: "external_root \<Rightarrow> json" where
  "external_root_dict r = JObj [(lit ''kind'', JStr (xr_kind r)), (lit ''path'', JStr (xr_path r))]"

record engine_facts =
  ef_name :: text_cp
  ef_language :: text_cp
  ef_version :: text_cp
  ef_interpreter :: "text_cp option"
  ef_python_environment :: "text_cp option"
  ef_authority :: text_cp
  ef_repository_authority :: "text_cp option"
  ef_external_root :: "external_root option"
  ef_engine_name :: "text_cp option"
  ef_engine_version :: "text_cp option"
  ef_typecheck_command :: "text_cp option"

text \<open>\<open>space\<close>: the characters \<open>str.strip\<close> removes.\<close>

definition engine_facts_ok :: "(nat \<Rightarrow> bool) \<Rightarrow> engine_facts \<Rightarrow> bool" where
  "engine_facts_ok space e \<longleftrightarrow> ef_name e \<noteq> [] \<and> ef_language e \<noteq> [] \<and> ef_version e \<noteq> [] \<and>
     (\<forall>i. ef_interpreter e = Some i \<longrightarrow> take 1 i = [47]) \<and> ef_python_environment e \<noteq> Some [] \<and>
     (ef_language e = lit ''python'' \<longrightarrow> ef_name e = lit ''pyright'' \<and> ef_interpreter e \<noteq> None) \<and>
     ((ef_engine_name e = None) = (ef_engine_version e = None)) \<and>
     (\<forall>c. ef_typecheck_command e = Some c \<longrightarrow> \<not> list_all space c)"

definition engine_dict :: "engine_facts \<Rightarrow> json" where
  "engine_dict e = (let ts = (ef_language e = lit ''typescript'') in JObj
     ([(lit ''name'', JStr (ef_name e)), (lit ''version'', JStr (ef_version e)),
       (lit ''authority'', JStr (if ts then lit ''advisory'' else ef_authority e))] @
      (if ts then
         [(lit ''repository_authority'', JStr (case ef_repository_authority e of
             Some (c # cs) \<Rightarrow> c # cs | _ \<Rightarrow> lit ''repository-native typecheck or CI'')),
          (lit ''authority_distinction'', JObj [(lit ''pinned_lsp_diagnostics'', JStr (lit ''advisory'')),
             (lit ''repository_native_typecheck'', JStr (lit ''authoritative''))])] @
         (case (ef_engine_name e, ef_engine_version e) of
            (Some n, Some v) \<Rightarrow> [(lit ''pinned_engine'', JObj [(lit ''name'', JStr n), (lit ''version'', JStr v)])] | _ \<Rightarrow> []) @
         [(lit ''native_typecheck'', JObj ((lit ''authority'', JStr (lit ''authoritative'')) #
             opt_field ''command'' JStr (ef_typecheck_command e)))]
       else []) @
      opt_field ''interpreter'' JStr (ef_interpreter e) @ opt_field ''python_environment'' JStr (ef_python_environment e) @
      opt_field ''external_root'' external_root_dict (ef_external_root e)))"

record diagnostic_input =
  dx_document :: document_symbol_input
  dx_generation :: int
  dx_engine :: engine_facts
  dx_publication :: "json diagnostics_snapshot_rec option"
  dx_readiness :: diagnostics_readiness
  dx_phase :: "text_cp option"
  dx_retry :: "retry_md option"
  dx_waited :: "py_float option"

definition diagnostic_input_ok :: "diagnostic_input \<Rightarrow> bool" where
  "diagnostic_input_ok v \<longleftrightarrow> 1 \<le> dx_generation v \<and> (\<forall>w. dx_waited v = Some w \<longrightarrow> 0 \<le> pf_value w) \<and>
     \<not> (dx_readiness v = READY \<and> dx_publication v = None)"

section \<open>Errors\<close>

definition engine_details :: "engine_facts \<Rightarrow> fields \<Rightarrow> json" where
  "engine_details e details = JObj (AList.update (lit ''engine'') (engine_dict e) details)"

definition diagnostic_invalid :: "document_navigation \<Rightarrow> string \<Rightarrow> engine_facts \<Rightarrow> int option \<Rightarrow> nav_exn + tool_envelope" where
  "diagnostic_invalid d field e minimum_required = nav_error INVALID_INPUT
     (engine_details e ((lit ''field'', JStr (lit field)) # opt_field ''minimum_required'' JInt minimum_required))
     (dn_workspace d) (dn_adapter d) (dn_generations d)"

definition diagnostic_document :: "libraries \<Rightarrow> diagnostic_input \<Rightarrow> (nav_exn + tool_envelope) + document_navigation" where
  "diagnostic_document lib v = (case from_input lib (dx_document v) of
       Inl _ \<Rightarrow> Inl (nav_error INVALID_INPUT (engine_details (dx_engine v) [(lit ''field'', JStr (lit ''document''))]) None None None)
     | Inr d \<Rightarrow>
         if (\<exists>p. dx_publication v = Some p \<and> lit (dg_uri p) \<noteq> dn_uri d)
         then Inl (diagnostic_invalid d ''publication.uri'' (dx_engine v) None) else Inr d)"

definition diagnostic_generations :: "document_navigation \<Rightarrow> int \<Rightarrow> generation_md" where
  "diagnostic_generations d g = (case dn_generations d of
       None \<Rightarrow> \<lparr>gm_trust = None, gm_program = None, gm_document = Some g, gm_index = None, gm_scope = Some (lit ''path'')\<rparr>
     | Some cur \<Rightarrow> \<lparr>gm_trust = gm_trust cur, gm_program = gm_program cur, gm_document = Some g, gm_index = gm_index cur, gm_scope = gm_scope cur\<rparr>)"

fun state_value :: "diagnostics_state \<Rightarrow> string" where
  "state_value MISSING = ''missing''"
| "state_value CLEAN = ''clean''"
| "state_value FINDINGS = ''findings''"
| "state_value STALE = ''stale''"

definition timeout_details :: "diagnostic_input \<Rightarrow> json diagnostics_snapshot_rec option \<Rightarrow> fields" where
  "timeout_details v p = [(lit ''state'', JStr (lit ''timed_out'')), (lit ''target_generation'', JInt (dx_generation v))] @
     (case p of None \<Rightarrow> []
      | Some p \<Rightarrow> [(lit ''publication_state'', JStr (lit (state_value (dg_state p)))), (lit ''observed_generation'', JInt (dg_generation p))]) @
     opt_field ''waited_seconds'' (JFloat \<circ> pf_repr) (dx_waited v)"

definition timeout_retry :: "diagnostic_input \<Rightarrow> json diagnostics_snapshot_rec option \<Rightarrow> retry_md" where
  "timeout_retry v p = \<lparr>rm_retryable = True, rm_retry_after = None, rm_waited = dx_waited v, rm_timeout = None,
     rm_target = Some (dx_generation v), rm_observed = map_option dg_generation p\<rparr>"

definition terminal_error :: "error_code \<Rightarrow> diagnostic_input \<Rightarrow> document_navigation \<Rightarrow> fields \<Rightarrow> retry_md option \<Rightarrow> nav_exn + tool_envelope" where
  "terminal_error code v d details retry =
     (case env_error code retry (Some (obj_of_json (engine_details (dx_engine v) details))) (dn_workspace d) (dn_adapter d)
             (Some (diagnostic_generations d (dx_generation v))) of
        Inl e \<Rightarrow> Inl (NavEnvelope e) | Inr e \<Rightarrow> Inr (Failure e))"

text \<open>\<open>None\<close>: the publication is current.\<close>

definition terminal_state :: "diagnostic_input \<Rightarrow> document_navigation \<Rightarrow> (nav_exn + tool_envelope) option" where
  "terminal_state v d = (case dx_readiness v of
       NOTREADY \<Rightarrow> Some (terminal_error NOT_READY v d ((lit ''state'', JStr (lit ''not_ready'')) # opt_field ''phase'' JStr (dx_phase v)) (dx_retry v))
     | TIMEDOUT \<Rightarrow> Some (terminal_error TIMED_OUT v d (timeout_details v None) (Some (timeout_retry v None)))
     | READY \<Rightarrow> (case dx_publication v of
         None \<Rightarrow> Some (terminal_error TIMED_OUT v d (timeout_details v None) (Some (timeout_retry v None)))
       | Some p \<Rightarrow>
           if dg_state p \<in> {MISSING, STALE} \<or> dg_generation p \<noteq> dx_generation v
           then Some (terminal_error TIMED_OUT v d (timeout_details v (Some p)) (Some (timeout_retry v (Some p))))
           else None))"

section \<open>Findings\<close>

record finding =
  fd_range :: lsp_range
  fd_severity :: int
  fd_message :: text_cp
  fd_source :: "text_cp option"
  fd_code :: "json option"
  fd_symbol :: "symbol option"

definition proxy_get :: "string \<Rightarrow> json frozen \<Rightarrow> json frozen option" where
  "proxy_get k v = (case v of FProxy fs \<Rightarrow> map_of fs k | _ \<Rightarrow> None)"

definition is_proxy :: "json frozen option \<Rightarrow> bool" where
  "is_proxy v = (case v of Some (FProxy _) \<Rightarrow> True | _ \<Rightarrow> False)"

definition diagnostic_position :: "json frozen \<Rightarrow> position option" where
  "diagnostic_position raw = (case (proxy_get ''line'' raw, proxy_get ''character'' raw) of
       (Some (FScalar (JInt l)), Some (FScalar (JInt c))) \<Rightarrow> Some (l, c) | _ \<Rightarrow> None)"

definition diagnostic_range :: "json frozen \<Rightarrow> lsp_range option" where
  "diagnostic_range raw =
     (if is_proxy (proxy_get ''start'' raw) \<and> is_proxy (proxy_get ''end'' raw)
      then (case (diagnostic_position (the (proxy_get ''start'' raw)), diagnostic_position (the (proxy_get ''end'' raw))) of
              (Some s, Some e) \<Rightarrow> (case make_range s e of Inl _ \<Rightarrow> None | Inr r \<Rightarrow> Some r) | _ \<Rightarrow> None)
      else None)"

text \<open>\<open>None\<close> is an exception; \<open>Some None\<close> a diagnostic left out because of its severity.\<close>

definition one_finding :: "document_navigation \<Rightarrow> int \<Rightarrow> json frozen \<Rightarrow> finding option option" where
  "one_finding d maximum_severity raw =
     (if \<not> is_proxy (Some raw) then None
      else case (case proxy_get ''severity'' raw of None \<Rightarrow> Some 1 | Some (FScalar (JInt i)) \<Rightarrow> if i \<in> {1, 2, 3, 4} then Some i else None
                 | _ \<Rightarrow> None) of
        None \<Rightarrow> None
      | Some severity \<Rightarrow>
          if severity > maximum_severity then Some None
          else (case (proxy_get ''message'' raw, proxy_get ''range'' raw) of
                  (Some (FScalar (JStr message)), Some (FProxy r)) \<Rightarrow>
                    (case diagnostic_range (FProxy r) of
                       None \<Rightarrow> None
                     | Some rng \<Rightarrow>
                         (case (case proxy_get ''source'' raw of None \<Rightarrow> Some None | Some (FScalar JNull) \<Rightarrow> Some None
                                | Some (FScalar (JStr s)) \<Rightarrow> Some (Some s) | _ \<Rightarrow> None) of
                            None \<Rightarrow> None
                          | Some source \<Rightarrow>
                              (case (case proxy_get ''code'' raw of None \<Rightarrow> Some None | Some (FScalar JNull) \<Rightarrow> Some None
                                     | Some (FScalar (JStr s)) \<Rightarrow> Some (Some (JStr s)) | Some (FScalar (JInt i)) \<Rightarrow> Some (Some (JInt i))
                                     | _ \<Rightarrow> None) of
                                 None \<Rightarrow> None
                               | Some code \<Rightarrow> Some (Some \<lparr>fd_range = rng, fd_severity = severity, fd_message = message, fd_source = source,
                                   fd_code = code, fd_symbol = containing_symbol (dn_symbols d)
                                     \<lparr>loc_uri = dn_uri d, loc_range = rng, loc_path = None\<rparr>\<rparr>))))
                | _ \<Rightarrow> None))"

definition code_text :: "json option \<Rightarrow> text_cp" where
  "code_text c = (case c of Some (JStr s) \<Rightarrow> s | Some (JInt i) \<Rightarrow> lit (show_int i) | _ \<Rightarrow> [])"

definition finding_key :: "finding \<Rightarrow> int \<times> int \<times> int \<times> text_cp \<times> text_cp \<times> text_cp" where
  "finding_key f = (fst (rg_start (fd_range f)), snd (rg_start (fd_range f)), fd_severity f, fd_message f,
     (case fd_source f of None \<Rightarrow> [] | Some s \<Rightarrow> s), code_text (fd_code f))"

definition findings :: "document_navigation \<Rightarrow> json frozen list \<Rightarrow> int \<Rightarrow> finding list option" where
  "findings d diagnostics maximum_severity =
     map_option (\<lambda>fs. sort_key finding_key (map the (filter (\<lambda>f. f \<noteq> None) fs)))
       (sequence_option (map (one_finding d maximum_severity) diagnostics))"

definition severity_name :: "int \<Rightarrow> string" where
  "severity_name s = [''error'', ''warning'', ''information'', ''hint''] ! nat (s - 1)"

definition finding_dict :: "document_navigation \<Rightarrow> finding \<Rightarrow> position_error + json" where
  "finding_dict d f = map_sum id (\<lambda>rng. JObj ([(lit ''severity'', JStr (lit (severity_name (fd_severity f)))),
       (lit ''message'', JStr (fd_message f)), (lit ''range'', rng)] @ opt_field ''source'' JStr (fd_source f) @
       opt_field ''code'' id (fd_code f))) (source_range (dn_mapper d) (fd_range f))"

section \<open>Groups\<close>

type_synonym groups = "(text_cp list \<times> symbol option \<times> json list) list"

definition group_of :: "finding \<Rightarrow> text_cp list" where
  "group_of f = (case fd_symbol f of None \<Rightarrow> [lit ''<file>''] | Some s \<Rightarrow> sy_path s)"

definition group_key :: "symbol option \<Rightarrow> int \<times> int \<times> text_cp list" where
  "group_key s = (case s of None \<Rightarrow> (-1, -1, [lit ''<file>'']) | Some s \<Rightarrow> symbol_order_key s)"

definition group_json :: "document_navigation \<Rightarrow> symbol option \<times> json list \<Rightarrow> position_error + json" where
  "group_json d g = (case fst g of
       None \<Rightarrow> Inr (JObj [(lit ''name_path'', JStr (lit ''<file>'')), (lit ''findings'', JArr (snd g))])
     | Some s \<Rightarrow> map_sum id (\<lambda>rng. JObj [(lit ''name_path'', JStr (name_path_text s)), (lit ''findings'', JArr (snd g)), (lit ''range'', rng)])
         (source_range (dn_mapper d) (loc_range (sy_location s))))"

definition groups_data :: "document_navigation \<Rightarrow> groups \<Rightarrow> position_error + json list" where
  "groups_data d gs = seq_sum (map (group_json d \<circ> snd) (sort_key (\<lambda>g. group_key (fst (snd g))) gs))"

text \<open>
  The loop of \<open>_render\<close>.  The group of a finding is entered in the dictionary before the
  enlarged answer is measured.
\<close>

fun render_findings ::
    "document_navigation \<Rightarrow> (json list \<Rightarrow> bool) \<Rightarrow> groups \<Rightarrow> nat \<Rightarrow> finding list \<Rightarrow> position_error + groups \<times> nat" where
  "render_findings d fits grouped kept [] = Inr (grouped, kept)"
| "render_findings d fits grouped kept (f # fs) =
     (let key = group_of f; entered = dict_setdefault key (fd_symbol f, []) grouped; group = the (map_of entered key) in
      case finding_dict d f of
        Inl e \<Rightarrow> Inl e
      | Inr j \<Rightarrow>
          let enlarged = AList.update key (fst group, snd group @ [j]) entered in
          (case groups_data d enlarged of
             Inl e \<Rightarrow> Inl e
           | Inr gs \<Rightarrow> if fits gs then render_findings d fits enlarged (Suc kept) fs else Inr (entered, kept)))"

definition diagnostics_json :: "libraries \<Rightarrow> document_navigation \<Rightarrow> diagnostic_input \<Rightarrow> finding list \<Rightarrow> symbol option \<Rightarrow> json list \<Rightarrow> json" where
  "diagnostics_json lib d v fs selected groups = JObj
     ([(lit ''state'', JStr (lit (if fs = [] then ''clean'' else ''findings''))), (lit ''relative_path'', JStr (dn_relative_path d)),
       (lit ''sha256'', JStr (document_sha256 lib d)),
       (lit ''diagnostics_generation'', opt_json JInt (case dx_publication v of None \<Rightarrow> None | Some p \<Rightarrow> dg_diagnostics_generation p)),
       (lit ''engine'', engine_dict (dx_engine v)), (lit ''groups'', JArr groups)] @
      opt_field ''symbol'' (JStr \<circ> name_path_text) selected)"

definition render_diagnostics ::
    "libraries \<Rightarrow> document_navigation \<Rightarrow> diagnostic_input \<Rightarrow> finding list \<Rightarrow> int \<Rightarrow> symbol option \<Rightarrow> nav_exn + tool_envelope" where
  "render_diagnostics lib d v fs max_chars selected =
     (let size = (\<lambda>gs. int (length (sorted_json (diagnostics_json lib d v fs selected gs)))) in
      if size [] > max_chars then diagnostic_invalid d ''max_answer_chars'' (dx_engine v) (Some (size []))
      else case render_findings d (\<lambda>gs. size gs \<le> max_chars) [] 0 fs of
             Inl e \<Rightarrow> Inl (NavPosition e)
           | Inr (grouped, kept) \<Rightarrow>
               (case groups_data d grouped of
                  Inl e \<Rightarrow> Inl (NavPosition e)
                | Inr gs \<Rightarrow> nav_success (diagnostics_json lib d v fs selected gs) (dn_workspace d) (dn_adapter d)
                              (Some (diagnostic_generations d (dx_generation v))) (Some (truncation (length fs - kept)))))"

section \<open>The tools\<close>

definition valid_bounds :: "int \<Rightarrow> int \<Rightarrow> bool" where
  "valid_bounds maximum_severity max_chars \<longleftrightarrow> 1 \<le> maximum_severity \<and> maximum_severity \<le> 4 \<and> 0 < max_chars"

definition range_within :: "lsp_range \<Rightarrow> lsp_range \<Rightarrow> bool" where
  "range_within inner outer \<longleftrightarrow> rg_start outer \<le> rg_start inner \<and> rg_end inner \<le> rg_end outer"

definition get_diagnostics_for_file :: "libraries \<Rightarrow> diagnostic_input \<Rightarrow> int \<Rightarrow> int \<Rightarrow> nav_exn + tool_envelope" where
  "get_diagnostics_for_file lib v maximum_severity max_chars = (case diagnostic_document lib v of
       Inl r \<Rightarrow> r
     | Inr d \<Rightarrow>
         if \<not> valid_bounds maximum_severity max_chars then diagnostic_invalid d ''maximum_severity or max_answer_chars'' (dx_engine v) None
         else (case terminal_state v d of
                 Some r \<Rightarrow> r
               | None \<Rightarrow> (case findings d (dg_diagnostics (the (dx_publication v))) maximum_severity of
                   None \<Rightarrow> diagnostic_invalid d ''diagnostics'' (dx_engine v) None
                 | Some fs \<Rightarrow> render_diagnostics lib d v fs max_chars None)))"

definition diagnostic_symbol :: "(nat \<Rightarrow> bool) \<Rightarrow> document_navigation \<Rightarrow> text_cp \<Rightarrow> engine_facts \<Rightarrow> (nav_exn + tool_envelope) + symbol" where
  "diagnostic_symbol digit d name_path e =
     (let request = [(lit ''relative_path'', JStr (dn_relative_path d)), (lit ''name_path'', JStr name_path)] in
      case path_candidates digit d name_path of
        [] \<Rightarrow> Inl (nav_error SYMBOL_NOT_FOUND (engine_details e request) (dn_workspace d) (dn_adapter d) (dn_generations d))
      | [s] \<Rightarrow> Inr s
      | ss \<Rightarrow> Inl (nav_error AMBIGUOUS_SYMBOL (engine_details e (request @
                [(lit ''candidates'', JArr (map (\<lambda>s. JStr (name_path_text s)) ss))])) (dn_workspace d) (dn_adapter d) (dn_generations d)))"

definition get_diagnostics_for_symbol ::
    "libraries \<Rightarrow> (nat \<Rightarrow> bool) \<Rightarrow> diagnostic_input \<Rightarrow> text_cp \<Rightarrow> int \<Rightarrow> int \<Rightarrow> nav_exn + tool_envelope" where
  "get_diagnostics_for_symbol lib digit v name_path maximum_severity max_chars = (case diagnostic_document lib v of
       Inl r \<Rightarrow> r
     | Inr d \<Rightarrow>
         if \<not> valid_bounds maximum_severity max_chars \<or> \<not> decl_valid_name_path name_path
         then diagnostic_invalid d ''maximum_severity, max_answer_chars, or name_path'' (dx_engine v) None
         else (case terminal_state v d of
                 Some r \<Rightarrow> r
               | None \<Rightarrow> (case diagnostic_symbol digit d name_path (dx_engine v) of
                   Inl r \<Rightarrow> r
                 | Inr s \<Rightarrow> (case findings d (dg_diagnostics (the (dx_publication v))) maximum_severity of
                     None \<Rightarrow> diagnostic_invalid d ''diagnostics'' (dx_engine v) None
                   | Some fs \<Rightarrow> render_diagnostics lib d v (filter (\<lambda>f. range_within (fd_range f) (loc_range (sy_location s))) fs) max_chars (Some s)))))"

text \<open>\<open>DiagnosticsService\<close>: load one file, then answer.\<close>

definition load_diagnostics ::
    "(text_cp \<Rightarrow> py_float \<Rightarrow> provider_exn + diagnostic_input) \<Rightarrow> text_cp \<Rightarrow> py_float \<Rightarrow> (nav_exn + tool_envelope) + diagnostic_input" where
  "load_diagnostics provider relative_path timeout =
     (if \<not> valid_relative_path relative_path \<or> pf_value timeout \<le> 0
      then Inl (nav_error INVALID_INPUT (JObj [(lit ''field'', JStr (lit ''relative_path or timeout_seconds''))]) None None None)
      else case provider relative_path timeout of
             Inl (ProviderWorkspaceError w) \<Rightarrow>
               Inl (case from_workspace_error w of Inl e \<Rightarrow> Inl (NavEnvelope e) | Inr e \<Rightarrow> Inr (Failure e))
           | Inl ProviderInputError \<Rightarrow> Inl (nav_error INVALID_INPUT (JObj [(lit ''path'', JStr relative_path)]) None None None)
           | Inr v \<Rightarrow>
               if di_relative_path (dx_document v) \<noteq> relative_path
               then Inl (nav_error INVALID_PATH (JObj [(lit ''path'', JStr relative_path)]) None None None) else Inr v)"

definition service_file_diagnostics ::
    "libraries \<Rightarrow> (text_cp \<Rightarrow> py_float \<Rightarrow> provider_exn + diagnostic_input) \<Rightarrow> text_cp \<Rightarrow> py_float \<Rightarrow> int \<Rightarrow> int \<Rightarrow> nav_exn + tool_envelope" where
  "service_file_diagnostics lib provider relative_path timeout maximum_severity max_chars =
     (case load_diagnostics provider relative_path timeout of
        Inl r \<Rightarrow> r | Inr v \<Rightarrow> get_diagnostics_for_file lib v maximum_severity max_chars)"

definition service_symbol_diagnostics ::
    "libraries \<Rightarrow> (nat \<Rightarrow> bool) \<Rightarrow> (text_cp \<Rightarrow> py_float \<Rightarrow> provider_exn + diagnostic_input) \<Rightarrow> text_cp \<Rightarrow> text_cp \<Rightarrow> py_float \<Rightarrow> int \<Rightarrow> int \<Rightarrow>
     nav_exn + tool_envelope" where
  "service_symbol_diagnostics lib digit provider relative_path name_path timeout maximum_severity max_chars =
     (case load_diagnostics provider relative_path timeout of
        Inl r \<Rightarrow> r | Inr v \<Rightarrow> get_diagnostics_for_symbol lib digit v name_path maximum_severity max_chars)"

section \<open>The answer\<close>

lemma engine_clean: "no_secret_keys (engine_dict e)"
proof -
  have "list_all (\<lambda>k. \<not> secret_key (lit k)) [''name'', ''version'', ''authority'', ''repository_authority'', ''authority_distinction'',
      ''pinned_lsp_diagnostics'', ''repository_native_typecheck'', ''pinned_engine'', ''native_typecheck'', ''command'', ''interpreter'',
      ''python_environment'', ''external_root'', ''kind'', ''path'']"
    by (simp add: secret_key_def SECRET_KEY_FRAGMENTS_def lit_simps lower_cp_def)
  then show ?thesis
    by (auto simp: engine_dict_def external_root_dict_def opt_field_def Let_def simp del: lit_simps split: option.splits)
qed

lemma diagnostics_clean:
  assumes "list_all no_secret_keys gs" shows "no_secret_keys (diagnostics_json lib d v fs sel gs)"
proof -
  have "list_all (\<lambda>k. \<not> secret_key (lit k)) [''state'', ''relative_path'', ''sha256'', ''diagnostics_generation'', ''engine'', ''groups'', ''symbol'']"
    by (simp add: secret_key_def SECRET_KEY_FRAGMENTS_def lit_simps lower_cp_def)
  with assms engine_clean show ?thesis
    by (auto simp: diagnostics_json_def opt_json_def opt_field_def simp del: lit_simps split: option.splits)
qed

lemma diagnostics_size:
  "length (sorted_json (diagnostics_json lib d v fs sel gs)) = length (sorted_json (diagnostics_json lib d v fs sel [])) +
     sum_list (map (\<lambda>g. length (dumps g)) gs) + (length gs - 1)"
  unfolding sorted_json_length diagnostics_json_def object_length by (simp add: join_comma_length comp_def)

lemma dumps_object_positive: "0 < length (dumps (JObj kvs))"
  by simp

section \<open>What the groups hold\<close>

definition entries :: "groups \<Rightarrow> text_cp list \<Rightarrow> json list" where
  "entries g k = (case map_of g k of None \<Rightarrow> [] | Some x \<Rightarrow> snd x)"

definition groups_hold :: "document_navigation \<Rightarrow> groups \<Rightarrow> finding list \<Rightarrow> bool" where
  "groups_hold d g fs \<longleftrightarrow> (\<forall>k. entries g k = map (\<lambda>f. projr (finding_dict d f)) (filter (\<lambda>f. group_of f = k) fs))"

lemma entries_setdefault: "entries (dict_setdefault k (s, []) g) k' = entries g k'"
  by (auto simp: entries_def dict_setdefault_def map_add_def split: option.splits)

lemma entries_update: "entries (AList.update k (s, l) g) k' = (if k' = k then l else entries g k')"
  by (simp add: entries_def update_conv')

lemma setdefault_entry: "snd (the (map_of (dict_setdefault k (s, []) g) k)) = entries g k"
  by (auto simp: entries_def dict_setdefault_def map_add_def split: option.splits)

lemma groups_hold_add:
  assumes "groups_hold d g fs" "finding_dict d f = Inr j"
  shows "groups_hold d (AList.update (group_of f) (s, snd (the (map_of (dict_setdefault (group_of f) (t, []) g) (group_of f))) @ [j])
           (dict_setdefault (group_of f) (t, []) g)) (fs @ [f])"
  using assms by (auto simp: groups_hold_def entries_update entries_setdefault setdefault_entry)

lemma render_findings_spec:
  assumes "render_findings d fits g kept fs = Inr (g', kept')" "groups_hold d g before"
  shows "\<exists>n \<le> length fs. kept' = kept + n \<and> groups_hold d g' (before @ take n fs)"
  using assms
proof (induction fs arbitrary: g kept before)
  case (Cons f fs)
  let ?entered = "dict_setdefault (group_of f) (fd_symbol f, []) g"
  obtain j where j: "finding_dict d f = Inr j" using Cons.prems(1) by (auto simp: Let_def split: sum.splits)
  let ?enlarged = "AList.update (group_of f) (fst (the (map_of ?entered (group_of f))), snd (the (map_of ?entered (group_of f))) @ [j]) ?entered"
  obtain gs where gs: "groups_data d ?enlarged = Inr gs" using Cons.prems(1) j by (auto simp: Let_def split: sum.splits)
  have hold: "groups_hold d ?enlarged (before @ [f])" using Cons.prems(2) j by (rule groups_hold_add)
  show ?case
  proof (cases "fits gs")
    case True
    with Cons.prems(1) j gs have "render_findings d fits ?enlarged (Suc kept) fs = Inr (g', kept')" by (simp add: Let_def)
    from Cons.IH [OF this hold] obtain n where "n \<le> length fs" "kept' = Suc kept + n" "groups_hold d g' (before @ f # take n fs)" by auto
    then show ?thesis by (intro exI [of _ "Suc n"]) simp
  next
    case False
    with Cons.prems j gs have "g' = ?entered" "kept' = kept" by (simp_all add: Let_def)
    with Cons.prems(2) show ?thesis by (intro exI [of _ 0]) (simp add: groups_hold_def entries_setdefault)
  qed
qed (auto intro: exI [of _ 0])

lemma diagnostic_errors_fail:
  "diagnostic_invalid d field e m \<noteq> Inr (Success s)" "terminal_error code v d details retry \<noteq> Inr (Success s)"
  "diagnostic_document lib v \<noteq> Inl (Inr (Success s))" "terminal_state v d \<noteq> Some (Inr (Success s))"
  "diagnostic_symbol digit d np e \<noteq> Inl (Inr (Success s))" "load_diagnostics provider rel t \<noteq> Inl (Inr (Success s))"
proof -
  show i: "diagnostic_invalid d field e m \<noteq> Inr (Success s)" for d field e m by (simp add: diagnostic_invalid_def nav_error_fails)
  show t: "terminal_error code v d details retry \<noteq> Inr (Success s)" for code v d details retry
    by (auto simp: terminal_error_def split: sum.splits)
  show "diagnostic_document lib v \<noteq> Inl (Inr (Success s))" using i
    by (auto simp: diagnostic_document_def nav_error_fails split: sum.splits)
  show "terminal_state v d \<noteq> Some (Inr (Success s))" using t
    by (auto simp: terminal_state_def split: diagnostics_readiness.splits option.splits)
  show "diagnostic_symbol digit d np e \<noteq> Inl (Inr (Success s))"
    by (auto simp: diagnostic_symbol_def Let_def nav_error_fails split: list.splits)
  show "load_diagnostics provider rel t \<noteq> Inl (Inr (Success s))"
    by (auto simp: load_diagnostics_def nav_error_fails split: sum.splits provider_exn.splits if_splits)
qed

lemma render_diagnostics_success:
  assumes "render_diagnostics lib d v fs m sel = Inr (Success e)"
  shows "\<exists>g gs n. n \<le> length fs \<and> groups_hold d g (take n fs) \<and> groups_data d g = Inr gs \<and>
    se_data e = diagnostics_json lib d v fs sel gs \<and> se_truncation e = Some (truncation (length fs - n))"
proof -
  let ?size = "\<lambda>gs. int (length (sorted_json (diagnostics_json lib d v fs sel gs)))"
  obtain g n where r: "render_findings d (\<lambda>gs. ?size gs \<le> m) [] 0 fs = Inr (g, n)"
    using assms diagnostic_errors_fail(1) by (auto simp: render_diagnostics_def Let_def split: if_splits sum.splits)
  obtain gs where gs: "groups_data d g = Inr gs"
    using assms r diagnostic_errors_fail(1) by (auto simp: render_diagnostics_def Let_def split: if_splits sum.splits)
  have s: "nav_success (diagnostics_json lib d v fs sel gs) (dn_workspace d) (dn_adapter d)
      (Some (diagnostic_generations d (dx_generation v))) (Some (truncation (length fs - n))) = Inr (Success e)"
    using assms r gs diagnostic_errors_fail(1) by (auto simp: render_diagnostics_def Let_def split: if_splits)
  have "groups_hold d [] []" by (simp add: groups_hold_def entries_def)
  from render_findings_spec [OF r this] nav_success_data [OF s] gs show ?thesis by auto
qed

lemma terminal_state_current:
  "terminal_state v d = None \<longleftrightarrow> dx_readiness v = READY \<and>
     (\<exists>p. dx_publication v = Some p \<and> dg_state p \<in> {CLEAN, FINDINGS} \<and> dg_generation p = dx_generation v)"
proof -
  have "dg_state p \<in> {MISSING, STALE} \<longleftrightarrow> dg_state p \<notin> {CLEAN, FINDINGS}" for p :: "json diagnostics_snapshot_rec" by (cases "dg_state p") auto
  then show ?thesis by (auto simp: terminal_state_def split: diagnostics_readiness.splits option.splits)
qed

text \<open>
  C15: A file is reported on only from the current publication.  When the file tool answers
  successfully, the provider returned the requested file, the language server was ready, and its
  publication is for that file, for the requested generation, and neither missing nor stale.  The
  answer says \<open>clean\<close> exactly when that publication has no finding of the requested severity;
  otherwise its groups hold, under the name path of the containing symbol, the first findings
  in source order, and the others are counted as omitted.
\<close>

theorem diagnostics_answer_is_current:
  assumes "service_file_diagnostics lib provider rel timeout sev m = Inr (Success e)"
  shows "\<exists>v d p fs g gs n. provider rel timeout = Inr v \<and> di_relative_path (dx_document v) = rel \<and>
    from_input lib (dx_document v) = Inr d \<and> dx_readiness v = READY \<and> dx_publication v = Some p \<and> lit (dg_uri p) = dn_uri d \<and>
    dg_state p \<in> {CLEAN, FINDINGS} \<and> dg_generation p = dx_generation v \<and>
    findings d (dg_diagnostics p) sev = Some fs \<and> n \<le> length fs \<and>
    (\<forall>k. entries g k = map (\<lambda>f. projr (finding_dict d f)) (filter (\<lambda>f. group_of f = k) (take n fs))) \<and> groups_data d g = Inr gs \<and>
    se_data e = diagnostics_json lib d v fs None gs \<and> se_truncation e = Some (truncation (length fs - n)) \<and>
    (obj_get ''state'' (se_data e) = Some (JStr (lit ''clean'')) \<longleftrightarrow> fs = [])"
proof -
  obtain v where v: "load_diagnostics provider rel timeout = Inr v"
    using assms diagnostic_errors_fail(6) by (auto simp: service_file_diagnostics_def split: sum.splits)
  then have p: "provider rel timeout = Inr v" "di_relative_path (dx_document v) = rel"
    by (auto simp: load_diagnostics_def split: if_splits sum.splits provider_exn.splits)
  have run: "get_diagnostics_for_file lib v sev m = Inr (Success e)" using assms v by (simp add: service_file_diagnostics_def)
  obtain d where d: "diagnostic_document lib v = Inr d"
    using run diagnostic_errors_fail(3) by (auto simp: get_diagnostics_for_file_def split: sum.splits)
  then have u: "from_input lib (dx_document v) = Inr d" "\<And>p. dx_publication v = Some p \<Longrightarrow> lit (dg_uri p) = dn_uri d"
    by (auto simp: diagnostic_document_def split: sum.splits if_splits)
  have t: "terminal_state v d = None"
    using run d diagnostic_errors_fail(1,4) by (auto simp: get_diagnostics_for_file_def split: if_splits option.splits)
  then obtain q where q: "dx_readiness v = READY" "dx_publication v = Some q" "dg_state q \<in> {CLEAN, FINDINGS}" "dg_generation q = dx_generation v"
    unfolding terminal_state_current by blast
  obtain fs where fs: "findings d (dg_diagnostics q) sev = Some fs" "render_diagnostics lib d v fs m None = Inr (Success e)"
    using run d t q(2) diagnostic_errors_fail(1) by (auto simp: get_diagnostics_for_file_def split: if_splits option.splits)
  from render_diagnostics_success [OF fs(2)] obtain g gs n where r: "n \<le> length fs" "groups_hold d g (take n fs)" "groups_data d g = Inr gs"
    "se_data e = diagnostics_json lib d v fs None gs" "se_truncation e = Some (truncation (length fs - n))" by blast
  have "obj_get ''state'' (se_data e) = Some (JStr (lit ''clean'')) \<longleftrightarrow> fs = []"
    by (simp add: r(4) diagnostics_json_def obj_get_def lit_simps)
  with p u q fs(1) r show ?thesis unfolding groups_hold_def by blast
qed

section \<open>The bound of the answer\<close>

abbreviation (input) answer_size :: "libraries \<Rightarrow> document_navigation \<Rightarrow> diagnostic_input \<Rightarrow> finding list \<Rightarrow> symbol option \<Rightarrow> json list \<Rightarrow> int" where
  "answer_size lib d v fs sel gs \<equiv> int (length (sorted_json (diagnostics_json lib d v fs sel gs)))"

definition file_level_group :: "json list \<Rightarrow> json" where
  "file_level_group js = JObj [(lit ''name_path'', JStr (lit ''<file>'')), (lit ''findings'', JArr js)]"

lemma file_level_group_grows: "answer_size lib d v fs sel [file_level_group []] \<le> answer_size lib d v fs sel [file_level_group [j]]"
  unfolding diagnostics_size [of lib d v fs sel "[_]"] by (simp add: file_level_group_def join_comma_length)

lemma file_level_group_clean: "no_secret_keys (file_level_group [])"
  by (simp add: file_level_group_def secret_key_def SECRET_KEY_FRAGMENTS_def lit_simps lower_cp_def)

text \<open>
  C39: The answer can exceed its bound.  When the first finding lies outside every symbol, the
  empty answer fits, and the answer with an empty group does not, the finding is left out and
  counted, yet the empty group stays: the tool succeeds with an answer longer than
  \<open>max_answer_chars\<close>.
\<close>

theorem diagnostics_answer_can_exceed:
  assumes "fd_symbol f = None" "finding_dict d f = Inr j"
    and "int (length (sorted_json (diagnostics_json lib d v (f # fs) sel []))) \<le> m"
    and "m < int (length (sorted_json (diagnostics_json lib d v (f # fs) sel
           [JObj [(lit ''name_path'', JStr (lit ''<file>'')), (lit ''findings'', JArr [])]])))"
  shows "\<exists>e. render_diagnostics lib d v (f # fs) m sel = Inr (Success e) \<and> m < int (length (sorted_json (se_data e))) \<and>
    se_truncation e = Some (truncation (length (f # fs)))"
proof -
  have g: "group_of f = [lit ''<file>'']" using assms(1) by (simp add: group_of_def)
  have e: "dict_setdefault (group_of f) (fd_symbol f, []) [] = ([(group_of f, None, [])] :: groups)" using assms(1) by (simp add: dict_setdefault_def)
  have gd: "groups_data d [(k, None, js)] = Inr [file_level_group js]" for k js by (simp add: groups_data_def group_json_def file_level_group_def)
  have big: "m < answer_size lib d v (f # fs) sel [file_level_group []]" using assms(4) by (simp add: file_level_group_def)
  then have "m < answer_size lib d v (f # fs) sel [file_level_group [j]]" using file_level_group_grows order.strict_trans2 by blast
  then have "render_findings d (\<lambda>gs. answer_size lib d v (f # fs) sel gs \<le> m) [] 0 (f # fs) = Inr ([(group_of f, None, [])], 0)"
    using e assms(2) gd by (simp add: Let_def)
  then have r: "render_diagnostics lib d v (f # fs) m sel = nav_success (diagnostics_json lib d v (f # fs) sel [file_level_group []])
      (dn_workspace d) (dn_adapter d) (Some (diagnostic_generations d (dx_generation v))) (Some (truncation (length (f # fs))))"
    using assms(3) gd by (simp add: render_diagnostics_def Let_def)
  have "no_secret_keys (diagnostics_json lib d v (f # fs) sel [file_level_group []])" using file_level_group_clean by (intro diagnostics_clean) simp
  then obtain a where a: "render_diagnostics lib d v (f # fs) m sel = Inr (Success a)"
    using json_value_obj by (auto simp: r nav_success_def make_success_def)
  with r nav_success_data [of "diagnostics_json lib d v (f # fs) sel [file_level_group []]"] big show ?thesis by metis
qed

section \<open>A run\<close>

definition dia_engine :: engine_facts where
  "dia_engine = \<lparr>ef_name = lit ''pyright'', ef_language = lit ''python'', ef_version = lit ''1'', ef_interpreter = Some (lit ''/p''),
     ef_python_environment = None, ef_authority = lit ''a'', ef_repository_authority = None, ef_external_root = None,
     ef_engine_name = None, ef_engine_version = None, ef_typecheck_command = None\<rparr>"

definition dia_raw :: "json frozen" where
  "dia_raw = FProxy [(''severity'', FScalar (JInt 1)), (''message'', FScalar (JStr (lit ''m''))),
     (''range'', FProxy [(''start'', FProxy [(''line'', FScalar (JInt 0)), (''character'', FScalar (JInt 0))]),
        (''end'', FProxy [(''line'', FScalar (JInt 0)), (''character'', FScalar (JInt 1))])])]"

definition dia_input :: diagnostic_input where
  "dia_input = \<lparr>dx_document = nav_input, dx_generation = 1, dx_engine = dia_engine,
     dx_publication = Some \<lparr>dg_state = FINDINGS, dg_uri = ''u'', dg_path = None, dg_version = None, dg_generation = 1,
       dg_diagnostics_generation = Some 1, dg_diagnostics = [dia_raw]\<rparr>,
     dx_readiness = READY, dx_phase = None, dx_retry = None, dx_waited = None\<rparr>"

definition dia_finding :: finding where
  "dia_finding = \<lparr>fd_range = \<lparr>rg_start = (0, 0), rg_end = (0, 1)\<rparr>, fd_severity = 1, fd_message = lit ''m'', fd_source = None, fd_code = None,
     fd_symbol = None\<rparr>"

lemma dia_document:
  "\<exists>d. diagnostic_document nav_lib dia_input = Inr d \<and> dn_mapper d = demo_mapper \<and> dn_uri d = lit ''u'' \<and> dn_relative_path d = lit ''a.py'' \<and>
     dn_symbols d = [wit_symbol (lit ''f[0]''), wit_symbol (lit ''f[1]'')]"
proof -
  obtain d where d: "from_input nav_lib nav_input = Inr d" "dn_symbols d = [wit_symbol (lit ''f[0]''), wit_symbol (lit ''f[1]'')]"
    using nav_document by blast
  have "dn_mapper d = demo_mapper \<and> dn_uri d = lit ''u'' \<and> dn_relative_path d = lit ''a.py''"
    using d(1) by (auto simp: from_input_def nav_input_def demo_mapper_def split: sum.splits)
  with d show ?thesis by (simp add: diagnostic_document_def dia_input_def lit_simps)
qed

lemma dia_findings:
  assumes "dn_symbols d = [wit_symbol (lit ''f[0]''), wit_symbol (lit ''f[1]'')]"
  shows "findings d [dia_raw] 4 = Some [dia_finding]"
  using assms by (simp add: findings_def one_finding_def dia_raw_def dia_finding_def proxy_get_def is_proxy_def diagnostic_range_def
    diagnostic_position_def make_range_def containing_symbol_def wit_symbol_def range_contains_def Let_def)

lemma dia_rendered: assumes "dn_mapper d = demo_mapper" shows "\<exists>j. finding_dict d dia_finding = Inr j"
proof -
  have "\<exists>p. render_range demo_mapper \<lparr>lsp_line = 0, lsp_character = 0\<rparr> \<lparr>lsp_line = 0, lsp_character = 1\<rparr> = Inr p"
    by (simp add: render_range_def render_position_def position_eval)
  then show ?thesis using assms by (auto simp: finding_dict_def source_range_def dia_finding_def lsp_position_of_def)
qed

theorem diagnostics_answer_can_exceed_witness:
  "\<exists>d m e. diagnostic_document nav_lib dia_input = Inr d \<and> findings d [dia_raw] 4 = Some [dia_finding] \<and>
     render_diagnostics nav_lib d dia_input [dia_finding] m None = Inr (Success e) \<and> m < int (length (sorted_json (se_data e)))"
proof -
  obtain d where d: "diagnostic_document nav_lib dia_input = Inr d" "dn_mapper d = demo_mapper"
    "dn_symbols d = [wit_symbol (lit ''f[0]''), wit_symbol (lit ''f[1]'')]" using dia_document by blast
  obtain j where j: "finding_dict d dia_finding = Inr j" using dia_rendered [OF d(2)] by blast
  have "fd_symbol dia_finding = None" by (simp add: dia_finding_def)
  from diagnostics_answer_can_exceed [OF this j, of nav_lib dia_input "[]" None "answer_size nav_lib d dia_input [dia_finding] None []"]
  have "\<exists>e. render_diagnostics nav_lib d dia_input [dia_finding] (answer_size nav_lib d dia_input [dia_finding] None []) None = Inr (Success e) \<and>
      answer_size nav_lib d dia_input [dia_finding] None [] < int (length (sorted_json (se_data e)))"
    unfolding diagnostics_size [of _ _ _ _ _ "[_]"] by auto
  with d(1) dia_findings [OF d(3)] show ?thesis by blast
qed

lemma finding_clean:
  assumes "finding_dict d f = Inr j" "fd_code f = None" shows "no_secret_keys j"
proof -
  have "list_all (\<lambda>k. \<not> secret_key (lit k)) [''severity'', ''message'', ''range'', ''source'', ''code'', ''start'', ''end'', ''line'', ''column'', ''text_offset'', ''byte_offset'']"
    by (simp add: secret_key_def SECRET_KEY_FRAGMENTS_def lit_simps lower_cp_def)
  with assms show ?thesis
    by (auto simp: finding_dict_def source_range_def position_json_def map_sum_Inr opt_field_def simp del: lit_simps split: option.splits)
qed

lemma dia_size: "length (sorted_json (JObj
     [(lit ''state'', JStr (lit ''findings'')), (lit ''relative_path'', JStr (lit ''a.py'')), (lit ''sha256'', JStr []),
      (lit ''diagnostics_generation'', JInt 1), (lit ''engine'', engine_dict dia_engine), (lit ''groups'', JArr [])])) < 700"
  by code_simp

lemma dia_runs:
  "\<exists>e. service_file_diagnostics nav_lib (\<lambda>_ _. Inr dia_input) (lit ''a.py'') \<lparr>pf_value = 1, pf_repr = lit ''1.0''\<rparr> 4 700 = Inr (Success e)"
proof -
  obtain d where d: "diagnostic_document nav_lib dia_input = Inr d" "dn_mapper d = demo_mapper" "dn_relative_path d = lit ''a.py''"
    "dn_symbols d = [wit_symbol (lit ''f[0]''), wit_symbol (lit ''f[1]'')]" using dia_document by blast
  have l: "load_diagnostics (\<lambda>_ _. Inr dia_input) (lit ''a.py'') \<lparr>pf_value = 1, pf_repr = lit ''1.0''\<rparr> = Inr dia_input"
    by (simp add: load_diagnostics_def dia_input_def nav_input_def valid_relative_path_def lit_simps)
  have t: "terminal_state dia_input d = None" by (simp add: terminal_state_def dia_input_def)
  have p: "dg_diagnostics (the (dx_publication dia_input)) = [dia_raw]" by (simp add: dia_input_def)
  obtain j where j: "finding_dict d dia_finding = Inr j" using dia_rendered [OF d(2)] by blast
  have fit: "answer_size nav_lib d dia_input [dia_finding] None [] \<le> 700"
    using dia_size by (simp add: diagnostics_json_def document_sha256_def nav_lib_def d(3) dia_input_def opt_json_def opt_field_def del: lit_simps)
  have ok: "\<exists>e. nav_success (diagnostics_json nav_lib d dia_input [dia_finding] None [file_level_group js]) w a g u = Inr (Success e)"
    if "set js \<subseteq> {j}" for js w a g u
  proof -
    have "no_secret_keys (file_level_group js)" using that finding_clean [OF j]
      by (auto simp: file_level_group_def dia_finding_def list_all_iff secret_key_def SECRET_KEY_FRAGMENTS_def lit_simps lower_cp_def)
    then have "no_secret_keys (diagnostics_json nav_lib d dia_input [dia_finding] None [file_level_group js])" by (intro diagnostics_clean) simp
    then show ?thesis using json_value_obj by (auto simp: nav_success_def make_success_def)
  qed
  have gd: "groups_data d [(k, None, js)] = Inr [file_level_group js]" for k js by (simp add: groups_data_def group_json_def file_level_group_def)
  have "\<exists>e. render_diagnostics nav_lib d dia_input [dia_finding] 700 None = Inr (Success e)"
    using fit ok [of "[]"] ok [of "[j]"] j gd
    by (simp add: render_diagnostics_def Let_def dict_setdefault_def dia_finding_def [THEN arg_cong [of _ _ fd_symbol]])
  then show ?thesis using d(1) l t p dia_findings [OF d(4)]
    by (simp add: service_file_diagnostics_def get_diagnostics_for_file_def valid_bounds_def del: lit_simps)
qed

theorem diagnostics_answer_is_current_witness:
  "\<exists>e d p. service_file_diagnostics nav_lib (\<lambda>_ _. Inr dia_input) (lit ''a.py'') \<lparr>pf_value = 1, pf_repr = lit ''1.0''\<rparr> 4 700 =
     Inr (Success e) \<and> from_input nav_lib nav_input = Inr d \<and> dx_publication dia_input = Some p \<and> lit (dg_uri p) = dn_uri d \<and>
     obj_get ''state'' (se_data e) \<noteq> Some (JStr (lit ''clean''))"
proof -
  obtain d where d: "diagnostic_document nav_lib dia_input = Inr d" "dn_symbols d = [wit_symbol (lit ''f[0]''), wit_symbol (lit ''f[1]'')]"
    using dia_document by blast
  then have f: "from_input nav_lib nav_input = Inr d"
    by (auto simp: diagnostic_document_def dia_input_def split: sum.splits if_splits)
  obtain e where e: "service_file_diagnostics nav_lib (\<lambda>_ _. Inr dia_input) (lit ''a.py'') \<lparr>pf_value = 1, pf_repr = lit ''1.0''\<rparr> 4 700 =
     Inr (Success e)" using dia_runs by blast
  have i: "dx_document dia_input = nav_input" "\<And>p. dx_publication dia_input = Some p \<Longrightarrow> dg_diagnostics p = [dia_raw]"
    by (auto simp: dia_input_def)
  from diagnostics_answer_is_current [OF e] e f i dia_findings [OF d(2)] show ?thesis by auto
qed

end
