(* ===== verification/GlobalSymbols.thy ===== *)
theory GlobalSymbols
  imports Declarations LspState
begin

text \<open>
  Symbol lookup over the configured program (\<open>tools/global_symbols.py\<close>).  What a provider
  answers at each of its calls (its state, the batch of candidates, the document symbols of a
  file, its state afterwards) is an argument; so are SHA-256 and the URL library, which turns
  a \<open>file\<close> URI of this host into its decoded path.
\<close>

section \<open>Data\<close>

record program_scope =
  ps_paths :: "text_cp list"
  ps_project_kind :: text_cp
  ps_config_path :: "text_cp option"
  ps_file_count :: nat
  ps_sha256 :: text_cp

text \<open>\<open>PurePosixPath\<close>: the anchor, and the components without empty ones and dots.\<close>

definition pure_anchor :: "text_cp \<Rightarrow> text_cp" where
  "pure_anchor s = (if take 1 s \<noteq> [47] then [] else if take 2 s = [47, 47] \<and> take 3 s \<noteq> [47, 47, 47] then [47, 47] else [47])"

definition pure_parts :: "text_cp \<Rightarrow> text_cp list" where
  "pure_parts s = filter (\<lambda>p. p \<noteq> [] \<and> p \<noteq> [46]) (split_slash s)"

definition dotdot :: text_cp where "dotdot = [46, 46]"

definition relative_path_of :: "text_cp \<Rightarrow> text_cp option" where
  "relative_path_of p =
     (if p = [] \<or> hd p = 47 \<or> 92 \<in> set p \<or> 0 \<in> set p then None
      else let n = normpath p in
           if n = [] \<or> n = [46] \<or> dotdot \<in> set (pure_parts n) \<or> n \<noteq> p then None else Some n)"

fun join_nul :: "text_cp list \<Rightarrow> text_cp" where
  "join_nul [] = []"
| "join_nul [x] = x"
| "join_nul (x # y # xs) = x @ 0 # join_nul (y # xs)"

text \<open>UTF-8 with the error handler \<open>surrogateescape\<close>.\<close>

definition encode_surrogate :: "nat \<Rightarrow> nat list" where
  "encode_surrogate c = (if 56448 \<le> c \<and> c \<le> 56575 then [c - 56320] else encode_cp c)"

text \<open>\<open>None\<close> is the \<open>ValueError\<close>.\<close>

definition make_program_scope :: "libraries \<Rightarrow> text_cp list \<Rightarrow> text_cp \<Rightarrow> text_cp option \<Rightarrow> program_scope option" where
  "make_program_scope lib paths project_kind config =
     (case sequence_option (map relative_path_of paths) of
        None \<Rightarrow> None
      | Some ps \<Rightarrow>
          if project_kind = [] then None
          else (case (case config of None \<Rightarrow> Some None | Some c \<Rightarrow> map_option Some (relative_path_of c)) of
                  None \<Rightarrow> None
                | Some selected \<Rightarrow>
                    let normalized = sort (remdups ps) in
                    Some \<lparr>ps_paths = normalized, ps_project_kind = project_kind, ps_config_path = selected,
                          ps_file_count = length normalized,
                          ps_sha256 = lb_sha256 lib (concat (map encode_surrogate (join_nul normalized)))\<rparr>))"

definition program_scope_dict :: "program_scope \<Rightarrow> json" where
  "program_scope_dict s = JObj [(lit ''scope'', JStr (lit ''configured_program'')), (lit ''project_kind'', JStr (ps_project_kind s)),
     (lit ''selected_config_path'', opt_json JStr (ps_config_path s)), (lit ''file_count'', JInt (int (ps_file_count s))),
     (lit ''sha256'', JStr (ps_sha256 s))]"

record global_state =
  gs_workspace :: workspace_md
  gs_adapter :: adapter_md
  gs_generations :: generation_md
  gs_program :: program_scope
  gs_supported :: bool
  gs_ready :: bool
  gs_phase :: text_cp
  gs_retry_after :: "py_float option"

definition global_state_ok :: "global_state \<Rightarrow> bool" where
  "global_state_ok s \<longleftrightarrow> am_name (gs_adapter s) \<noteq> [] \<and> gs_phase s \<noteq> [] \<and> gm_program (gs_generations s) \<noteq> None \<and>
     gm_index (gs_generations s) \<noteq> None \<and> gm_scope (gs_generations s) \<in> {None, Some (lit ''configured_program'')} \<and>
     (\<forall>r. gs_retry_after s = Some r \<longrightarrow> 0 \<le> pf_value r)"

record symbol_batch =
  sb_candidates :: "json list"
  sb_generations :: generation_md
  sb_truncated :: bool
  sb_omitted :: int

definition symbol_batch_ok :: "symbol_batch \<Rightarrow> bool" where
  "symbol_batch_ok b \<longleftrightarrow> \<not> (sb_omitted b < 0 \<or> (\<not> sb_truncated b \<and> sb_omitted b \<noteq> 0))"

record document_batch =
  db_relative_path :: text_cp
  db_uri :: text_cp
  db_raw_symbols :: "json list option"
  db_generations :: generation_md
  db_snapshot :: file_snapshot
  db_encoding :: position_encoding
  db_normalize_name :: "(text_cp \<Rightarrow> text_cp) option"
  db_recover :: "(symbol list \<Rightarrow> symbol list) option"
  db_completeness :: "(json \<Rightarrow> text_cp option) option"

definition document_batch_ok :: "document_batch \<Rightarrow> bool" where
  "document_batch_ok b \<longleftrightarrow> relative_path_of (db_relative_path b) \<noteq> None \<and> db_uri b \<noteq> []"

text \<open>One provider during one lookup.\<close>

record provider_run =
  pr_state :: global_state
  pr_batch :: "text_cp \<Rightarrow> int \<Rightarrow> symbol_batch"
  pr_document :: "text_cp \<Rightarrow> text_cp \<Rightarrow> document_batch"
  pr_current :: global_state

record candidate =
  ca_name :: text_cp
  ca_kind :: int
  ca_relative_path :: text_cp
  ca_uri :: text_cp
  ca_range :: "lsp_range option"

definition MAX_ADAPTERS :: nat where "MAX_ADAPTERS = 2"
definition MAX_CANDIDATES_PER_ADAPTER :: int where "MAX_CANDIDATES_PER_ADAPTER = 256"

datatype global_exn = GlobalNormalization norm_error | GlobalEnvelope env_exn

definition global_query :: "name_path_pattern \<Rightarrow> text_cp" where
  "global_query p = last (np_components p)"

definition adapter_key :: "global_state \<Rightarrow> text_cp \<times> text_cp" where
  "adapter_key s = (am_name (gs_adapter s), case am_language (gs_adapter s) of None \<Rightarrow> [] | Some l \<Rightarrow> l)"

text \<open>The constructor: providers with the state they reported.\<close>

definition global_service :: "(global_state \<times> 'p) list \<Rightarrow> 'p list option" where
  "global_service ps =
     (if ps = [] \<or> length ps > MAX_ADAPTERS then None
      else if \<not> distinct (map (am_name \<circ> gs_adapter \<circ> fst) ps) then None
      else Some (map snd (sort_key (adapter_key \<circ> fst) ps)))"

section \<open>Envelopes\<close>

definition global_error ::
    "error_code \<Rightarrow> retry_md option \<Rightarrow> json \<Rightarrow> workspace_md option \<Rightarrow> adapter_md option \<Rightarrow> generation_md option \<Rightarrow> global_exn + tool_envelope" where
  "global_error code retry details w a g = (case env_error code retry (Some (obj_of_json details)) w a g of
       Inl e \<Rightarrow> Inl (GlobalEnvelope e) | Inr e \<Rightarrow> Inr (Failure e))"

definition state_data :: "global_state \<Rightarrow> json" where
  "state_data s = JObj [(lit ''adapter'', adapter_md_dict (gs_adapter s)), (lit ''phase'', JStr (gs_phase s)),
     (lit ''workspace_symbols_supported'', JBool (gs_supported s)), (lit ''global_ready'', JBool (gs_ready s)),
     (lit ''generations'', generation_md_dict (gs_generations s)), (lit ''configured_program'', program_scope_dict (gs_program s))]"

definition generation_not_ready :: "workspace_md \<Rightarrow> global_state \<Rightarrow> generation_md \<Rightarrow> global_exn + tool_envelope" where
  "generation_not_ready w s observed = global_error NOT_READY
     (Some \<lparr>rm_retryable = True, rm_retry_after = gs_retry_after s, rm_waited = None, rm_timeout = None,
        rm_target = gm_program (gs_generations s), rm_observed = gm_program observed\<rparr>)
     (JObj [(lit ''scope'', JStr (lit ''configured_program'')), (lit ''adapter'', adapter_md_dict (gs_adapter s)),
        (lit ''expected_generations'', generation_md_dict (gs_generations s)), (lit ''observed_generations'', generation_md_dict observed)])
     (Some w) (Some (gs_adapter s)) (Some (gs_generations s))"

definition same_global_generation :: "generation_md \<Rightarrow> generation_md \<Rightarrow> bool" where
  "same_global_generation expected observed \<longleftrightarrow> gm_trust expected = gm_trust observed \<and> gm_program expected = gm_program observed \<and>
     gm_index expected = gm_index observed \<and> gm_scope observed \<in> {None, Some (lit ''configured_program'')}"

definition same_configured_scope :: "program_scope \<Rightarrow> program_scope \<Rightarrow> bool" where
  "same_configured_scope expected observed \<longleftrightarrow> ps_project_kind expected = ps_project_kind observed \<and>
     ps_config_path expected = ps_config_path observed \<and> ps_file_count expected = ps_file_count observed \<and>
     ps_sha256 expected = ps_sha256 observed"

definition common_workspace :: "global_state list \<Rightarrow> workspace_md option" where
  "common_workspace ss = (let first = gs_workspace (hd ss) in if list_all (\<lambda>s. gs_workspace s = first) ss then Some first else None)"

section \<open>Candidates\<close>

definition workspace_relative_path :: "(text_cp \<Rightarrow> text_cp option) \<Rightarrow> text_cp \<Rightarrow> text_cp \<Rightarrow> text_cp option" where
  "workspace_relative_path uri_path uri rt = (case uri_path uri of
       None \<Rightarrow> None
     | Some p \<Rightarrow>
         if dotdot \<in> set (pure_parts p) then None
         else if pure_anchor p \<noteq> pure_anchor rt \<or> take (length (pure_parts rt)) (pure_parts p) \<noteq> pure_parts rt then None
         else (case drop (length (pure_parts rt)) (pure_parts p) of
                 [] \<Rightarrow> relative_path_of [46] | rest \<Rightarrow> relative_path_of (join_slash rest)))"

text \<open>\<open>Inl ()\<close> is the exception of \<open>_range\<close>.\<close>

definition candidate_range :: "json option \<Rightarrow> unit + lsp_range option" where
  "candidate_range v = (case v of
       Some (JObj kvs) \<Rightarrow> (case lsp_raw_range (JObj kvs) of Inl _ \<Rightarrow> Inl () | Inr r \<Rightarrow> Inr (Some r))
     | _ \<Rightarrow> Inr None)"

definition accept_candidate :: "(text_cp \<Rightarrow> text_cp option) \<Rightarrow> name_path_pattern \<Rightarrow> bool \<Rightarrow> text_cp \<Rightarrow> text_cp list \<Rightarrow> json \<Rightarrow> candidate option" where
  "accept_candidate uri_path p substring rt allowed raw =
     (case (raw_get ''name'' raw, raw_get ''kind'' raw, raw_get ''location'' raw) of
        (Some (JStr name), Some (JInt kind), Some (JObj l)) \<Rightarrow>
          if name = [] then None
          else if \<not> (if substring then contains (global_query p) name else global_query p = name) then None
          else (case raw_get ''uri'' (JObj l) of
                  Some (JStr uri) \<Rightarrow>
                    (case workspace_relative_path uri_path uri rt of
                       None \<Rightarrow> None
                     | Some rel \<Rightarrow>
                         if rel \<notin> set allowed then None
                         else (case candidate_range (raw_get ''range'' (JObj l)) of
                                 Inl _ \<Rightarrow> None
                               | Inr r \<Rightarrow> Some \<lparr>ca_name = name, ca_kind = kind, ca_relative_path = rel, ca_uri = uri, ca_range = r\<rparr>))
                | _ \<Rightarrow> None)
      | _ \<Rightarrow> None)"

definition candidate_key :: "candidate \<Rightarrow> text_cp \<times> text_cp \<times> int \<times> int \<times> int \<times> text_cp" where
  "candidate_key c = (let start = (case ca_range c of None \<Rightarrow> (-1, -1) | Some r \<Rightarrow> rg_start r) in
     (ca_relative_path c, ca_uri c, fst start, snd start, ca_kind c, ca_name c))"

definition candidate_files :: "(text_cp \<Rightarrow> text_cp option) \<Rightarrow> json list \<Rightarrow> name_path_pattern \<Rightarrow> bool \<Rightarrow> workspace_md \<Rightarrow> program_scope \<Rightarrow> candidate list" where
  "candidate_files uri_path raws p substring w scope =
     sort_key candidate_key (List.map_filter (accept_candidate uri_path p substring (wm_root w) (ps_paths scope)) raws)"

definition candidate_verifies_symbol :: "candidate \<Rightarrow> symbol \<Rightarrow> bool" where
  "candidate_verifies_symbol c s \<longleftrightarrow> ca_name c = sy_name s \<and> ca_kind c = sy_kind s \<and> ca_uri c = loc_uri (sy_location s) \<and>
     (case ca_range c of None \<Rightarrow> True
      | Some r \<Rightarrow> (rg_start (loc_range (sy_location s)) \<le> rg_start r \<and> rg_start r < rg_end (loc_range (sy_location s))) \<or>
                  rg_start r = rg_start (loc_range (sy_location s)))"

text \<open>\<open>_matches_name_path\<close> here has the same body as in \<open>tools/navigation.py\<close>.\<close>

definition global_matches :: "symbol \<Rightarrow> name_path_pattern \<Rightarrow> bool \<Rightarrow> bool" where
  "global_matches s p substring =
     (let comps = sy_path s; pats = np_components p; n = length pats in
      if length comps < n then False
      else if np_absolute p \<and> length comps \<noteq> n then False
      else list_all (\<lambda>(i, e, a). if substring \<and> i = n - 1 then contains e a else e = a)
             (zip [0..<n] (zip pats (drop (length comps - n) comps))))"

section \<open>Results\<close>

text \<open>A rendered symbol with the key that orders it.\<close>

type_synonym global_result = "(text_cp \<times> text_cp \<times> int \<times> nat \<times> text_cp) \<times> json"

definition global_symbol_data :: "libraries \<Rightarrow> global_state \<Rightarrow> document_batch \<Rightarrow> symbol \<Rightarrow> bool \<Rightarrow> bool \<Rightarrow> position_error + global_result" where
  "global_symbol_data lib st d s include_body include_info =
     (let m = \<lparr>pm_snapshot = db_snapshot d, pm_encoding = db_encoding d\<rparr>; r = loc_range (sy_location s) in
      case render_range m (lsp_position_of (rg_start r)) (lsp_position_of (rg_end r)) of
        Inl e \<Rightarrow> Inl e
      | Inr (a, b) \<Rightarrow>
          (case (if include_info then map_sum id (\<lambda>sel. [(lit ''info'', JObj [(lit ''detail'', opt_json JStr (sy_detail s)), (lit ''selection_range'', sel)])])
                                       (source_range m (sy_selection s)) else Inr []) of
             Inl e \<Rightarrow> Inl e
           | Inr info \<Rightarrow>
               (case (if include_body then map_sum id (\<lambda>t. [(lit ''body'', JStr t), (lit ''has_children'', JBool (sy_children s \<noteq> [])),
                          (lit ''sha256'', JStr (lb_sha256 lib (fs_raw_bytes (db_snapshot d))))]) (source_body m r) else Inr []) of
                  Inl e \<Rightarrow> Inl e
                | Inr body \<Rightarrow> Inr ((am_name (gs_adapter st), db_relative_path d, pp_line a, pp_text_offset a, name_path_text s),
                    JObj ([(lit ''name'', JStr (sy_name s)), (lit ''name_path'', JStr (name_path_text s)), (lit ''kind'', JInt (sy_kind s)),
                      (lit ''relative_path'', JStr (db_relative_path d)),
                      (lit ''location'', JObj [(lit ''uri'', JStr (loc_uri (sy_location s))),
                         (lit ''range'', JObj [(lit ''start'', position_json a), (lit ''end'', position_json b)])]),
                      (lit ''adapter'', adapter_md_dict (gs_adapter st)), (lit ''generations'', generation_md_dict (gs_generations st))] @ info @ body)))))"

definition deduplicate_and_sort :: "global_result list \<Rightarrow> global_result list" where
  "deduplicate_and_sort rs = sort_key fst (map snd (fold (\<lambda>r. AList.update (sorted_json (snd r)) r) rs []))"

text \<open>The symbols of one candidate file; \<open>Inl\<close> ends the lookup.\<close>

fun render_file_symbols ::
    "libraries \<Rightarrow> workspace_md \<Rightarrow> global_state \<Rightarrow> document_batch \<Rightarrow> candidate list \<Rightarrow> name_path_pattern \<Rightarrow> bool \<Rightarrow> bool \<Rightarrow> bool \<Rightarrow> symbol list \<Rightarrow>
     (global_exn + tool_envelope) + global_result list" where
  "render_file_symbols lib w st d cs p substring include_body include_info [] = Inr []"
| "render_file_symbols lib w st d cs p substring include_body include_info (s # ss) =
     (if \<not> global_matches s p substring \<or> \<not> list_ex (\<lambda>c. candidate_verifies_symbol c s) cs
      then render_file_symbols lib w st d cs p substring include_body include_info ss
      else if include_body \<and> sy_incomplete s \<noteq> None
      then Inl (global_error UNSUPPORTED None (JObj [(lit ''operation'', JStr (lit ''find_symbol'')),
             (lit ''reason'', JStr (lit ''incomplete_assignment_range'')), (lit ''recovery_reason'', opt_json JStr (sy_incomplete s)),
             (lit ''relative_path'', JStr (db_relative_path d)), (lit ''name_path'', JStr (name_path_text s))])
             (Some w) (Some (gs_adapter st)) (Some (gs_generations st)))
      else case global_symbol_data lib st d s include_body include_info of
             Inl _ \<Rightarrow> Inl (global_error NOT_READY (Some retry_hint) (JObj [(lit ''reason'', JStr (lit ''candidate_snapshot_range_mismatch'')),
                        (lit ''relative_path'', JStr (db_relative_path d))]) (Some w) None None)
           | Inr r \<Rightarrow> map_sum id (Cons r) (render_file_symbols lib w st d cs p substring include_body include_info ss))"

definition global_normalizer :: "libraries \<Rightarrow> document_batch \<Rightarrow> normalizer" where
  "global_normalizer lib d = \<lparr>nz_uri_path = lb_uri_path lib, nz_name_fn = (case db_normalize_name d of None \<Rightarrow> id | Some f \<Rightarrow> f),
     nz_completeness = db_completeness d, nz_other_str = lb_other_str lib, nz_document_uri = db_uri d\<rparr>"

fun search_files ::
    "libraries \<Rightarrow> workspace_md \<Rightarrow> provider_run \<Rightarrow> name_path_pattern \<Rightarrow> bool \<Rightarrow> bool \<Rightarrow> bool \<Rightarrow> ((text_cp \<times> text_cp) \<times> candidate list) list \<Rightarrow>
     (global_exn + tool_envelope) + global_result list" where
  "search_files lib w pr p substring include_body include_info [] = Inr []"
| "search_files lib w pr p substring include_body include_info (((rel, uri), cs) # rest) =
     (let d = pr_document pr rel uri; st = pr_state pr in
      if db_relative_path d \<noteq> rel \<or> db_uri d \<noteq> uri \<or> \<not> same_global_generation (gs_generations st) (db_generations d)
      then Inl (generation_not_ready w st (db_generations d))
      else case normalize_document_symbols (global_normalizer lib d) (db_recover d) (db_raw_symbols d) of
             Inl e \<Rightarrow> Inl (Inl (GlobalNormalization e))
           | Inr roots \<Rightarrow>
               (case render_file_symbols lib w st d cs p substring include_body include_info (concat (map iter_depth_first roots)) of
                  Inl r \<Rightarrow> Inl r
                | Inr rs \<Rightarrow> map_sum id (append rs) (search_files lib w pr p substring include_body include_info rest)))"

text \<open>\<open>defaultdict(list)\<close> filled in order.\<close>

definition group_candidates :: "candidate list \<Rightarrow> ((text_cp \<times> text_cp) \<times> candidate list) list" where
  "group_candidates cs = sort_key fst (fold (\<lambda>c g. AList.update (ca_relative_path c, ca_uri c)
     ((case map_of g (ca_relative_path c, ca_uri c) of None \<Rightarrow> [] | Some xs \<Rightarrow> xs) @ [c]) g) cs [])"

fun search_providers ::
    "libraries \<Rightarrow> (text_cp \<Rightarrow> text_cp option) \<Rightarrow> workspace_md \<Rightarrow> name_path_pattern \<Rightarrow> bool \<Rightarrow> bool \<Rightarrow> bool \<Rightarrow> int \<Rightarrow> provider_run list \<Rightarrow>
     (global_exn + tool_envelope) + global_result list \<times> int" where
  "search_providers lib uri_path w p substring include_body include_info max_candidates [] = Inr ([], 0)"
| "search_providers lib uri_path w p substring include_body include_info max_candidates (pr # prs) =
     (let st = pr_state pr; batch = pr_batch pr (global_query p) max_candidates in
      if \<not> same_global_generation (gs_generations st) (sb_generations batch) then Inl (generation_not_ready w st (sb_generations batch))
      else let candidates = candidate_files uri_path (sb_candidates batch) p substring w (gs_program st);
               kept = take (nat max_candidates) candidates in
           case search_files lib w pr p substring include_body include_info (group_candidates kept) of
             Inl r \<Rightarrow> Inl r
           | Inr rs \<Rightarrow>
               let cur = pr_current pr in
               if gs_workspace cur \<noteq> gs_workspace st \<or> gs_adapter cur \<noteq> gs_adapter st \<or>
                  \<not> same_configured_scope (gs_program cur) (gs_program st) \<or> \<not> gs_supported cur \<or> \<not> gs_ready cur \<or>
                  \<not> same_global_generation (gs_generations st) (gs_generations cur)
               then Inl (generation_not_ready w st (gs_generations cur))
               else map_sum id (\<lambda>(rs', n). (rs @ rs', int (length candidates - length kept) + sb_omitted batch + n))
                      (search_providers lib uri_path w p substring include_body include_info max_candidates prs))"

definition global_json :: "name_path_pattern \<Rightarrow> bool \<Rightarrow> bool \<Rightarrow> bool \<Rightarrow> global_state list \<Rightarrow> json list \<Rightarrow> json" where
  "global_json p substring include_body include_info states symbols = JObj
     [(lit ''name_path'', JStr (expression p)), (lit ''substring_matching'', JBool substring), (lit ''include_body'', JBool include_body),
      (lit ''include_info'', JBool include_info), (lit ''scope'', JStr (lit ''configured_program'')),
      (lit ''adapters'', JArr (map state_data states)), (lit ''symbols'', JArr symbols)]"

definition bound_global :: "workspace_md \<Rightarrow> global_state list \<Rightarrow> (json list \<Rightarrow> json) \<Rightarrow> json list \<Rightarrow> int \<Rightarrow> int \<Rightarrow> global_exn + tool_envelope" where
  "bound_global w states data rendered omitted max_chars =
     (let fits = (\<lambda>xs. int (length (sorted_json (data xs))) \<le> max_chars); kept = keep_while fits [] rendered;
          total = omitted + int (length rendered - length kept); single = (case states of [s] \<Rightarrow> Some s | _ \<Rightarrow> None) in
      if \<not> fits [] then global_error INVALID_INPUT None (JObj [(lit ''field'', JStr (lit ''max_answer_chars'')),
             (lit ''minimum_required'', JInt (int (length (sorted_json (data [])))))]) (Some w) None None
      else case make_success (obj_of_json (data kept)) (Some w) (map_option gs_adapter single) (map_option gs_generations single)
                  (Some \<lparr>tm_truncated = 0 < total, tm_omitted = total\<rparr>) of
             Inl e \<Rightarrow> Inl (GlobalEnvelope e) | Inr e \<Rightarrow> Inr (Success e))"

text \<open>\<open>min\<close> of the retry hints.\<close>

definition least_retry :: "py_float list \<Rightarrow> py_float option" where
  "least_retry rs = (if rs = [] then None else Some (min_by pf_value rs))"

definition global_find_symbol ::
    "libraries \<Rightarrow> (text_cp \<Rightarrow> text_cp option) \<Rightarrow> provider_run list \<Rightarrow> name_path_arg \<Rightarrow> bool \<Rightarrow> bool \<Rightarrow> bool \<Rightarrow> int \<Rightarrow> int \<Rightarrow> global_exn + tool_envelope" where
  "global_find_symbol lib uri_path prs name_path substring include_body include_info max_candidates max_chars =
     (case parse_name_path name_path of
        Some p \<Rightarrow>
          if max_chars \<le> 0 \<or> max_candidates < 1 \<or> max_candidates > MAX_CANDIDATES_PER_ADAPTER
          then global_error INVALID_INPUT None (JObj [(lit ''field'', JStr (lit ''name_path, max_candidates_per_adapter, or max_answer_chars'')),
                 (lit ''max_candidates_per_adapter'', JInt MAX_CANDIDATES_PER_ADAPTER)]) None None None
          else let states = map pr_state prs in
          (case common_workspace states of
             None \<Rightarrow> global_error INVALID_INPUT None (JObj [(lit ''field'', JStr (lit ''provider workspace identity''))]) None None None
           | Some w \<Rightarrow>
               let unavailable = filter (\<lambda>s. \<not> gs_supported s) states; not_ready = filter (\<lambda>s. \<not> gs_ready s) states in
               if unavailable \<noteq> []
               then global_error UNSUPPORTED None (JObj [(lit ''operation'', JStr (lit ''global_find_symbol'')),
                      (lit ''scope'', JStr (lit ''configured_program'')), (lit ''adapters'', JArr (map state_data unavailable))]) (Some w) None None
               else if not_ready \<noteq> []
               then global_error NOT_READY (Some (retry_hint\<lparr>rm_retry_after := least_retry (List.map_filter gs_retry_after not_ready)\<rparr>))
                      (JObj [(lit ''scope'', JStr (lit ''configured_program'')), (lit ''adapters'', JArr (map state_data not_ready))]) (Some w) None None
               else (case search_providers lib uri_path w p substring include_body include_info max_candidates prs of
                       Inl r \<Rightarrow> r
                     | Inr (found, omitted) \<Rightarrow>
                         let rendered = map snd (deduplicate_and_sort found) in
                         if rendered = [] \<and> omitted = 0
                         then global_error SYMBOL_NOT_FOUND None (JObj [(lit ''name_path'', JStr (expression p)),
                                (lit ''scope'', JStr (lit ''configured_program'')), (lit ''adapters'', JArr (map state_data states))]) (Some w) None None
                         else bound_global w states (global_json p substring include_body include_info states) rendered omitted max_chars))
      | None \<Rightarrow> global_error INVALID_INPUT None (JObj [(lit ''field'', JStr (lit ''name_path, max_candidates_per_adapter, or max_answer_chars'')),
                 (lit ''max_candidates_per_adapter'', JInt MAX_CANDIDATES_PER_ADAPTER)]) None None None)"

section \<open>Where a result comes from\<close>

text \<open>
  The origin of a rendered symbol: a provider, the raw candidate it returned that was accepted, the
  document asked for it, and the symbol of that document.
\<close>

definition found_by ::
    "libraries \<Rightarrow> (text_cp \<Rightarrow> text_cp option) \<Rightarrow> workspace_md \<Rightarrow> name_path_pattern \<Rightarrow> bool \<Rightarrow> bool \<Rightarrow> bool \<Rightarrow> int \<Rightarrow> provider_run \<Rightarrow> global_result \<Rightarrow> bool" where
  "found_by lib uri_path w p substring body info maxc pr r \<longleftrightarrow>
     (\<exists>raw c d roots s. raw \<in> set (sb_candidates (pr_batch pr (global_query p) maxc)) \<and>
        accept_candidate uri_path p substring (wm_root w) (ps_paths (gs_program (pr_state pr))) raw = Some c \<and>
        d = pr_document pr (ca_relative_path c) (ca_uri c) \<and> db_relative_path d = ca_relative_path c \<and> db_uri d = ca_uri c \<and>
        same_global_generation (gs_generations (pr_state pr)) (db_generations d) \<and>
        normalize_document_symbols (global_normalizer lib d) (db_recover d) (db_raw_symbols d) = Inr roots \<and> s \<in> set (forest roots) \<and>
        global_matches s p substring \<and> candidate_verifies_symbol c s \<and> global_symbol_data lib (pr_state pr) d s body info = Inr r)"

definition unchanged :: "provider_run \<Rightarrow> bool" where
  "unchanged pr \<longleftrightarrow> gs_workspace (pr_current pr) = gs_workspace (pr_state pr) \<and> gs_adapter (pr_current pr) = gs_adapter (pr_state pr) \<and>
     same_configured_scope (gs_program (pr_current pr)) (gs_program (pr_state pr)) \<and> gs_supported (pr_current pr) \<and> gs_ready (pr_current pr) \<and>
     same_global_generation (gs_generations (pr_state pr)) (gs_generations (pr_current pr))"

lemma map_sum_Inl: "map_sum id f z = Inl y \<longleftrightarrow> z = Inl y"
  by (cases z) auto

lemma global_error_fails: "global_error code retry details w a g \<noteq> Inr (Success e)"
  by (auto simp: global_error_def split: sum.splits)

lemma render_file_symbols_sound:
  assumes "render_file_symbols lib w st d cs p substring body info ss = Inr rs" "r \<in> set rs"
  shows "\<exists>s \<in> set ss. \<exists>c \<in> set cs. global_matches s p substring \<and> candidate_verifies_symbol c s \<and> global_symbol_data lib st d s body info = Inr r"
  using assms
proof (induction ss arbitrary: rs)
  case (Cons s ss)
  show ?case
  proof (cases "\<not> global_matches s p substring \<or> \<not> list_ex (\<lambda>c. candidate_verifies_symbol c s) cs")
    case True
    with Cons.prems Cons.IH show ?thesis by auto
  next
    case False
    with Cons.prems(1) obtain r' rs' where "global_symbol_data lib st d s body info = Inr r'"
        "render_file_symbols lib w st d cs p substring body info ss = Inr rs'" "rs = r' # rs'"
      by (auto simp: map_sum_Inr split: if_splits sum.splits)
    with Cons.IH Cons.prems(2) False show ?thesis by (auto simp: list_ex_iff)
  qed
qed simp

lemma render_file_symbols_complete:
  assumes "render_file_symbols lib w st d cs p substring body info ss = Inr rs" "s \<in> set ss" "c \<in> set cs"
    "global_matches s p substring" "candidate_verifies_symbol c s"
  shows "\<exists>r \<in> set rs. global_symbol_data lib st d s body info = Inr r"
  using assms(1,2)
proof (induction ss arbitrary: rs)
  case (Cons x ss)
  show ?case
  proof (cases "\<not> global_matches x p substring \<or> \<not> list_ex (\<lambda>c. candidate_verifies_symbol c x) cs")
    case True
    then have "x \<noteq> s" using assms(3-5) by (auto simp: list_ex_iff)
    with True Cons show ?thesis by auto
  next
    case False
    with Cons.prems(1) obtain r' rs' where "global_symbol_data lib st d x body info = Inr r'"
        "render_file_symbols lib w st d cs p substring body info ss = Inr rs'" "rs = r' # rs'"
      by (auto simp: map_sum_Inr split: if_splits sum.splits)
    with Cons show ?thesis by auto
  qed
qed simp

lemma render_file_symbols_fails: "render_file_symbols lib w st d cs p substring body info ss \<noteq> Inl (Inr (Success e))"
proof (induction ss)
  case (Cons s ss)
  then show ?case by (auto simp: global_error_fails map_sum_Inl split: sum.splits)
qed simp

lemma search_files_sound:
  assumes "search_files lib w pr p substring body info gs = Inr rs" "r \<in> set rs"
  shows "\<exists>rel uri cs roots c s. ((rel, uri), cs) \<in> set gs \<and> c \<in> set cs \<and> db_relative_path (pr_document pr rel uri) = rel \<and>
    db_uri (pr_document pr rel uri) = uri \<and> same_global_generation (gs_generations (pr_state pr)) (db_generations (pr_document pr rel uri)) \<and>
    normalize_document_symbols (global_normalizer lib (pr_document pr rel uri)) (db_recover (pr_document pr rel uri))
      (db_raw_symbols (pr_document pr rel uri)) = Inr roots \<and> s \<in> set (forest roots) \<and>
    global_matches s p substring \<and> candidate_verifies_symbol c s \<and> global_symbol_data lib (pr_state pr) (pr_document pr rel uri) s body info = Inr r"
  using assms
proof (induction gs arbitrary: rs)
  case (Cons g gs)
  obtain rel uri cs where g: "g = ((rel, uri), cs)" by (metis surj_pair)
  let ?d = "pr_document pr rel uri"
  have ok: "db_relative_path ?d = rel" "db_uri ?d = uri" "same_global_generation (gs_generations (pr_state pr)) (db_generations ?d)"
    using Cons.prems(1) by (auto simp: g Let_def split: if_splits)
  obtain roots rs1 rs2 where n: "normalize_document_symbols (global_normalizer lib ?d) (db_recover ?d) (db_raw_symbols ?d) = Inr roots"
      and f: "render_file_symbols lib w (pr_state pr) ?d cs p substring body info (forest roots) = Inr rs1"
      and rest: "search_files lib w pr p substring body info gs = Inr rs2" and rs: "rs = rs1 @ rs2"
    using Cons.prems(1) ok by (auto simp: g Let_def forest_def map_sum_Inr split: if_splits sum.splits)
  show ?case
  proof (cases "r \<in> set rs1")
    case True
    from render_file_symbols_sound [OF f True] n ok show ?thesis unfolding g by (meson list.set_intros(1))
  next
    case False
    with rs Cons.prems(2) have "r \<in> set rs2" by simp
    from Cons.IH [OF rest this] show ?thesis by (meson list.set_intros(2))
  qed
qed simp

lemma search_files_complete:
  assumes "search_files lib w pr p substring body info gs = Inr rs" "((rel, uri), cs) \<in> set gs"
  shows "db_relative_path (pr_document pr rel uri) = rel \<and> db_uri (pr_document pr rel uri) = uri \<and>
    same_global_generation (gs_generations (pr_state pr)) (db_generations (pr_document pr rel uri)) \<and>
    (\<exists>roots. normalize_document_symbols (global_normalizer lib (pr_document pr rel uri)) (db_recover (pr_document pr rel uri))
        (db_raw_symbols (pr_document pr rel uri)) = Inr roots \<and>
      (\<forall>s \<in> set (forest roots). \<forall>c \<in> set cs. global_matches s p substring \<longrightarrow> candidate_verifies_symbol c s \<longrightarrow>
        (\<exists>r \<in> set rs. global_symbol_data lib (pr_state pr) (pr_document pr rel uri) s body info = Inr r)))"
  using assms
proof (induction gs arbitrary: rs)
  case (Cons g gs)
  obtain rel' uri' cs' where g: "g = ((rel', uri'), cs')" by (metis surj_pair)
  let ?d = "pr_document pr rel' uri'"
  have ok: "db_relative_path ?d = rel'" "db_uri ?d = uri'" "same_global_generation (gs_generations (pr_state pr)) (db_generations ?d)"
    using Cons.prems(1) by (auto simp: g Let_def split: if_splits)
  obtain roots rs1 rs2 where n: "normalize_document_symbols (global_normalizer lib ?d) (db_recover ?d) (db_raw_symbols ?d) = Inr roots"
      and f: "render_file_symbols lib w (pr_state pr) ?d cs' p substring body info (forest roots) = Inr rs1"
      and rest: "search_files lib w pr p substring body info gs = Inr rs2" and rs: "rs = rs1 @ rs2"
    using Cons.prems(1) ok by (auto simp: g Let_def forest_def map_sum_Inr split: if_splits sum.splits)
  show ?case
  proof (cases "((rel, uri), cs) = g")
    case True
    with g have eq: "rel' = rel" "uri' = uri" "cs' = cs" by auto
    have "\<exists>r \<in> set rs. global_symbol_data lib (pr_state pr) ?d s body info = Inr r"
      if "s \<in> set (forest roots)" "c \<in> set cs" "global_matches s p substring" "candidate_verifies_symbol c s" for s c
      using render_file_symbols_complete [OF f that(1) _ that(3,4)] that(2) rs eq by auto
    with ok n eq show ?thesis by blast
  next
    case False
    with Cons.prems(2) have "((rel, uri), cs) \<in> set gs" by auto
    from Cons.IH [OF rest this] rs show ?thesis by fastforce
  qed
qed simp

lemma search_files_fails: "search_files lib w pr p substring body info gs \<noteq> Inl (Inr (Success e))"
proof (induction gs)
  case (Cons g gs)
  obtain rel uri cs where "g = ((rel, uri), cs)" by (metis surj_pair)
  with Cons show ?case using render_file_symbols_fails
    by (auto simp: Let_def generation_not_ready_def global_error_fails map_sum_Inl split: sum.splits)
qed simp

lemma set_update_subset: "set (AList.update k v al) \<subseteq> insert (k, v) (set al)"
  by (induction al) auto

abbreviation (input) add_candidate ::
    "candidate \<Rightarrow> ((text_cp \<times> text_cp) \<times> candidate list) list \<Rightarrow> ((text_cp \<times> text_cp) \<times> candidate list) list" where
  "add_candidate c g \<equiv> AList.update (ca_relative_path c, ca_uri c)
     ((case map_of g (ca_relative_path c, ca_uri c) of None \<Rightarrow> [] | Some xs \<Rightarrow> xs) @ [c]) g"

lemma candidate_groups:
  "x \<in> set (fold add_candidate xs []) \<Longrightarrow> c \<in> set (snd x) \<Longrightarrow> c \<in> set xs \<and> (ca_relative_path c, ca_uri c) = fst x"
proof (induction xs arbitrary: x rule: rev_induct)
  case (snoc y ys)
  define g where "g = fold add_candidate ys []"
  define k where "k = (ca_relative_path y, ca_uri y)"
  define old where "old = (case map_of g k of None \<Rightarrow> [] | Some xs \<Rightarrow> xs)"
  have "x \<in> set (AList.update k (old @ [y]) g)" using snoc.prems(1) by (simp add: g_def k_def old_def)
  then consider "x \<in> set g" | "x = (k, old @ [y])" using set_update_subset [of k "old @ [y]" g] by blast
  then show ?case
  proof cases
    case 1
    with snoc.IH [of x] snoc.prems(2) show ?thesis by (simp add: g_def)
  next
    case 2
    show ?thesis
    proof (cases "c = y")
      case False
      with 2 snoc.prems(2) have "c \<in> set old" by simp
      then have "(k, old) \<in> set g" by (auto simp: old_def dest: map_of_SomeD split: option.splits)
      with snoc.IH [of "(k, old)"] \<open>c \<in> set old\<close> 2 show ?thesis by (simp add: g_def)
    qed (simp add: 2 k_def)
  qed
qed simp

lemma group_candidates_sound:
  assumes "((rel, uri), cs) \<in> set (group_candidates xs)" "c \<in> set cs"
  shows "c \<in> set xs \<and> ca_relative_path c = rel \<and> ca_uri c = uri"
  using assms candidate_groups [of "((rel, uri), cs)" xs c] by (simp add: group_candidates_def)

lemma candidate_groups_complete:
  "c \<in> set xs \<Longrightarrow> \<exists>cs. map_of (fold add_candidate xs []) (ca_relative_path c, ca_uri c) = Some cs \<and> c \<in> set cs"
proof (induction xs rule: rev_induct)
  case (snoc y ys)
  show ?case
  proof (cases "c \<in> set ys")
    case True
    with snoc.IH obtain cs where "map_of (fold add_candidate ys []) (ca_relative_path c, ca_uri c) = Some cs" "c \<in> set cs" by blast
    then show ?thesis by (cases "(ca_relative_path c, ca_uri c) = (ca_relative_path y, ca_uri y)") (auto simp: update_conv')
  next
    case False
    with snoc.prems have "c = y" by simp
    then show ?thesis by (simp add: update_conv')
  qed
qed simp

lemma group_candidates_complete:
  assumes "c \<in> set xs" shows "\<exists>cs. ((ca_relative_path c, ca_uri c), cs) \<in> set (group_candidates xs) \<and> c \<in> set cs"
  using candidate_groups_complete [OF assms] by (auto simp: group_candidates_def dest!: map_of_SomeD)

text \<open>The candidates a provider returned that are accepted, in the order they are considered, and how many are over the bound.\<close>

definition accepted_of ::
    "(text_cp \<Rightarrow> text_cp option) \<Rightarrow> workspace_md \<Rightarrow> name_path_pattern \<Rightarrow> bool \<Rightarrow> int \<Rightarrow> provider_run \<Rightarrow> candidate list" where
  "accepted_of uri_path w p substring maxc pr = sort_key candidate_key (List.map_filter
     (accept_candidate uri_path p substring (wm_root w) (ps_paths (gs_program (pr_state pr)))) (sb_candidates (pr_batch pr (global_query p) maxc)))"

definition dropped_by ::
    "(text_cp \<Rightarrow> text_cp option) \<Rightarrow> workspace_md \<Rightarrow> name_path_pattern \<Rightarrow> bool \<Rightarrow> int \<Rightarrow> provider_run \<Rightarrow> int" where
  "dropped_by uri_path w p substring maxc pr =
     max 0 (int (length (accepted_of uri_path w p substring maxc pr)) - maxc) + sb_omitted (pr_batch pr (global_query p) maxc)"

lemma search_providers_complete:
  assumes "search_providers lib uri_path w p substring body info maxc prs = Inr (rs, n)" and "0 \<le> maxc"
  shows "n = (\<Sum>pr\<leftarrow>prs. dropped_by uri_path w p substring maxc pr) \<and>
    (\<forall>pr \<in> set prs. \<forall>c \<in> set (take (nat maxc) (accepted_of uri_path w p substring maxc pr)).
      let d = pr_document pr (ca_relative_path c) (ca_uri c) in
      \<exists>roots. normalize_document_symbols (global_normalizer lib d) (db_recover d) (db_raw_symbols d) = Inr roots \<and>
        (\<forall>s \<in> set (forest roots). global_matches s p substring \<longrightarrow> candidate_verifies_symbol c s \<longrightarrow>
          (\<exists>r \<in> set rs. global_symbol_data lib (pr_state pr) d s body info = Inr r)))"
  using assms(1)
proof (induction prs arbitrary: rs n)
  case (Cons pr prs)
  let ?cands = "candidate_files uri_path (sb_candidates (pr_batch pr (global_query p) maxc)) p substring w (gs_program (pr_state pr))"
  let ?kept = "take (nat maxc) ?cands"
  have cands: "?cands = accepted_of uri_path w p substring maxc pr" by (simp add: candidate_files_def accepted_of_def)
  have "\<exists>rs1 rs2 n2. search_files lib w pr p substring body info (group_candidates ?kept) = Inr rs1 \<and>
      search_providers lib uri_path w p substring body info maxc prs = Inr (rs2, n2) \<and> rs = rs1 @ rs2 \<and>
      n = int (length ?cands - length ?kept) + sb_omitted (pr_batch pr (global_query p) maxc) + n2"
    using Cons.prems by (auto simp: Let_def map_sum_Inr split: if_splits sum.splits)
  then obtain rs1 rs2 n2 where f: "search_files lib w pr p substring body info (group_candidates ?kept) = Inr rs1"
    and r: "search_providers lib uri_path w p substring body info maxc prs = Inr (rs2, n2)" "rs = rs1 @ rs2"
      "n = int (length ?cands - length ?kept) + sb_omitted (pr_batch pr (global_query p) maxc) + n2" by blast
  have "int (length ?cands - length ?kept) = max 0 (int (length ?cands) - maxc)" using assms(2) by (simp add: max_def)
  with r(3) cands have n: "n = dropped_by uri_path w p substring maxc pr + n2" by (simp add: dropped_by_def)
  have mine: "let d = pr_document pr (ca_relative_path c) (ca_uri c) in
      \<exists>roots. normalize_document_symbols (global_normalizer lib d) (db_recover d) (db_raw_symbols d) = Inr roots \<and>
        (\<forall>s \<in> set (forest roots). global_matches s p substring \<longrightarrow> candidate_verifies_symbol c s \<longrightarrow>
          (\<exists>r \<in> set rs. global_symbol_data lib (pr_state pr) d s body info = Inr r))"
    if c: "c \<in> set (take (nat maxc) (accepted_of uri_path w p substring maxc pr))" for c
  proof -
    obtain cs where cs: "((ca_relative_path c, ca_uri c), cs) \<in> set (group_candidates ?kept)" "c \<in> set cs"
      using group_candidates_complete [OF c] cands by auto
    from search_files_complete [OF f cs(1)] cs(2) r(2) show ?thesis unfolding Let_def by fastforce
  qed
  note ih = Cons.IH [OF r(1)]
  have rest: "let d = pr_document q (ca_relative_path c) (ca_uri c) in
      \<exists>roots. normalize_document_symbols (global_normalizer lib d) (db_recover d) (db_raw_symbols d) = Inr roots \<and>
        (\<forall>s \<in> set (forest roots). global_matches s p substring \<longrightarrow> candidate_verifies_symbol c s \<longrightarrow>
          (\<exists>r \<in> set rs. global_symbol_data lib (pr_state q) d s body info = Inr r))"
    if "q \<in> set prs" "c \<in> set (take (nat maxc) (accepted_of uri_path w p substring maxc q))" for q c
    using ih [THEN conjunct2, rule_format, OF that] r(2) unfolding Let_def by fastforce
  show ?case using n ih [THEN conjunct1] mine rest by auto
qed simp

lemma search_providers_sound:
  assumes "search_providers lib uri_path w p substring body info maxc prs = Inr (rs, n)"
  shows "(\<forall>pr \<in> set prs. unchanged pr) \<and> (\<forall>r \<in> set rs. \<exists>pr \<in> set prs. found_by lib uri_path w p substring body info maxc pr r)"
  using assms
proof (induction prs arbitrary: rs n)
  case (Cons pr prs)
  let ?cands = "candidate_files uri_path (sb_candidates (pr_batch pr (global_query p) maxc)) p substring w (gs_program (pr_state pr))"
  let ?kept = "take (nat maxc) ?cands"
  have "\<exists>rs1 rs2 n2. search_files lib w pr p substring body info (group_candidates ?kept) = Inr rs1 \<and> unchanged pr \<and>
      search_providers lib uri_path w p substring body info maxc prs = Inr (rs2, n2) \<and> rs = rs1 @ rs2"
    using Cons.prems by (auto simp: Let_def unchanged_def map_sum_Inr split: if_splits sum.splits)
  then obtain rs1 rs2 n2 where f: "search_files lib w pr p substring body info (group_candidates ?kept) = Inr rs1" and u: "unchanged pr"
    and r: "search_providers lib uri_path w p substring body info maxc prs = Inr (rs2, n2)" "rs = rs1 @ rs2" by blast
  have "found_by lib uri_path w p substring body info maxc pr x" if "x \<in> set rs1" for x
  proof -
    from search_files_sound [OF f that] obtain rel uri cs roots c s where c: "((rel, uri), cs) \<in> set (group_candidates ?kept)" "c \<in> set cs"
      and d: "db_relative_path (pr_document pr rel uri) = rel" "db_uri (pr_document pr rel uri) = uri"
        "same_global_generation (gs_generations (pr_state pr)) (db_generations (pr_document pr rel uri))"
        "normalize_document_symbols (global_normalizer lib (pr_document pr rel uri)) (db_recover (pr_document pr rel uri))
          (db_raw_symbols (pr_document pr rel uri)) = Inr roots" "s \<in> set (forest roots)"
        "global_matches s p substring" "candidate_verifies_symbol c s"
        "global_symbol_data lib (pr_state pr) (pr_document pr rel uri) s body info = Inr x" by blast
    from group_candidates_sound [OF c] have k: "c \<in> set ?kept" "ca_relative_path c = rel" "ca_uri c = uri" by auto
    from k(1) have "c \<in> set ?cands" by (rule in_set_takeD)
    then obtain raw where "raw \<in> set (sb_candidates (pr_batch pr (global_query p) maxc))"
        "accept_candidate uri_path p substring (wm_root w) (ps_paths (gs_program (pr_state pr))) raw = Some c"
      by (auto simp: candidate_files_def List.map_filter_def)
    with d k show ?thesis unfolding found_by_def by blast
  qed
  with Cons.IH [OF r(1)] u r(2) show ?case by auto
qed simp

lemma search_providers_fails: "search_providers lib uri_path w p substring body info maxc prs \<noteq> Inl (Inr (Success e))"
proof (induction prs)
  case (Cons pr prs)
  then show ?case using search_files_fails
    by (auto simp: Let_def generation_not_ready_def global_error_fails map_sum_Inl split: sum.splits if_splits)
qed simp

lemma deduplicate_spec:
  "set (deduplicate_and_sort rs) \<subseteq> set rs" "distinct (map (\<lambda>r. sorted_json (snd r)) (deduplicate_and_sort rs))"
  "(\<lambda>r. sorted_json (snd r)) ` set (deduplicate_and_sort rs) = (\<lambda>r. sorted_json (snd r)) ` set rs"
proof -
  define g where "g = fold (\<lambda>r. AList.update (sorted_json (snd r)) r) rs []"
  have g: "distinct (map fst g)" "\<forall>(a, r) \<in> set g. a = sorted_json (snd r)" "fst ` set g = (\<lambda>r. sorted_json (snd r)) ` set rs" "snd ` set g \<subseteq> set rs"
    using dict_of_keys [of "[]" "\<lambda>r. sorted_json (snd r)" rs] by (simp_all add: g_def)
  then have m: "map (\<lambda>r. sorted_json (snd r)) (map snd g) = map fst g" by auto
  have i: "(\<lambda>r. sorted_json (snd r)) ` snd ` set g = fst ` set g" using arg_cong [OF m, of set] by (simp add: image_image)
  have d: "deduplicate_and_sort rs = sort_key fst (map snd g)" by (simp add: deduplicate_and_sort_def g_def)
  show "set (deduplicate_and_sort rs) \<subseteq> set rs" using g(4) by (simp add: d)
  show "distinct (map (\<lambda>r. sorted_json (snd r)) (deduplicate_and_sort rs))"
    unfolding d by (rule distinct_sort_key) (unfold m, rule g(1))
  show "(\<lambda>r. sorted_json (snd r)) ` set (deduplicate_and_sort rs) = (\<lambda>r. sorted_json (snd r)) ` set rs"
    using i g(3) by (simp add: d)
qed

lemma bound_global_success:
  assumes "bound_global w states data rendered omitted m = Inr (Success e)"
  shows "\<exists>n \<le> length rendered. se_data e = data (take n rendered) \<and> int (length (sorted_json (se_data e))) \<le> m \<and> se_workspace e = Some w \<and>
    (n < length rendered \<longrightarrow> int (length (sorted_json (data (take (Suc n) rendered)))) > m) \<and>
    se_truncation e = Some \<lparr>tm_truncated = 0 < omitted + int (length rendered - n), tm_omitted = omitted + int (length rendered - n)\<rparr>"
proof -
  let ?fits = "\<lambda>xs. int (length (sorted_json (data xs))) \<le> m"
  define kept where "kept = keep_while ?fits [] rendered"
  have base: "?fits []" using assms global_error_fails by (auto simp: bound_global_def Let_def split: if_splits)
  then have s: "\<exists>a g. make_success (obj_of_json (data kept)) (Some w) a g
      (Some \<lparr>tm_truncated = 0 < omitted + int (length rendered - length kept), tm_omitted = omitted + int (length rendered - length kept)\<rparr>) = Inr e"
    using assms by (auto simp: bound_global_def kept_def Let_def split: sum.splits)
  note k = keep_while_longest [of ?fits rendered kept, OF kept_def [symmetric]]
  have "length kept \<le> length rendered" using k(1) by (metis length_take min.cobounded1)
  moreover have "?fits kept" using base k(2) by (cases "kept = []") auto
  ultimately show ?thesis using s k(1,3) by (intro exI [of _ "length kept"]) (auto simp: make_success_def map_sum_Inr dest: json_value_id)
qed

section \<open>The lookup\<close>

lemma accepted_in_scope:
  assumes "accept_candidate uri_path p substring rt allowed raw = Some c"
  shows "ca_relative_path c \<in> set allowed" "workspace_relative_path uri_path (ca_uri c) rt = Some (ca_relative_path c)"
    "if substring then contains (global_query p) (ca_name c) else ca_name c = global_query p"
  using assms by (auto simp: accept_candidate_def split: option.splits json.splits if_splits sum.splits)

lemma parsed_nonempty: assumes "parse_name_path v = Some p" shows "np_components p \<noteq> []"
proof -
  have "split_slash t \<noteq> []" for t by (induction t rule: split_slash.induct) (auto split: list.splits)
  then show ?thesis using assms by (auto simp: parse_name_path_def Let_def split: name_path_arg.splits if_splits)
qed

lemma matched_last:
  assumes "global_matches s p False" "np_components p \<noteq> []"
  shows "last (sy_path s) = global_query p"
proof -
  let ?n = "length (np_components p)" and ?m = "length (sy_path s)"
  have l: "?n \<le> ?m" "list_all (\<lambda>(i, e, a). e = a) (zip [0..<?n] (zip (np_components p) (drop (?m - ?n) (sy_path s))))"
    using assms(1) by (auto simp: global_matches_def Let_def split: if_splits)
  have "np_components p ! i = drop (?m - ?n) (sy_path s) ! i" if "i < ?n" for i
    using l that by (auto simp: list_all_length)
  then have "np_components p = drop (?m - ?n) (sy_path s)" using l(1) by (intro nth_equalityI) auto
  then have "last (np_components p) = last (sy_path s)" using assms(2) by (metis last_drop length_greater_0_conv length_drop zero_less_diff)
  then show ?thesis by (simp add: global_query_def)
qed

lemma found_by_origin:
  assumes "found_by lib uri_path w p substring body info maxc pr r" "np_components p \<noteq> []"
  shows "\<exists>raw c roots s. let d = pr_document pr (ca_relative_path c) (ca_uri c) in
       raw \<in> set (sb_candidates (pr_batch pr (global_query p) maxc)) \<and>
       accept_candidate uri_path p substring (wm_root w) (ps_paths (gs_program (pr_state pr))) raw = Some c \<and>
       db_relative_path d \<in> set (ps_paths (gs_program (pr_state pr))) \<and>
       workspace_relative_path uri_path (db_uri d) (wm_root w) = Some (db_relative_path d) \<and>
       same_global_generation (gs_generations (pr_state pr)) (db_generations d) \<and>
       normalize_document_symbols (global_normalizer lib d) (db_recover d) (db_raw_symbols d) = Inr roots \<and> s \<in> set (forest roots) \<and>
       global_matches s p substring \<and> candidate_verifies_symbol c s \<and> global_symbol_data lib (pr_state pr) d s body info = Inr r \<and>
       (substring \<or> sy_name s = last (sy_path s))"
proof -
  from assms(1) obtain raw c d roots s where k: "raw \<in> set (sb_candidates (pr_batch pr (global_query p) maxc))"
    "accept_candidate uri_path p substring (wm_root w) (ps_paths (gs_program (pr_state pr))) raw = Some c"
    "d = pr_document pr (ca_relative_path c) (ca_uri c)" "db_relative_path d = ca_relative_path c" "db_uri d = ca_uri c"
    "same_global_generation (gs_generations (pr_state pr)) (db_generations d)"
    "normalize_document_symbols (global_normalizer lib d) (db_recover d) (db_raw_symbols d) = Inr roots" "s \<in> set (forest roots)"
    "global_matches s p substring" "candidate_verifies_symbol c s" "global_symbol_data lib (pr_state pr) d s body info = Inr r"
    unfolding found_by_def by blast
  note a = accepted_in_scope [OF k(2)]
  have "sy_name s = last (sy_path s)" if "\<not> substring"
    using matched_last [of s p] k(9,10) a(3) assms(2) that by (simp add: candidate_verifies_symbol_def)
  with k a(1,2) show ?thesis
    by (intro exI [of _ raw] exI [of _ c] exI [of _ roots] exI [of _ s]) (auto simp: Let_def)
qed

lemma global_find_symbol_success:
  assumes "global_find_symbol lib uri_path prs name_path substring body info maxc m = Inr (Success e)"
  shows "\<exists>p w rs omitted. parse_name_path name_path = Some p \<and> 1 \<le> maxc \<and> (\<forall>pr \<in> set prs. gs_workspace (pr_state pr) = w) \<and>
    (\<forall>pr \<in> set prs. gs_supported (pr_state pr) \<and> gs_ready (pr_state pr)) \<and>
    search_providers lib uri_path w p substring body info maxc prs = Inr (rs, omitted) \<and>
    bound_global w (map pr_state prs) (global_json p substring body info (map pr_state prs)) (map snd (deduplicate_and_sort rs)) omitted m =
      Inr (Success e)"
proof -
  note fails = global_error_fails search_providers_fails
  obtain p where p: "parse_name_path name_path = Some p" using assms fails by (auto simp: global_find_symbol_def split: option.splits)
  have mc: "1 \<le> maxc" using assms fails p by (auto simp: global_find_symbol_def split: if_splits)
  obtain w where w: "common_workspace (map pr_state prs) = Some w"
    using assms fails p by (auto simp: global_find_symbol_def Let_def split: option.splits if_splits)
  have ready: "filter (\<lambda>s. \<not> gs_supported s) (map pr_state prs) = []" "filter (\<lambda>s. \<not> gs_ready s) (map pr_state prs) = []"
    using assms fails p w by (auto simp: global_find_symbol_def Let_def simp del: filter_map split: if_splits)
  obtain rs omitted where s: "search_providers lib uri_path w p substring body info maxc prs = Inr (rs, omitted)"
    using assms fails p w ready by (auto simp: global_find_symbol_def Let_def simp del: filter_map split: if_splits sum.splits)
  have b: "bound_global w (map pr_state prs) (global_json p substring body info (map pr_state prs)) (map snd (deduplicate_and_sort rs)) omitted m =
      Inr (Success e)"
    using assms fails p w ready s by (auto simp: global_find_symbol_def Let_def simp del: filter_map split: if_splits)
  have "\<forall>pr \<in> set prs. gs_workspace (pr_state pr) = w" using w by (auto simp: common_workspace_def Let_def list_all_iff split: if_splits)
  moreover have "\<forall>pr \<in> set prs. gs_supported (pr_state pr) \<and> gs_ready (pr_state pr)" using ready by (auto simp: filter_empty_conv)
  ultimately show ?thesis using p mc s b by blast
qed

text \<open>
  C16: A global lookup answers from the configured program only, and accounts for all it found.
  Every symbol found comes from a document of some provider whose path is in that provider's
  configured program and under the workspace root; it matches the requested name path, is
  confirmed by an accepted candidate, and the document has the generation of the provider's
  state; no provider changed during the lookup.  Conversely every symbol confirmed by one of the
  first \<open>max_candidates_per_adapter\<close> accepted candidates of a provider is among the symbols found.  They
  are listed without repetition in canonical order; the answer shows the longest prefix
  that fits its bound, and the reported omissions are the symbols found and not shown, the
  accepted candidates over the bound, and what the providers say they left out.  An exact
  lookup returns only symbols whose last path segment is their bare name, hence never one of
  several equally named siblings, whose segments carry an index.
\<close>

theorem global_answer_in_program:
  assumes "global_find_symbol lib uri_path prs name_path substring body info maxc m = Inr (Success e)"
  shows "\<exists>p w found n. parse_name_path name_path = Some p \<and> (\<forall>pr \<in> set prs. gs_workspace (pr_state pr) = w) \<and>
    (\<forall>pr \<in> set prs. gs_supported (pr_state pr) \<and> gs_ready (pr_state pr) \<and> unchanged pr) \<and>
    distinct (map (\<lambda>r. sorted_json (snd r)) found) \<and> sorted (map fst found) \<and>
    (\<forall>r \<in> set found. \<exists>pr \<in> set prs. \<exists>raw c roots s. let d = pr_document pr (ca_relative_path c) (ca_uri c) in
       raw \<in> set (sb_candidates (pr_batch pr (global_query p) maxc)) \<and>
       accept_candidate uri_path p substring (wm_root w) (ps_paths (gs_program (pr_state pr))) raw = Some c \<and>
       db_relative_path d \<in> set (ps_paths (gs_program (pr_state pr))) \<and>
       workspace_relative_path uri_path (db_uri d) (wm_root w) = Some (db_relative_path d) \<and>
       same_global_generation (gs_generations (pr_state pr)) (db_generations d) \<and>
       normalize_document_symbols (global_normalizer lib d) (db_recover d) (db_raw_symbols d) = Inr roots \<and> s \<in> set (forest roots) \<and>
       global_matches s p substring \<and> candidate_verifies_symbol c s \<and> global_symbol_data lib (pr_state pr) d s body info = Inr r \<and>
       (substring \<or> sy_name s = last (sy_path s))) \<and>
    (\<forall>pr \<in> set prs. \<forall>c \<in> set (take (nat maxc) (accepted_of uri_path w p substring maxc pr)).
      let d = pr_document pr (ca_relative_path c) (ca_uri c) in
      \<exists>roots. normalize_document_symbols (global_normalizer lib d) (db_recover d) (db_raw_symbols d) = Inr roots \<and>
        (\<forall>s \<in> set (forest roots). global_matches s p substring \<longrightarrow> candidate_verifies_symbol c s \<longrightarrow>
          (\<exists>r. global_symbol_data lib (pr_state pr) d s body info = Inr r \<and>
               sorted_json (snd r) \<in> (\<lambda>r. sorted_json (snd r)) ` set found))) \<and>
    n \<le> length found \<and> se_data e = global_json p substring body info (map pr_state prs) (take n (map snd found)) \<and>
    int (length (sorted_json (se_data e))) \<le> m \<and>
    (n < length found \<longrightarrow>
       int (length (sorted_json (global_json p substring body info (map pr_state prs) (take (Suc n) (map snd found))))) > m) \<and>
    (let omitted = (\<Sum>pr\<leftarrow>prs. dropped_by uri_path w p substring maxc pr) + int (length found - n) in
       se_truncation e = Some \<lparr>tm_truncated = 0 < omitted, tm_omitted = omitted\<rparr>)"
proof -
  from global_find_symbol_success [OF assms] obtain p w rs omitted where p: "parse_name_path name_path = Some p" and mc: "1 \<le> maxc"
    and same: "\<forall>pr \<in> set prs. gs_workspace (pr_state pr) = w" and ready: "\<forall>pr \<in> set prs. gs_supported (pr_state pr) \<and> gs_ready (pr_state pr)"
    and s: "search_providers lib uri_path w p substring body info maxc prs = Inr (rs, omitted)"
    and b: "bound_global w (map pr_state prs) (global_json p substring body info (map pr_state prs)) (map snd (deduplicate_and_sort rs)) omitted m =
      Inr (Success e)" by blast
  let ?found = "deduplicate_and_sort rs"
  from bound_global_success [OF b] obtain n where n: "n \<le> length ?found"
    "se_data e = global_json p substring body info (map pr_state prs) (take n (map snd ?found))"
    "int (length (sorted_json (se_data e))) \<le> m"
    "n < length ?found \<longrightarrow> int (length (sorted_json (global_json p substring body info (map pr_state prs) (take (Suc n) (map snd ?found))))) > m"
    "se_truncation e = Some \<lparr>tm_truncated = 0 < omitted + int (length ?found - n), tm_omitted = omitted + int (length ?found - n)\<rparr>" by auto
  have "0 \<le> maxc" using mc by simp
  note all = search_providers_complete [OF s this]
  have listed: "sorted_json (snd r) \<in> (\<lambda>r. sorted_json (snd r)) ` set ?found" if "r \<in> set rs" for r
    using that unfolding deduplicate_spec(3) by blast
  have complete: "\<forall>pr \<in> set prs. \<forall>c \<in> set (take (nat maxc) (accepted_of uri_path w p substring maxc pr)).
      let d = pr_document pr (ca_relative_path c) (ca_uri c) in
      \<exists>roots. normalize_document_symbols (global_normalizer lib d) (db_recover d) (db_raw_symbols d) = Inr roots \<and>
        (\<forall>s \<in> set (forest roots). global_matches s p substring \<longrightarrow> candidate_verifies_symbol c s \<longrightarrow>
          (\<exists>r. global_symbol_data lib (pr_state pr) d s body info = Inr r \<and>
               sorted_json (snd r) \<in> (\<lambda>r. sorted_json (snd r)) ` set ?found))"
  proof (intro ballI)
    fix pr c
    assume "pr \<in> set prs" "c \<in> set (take (nat maxc) (accepted_of uri_path w p substring maxc pr))"
    from all [THEN conjunct2, rule_format, OF this]
    show "let d = pr_document pr (ca_relative_path c) (ca_uri c) in
      \<exists>roots. normalize_document_symbols (global_normalizer lib d) (db_recover d) (db_raw_symbols d) = Inr roots \<and>
        (\<forall>s \<in> set (forest roots). global_matches s p substring \<longrightarrow> candidate_verifies_symbol c s \<longrightarrow>
          (\<exists>r. global_symbol_data lib (pr_state pr) d s body info = Inr r \<and>
               sorted_json (snd r) \<in> (\<lambda>r. sorted_json (snd r)) ` set ?found))"
      unfolding Let_def using listed by blast
  qed
  have "\<exists>pr \<in> set prs. found_by lib uri_path w p substring body info maxc pr r" if "r \<in> set ?found" for r
    using search_providers_sound [OF s] deduplicate_spec(1) that by blast
  then have origins: "\<forall>r \<in> set ?found. \<exists>pr \<in> set prs. \<exists>raw c roots s. let d = pr_document pr (ca_relative_path c) (ca_uri c) in
       raw \<in> set (sb_candidates (pr_batch pr (global_query p) maxc)) \<and>
       accept_candidate uri_path p substring (wm_root w) (ps_paths (gs_program (pr_state pr))) raw = Some c \<and>
       db_relative_path d \<in> set (ps_paths (gs_program (pr_state pr))) \<and>
       workspace_relative_path uri_path (db_uri d) (wm_root w) = Some (db_relative_path d) \<and>
       same_global_generation (gs_generations (pr_state pr)) (db_generations d) \<and>
       normalize_document_symbols (global_normalizer lib d) (db_recover d) (db_raw_symbols d) = Inr roots \<and> s \<in> set (forest roots) \<and>
       global_matches s p substring \<and> candidate_verifies_symbol c s \<and> global_symbol_data lib (pr_state pr) d s body info = Inr r \<and>
       (substring \<or> sy_name s = last (sy_path s))"
    using parsed_nonempty [OF p] by (blast intro: found_by_origin)
  have unch: "\<forall>pr \<in> set prs. unchanged pr" using search_providers_sound [OF s] by blast
  have srt: "sorted (map fst ?found)" by (simp add: deduplicate_and_sort_def)
  show ?thesis
    unfolding Let_def
    apply (intro exI [of _ p] exI [of _ w] exI [of _ ?found] exI [of _ n] conjI)
    using p same ready unch deduplicate_spec(2) [of rs] srt origins complete n all [THEN conjunct1] unfolding Let_def by blast+
qed

section \<open>A run\<close>

definition glo_raw :: json where
  "glo_raw = JObj [(lit ''name'', JStr (lit ''f'')), (lit ''kind'', JInt 12), (lit ''range'', JObj
     [(lit ''start'', JObj [(lit ''line'', JInt 0), (lit ''character'', JInt 0)]),
      (lit ''end'', JObj [(lit ''line'', JInt 0), (lit ''character'', JInt 1)])])]"

definition glo_symbol :: symbol where
  "glo_symbol = Symbol (lit ''f'') (lit ''f'') [lit ''f''] 12
     \<lparr>loc_uri = lit ''u'', loc_range = \<lparr>rg_start = (0, 0), rg_end = (0, 1)\<rparr>, loc_path = None\<rparr> \<lparr>rg_start = (0, 0), rg_end = (0, 1)\<rparr> None [] None"

definition glo_state :: global_state where
  "glo_state = \<lparr>gs_workspace = \<lparr>wm_root = lit ''/w'', wm_kind = lit ''git'', wm_subdir = lit ''.''\<rparr>,
     gs_adapter = \<lparr>am_name = lit ''pyright'', am_language = None\<rparr>,
     gs_generations = \<lparr>gm_trust = None, gm_program = Some 1, gm_document = None, gm_index = Some 1, gm_scope = None\<rparr>,
     gs_program = \<lparr>ps_paths = [lit ''a.py''], ps_project_kind = lit ''python'', ps_config_path = None, ps_file_count = 1, ps_sha256 = []\<rparr>,
     gs_supported = True, gs_ready = True, gs_phase = lit ''ready'', gs_retry_after = None\<rparr>"

definition glo_document :: document_batch where
  "glo_document = \<lparr>db_relative_path = lit ''a.py'', db_uri = lit ''u'', db_raw_symbols = Some [glo_raw], db_generations = gs_generations glo_state,
     db_snapshot = demo_snapshot, db_encoding = UTF16, db_normalize_name = None, db_recover = None, db_completeness = None\<rparr>"

definition glo_candidate :: json where
  "glo_candidate = JObj [(lit ''name'', JStr (lit ''f'')), (lit ''kind'', JInt 12), (lit ''location'', JObj [(lit ''uri'', JStr (lit ''u''))])]"

definition glo_run :: provider_run where
  "glo_run = \<lparr>pr_state = glo_state, pr_batch = (\<lambda>_ _. \<lparr>sb_candidates = [glo_candidate], sb_generations = gs_generations glo_state,
       sb_truncated = False, sb_omitted = 0\<rparr>), pr_document = (\<lambda>_ _. glo_document), pr_current = glo_state\<rparr>"

definition glo_uri_path :: "text_cp \<Rightarrow> text_cp option" where "glo_uri_path u = Some (lit ''/w/a.py'')"

abbreviation (input) glo_pattern :: name_path_pattern where "glo_pattern \<equiv> \<lparr>np_components = [lit ''f''], np_absolute = True\<rparr>"

lemma glo_normalized: "normalize_document_symbols (global_normalizer nav_lib glo_document) None (Some [glo_raw]) = Inr [glo_symbol]"
  by (simp add: normalize_document_symbols_def global_normalizer_def glo_document_def nav_lib_def glo_raw_def glo_symbol_def
    normalize_siblings.simps normalize_rest.simps
    symbol_location_def symbol_selection_def symbol_kind_value_def child_mappings_def symbol_detail_def raw_get_def is_mapping_def
    lsp_raw_range_def lsp_raw_position_def make_range_def segment_def Let_def lit_simps)

lemma glo_relative: "workspace_relative_path glo_uri_path (lit ''u'') (lit ''/w'') = Some (lit ''a.py'')"
  by code_simp

lemma glo_accepted:
  "accept_candidate glo_uri_path glo_pattern False (lit ''/w'') [lit ''a.py''] glo_candidate =
     Some \<lparr>ca_name = lit ''f'', ca_kind = 12, ca_relative_path = lit ''a.py'', ca_uri = lit ''u'', ca_range = None\<rparr>"
  using glo_relative by (simp add: accept_candidate_def glo_candidate_def raw_get_def global_query_def candidate_range_def lit_simps)

lemma glo_rendered: "\<exists>k j. global_symbol_data nav_lib glo_state glo_document glo_symbol False False = Inr (k, j) \<and> no_secret_keys j"
proof -
  have "\<exists>a b. render_range \<lparr>pm_snapshot = demo_snapshot, pm_encoding = UTF16\<rparr> \<lparr>lsp_line = 0, lsp_character = 0\<rparr> \<lparr>lsp_line = 0, lsp_character = 1\<rparr> = Inr (a, b)"
    by (simp add: render_range_def render_position_def position_eval)
  then obtain a b where r: "render_range \<lparr>pm_snapshot = demo_snapshot, pm_encoding = UTF16\<rparr> \<lparr>lsp_line = 0, lsp_character = 0\<rparr>
      \<lparr>lsp_line = 0, lsp_character = 1\<rparr> = Inr (a, b)" by blast
  have "list_all (\<lambda>k. \<not> secret_key (lit k)) [''name'', ''name_path'', ''kind'', ''relative_path'', ''location'', ''uri'', ''range'', ''start'', ''end'',
     ''line'', ''column'', ''text_offset'', ''byte_offset'', ''adapter'', ''generations'', ''program'', ''index'']"
    by (simp add: secret_key_def SECRET_KEY_FRAGMENTS_def lit_simps lower_cp_def)
  then show ?thesis using r by (simp add: global_symbol_data_def glo_symbol_def glo_document_def lsp_position_of_def position_json_def
    adapter_md_dict_def generation_md_dict_def present_def glo_state_def List.map_filter_def Let_def del: lit_simps)
qed

lemma glo_searched:
  assumes "global_symbol_data nav_lib glo_state glo_document glo_symbol False False = Inr r"
  shows "search_providers nav_lib glo_uri_path (gs_workspace glo_state) glo_pattern False False False 1 [glo_run] = Inr ([r], 0)"
proof -
  let ?c = "\<lparr>ca_name = lit ''f'', ca_kind = 12, ca_relative_path = lit ''a.py'', ca_uri = lit ''u'', ca_range = None\<rparr>"
  have c: "candidate_files glo_uri_path [glo_candidate] glo_pattern False (gs_workspace glo_state) (gs_program glo_state) = [?c]"
    using glo_accepted by (simp add: candidate_files_def List.map_filter_def glo_state_def del: lit_simps)
  have g: "group_candidates [?c] = [((lit ''a.py'', lit ''u''), [?c])]" by (simp add: group_candidates_def)
  have gen: "same_global_generation (gs_generations glo_state) (gs_generations glo_state)" by (simp add: same_global_generation_def glo_state_def)
  have m: "global_matches glo_symbol glo_pattern False" by (simp add: global_matches_def glo_symbol_def Let_def)
  have v: "candidate_verifies_symbol ?c glo_symbol" by (simp add: candidate_verifies_symbol_def glo_symbol_def)
  have "render_file_symbols nav_lib (gs_workspace glo_state) glo_state glo_document [?c] glo_pattern False False False [glo_symbol] = Inr [r]"
    using m v assms by simp
  moreover have "concat (map iter_depth_first [glo_symbol]) = [glo_symbol]" by (simp add: glo_symbol_def)
  moreover have d: "db_relative_path glo_document = lit ''a.py''" "db_uri glo_document = lit ''u''" "db_generations glo_document = gs_generations glo_state"
    "db_recover glo_document = None" "db_raw_symbols glo_document = Some [glo_raw]" by (simp_all add: glo_document_def)
  ultimately have f: "search_files nav_lib (gs_workspace glo_state) glo_run glo_pattern False False False (group_candidates [?c]) = Inr [r]"
    using gen glo_normalized unfolding g by (simp add: glo_run_def Let_def del: lit_simps)
  have "gs_supported glo_state" "gs_ready glo_state" "same_configured_scope (gs_program glo_state) (gs_program glo_state)"
    by (simp_all add: glo_state_def same_configured_scope_def)
  with f c gen show ?thesis by (simp add: glo_run_def Let_def del: lit_simps)
qed

lemma glo_json_clean:
  assumes "list_all no_secret_keys js"
  shows "no_secret_keys (global_json glo_pattern False False False [glo_state] js)"
proof -
  have "list_all (\<lambda>k. \<not> secret_key (lit k)) [''name_path'', ''substring_matching'', ''include_body'', ''include_info'', ''scope'', ''adapters'', ''symbols'',
     ''adapter'', ''phase'', ''workspace_symbols_supported'', ''global_ready'', ''generations'', ''configured_program'', ''name'', ''program'', ''index'',
     ''project_kind'', ''selected_config_path'', ''file_count'', ''sha256'']"
    by (simp add: secret_key_def SECRET_KEY_FRAGMENTS_def lit_simps lower_cp_def)
  with assms show ?thesis
    by (simp add: global_json_def state_data_def program_scope_dict_def adapter_md_dict_def generation_md_dict_def present_def glo_state_def
      List.map_filter_def opt_json_def del: lit_simps)
qed

lemma glo_runs:
  "\<exists>m e. global_find_symbol nav_lib glo_uri_path [glo_run] (NPText (lit ''/f'')) False False False 1 m = Inr (Success e) \<and>
     (\<exists>j. se_data e = global_json glo_pattern False False False [glo_state] [j])"
proof -
  obtain k j where r: "global_symbol_data nav_lib glo_state glo_document glo_symbol False False = Inr (k, j)" "no_secret_keys j"
    using glo_rendered by blast
  let ?data = "global_json glo_pattern False False False [glo_state]"
  define m where "m = int (length (sorted_json (?data [j])))"
  have p: "parse_name_path (NPText (lit ''/f'')) = Some glo_pattern"
    by (simp add: parse_name_path_def strip_slashes_def Let_def lit_simps)
  have pos: "0 < m" by (simp add: m_def sorted_json_def global_json_def)
  have base: "length (sorted_json (?data [])) \<le> length (sorted_json (?data [j]))"
    unfolding sorted_json_length global_json_def object_length by (simp add: join_comma_length)
  have w: "common_workspace [glo_state] = Some (gs_workspace glo_state)" by (simp add: common_workspace_def)
  have st: "gs_supported glo_state" "gs_ready glo_state" "pr_state glo_run = glo_state" by (simp_all add: glo_state_def glo_run_def)
  have dd: "deduplicate_and_sort [(k, j)] = [(k, j)]" by (simp add: deduplicate_and_sort_def)
  have clean: "json_value (lit ''data'') (obj_of_json (?data [j])) = Inr (?data [j])"
    using glo_json_clean [of "[j]"] r(2) json_value_obj by simp
  have "\<exists>e. bound_global (gs_workspace glo_state) [glo_state] ?data [j] 0 m = Inr (Success e) \<and> se_data e = ?data [j]"
    using base clean by (simp add: bound_global_def m_def make_success_def Let_def)
  then have "\<exists>e. global_find_symbol nav_lib glo_uri_path [glo_run] (NPText (lit ''/f'')) False False False 1 m = Inr (Success e) \<and> se_data e = ?data [j]"
    using p pos w st dd glo_searched [OF r(1)] by (simp add: global_find_symbol_def MAX_CANDIDATES_PER_ADAPTER_def Let_def del: lit_simps)
  then show ?thesis by blast
qed

theorem global_answer_in_program_witness:
  "\<exists>m e p w found n. global_find_symbol nav_lib glo_uri_path [glo_run] (NPText (lit ''/f'')) False False False 1 m = Inr (Success e) \<and>
     int (length (sorted_json (se_data e))) \<le> m \<and> found \<noteq> [] \<and> distinct (map (\<lambda>r. sorted_json (snd r)) (found :: global_result list)) \<and>
     0 < n \<and> se_data e = global_json p False False False (map pr_state [glo_run]) (take n (map snd found)) \<and>
     (let omitted = (\<Sum>pr\<leftarrow>[glo_run]. dropped_by glo_uri_path w p False 1 pr) + int (length found - n) in
       se_truncation e = Some \<lparr>tm_truncated = 0 < omitted, tm_omitted = omitted\<rparr>)"
proof -
  obtain m e j where e: "global_find_symbol nav_lib glo_uri_path [glo_run] (NPText (lit ''/f'')) False False False 1 m = Inr (Success e)"
    "se_data e = global_json glo_pattern False False False [glo_state] [j]" using glo_runs by blast
  obtain p w found n where f: "se_data e = global_json p False False False (map pr_state [glo_run]) (take n (map snd found))"
      "distinct (map (\<lambda>r. sorted_json (snd r)) (found :: global_result list))" "int (length (sorted_json (se_data e))) \<le> m"
      "(let omitted = (\<Sum>pr\<leftarrow>[glo_run]. dropped_by glo_uri_path w p False 1 pr) + int (length found - n) in
       se_truncation e = Some \<lparr>tm_truncated = 0 < omitted, tm_omitted = omitted\<rparr>)"
    using global_answer_in_program [OF e(1)] by (elim exE conjE) (rule that, assumption+)
  from f(1) e(2) have "take n (map snd found) = [j]" by (simp add: global_json_def)
  then have "found \<noteq> []" "0 < n" by (auto intro: Nat.gr0I)
  with e(1) f show ?thesis by blast
qed

end
