(* ===== verification/Spec2Isabelle.thy ===== *)
theory Spec2Isabelle
  imports ServiceSafety Positions Executor LspState Client OverviewRender EditedFile Diagnostics GlobalSymbols
begin

text \<open>
  Serena Light (\<open>src/src/serena_light\<close>): a daemon that shares language-server runtimes between
  coding sessions and answers symbol queries over them.

  A session holds a daemon lease, renewed by heartbeats (\<open>daemon/leases.py\<close>).  Activating a
  workspace binds the lease to a runtime of that workspace through the registry
  (\<open>workspace/registry.py\<close>), which keeps one runtime per workspace identity and counts the
  leases on it; the daemon service (\<open>daemon/service.py\<close>) combines the two and stops runtimes
  that lost their last holder.  A runtime drives each language server through a bounded
  single-worker executor (\<open>lsp/executor.py\<close>), a JSON-RPC client (\<open>lsp/client.py\<close>) and a record of
  documents and diagnostics (\<open>lsp/state.py\<close>).  Symbols come back as raw JSON and are normalised
  (\<open>lsp/normalize.py\<close>); positions are converted between the server's encoding and source
  coordinates (\<open>lsp/positions.py\<close>).  Results leave the daemon as envelopes
  (\<open>tools/envelopes.py\<close>), navigation results in a compact bounded form (\<open>tools/compact.py\<close>).
  The tools themselves read one document (\<open>tools/navigation.py\<close>, \<open>tools/declarations.py\<close>), several
  (\<open>tools/references.py\<close>, \<open>tools/global_symbols.py\<close>) or its diagnostics (\<open>tools/diagnostics.py\<close>), and one
  of them replaces the body of a symbol in the file (\<open>tools/editing.py\<close>).

  Theories, in the order of their imports:

  \<^item> \<open>Prelude\<close>: dictionaries as association lists, exceptions as values of a sum type, runs of
    operations and reachable states of a step relation, with the locales for their invariant
    principles (\<open>step_invariant\<close> and its relatives), which every stateful component interprets.
  \<^item> \<open>Registry\<close>: \<open>WorkspaceRuntimeRegistry\<close>, the state as a record, one function per method.
    Bindings keep their runtime retained with an exact reference count; prepare and discard
    undo each other; prepare and commit are activate.
  \<^item> \<open>Leases\<close>: \<open>LeaseLifecycle\<close>, one function per method; clock readings are arguments.  Holders are
    exactly the bound leases, expiry is exact to the instant, two sweeps drain an idle
    daemon.
  \<^item> \<open>Service\<close>, \<open>Coupling\<close>, \<open>ServiceSafety\<close>: the calls of the daemon service that change lease,
    registry or stop state, cut at the suspension points of the event loop and interleaved by
    a step relation.  No bound runtime is ever stopped, registry and leases agree at rest,
    activations never conflict, failed stops stay pending.
  \<^item> \<open>Utf8\<close>, \<open>Positions\<close>: the strict UTF-8 codec, the line table of a snapshot, conversion of LSP
    positions, text offsets and byte offsets in the three encodings, with round trips.
  \<^item> \<open>PyText\<close>, \<open>Json\<close>: decimal numbers, the printer of \<open>json.dumps\<close> and the parser of \<open>json.loads\<close>
    (a recursive descent with the length of the input as fuel, proved sufficient), printing
    then parsing is the identity.
  \<^item> \<open>Executor\<close>: \<open>EditCommit\<close> and \<open>BoundedLspExecutor\<close>.  The client calls, the worker thread and the
    closing thread are slices between accesses to the shared queue, lock and futures.  The
    queue stays in its bound, every schedule refines a first-in first-out executor, and a
    close ends with every future settled.
  \<^item> \<open>LspState\<close>: \<open>LspState\<close>, one function per method; diagnostics follow the document's own life.
  \<^item> \<open>Framing\<close>, \<open>Client\<close>: message framing over a stream that returns arbitrary chunks, and the
    request lifecycle of callers, reader and failing threads as a step relation.
  \<^item> \<open>Normalize\<close>: document symbols with their name paths and the narrowest containing symbol.
  \<^item> \<open>Envelopes\<close>: metadata, envelopes, conversions of failures and the two schemas.
  \<^item> \<open>Compact\<close>, \<open>CompactRender\<close>, \<open>OverviewRender\<close>: compact records, their canonical order and
    grouping by file; the loops that drop trailing records or overview nodes until the text
    fits, and the error that names the smallest sufficient budget.
  \<^item> \<open>Navigation\<close>: name-path patterns, \<open>find_symbol\<close> and the overview over loaded documents; the
    name path shown for a symbol finds that symbol.
  \<^item> \<open>Editing\<close>, \<open>EditedFile\<close>: \<open>replace_symbol_body\<close> with the answers of the operating system as
    arguments.  A new file is renamed into place only over the content that was checked, the
    answer tells whether that happened, and the installed bytes are the old text with the
    symbol's range replaced.
  \<^item> \<open>References\<close>: reference queries; the answer has no repetition and no loss, loads each file once,
    and is the longest prefix that fits; the window of a snippet.
  \<^item> \<open>Declarations\<close>: capabilities, declarations and implementations; a bare name shared by several
    symbols is ambiguous, every implementation is shown or counted.
  \<^item> \<open>Diagnostics\<close>: file and symbol diagnostics over the publications of \<open>LspState\<close>; only a current
    publication is answered from; the empty group that can push an answer over its bound.
  \<^item> \<open>GlobalSymbols\<close>: lookup over the configured programs of all providers; every result lies in
    a program file, was confirmed in its document, and no provider changed meanwhile.

  Texts are lists of code points, byte strings lists of numbers below 256, integers are
  unbounded as in the source language.  Loops are structural recursions or functions with a
  proved measure (the pruning loop: the number of remaining nodes; the stream loops: the bytes
  still to come).  Where a loop waits on other threads the model is a step relation and its
  end is proved as a bound on the number of steps.

  Parameters that stand for code outside the source: runtime factories and identifiers in the
  registry, the chunking of a stream and the JSON library's handling of bodies that are not
  plain UTF-8, SHA-256, the adapter's callables and the URL parser used by normalisation, the
  regular-expression library and the digit test of the tools, the providers that load
  documents, references, diagnostics and workspace symbols, and for edits the authoriser and
  the answers of the file system, one per call.

  Not modelled: the language-server adapters beyond their capability records and the workspace
  runtime that owns them, the socket server, connector and command line (process, socket and
  file I/O around the modelled parts), cancellation of request tasks inside the event loop, and the
  evaluation scripts under \<open>src/scripts\<close>, which are not part of the daemon.
\<close>

end
